(* ===== verification/Prelude.thy ===== *)
theory Prelude
  imports Main "HOL-Library.Word" "HOL-Library.Sublist"
begin

text \<open>
  Shared vocabulary of the development: C strings and the parts of the C library the sources
  use on them, the collections of rewrite rules, and generic lemmas on lists and bytes.

  A C string is a HOL \<open>string\<close> without its terminating NUL; a pointer into a string is
  either an index or the suffix (for a walk to the right) or the reversed prefix (for a walk
  to the left) that starts at it. \<open>char\<close> is the 8-bit byte; \<open>of_char\<close> reads it unsigned.
  \<open>snpf n s\<close> is the string that a bounded print of the text \<open>s\<close> leaves in an \<open>n\<close>-byte buffer.
\<close>

named_theorems cstring_simps \<open>evaluation of the C string library on the model\<close>
named_theorems fold_case_simps \<open>rules for upper-cased strings\<close>

section \<open>Bytes and characters\<close>

abbreviation NUL :: char where
  "NUL \<equiv> CHR 0x00"

abbreviation CR :: char where
  "CR \<equiv> CHR 0x0D"

abbreviation LF :: char where
  "LF \<equiv> CHR 0x0A"

type_synonym byte = "8 word"

definition code :: "char \<Rightarrow> nat" where
  "code c = of_char c"

definition byte_of :: "char \<Rightarrow> byte" where
  "byte_of c = of_nat (code c)"

definition char_of_byte :: "byte \<Rightarrow> char" where
  "char_of_byte b = char_of (unat b)"

text \<open>\<open>toupper\<close> and \<open>isdigit\<close> of the C locale.\<close>

definition toupper :: "char \<Rightarrow> char" where
  "toupper c = (if 97 \<le> code c \<and> code c \<le> 122 then char_of (code c - 32) else c)"

definition isdigit :: "char \<Rightarrow> bool" where
  "isdigit c \<longleftrightarrow> 48 \<le> code c \<and> code c \<le> 57"

section \<open>The C string library\<close>

text \<open>
  \<open>at s i\<close> is \<open>s[i]\<close>, with the NUL at \<open>i = strlen(s)\<close>. \<open>strchr\<close> and \<open>strstr\<close> return the
  index of the first hit; as in C, \<open>strchr(s, 0)\<close> finds the terminator.
\<close>

definition at :: "string \<Rightarrow> nat \<Rightarrow> char" where
  "at s i = (if i < length s then s ! i else NUL)"

fun find_char :: "char \<Rightarrow> string \<Rightarrow> nat option" where
  "find_char c [] = None"
| "find_char c (x # xs) = (if x = c then Some 0 else map_option Suc (find_char c xs))"

definition strchr :: "string \<Rightarrow> char \<Rightarrow> nat option" where
  "strchr s c = (if c = NUL then Some (length s) else find_char c s)"

fun strstr :: "string \<Rightarrow> string \<Rightarrow> nat option" where
  "strstr [] p = (if p = [] then Some 0 else None)"
| "strstr (x # xs) p = (if prefix p (x # xs) then Some 0 else map_option Suc (strstr xs p))"

text \<open>The C string held by a memory buffer: the bytes in front of the first NUL.\<close>

definition cstr :: "char list \<Rightarrow> string" where
  "cstr buf = takeWhile (\<lambda>c. c \<noteq> NUL) buf"

definition snpf :: "nat \<Rightarrow> string \<Rightarrow> string" where
  "snpf n s = take (n - 1) s"

text \<open>\<open>atoi\<close>: white space, an optional sign, then digits; the value is not bounded here.\<close>

fun digits_val :: "nat \<Rightarrow> string \<Rightarrow> nat" where
  "digits_val acc [] = acc"
| "digits_val acc (c # cs) =
     (if isdigit c then digits_val (10 * acc + (code c - 48)) cs else acc)"

definition isspace :: "char \<Rightarrow> bool" where
  "isspace c \<longleftrightarrow> code c = 32 \<or> (9 \<le> code c \<and> code c \<le> 13)"

definition atoi :: "string \<Rightarrow> int" where
  "atoi s =
     (let t = dropWhile isspace s in
      case t of
        [] \<Rightarrow> 0
      | c # r \<Rightarrow> (if c = CHR ''-'' then - int (digits_val 0 r)
                  else if c = CHR ''+'' then int (digits_val 0 r)
                  else int (digits_val 0 t)))"

text \<open>A string has no NUL inside: every value of the model's C strings satisfies this.\<close>

definition no_nul :: "string \<Rightarrow> bool" where
  "no_nul s \<longleftrightarrow> NUL \<notin> set s"

section \<open>Generic lemmas\<close>

lemma code_less [simp]: "code c < 256"
  by (simp add: code_def)

lemma char_of_code [simp]: "char_of (code c) = c"
  by (simp add: code_def)

lemma code_char_of: "n < 256 \<Longrightarrow> code (char_of n) = n"
  by (simp add: code_def)

lemma code_inject [simp]: "code a = code b \<longleftrightarrow> a = b"
  by (simp add: code_def)

lemma byte_of_char_of_byte [simp]: "byte_of (char_of_byte b) = b"
proof -
  have "unat b < 256" using unsigned_less [of b, where 'a = nat] by simp
  then show ?thesis
    by (simp add: byte_of_def char_of_byte_def code_char_of)
qed

lemma char_of_byte_byte_of [simp]: "char_of_byte (byte_of c) = c"
  by (simp add: byte_of_def char_of_byte_def unat_of_nat)

lemma byte_of_eq_0 [simp]: "byte_of c = 0 \<longleftrightarrow> c = NUL"
proof
  assume "byte_of c = 0"
  then have "char_of_byte (byte_of c) = char_of_byte 0" by (rule arg_cong)
  also have "char_of_byte 0 = NUL" by (simp add: char_of_byte_def char_of_def)
  finally show "c = NUL" unfolding char_of_byte_byte_of .
qed (simp add: byte_of_def code_def)

lemma find_char_None: "find_char c s = None \<longleftrightarrow> c \<notin> set s"
  by (induction s) auto

lemma find_char_SomeD:
  "find_char c s = Some i \<Longrightarrow> i < length s \<and> s ! i = c \<and> c \<notin> set (take i s)"
proof (induction s arbitrary: i)
  case (Cons x xs)
  then show ?case by (auto split: if_splits)
qed simp

lemma find_char_append:
  "c \<notin> set xs \<Longrightarrow> find_char c (xs @ ys) = map_option (\<lambda>i. length xs + i) (find_char c ys)"
proof (induction xs)
  case Nil
  show ?case by (simp add: option.map_ident)
next
  case (Cons x xs)
  then show ?case by (auto simp: option.map_comp comp_def)
qed

lemma find_char_split [simp]: "c \<notin> set xs \<Longrightarrow> find_char c (xs @ c # ys) = Some (length xs)"
  by (simp add: find_char_append)

lemma strchr_None: "strchr s c = None \<longleftrightarrow> c \<noteq> NUL \<and> c \<notin> set s"
  by (simp add: strchr_def find_char_None)

lemma strchr_split [simp]:
  "c \<noteq> NUL \<Longrightarrow> c \<notin> set xs \<Longrightarrow> strchr (xs @ c # ys) c = Some (length xs)"
  by (simp add: strchr_def)

lemma strstr_0 [simp]: "strstr s p = Some 0 \<longleftrightarrow> prefix p s"
  by (cases s) (auto split: option.splits)

lemma strstr_SomeD: "strstr s p = Some i \<Longrightarrow> i \<le> length s \<and> prefix p (drop i s)"
proof (induction s arbitrary: i)
  case (Cons x xs)
  then show ?case by (auto split: if_splits)
qed (auto split: if_splits)

lemma strstr_least: "strstr s p = Some i \<Longrightarrow> j < i \<Longrightarrow> \<not> prefix p (drop j s)"
proof (induction s arbitrary: i j)
  case (Cons x xs)
  then show ?case by (cases j) (auto split: if_splits)
qed (auto split: if_splits)

lemma strstr_None: "strstr s p = None \<longleftrightarrow> (\<forall>i. i \<le> length s \<longrightarrow> \<not> prefix p (drop i s))"
proof (induction s)
  case Nil
  show ?case by simp
next
  case (Cons x xs)
  have "(\<forall>i. i \<le> length (x # xs) \<longrightarrow> \<not> prefix p (drop i (x # xs))) \<longleftrightarrow>
      \<not> prefix p (x # xs) \<and> (\<forall>i. i \<le> length xs \<longrightarrow> \<not> prefix p (drop i xs))"
    (is "?L \<longleftrightarrow> ?R")
  proof
    assume L: ?L
    have "\<not> prefix p (drop i xs)" if "i \<le> length xs" for i
      using L [rule_format, of "Suc i"] that by simp
    then show ?R using L [rule_format, of 0] by simp
  next
    assume R: ?R
    show ?L
    proof (intro allI impI)
      fix i assume "i \<le> length (x # xs)"
      then show "\<not> prefix p (drop i (x # xs))" using R by (cases i) auto
    qed
  qed
  then show ?case using Cons by simp
qed

lemma prefix_same_length: "length a = length b \<Longrightarrow> prefix b a \<longleftrightarrow> a = b"
  by (auto simp: prefix_def)

lemma cstr_no_nul [simp]: "no_nul s \<Longrightarrow> cstr s = s"
  by (auto simp: cstr_def no_nul_def takeWhile_eq_all_conv)

lemma cstr_append_nul [simp]: "no_nul s \<Longrightarrow> cstr (s @ NUL # t) = s"
  by (induction s) (auto simp: cstr_def no_nul_def)

lemma no_nul_cstr [simp]: "no_nul (cstr b)"
  unfolding no_nul_def cstr_def by (metis (mono_tags, lifting) set_takeWhileD)

lemma no_nul_simps [simp]:
  "no_nul []"
  "no_nul (x # xs) \<longleftrightarrow> x \<noteq> NUL \<and> no_nul xs"
  "no_nul (xs @ ys) \<longleftrightarrow> no_nul xs \<and> no_nul ys"
  by (auto simp: no_nul_def)

lemma no_nul_take [simp]: "no_nul s \<Longrightarrow> no_nul (take n s)"
  using set_take_subset by (fastforce simp: no_nul_def)

lemma no_nul_drop [simp]: "no_nul s \<Longrightarrow> no_nul (drop n s)"
  using set_drop_subset by (fastforce simp: no_nul_def)

lemma snpf_short [simp]: "length s < n \<Longrightarrow> snpf n s = s"
  by (simp add: snpf_def)

lemma length_snpf: "0 < n \<Longrightarrow> length (snpf n s) < n"
  by (simp add: snpf_def)

lemma no_nul_snpf [simp]: "no_nul s \<Longrightarrow> no_nul (snpf n s)"
  by (simp add: snpf_def)

lemma code_toupper:
  "code (toupper c) = (if 97 \<le> code c \<and> code c \<le> 122 then code c - 32 else code c)"
proof (cases "97 \<le> code c \<and> code c \<le> 122")
  case True
  then have "code c - 32 < 256" by linarith
  with True show ?thesis by (simp add: toupper_def code_char_of)
qed (auto simp: toupper_def)

lemma toupper_idem [simp]: "toupper (toupper c) = toupper c"
  unfolding code_inject [symmetric] code_toupper by auto

lemma code_eq_0 [simp]: "code c = 0 \<longleftrightarrow> c = NUL"
proof -
  have "code NUL = 0" by (simp add: code_def)
  then show ?thesis using code_inject [of c NUL] by simp
qed

lemma toupper_eq_NUL [simp]: "toupper c = NUL \<longleftrightarrow> c = NUL"
  unfolding code_eq_0 [symmetric] code_toupper by (auto simp del: code_eq_0)

section \<open>Lists looked up by a key\<close>

text \<open>
  The channels of a user, the users of a channel and the node tables of the bouncer are lists in
  which the first element with a given key is found. The lookups share this contract.
\<close>

locale keyed_list =
  fixes lookup :: "'k \<Rightarrow> 'a list \<Rightarrow> nat option"
    and key :: "'a \<Rightarrow> 'k"
  assumes lookup_Nil: "lookup k [] = None"
    and lookup_Cons: "lookup k (x # xs) = (if key x = k then Some 0 else map_option Suc (lookup k xs))"
begin

lemma lookup_None: "lookup k xs = None \<longleftrightarrow> k \<notin> key ` set xs"
  by (induction xs) (auto simp: lookup_Nil lookup_Cons)

lemma lookup_SomeD: "lookup k xs = Some i \<Longrightarrow> i < length xs \<and> key (xs ! i) = k"
proof (induction xs arbitrary: i)
  case (Cons x xs)
  then show ?case by (auto simp: lookup_Cons split: if_splits)
qed (simp add: lookup_Nil)

lemma lookup_snoc:
  "lookup k (xs @ [x]) =
     (case lookup k xs of Some i \<Rightarrow> Some i | None \<Rightarrow> if key x = k then Some (length xs) else None)"
  by (induction xs) (auto simp: lookup_Nil lookup_Cons split: option.splits)

lemma lookup_update: "i < length xs \<Longrightarrow> key x = key (xs ! i) \<Longrightarrow> lookup k (xs[i := x]) = lookup k xs"
proof (induction xs arbitrary: i)
  case (Cons y ys)
  then show ?case by (cases i) (auto simp: lookup_Cons)
qed simp

lemma lookup_nth: "distinct (map key xs) \<Longrightarrow> i < length xs \<Longrightarrow> lookup (key (xs ! i)) xs = Some i"
proof (induction xs arbitrary: i)
  case (Cons y ys)
  then show ?case by (cases i) (auto simp: lookup_Cons)
qed simp

lemma distinct_snoc: "distinct (map key xs) \<Longrightarrow> lookup (key x) xs = None \<Longrightarrow> distinct (map key (xs @ [x]))"
  by (auto simp: lookup_None)

lemma lookup_remove:
  "distinct (map key xs) \<Longrightarrow> lookup k xs = Some i \<Longrightarrow>
     distinct (map key (take i xs @ drop (i + 1) xs)) \<and> k \<notin> key ` set (take i xs @ drop (i + 1) xs) \<and>
     insert (xs ! i) (set (take i xs @ drop (i + 1) xs)) = set xs"
proof (induction xs arbitrary: i)
  case (Cons y ys)
  show ?case
  proof (cases "key y = k")
    case False
    with Cons.prems obtain j where "lookup k ys = Some j" "i = Suc j" by (auto simp: lookup_Cons)
    with Cons.IH [of j] Cons.prems False show ?thesis by auto
  qed (use Cons.prems in \<open>auto simp: lookup_Cons\<close>)
qed (simp add: lookup_Nil)

end

end
