(* ===== verification/Glob.thy ===== *)
theory Glob
  imports Prelude
begin

text \<open>
  The reference meaning of a mask with the wildcards \<open>*\<close> (any run of characters) and
  \<open>?\<close> (one character). It is the specification against which the two matchers of the
  program, \<open>strmwildcmp\<close> of p_string.c and \<open>wild_match\<close> of match.c, are judged.
\<close>

abbreviation star :: char where
  "star \<equiv> CHR ''*''"

abbreviation quest :: char where
  "quest \<equiv> CHR ''?''"

fun glob :: "string \<Rightarrow> string \<Rightarrow> bool" where
  "glob [] s \<longleftrightarrow> s = []"
| "glob (x # p) [] \<longleftrightarrow> x = star \<and> glob p []"
| "glob (x # p) (c # s) \<longleftrightarrow>
     (if x = star then glob p (c # s) \<or> glob (x # p) s
      else if x = quest then glob p s
      else x = c \<and> glob p s)"

lemma glob_star: "glob (star # p) s \<longleftrightarrow> (\<exists>k. k \<le> length s \<and> glob p (drop k s))"
proof (induction s)
  case Nil
  show ?case by simp
next
  case (Cons c s)
  have "(\<exists>k. k \<le> length (c # s) \<and> glob p (drop k (c # s))) \<longleftrightarrow>
      glob p (c # s) \<or> (\<exists>k. k \<le> length s \<and> glob p (drop k s))" (is "?L \<longleftrightarrow> ?R")
  proof
    assume ?L
    then obtain k where k: "k \<le> length (c # s)" "glob p (drop k (c # s))" by blast
    then show ?R by (cases k) auto
  next
    assume ?R
    then show ?L
    proof
      assume "glob p (c # s)"
      then show ?L by (intro exI [of _ 0]) simp
    next
      assume "\<exists>k. k \<le> length s \<and> glob p (drop k s)"
      then obtain k where "k \<le> length s" "glob p (drop k s)" by blast
      then show ?L by (intro exI [of _ "Suc k"]) simp
    qed
  qed
  with Cons show ?case by simp
qed

lemma glob_star_append: "glob (star # p) s \<Longrightarrow> glob (star # p) (t @ s)"
  by (induction t) auto

lemma glob_star_only [simp]: "glob [star] s"
  by (induction s) auto

text \<open>A literal segment (no wildcard) in front of a mask.\<close>

definition literal :: "string \<Rightarrow> bool" where
  "literal p \<longleftrightarrow> star \<notin> set p \<and> quest \<notin> set p"

lemma literal_simps [simp]:
  "literal []"
  "literal (x # xs) \<longleftrightarrow> x \<noteq> star \<and> x \<noteq> quest \<and> literal xs"
  "literal (xs @ ys) \<longleftrightarrow> literal xs \<and> literal ys"
  by (auto simp: literal_def)

lemma glob_literal_append:
  "literal q \<Longrightarrow> glob (q @ p) s \<longleftrightarrow> (\<exists>t. s = q @ t \<and> glob p t)"
proof (induction q arbitrary: s)
  case Nil
  show ?case by simp
next
  case (Cons x q)
  then show ?case by (cases s) auto
qed

lemma glob_literal: "literal q \<Longrightarrow> glob q s \<longleftrightarrow> s = q"
  using glob_literal_append [of q "[]" s] by simp

text \<open>Reversal: a mask read backwards matches the name read backwards.\<close>

lemma glob_append: "glob (p @ q) s \<longleftrightarrow> (\<exists>u v. s = u @ v \<and> glob p u \<and> glob q v)"
proof (induction p s rule: glob.induct)
  case (1 s)
  then show ?case by simp
next
  case (2 x p)
  then show ?case by simp
next
  case (3 x p c s)
  show ?case
  proof (cases "x = star")
    case True
    then have IH1: "glob (p @ q) (c # s) \<longleftrightarrow> (\<exists>u v. c # s = u @ v \<and> glob p u \<and> glob q v)"
      and IH2: "glob (star # p @ q) s \<longleftrightarrow> (\<exists>u v. s = u @ v \<and> glob (star # p) u \<and> glob q v)"
      using 3 by auto
    have "(\<exists>u v. c # s = u @ v \<and> glob (star # p) u \<and> glob q v) \<longleftrightarrow>
        (\<exists>u v. c # s = u @ v \<and> glob p u \<and> glob q v) \<or>
        (\<exists>u v. s = u @ v \<and> glob (star # p) u \<and> glob q v)" (is "?L \<longleftrightarrow> ?R")
    proof
      assume ?L
      then obtain u v where uv: "c # s = u @ v" "glob (star # p) u" "glob q v" by blast
      then show ?R
      proof (cases u)
        case Nil
        with uv show ?thesis by auto
      next
        case (Cons d u')
        with uv have "glob p u \<or> glob (star # p) u'" by auto
        with uv Cons show ?thesis by auto
      qed
    next
      assume ?R
      then show ?L
      proof
        assume "\<exists>u v. c # s = u @ v \<and> glob p u \<and> glob q v"
        then obtain u v where uv: "c # s = u @ v" "glob p u" "glob q v" by blast
        then have "glob (star # p) u" by (cases u) auto
        with uv show ?L by blast
      next
        assume "\<exists>u v. s = u @ v \<and> glob (star # p) u \<and> glob q v"
        then obtain u v where uv: "s = u @ v" "glob (star # p) u" "glob q v" by blast
        then have "c # s = (c # u) @ v" "glob (star # p) (c # u)" by auto
        with uv show ?L by blast
      qed
    qed
    with True IH1 IH2 show ?thesis by simp
  next
    case False
    have split: "(\<exists>u v. c # s = u @ v \<and> glob (x # p) u \<and> glob q v) \<longleftrightarrow>
        (\<exists>u v. s = u @ v \<and> glob (x # p) (c # u) \<and> glob q v)" (is "?L \<longleftrightarrow> ?R")
    proof
      assume ?L
      then obtain u v where uv: "c # s = u @ v" "glob (x # p) u" "glob q v" by blast
      with False obtain u' where "u = c # u'" by (cases u) auto
      with uv have "s = u' @ v" "glob (x # p) (c # u')" by (auto simp del: glob.simps)
      with uv(3) show ?R by blast
    next
      assume ?R
      then obtain u v where "s = u @ v" "glob (x # p) (c # u)" "glob q v" by blast
      then show ?L by (intro exI [of _ "c # u"] exI [of _ v]) auto
    qed
    show ?thesis using 3 False by (auto simp: split)
  qed
qed

lemma glob_rev: "glob (rev p) (rev s) \<longleftrightarrow> glob p s"
proof -
  have imp: "glob p s \<Longrightarrow> glob (rev p) (rev s)" for p s
  proof (induction p s rule: glob.induct)
    case (1 s)
    then show ?case by simp
  next
    case (2 x p)
    then show ?case by (auto simp: glob_append)
  next
    case (3 x p c s)
    show ?case
    proof (cases "x = star")
      case True
      have "glob (rev p) (rev (c # s)) \<or> glob (rev (x # p)) (rev s)"
        using 3 True by auto
      then show ?thesis
      proof
        assume "glob (rev p) (rev (c # s))"
        then show ?thesis
          unfolding rev.simps(2) [of x] glob_append
          using True by (intro exI [of _ "rev (c # s)"] exI [of _ "[]"]) simp
      next
        assume "glob (rev (x # p)) (rev s)"
        then obtain u v where uv: "rev s = u @ v" "glob (rev p) u" "glob [x] v"
          by (auto simp: glob_append)
        then show ?thesis
          unfolding rev.simps(2) glob_append
          using True by (intro exI [of _ u] exI [of _ "v @ [c]"]) simp
      qed
    next
      case False
      then have "glob (rev p) (rev s) \<and> glob [x] [c]" using 3 by (auto split: if_splits)
      then show ?thesis
        unfolding rev.simps(2) glob_append by blast
    qed
  qed
  show ?thesis using imp [of p s] imp [of "rev p" "rev s"] by auto
qed

end
