(* ===== verification/Strings.thy ===== *)
theory Strings
  imports Glob
begin

text \<open>
  The string helpers of src/p_string.c: bounded copy, comparison, the prefix/suffix wildcard
  compare, trimming, and the \<open>struct stringarray\<close> lists (\<open>addstring\<close>, \<open>getstring\<close>,
  \<open>removestring\<close>) in which the program keeps bans, operators and the other user lists.

  \<open>strmncpy_mem\<close> is the copy at the level of the destination's bytes, with \<open>None\<close> for a write
  outside the buffer; \<open>strmncpy\<close> is what the destination then holds as a C string. The
  comparison functions return 1 and 0 in C and \<open>True\<close> and \<open>False\<close> here. A \<open>stringarray\<close>
  is the list of its nodes' \<open>entry\<close> fields, where \<open>None\<close> is the null pointer.
\<close>

section \<open>Copying and comparing\<close>

definition ucase :: "string \<Rightarrow> string" where
  "ucase inc = map toupper inc"

definition strncpy_mem :: "char list \<Rightarrow> string \<Rightarrow> nat \<Rightarrow> char list option" where
  "strncpy_mem dest source n =
     (if n \<le> length dest
      then Some (take n source @ replicate (n - length source) NUL @ drop n dest)
      else None)"

definition strmncpy_mem :: "char list \<Rightarrow> string \<Rightarrow> nat \<Rightarrow> char list option" where
  "strmncpy_mem dest source len =
     (let last = (if len = 0 then 2 ^ 32 - 1 else len - 1) in
      case strncpy_mem dest source last of
        None \<Rightarrow> None
      | Some d \<Rightarrow>
          if length source + 1 \<ge> len
          then (if last < length d then Some (d[last := NUL]) else None)
          else Some d)"

definition strmncpy :: "string \<Rightarrow> nat \<Rightarrow> string" where
  "strmncpy source len = take (len - 1) source"

definition strmcmp :: "string \<Rightarrow> string \<Rightarrow> bool" where
  "strmcmp one two \<longleftrightarrow> length one = length two \<and> strstr one two = Some 0"

definition strmncasecmp :: "string \<Rightarrow> string \<Rightarrow> bool" where
  "strmncasecmp one two \<longleftrightarrow>
     length one = length two \<and> strstr (ucase one) (ucase two) = Some 0"

section \<open>The wildcard compare\<close>

text \<open>The loop that steps from one occurrence of the tail to the next and keeps the last one.\<close>

function last_occ :: "string \<Rightarrow> string \<Rightarrow> string option" where
  "last_occ eone pat =
     (case strstr eone pat of
        None \<Rightarrow> None
      | Some i \<Rightarrow>
          if i < length eone
          then (case last_occ (drop (Suc i) eone) pat of
                  None \<Rightarrow> Some (drop i eone)
                | Some t \<Rightarrow> Some t)
          else Some (drop i eone))"
  by pat_completeness auto
termination
  by (relation "measure (\<lambda>(s, p). length s)") auto

declare last_occ.simps [simp del]

definition next_wild :: "string \<Rightarrow> nat option" where
  "next_wild pat =
     (case strchr pat star of
        None \<Rightarrow> strchr pat quest
      | Some i \<Rightarrow>
          (case strchr pat quest of
             None \<Rightarrow> Some i
           | Some j \<Rightarrow> if j < i then Some j else Some i))"

function strmwildcmp_loop :: "string \<Rightarrow> string \<Rightarrow> bool" where
  "strmwildcmp_loop pat eone =
     (case (pat, eone) of
        ([], _) \<Rightarrow> eone = []
      | (p # ps, []) \<Rightarrow> p = star \<and> ps = []
      | (p # ps, e # es) \<Rightarrow>
          if p = star then
            (if ps = [] then True
             else case next_wild ps of
               None \<Rightarrow> (case last_occ eone ps of None \<Rightarrow> False | Some t \<Rightarrow> strmcmp t ps)
             | Some k \<Rightarrow>
                 (case strstr eone (take k ps) of
                    None \<Rightarrow> False
                  | Some i \<Rightarrow>
                      strmwildcmp_loop (drop k ps) (drop (i + length (take k ps)) eone)))
          else if p = quest then strmwildcmp_loop ps es
          else if toupper p \<noteq> toupper e then False
          else strmwildcmp_loop ps es)"
  by pat_completeness auto
termination
  by (relation "measure (\<lambda>(p, s). length p)") auto

declare strmwildcmp_loop.simps [simp del]

definition strmwildcmp :: "string \<Rightarrow> string \<Rightarrow> bool" where
  "strmwildcmp one pattern =
     strmwildcmp_loop (ucase (strmncpy pattern 1024)) (ucase (strmncpy one 2048))"

section \<open>Trimming and replacing\<close>

definition rtrim :: "string \<Rightarrow> string" where
  "rtrim totrim =
     (let smlen = min (length totrim) 4095 in
      if at totrim smlen = CHR '' '' \<or> at totrim smlen = NUL
      then rev (dropWhile (\<lambda>c. c = CHR '' '') (rev (take smlen totrim)))
      else totrim)"

definition replace :: "string \<Rightarrow> char \<Rightarrow> char \<Rightarrow> string" where
  "replace rps whatc toc = map (\<lambda>c. if c = whatc then toc else c) rps"

definition nobreak :: "string \<Rightarrow> string" where
  "nobreak tobreak =
     (let pnt = (case strchr tobreak CR of None \<Rightarrow> strchr tobreak LF | Some i \<Rightarrow> Some i) in
      rtrim (case pnt of
               None \<Rightarrow> tobreak
             | Some i \<Rightarrow> strmncpy tobreak (min (i + 1) 8191)))"

definition strmcat :: "string \<Rightarrow> string \<Rightarrow> string" where
  "strmcat first second = first @ second"

section \<open>Runtime paths\<close>

definition setruntimebase :: "string option \<Rightarrow> string \<Rightarrow> int \<times> string" where
  "setruntimebase path runtimebasedir =
     (case path of
        None \<Rightarrow> (-1, runtimebasedir)
      | Some p \<Rightarrow> if p = [] then (0, []) else (0, take 399 p))"

definition buildruntimepath :: "string \<Rightarrow> nat \<Rightarrow> string \<Rightarrow> string option" where
  "buildruntimepath runtimebasedir len path =
     (if len = 0 then None
      else let source = take 399 path in
        if runtimebasedir = [] \<or> at source 0 = CHR ''/'' \<or>
           (length source > 1 \<and> at source 1 = CHR '':'')
        then Some (take (len - 1) source)
        else Some (snpf len (runtimebasedir @ ''/'' @ source)))"

section \<open>String arrays\<close>

type_synonym stringarray = "string option list"

fun addstring :: "string \<Rightarrow> stringarray \<Rightarrow> stringarray" where
  "addstring toadd [] = [Some toadd]"
| "addstring toadd (None # th) = Some toadd # th"
| "addstring toadd (Some e # th) = Some e # addstring toadd th"

fun getstring_loop :: "int \<Rightarrow> int \<Rightarrow> stringarray \<Rightarrow> string option" where
  "getstring_loop cnt entry [] = None"
| "getstring_loop cnt entry (th # rest) =
     (if cnt = entry then map_option (\<lambda>e. strmncpy e 650) th
      else getstring_loop (cnt + 1) entry rest)"

definition getstring :: "int \<Rightarrow> stringarray \<Rightarrow> string option" where
  "getstring entry ltm = getstring_loop 0 entry ltm"

fun removestring_loop :: "int \<Rightarrow> int \<Rightarrow> stringarray \<Rightarrow> stringarray" where
  "removestring_loop cnt entry [] = []"
| "removestring_loop cnt entry (th # rest) =
     (if cnt = entry then rest else th # removestring_loop (cnt + 1) entry rest)"

definition removestring :: "int \<Rightarrow> stringarray \<Rightarrow> stringarray" where
  "removestring entry ltm = removestring_loop 0 entry ltm"

section \<open>Copying and comparing: correctness\<close>

lemma length_ucase [simp]: "length (ucase s) = length s"
  by (simp add: ucase_def)

lemma ucase_idem [simp]: "ucase (ucase s) = ucase s"
  by (simp add: ucase_def)

lemma ucase_append [simp]: "ucase (a @ b) = ucase a @ ucase b"
  by (simp add: ucase_def)

lemma ucase_Cons [simp]: "ucase (c # s) = toupper c # ucase s"
  by (simp add: ucase_def)

lemma ucase_Nil [simp]: "ucase s = [] \<longleftrightarrow> s = []" "ucase [] = []"
  by (auto simp: ucase_def)

lemma ucase_take: "ucase (take n s) = take n (ucase s)"
  by (simp add: ucase_def take_map)

lemma ucase_fixed_drop: "ucase s = s \<Longrightarrow> ucase (drop n s) = drop n s"
  by (metis append_take_drop_id drop_map ucase_def)

lemma ucase_fixed_Cons: "ucase (c # s) = c # s \<longleftrightarrow> toupper c = c \<and> ucase s = s"
  by simp

lemma length_strmncpy: "0 < len \<Longrightarrow> length (strmncpy s len) < len"
  by (simp add: strmncpy_def)

lemma strmncpy_fits [simp]: "length s < len \<Longrightarrow> strmncpy s len = s"
  by (simp add: strmncpy_def)

lemma no_nul_strmncpy [simp]: "no_nul s \<Longrightarrow> no_nul (strmncpy s len)"
  by (simp add: strmncpy_def)

lemma strmcmp_iff [simp]: "strmcmp one two \<longleftrightarrow> one = two"
  by (auto simp: strmcmp_def prefix_same_length)

lemma strmncasecmp_iff [simp]: "strmncasecmp one two \<longleftrightarrow> ucase one = ucase two"
proof -
  have "ucase one = ucase two \<Longrightarrow> length one = length two"
    by (drule arg_cong [of _ _ length]) simp
  then show ?thesis by (auto simp: strmncasecmp_def prefix_same_length)
qed

lemma cstr_take_nul: "no_nul s \<Longrightarrow> cstr (take n s @ NUL # t) = take n s"
  by simp

text \<open>
  A bounded copy whose length argument is at most the size of the destination never
  writes outside it, leaves the bytes behind its window alone, and leaves the destination
  holding the source cut to \<open>len - 1\<close> characters and terminated.
\<close>

theorem strmncpy_mem_refines:
  assumes "0 < len" and "len \<le> length dest" and "no_nul source"
  shows "\<exists>d. strmncpy_mem dest source len = Some d \<and> length d = length dest \<and>
           cstr d = strmncpy source len \<and> drop len d = drop len dest"
proof -
  define n where "n = len - 1"
  have n: "len = Suc n" "n < length dest" using assms(1,2) by (auto simp: n_def)
  let ?d = "take n source @ replicate (n - length source) NUL @ drop n dest"
  have d: "strncpy_mem dest source n = Some ?d" using n by (simp add: strncpy_mem_def)
  show ?thesis
  proof (cases "length source + 1 \<ge> len")
    case True
    then have ge: "n \<le> length source" using n by simp
    have "drop n dest = dest ! n # drop (Suc n) dest"
      using n by (simp add: Cons_nth_drop_Suc)
    then have "?d[n := NUL] = take n source @ NUL # drop (Suc n) dest"
      using ge by (simp add: list_update_append)
    then have "strmncpy_mem dest source len = Some (take n source @ NUL # drop (Suc n) dest)"
      using True ge n d by (simp add: strmncpy_mem_def)
    moreover have "cstr (take n source @ NUL # drop (Suc n) dest) = take n source"
      using assms(3) by simp
    ultimately show ?thesis using n ge by (auto simp: strmncpy_def)
  next
    case False
    then have lt: "length source < n" using n by simp
    then obtain k where k: "n - length source = Suc k"
      by (cases "n - length source") auto
    have "cstr ?d = source" using k assms(3) lt by simp
    moreover have "strmncpy_mem dest source len = Some ?d"
      using False n(1) d by (simp add: strmncpy_mem_def)
    moreover have "length ?d = length dest" "drop len ?d = drop len dest"
      using n lt by simp_all
    ultimately show ?thesis using lt n(1) by (auto simp: strmncpy_def)
  qed
qed

theorem strmncpy_mem_refines_witness:
  "\<exists>d. strmncpy_mem ''........'' ''psybnc'' 4 = Some d \<and> length d = 8 \<and>
     cstr d = ''psy'' \<and> drop 4 d = ''....''"
  using strmncpy_mem_refines [of 4 "''........''" "''psybnc''"]
  by (simp add: strmncpy_def eval_nat_numeral)

section \<open>The wildcard compare: correctness\<close>

lemma last_occ_props:
  assumes "pat \<noteq> []"
  shows "(last_occ s pat = None \<longleftrightarrow> strstr s pat = None) \<and>
    (\<forall>t. last_occ s pat = Some t \<longrightarrow> (\<exists>i. i \<le> length s \<and> t = drop i s \<and> prefix pat t \<and>
       (\<forall>j. i < j \<longrightarrow> \<not> prefix pat (drop j s))))"
proof (induction "length s" arbitrary: s rule: less_induct)
  case less
  show ?case
  proof (cases "strstr s pat")
    case None
    then show ?thesis by (simp add: last_occ.simps [of s])
  next
    case (Some i)
    then have pre: "prefix pat (drop i s)" by (auto dest: strstr_SomeD)
    then have i: "i < length s" using assms by (cases "i < length s") auto
    let ?r = "drop (Suc i) s"
    have IH: "(last_occ ?r pat = None \<longleftrightarrow> strstr ?r pat = None) \<and>
      (\<forall>t. last_occ ?r pat = Some t \<longrightarrow> (\<exists>i. i \<le> length ?r \<and> t = drop i ?r \<and> prefix pat t \<and>
         (\<forall>j. i < j \<longrightarrow> \<not> prefix pat (drop j ?r))))"
      by (rule less) (use i in simp)
    show ?thesis
    proof (cases "last_occ ?r pat")
      case None
      have later: "\<not> prefix pat (drop j s)" if "i < j" for j
      proof (cases "j \<le> length s")
        case True
        from None IH have "strstr ?r pat = None" by simp
        moreover have "j - Suc i \<le> length ?r" "drop (j - Suc i) ?r = drop j s"
          using that True by simp_all
        ultimately show ?thesis unfolding strstr_None by metis
      qed (use assms in simp)
      have "last_occ s pat = Some (drop i s)"
        using Some None i by (simp add: last_occ.simps [of s])
      moreover have "i \<le> length s" using i by simp
      ultimately show ?thesis using Some later pre by (metis option.distinct(1) option.inject)
    next
      case (Some t)
      have eq: "last_occ s pat = Some t"
        using Some i \<open>strstr s pat = Some i\<close> by (simp add: last_occ.simps [of s])
      from Some IH obtain k where k: "k \<le> length ?r" "t = drop k ?r" "prefix pat t"
        "\<And>j. k < j \<Longrightarrow> \<not> prefix pat (drop j ?r)" by blast
      have later: "\<not> prefix pat (drop j s)" if "Suc i + k < j" for j
        using k(4) [of "j - Suc i"] that by simp
      have "Suc i + k \<le> length s \<and> t = drop (Suc i + k) s"
        using k i by (simp add: add.commute)
      with eq later k(3) \<open>strstr s pat = Some i\<close> show ?thesis by auto
    qed
  qed
qed

lemma last_occ_suffix:
  assumes "pat \<noteq> []"
  shows "last_occ s pat = Some pat \<longleftrightarrow> (\<exists>k. k \<le> length s \<and> drop k s = pat)"
proof
  assume "last_occ s pat = Some pat"
  with last_occ_props [OF assms, of s] show "\<exists>k. k \<le> length s \<and> drop k s = pat" by metis
next
  assume "\<exists>k. k \<le> length s \<and> drop k s = pat"
  then obtain k where k: "k \<le> length s" "drop k s = pat" by blast
  then have "strstr s pat \<noteq> None" by (auto simp: strstr_None)
  then obtain t i where t: "last_occ s pat = Some t" "i \<le> length s" "t = drop i s"
    "prefix pat t" "\<And>j. i < j \<Longrightarrow> \<not> prefix pat (drop j s)"
    using last_occ_props [OF assms, of s] by (metis not_None_eq)
  have "k \<le> i" using t(5) [of k] k(2) by (metis linorder_not_less prefix_order.refl)
  moreover have "length pat \<le> length t" using t(4) by (rule prefix_length_le)
  ultimately have "i = k" using t(2,3) k by auto
  then have "t = pat" using t(3) k(2) by simp
  with t(1) show "last_occ s pat = Some pat" by simp
qed

lemma next_wild_None: "next_wild pat = None \<longleftrightarrow> literal pat"
proof (cases "find_char star pat")
  case None
  then have "star \<notin> set pat" by (simp add: find_char_None)
  moreover have "next_wild pat = find_char quest pat"
    using None by (simp add: next_wild_def strchr_def)
  ultimately show ?thesis by (simp add: literal_def find_char_None)
next
  case (Some i)
  then have "star \<in> set pat" using find_char_SomeD [OF Some] by (metis nth_mem)
  with Some show ?thesis
    by (cases "find_char quest pat") (auto simp: next_wild_def strchr_def literal_def)
qed

lemma next_wild_Some:
  assumes "next_wild pat = Some k"
  shows "k < length pat \<and> literal (take k pat) \<and> pat ! k \<in> {star, quest}"
proof -
  have sub: "c \<notin> set (take i pat) \<Longrightarrow> j \<le> i \<Longrightarrow> c \<notin> set (take j pat)" for c i j
    using set_take_subset_set_take [of j i pat] by blast
  show ?thesis
  proof (cases "find_char star pat")
    case None
    then have "star \<notin> set pat" by (simp add: find_char_None)
    then have "star \<notin> set (take k pat)" by (meson in_set_takeD)
    moreover have "find_char quest pat = Some k"
      using None assms by (simp add: next_wild_def strchr_def)
    ultimately show ?thesis
      by (auto simp: literal_def dest: find_char_SomeD)
  next
    case (Some i)
    note s = find_char_SomeD [OF Some]
    show ?thesis
    proof (cases "find_char quest pat")
      case None
      then have "quest \<notin> set (take i pat)" by (auto simp: find_char_None dest: in_set_takeD)
      with None Some s assms show ?thesis
        by (auto simp: next_wild_def strchr_def literal_def)
    next
      case (Some j)
      note q = find_char_SomeD [OF Some]
      have "i \<noteq> j" using s q by auto
      with Some \<open>find_char star pat = Some i\<close> s q sub [of star i j] sub [of quest j i] assms
      show ?thesis
        by (auto simp: next_wild_def strchr_def literal_def split: if_splits)
    qed
  qed
qed

lemma strstr_glob:
  assumes "literal seg" and "strstr s seg = Some i"
  shows "glob (star # seg @ star # r) s \<longleftrightarrow> glob (star # r) (drop (i + length seg) s)"
proof
  assume "glob (star # seg @ star # r) s"
  then obtain k t where k: "k \<le> length s" "drop k s = seg @ t" "glob (star # r) t"
    using glob_literal_append [OF assms(1)] by (auto simp: glob_star)
  then have "prefix seg (drop k s)" by simp
  then have "i \<le> k" using strstr_least [OF assms(2), of k] by (meson linorder_not_less)
  have t: "t = drop (k + length seg) s"
    using k(2) by (metis add.commute append_eq_conv_conj drop_drop)
  have "drop (k - i) (drop (i + length seg) s) = t"
    using t \<open>i \<le> k\<close> by simp
  then have "drop (i + length seg) s = take (k - i) (drop (i + length seg) s) @ t"
    using append_take_drop_id [of "k - i" "drop (i + length seg) s"] by simp
  then show "glob (star # r) (drop (i + length seg) s)"
    using glob_star_append [OF k(3), of "take (k - i) (drop (i + length seg) s)"] by (rule ssubst)
next
  assume g: "glob (star # r) (drop (i + length seg) s)"
  from strstr_SomeD [OF assms(2)] have i: "i \<le> length s" "prefix seg (drop i s)" by auto
  then obtain t where t: "drop i s = seg @ t" by (auto simp: prefix_def)
  then have "t = drop (i + length seg) s"
    by (metis add.commute append_eq_conv_conj drop_drop)
  with t g have "glob (seg @ star # r) (drop i s)"
    using glob_literal_append [OF assms(1)] by auto
  with i(1) have "\<exists>k. k \<le> length s \<and> glob (seg @ star # r) (drop k s)" by blast
  then show "glob (star # seg @ star # r) s" by (simp only: glob_star)
qed

fun no_star_star :: "string \<Rightarrow> bool" where
  "no_star_star (x # y # r) \<longleftrightarrow> \<not> (x = star \<and> y = star) \<and> no_star_star (y # r)"
| "no_star_star _ \<longleftrightarrow> True"

lemma no_star_star_drop: "no_star_star p \<Longrightarrow> no_star_star (drop k p)"
proof (induction p arbitrary: k rule: no_star_star.induct)
  case (1 x y r)
  then show ?case by (cases k) auto
qed (auto simp: drop_Cons split: nat.splits)

lemma glob_star_Nil: "no_star_star (star # r) \<Longrightarrow> glob (star # r) [] \<longleftrightarrow> r = []"
  by (cases r) auto

text \<open>The loop, one equation per branch.\<close>

lemma strmwildcmp_loop_Nil: "strmwildcmp_loop [] s \<longleftrightarrow> s = []"
  by (simp add: strmwildcmp_loop.simps [of "[]"])

lemma strmwildcmp_loop_end: "strmwildcmp_loop (p # ps) [] \<longleftrightarrow> p = star \<and> ps = []"
  by (simp add: strmwildcmp_loop.simps [of "p # ps"])

lemma strmwildcmp_loop_tail:
  "ps \<noteq> [] \<Longrightarrow> literal ps \<Longrightarrow> s \<noteq> [] \<Longrightarrow>
   strmwildcmp_loop (star # ps) s \<longleftrightarrow> last_occ s ps = Some ps"
  by (cases s)
    (auto simp: strmwildcmp_loop.simps [of "star # ps"] next_wild_None [symmetric]
          split: option.splits)

lemma strmwildcmp_loop_star: "s \<noteq> [] \<Longrightarrow> strmwildcmp_loop [star] s"
  by (cases s) (auto simp: strmwildcmp_loop.simps [of "[star]"])

lemma strmwildcmp_loop_segment:
  "next_wild ps = Some k \<Longrightarrow> s \<noteq> [] \<Longrightarrow>
   strmwildcmp_loop (star # ps) s \<longleftrightarrow>
     (\<exists>i. strstr s (take k ps) = Some i \<and>
          strmwildcmp_loop (drop k ps) (drop (i + length (take k ps)) s))"
  by (cases s)
    (auto simp: strmwildcmp_loop.simps [of "star # ps"] next_wild_def strchr_def
          split: option.splits)

lemma strmwildcmp_loop_char:
  "x \<noteq> star \<Longrightarrow> strmwildcmp_loop (x # ps) (e # es) \<longleftrightarrow>
     (x = quest \<or> toupper x = toupper e) \<and> strmwildcmp_loop ps es"
  by (simp add: strmwildcmp_loop.simps [of "x # ps"])

lemmas strmwildcmp_loop_eqs =
  strmwildcmp_loop_Nil strmwildcmp_loop_end strmwildcmp_loop_tail strmwildcmp_loop_star
  strmwildcmp_loop_segment strmwildcmp_loop_char

lemma strmwildcmp_loop_sound:
  "strmwildcmp_loop p s \<Longrightarrow> ucase p = p \<Longrightarrow> ucase s = s \<Longrightarrow> glob p s"
proof (induction "length p" arbitrary: p s rule: less_induct)
  case less
  show ?case
  proof (cases p)
    case Nil
    with less show ?thesis by (simp add: strmwildcmp_loop_Nil)
  next
    case (Cons x ps)
    note p = this
    consider (empty) "s = []" | (star) "x = star" "s \<noteq> []" | (char) e es where "x \<noteq> star" "s = e # es"
      by (cases s) auto
    then show ?thesis
    proof cases
      case empty
      with less(2) p show ?thesis by (simp add: strmwildcmp_loop_end)
    next
      case char
      with less p show ?thesis by (auto simp: strmwildcmp_loop_char)
    next
      case star
      show ?thesis
      proof (cases "next_wild ps")
        case None
        then have lit: "literal ps" by (simp add: next_wild_None)
        show ?thesis
        proof (cases "ps = []")
          case False
          with less(2) p star lit have "last_occ s ps = Some ps"
            by (simp add: strmwildcmp_loop_tail)
          then obtain k where "k \<le> length s" "drop k s = ps"
            using last_occ_suffix [OF False] by blast
          then show ?thesis unfolding p star(1) glob_star using lit by (auto simp: glob_literal)
        qed (use p star in simp)
      next
        case (Some k)
        note k = next_wild_Some [OF Some]
        from less(2) p star Some obtain i where i: "strstr s (take k ps) = Some i"
          and rec: "strmwildcmp_loop (drop k ps) (drop (i + length (take k ps)) s)"
          by (auto simp: strmwildcmp_loop_segment)
        have "glob (drop k ps) (drop (i + length (take k ps)) s)"
          using less(3,4) p by (intro less(1) [OF _ rec] ucase_fixed_drop) auto
        moreover from strstr_SomeD [OF i] obtain t
          where i': "i \<le> length s" and t: "drop i s = take k ps @ t" by (auto simp: prefix_def)
        moreover from t have "t = drop (i + length (take k ps)) s"
          by (metis add.commute append_eq_conv_conj drop_drop)
        ultimately have "glob (take k ps @ drop k ps) (drop i s)"
          using k glob_literal_append [of "take k ps"] by blast
        with i' show ?thesis unfolding p star(1) glob_star by auto
      qed
    qed
  qed
qed

lemma strmwildcmp_loop_complete:
  "glob p s \<Longrightarrow> quest \<notin> set p \<Longrightarrow> no_star_star p \<Longrightarrow> strmwildcmp_loop p s"
proof (induction "length p" arbitrary: p s rule: less_induct)
  case less
  show ?case
  proof (cases p)
    case Nil
    with less show ?thesis by (simp add: strmwildcmp_loop_Nil)
  next
    case (Cons x ps)
    note p = this
    have nds: "no_star_star ps" using less(4) no_star_star_drop [of p 1] p by simp
    consider (empty) "s = []" | (star) "x = star" "s \<noteq> []" | (char) e es where "x \<noteq> star" "s = e # es"
      by (cases s) auto
    then show ?thesis
    proof cases
      case empty
      with less(2,4) p show ?thesis using glob_star_Nil [of ps]
        by (auto simp: strmwildcmp_loop_end)
    next
      case char
      with less p nds show ?thesis by (auto simp: strmwildcmp_loop_char)
    next
      case star
      show ?thesis
      proof (cases "next_wild ps")
        case None
        then have lit: "literal ps" by (simp add: next_wild_None)
        from less(2) obtain k where "k \<le> length s" "drop k s = ps"
          unfolding p star(1) glob_star using lit by (auto simp: glob_literal)
        then have "ps \<noteq> [] \<Longrightarrow> last_occ s ps = Some ps" using last_occ_suffix by blast
        then show ?thesis using p star lit
          by (cases "ps = []") (auto simp: strmwildcmp_loop_tail strmwildcmp_loop_star)
      next
        case (Some k)
        note k = next_wild_Some [OF Some]
        then have "ps ! k = star" using less(3) p by (metis insertE list.set_intros(2) nth_mem singletonD)
        then have dk: "drop k ps = star # drop (Suc k) ps" using k by (metis Cons_nth_drop_Suc)
        then have g: "glob (star # take k ps @ star # drop (Suc k) ps) s"
          using less(2) p star append_take_drop_id [of k ps] by metis
        then obtain j t where "j \<le> length s" "drop j s = take k ps @ t"
          unfolding glob_star [of "take k ps @ _"] using k glob_literal_append by blast
        then have "strstr s (take k ps) \<noteq> None" unfolding strstr_None by (metis prefixI)
        then obtain i where i: "strstr s (take k ps) = Some i" by auto
        have "glob (drop k ps) (drop (i + length (take k ps)) s)"
          using g strstr_glob [OF _ i] k dk by auto
        then have "strmwildcmp_loop (drop k ps) (drop (i + length (take k ps)) s)"
          using less(3) p nds by (intro less(1) no_star_star_drop) (auto dest: in_set_dropD)
        then show ?thesis using p star Some i by (auto simp: strmwildcmp_loop_segment)
      qed
    qed
  qed
qed

lemma ucase_no_quest: "quest \<notin> set p \<Longrightarrow> quest \<notin> set (ucase p)"
proof
  assume "quest \<notin> set p" "quest \<in> set (ucase p)"
  then obtain c where "c \<in> set p" "toupper c = quest" by (auto simp: ucase_def)
  moreover from this(2) have "code (toupper c) = 63" by (simp add: code_def)
  then have "c = quest" unfolding code_toupper code_inject [symmetric]
    by (auto simp: code_def split: if_splits)
  ultimately show False using \<open>quest \<notin> set p\<close> by simp
qed

lemma toupper_eq_star [simp]: "toupper c = star \<longleftrightarrow> c = star"
proof -
  have "code star = 42" by (simp add: code_def)
  then show ?thesis unfolding code_inject [symmetric] code_toupper by auto
qed

lemma no_star_star_ucase [simp]: "no_star_star (ucase p) \<longleftrightarrow> no_star_star p"
  by (induction p rule: no_star_star.induct) auto

text \<open>
  The wildcard compare never accepts a text that the mask does not describe: whatever
  it accepts is matched, case folded and cut to the two buffers, in the sense of \<open>glob\<close>.
\<close>

theorem strmwildcmp_sound:
  "strmwildcmp one pattern \<Longrightarrow>
   glob (ucase (strmncpy pattern 1024)) (ucase (strmncpy one 2048))"
  unfolding strmwildcmp_def by (rule strmwildcmp_loop_sound) simp_all

theorem strmwildcmp_sound_witness:
  "glob (ucase (strmncpy ''*.eushells.com'' 1024)) (ucase (strmncpy ''irc.EUshells.com'' 2048))"
proof -
  have "strmwildcmp ''irc.EUshells.com'' ''*.eushells.com''"
    by code_simp
  then show ?thesis by (rule strmwildcmp_sound)
qed

text \<open>
  For masks whose only wildcard is \<open>*\<close>, with no two stars in a row, and texts that fit
  the buffers, the compare decides exactly the case-insensitive wildcard relation. (With a
  question mark or a doubled star the routine may miss a match, since it never backtracks.)
\<close>

theorem strmwildcmp_correct:
  assumes "length one < 2048" and "length pattern < 1024"
    and "quest \<notin> set pattern" and "no_star_star pattern"
  shows "strmwildcmp one pattern \<longleftrightarrow> glob (ucase pattern) (ucase one)"
proof
  assume "strmwildcmp one pattern"
  then show "glob (ucase pattern) (ucase one)"
    using assms(1,2) strmwildcmp_loop_sound [of "ucase pattern" "ucase one"]
    by (simp add: strmwildcmp_def)
next
  assume "glob (ucase pattern) (ucase one)"
  then show "strmwildcmp one pattern"
    using assms strmwildcmp_loop_complete [of "ucase pattern" "ucase one"] ucase_no_quest
    by (simp add: strmwildcmp_def)
qed

theorem strmwildcmp_correct_witness:
  "strmwildcmp ''irc.eushells.com'' ''*eush*.COM'' \<longleftrightarrow>
   glob (ucase ''*eush*.COM'') (ucase ''irc.eushells.com'')"
  by (rule strmwildcmp_correct) simp_all

section \<open>Trimming and breaks: correctness\<close>

lemma prefix_rev_dropWhile: "prefix (rev (dropWhile P (rev s))) s"
proof -
  have "rev s = takeWhile P (rev s) @ dropWhile P (rev s)" by simp
  then have "s = rev (dropWhile P (rev s)) @ rev (takeWhile P (rev s))"
    by (metis rev_append rev_rev_ident)
  then show ?thesis by (metis prefixI)
qed

lemma prefix_rtrim: "prefix (rtrim s) s"
  using prefix_rev_dropWhile take_is_prefix prefix_order.trans
  by (fastforce simp: rtrim_def Let_def)

lemma rtrim_no_space:
  assumes "length s \<le> 4095" and "rtrim s \<noteq> []"
  shows "last (rtrim s) \<noteq> CHR '' ''"
proof -
  let ?r = "dropWhile (\<lambda>c. c = CHR '' '') (rev s)"
  have eq: "rtrim s = rev ?r" using assms(1) by (simp add: rtrim_def at_def)
  with assms(2) have "?r \<noteq> []" by simp
  then have "hd ?r \<noteq> CHR '' ''" by (rule hd_dropWhile)
  with eq \<open>?r \<noteq> []\<close> show ?thesis by (simp add: last_rev)
qed

lemma rtrim_id: "s = [] \<or> last s \<noteq> CHR '' '' \<Longrightarrow> length s \<le> 4095 \<Longrightarrow> rtrim s = s"
  by (cases s rule: rev_cases) (auto simp: rtrim_def at_def)

lemma length_rtrim: "length (rtrim s) \<le> length s"
  using prefix_rtrim by (rule prefix_length_le)

text \<open>
  \<open>nobreak\<close> returns a beginning of its argument that holds no carriage return, holds no
  line feed unless a carriage return followed it, and (for a line of at most 4095
  characters) does not end in a blank.
\<close>

theorem nobreak_clean:
  assumes "length s \<le> 4095"
  shows "prefix (nobreak s) s \<and> CR \<notin> set (nobreak s) \<and>
    (CR \<notin> set s \<longrightarrow> LF \<notin> set (nobreak s)) \<and>
    (nobreak s \<noteq> [] \<longrightarrow> last (nobreak s) \<noteq> CHR '' '')"
proof -
  define cut where "cut = (case (case find_char CR s of None \<Rightarrow> find_char LF s | Some i \<Rightarrow> Some i) of
    None \<Rightarrow> s | Some i \<Rightarrow> take i s)"
  have "min i 8190 = i" if "find_char c s = Some i" for c i
    using find_char_SomeD [OF that] assms by simp
  then have nb: "nobreak s = rtrim cut"
    by (auto simp: nobreak_def cut_def strchr_def strmncpy_def split: option.splits)
  have pre: "prefix cut s" by (auto simp: cut_def take_is_prefix split: option.splits)
  have cr: "CR \<notin> set cut" and lf: "CR \<notin> set s \<Longrightarrow> LF \<notin> set cut"
    by (auto simp: cut_def find_char_None dest: in_set_takeD find_char_SomeD
        split: option.splits)
      (metis find_char_None in_set_takeD option.distinct(1))+
  have "set (rtrim cut) \<subseteq> set cut" using prefix_rtrim by (rule set_mono_prefix)
  moreover have "length cut \<le> 4095" using pre assms prefix_length_le by fastforce
  ultimately show ?thesis
    unfolding nb using cr lf pre prefix_rtrim [of cut] rtrim_no_space [of cut]
    by (auto intro: prefix_order.trans)
qed

theorem nobreak_clean_witness:
  "CR \<notin> set (nobreak (''PING x  '' @ [CR, LF])) \<and> nobreak (''PING x  '' @ [CR, LF]) \<noteq> [] \<and>
   last (nobreak (''PING x  '' @ [CR, LF])) \<noteq> CHR '' ''"
proof -
  have "nobreak (''PING x  '' @ [CR, LF]) = ''PING x''" by code_simp
  then show ?thesis using nobreak_clean [of "''PING x  '' @ [CR, LF]"] by simp
qed

section \<open>Path building\<close>

lemma buildruntimepath_absolute:
  "0 < len \<Longrightarrow> buildruntimepath base len (CHR ''/'' # p) = Some (take (len - 1) (take 399 (CHR ''/'' # p)))"
  by (simp add: buildruntimepath_def at_def)

lemma buildruntimepath_bounded:
  "buildruntimepath base len p = Some q \<Longrightarrow> length q < len"
  by (auto simp: buildruntimepath_def Let_def snpf_def split: if_splits)

section \<open>String arrays: correctness\<close>

lemma getstring_loop_nth:
  "getstring_loop cnt entry th =
     (if cnt \<le> entry \<and> nat (entry - cnt) < length th
      then map_option (\<lambda>e. strmncpy e 650) (th ! nat (entry - cnt)) else None)"
proof (induction th arbitrary: cnt)
  case (Cons t th)
  have "nat (entry - cnt) = Suc (nat (entry - (cnt + 1)))" if "cnt < entry"
    using that by simp
  with Cons show ?case by auto
qed simp

lemma getstring_nth:
  "getstring entry th =
     (if 0 \<le> entry \<and> nat entry < length th
      then map_option (\<lambda>e. strmncpy e 650) (th ! nat entry) else None)"
  by (simp add: getstring_def getstring_loop_nth)

lemma removestring_loop_drop:
  "removestring_loop cnt entry th =
     (if cnt \<le> entry then take (nat (entry - cnt)) th @ drop (Suc (nat (entry - cnt))) th else th)"
proof (induction th arbitrary: cnt)
  case (Cons t th)
  have "nat (entry - cnt) = Suc (nat (entry - (cnt + 1)))" if "cnt < entry"
    using that by simp
  with Cons show ?case by auto
qed simp

lemma removestring_drop:
  "removestring entry th = (if 0 \<le> entry then take (nat entry) th @ drop (Suc (nat entry)) th else th)"
  by (simp add: removestring_def removestring_loop_drop)

lemma addstring_full: "None \<notin> set th \<Longrightarrow> addstring s th = th @ [Some s]"
  by (induction s th rule: addstring.induct) auto

lemma addstring_no_null: "None \<notin> set th \<Longrightarrow> None \<notin> set (addstring s th)"
  by (simp add: addstring_full)

lemma removestring_no_null: "None \<notin> set th \<Longrightarrow> None \<notin> set (removestring entry th)"
  by (auto simp: removestring_drop dest: in_set_takeD in_set_dropD)

text \<open>
  The user lists behave as arrays: appending an entry leaves the earlier ones in place
  and stores the new one (cut to 649 characters) behind them.
\<close>

theorem getstring_addstring:
  assumes "None \<notin> set th"
  shows "getstring i (addstring s th) =
    (if i = int (length th) then Some (strmncpy s 650) else getstring i th)"
  using assms by (auto simp: getstring_nth addstring_full nth_append)

theorem getstring_addstring_witness:
  "getstring 1 (addstring ''*!*@b;y'' [Some ''*!*@a;x'']) = Some (strmncpy ''*!*@b;y'' 650)"
  using getstring_addstring [of "[Some ''*!*@a;x'']" 1 "''*!*@b;y''"] by simp

text \<open>
  Removing entry \<open>i\<close> closes the gap: the entries in front stay, the later ones move down by one.
\<close>

theorem getstring_removestring:
  assumes "0 \<le> j"
  shows "getstring j (removestring i th) =
    (if 0 \<le> i \<and> i \<le> j then getstring (j + 1) th else getstring j th)"
proof (cases "0 \<le> i")
  case True
  have "nat (j + 1) = Suc (nat j)" using assms by simp
  then show ?thesis using True assms
    by (auto simp: getstring_nth removestring_drop nth_append min_def)
qed (simp add: removestring_drop)

theorem getstring_removestring_witness:
  "getstring 0 (removestring 0 [Some ''a;b'', Some ''c;d'']) = getstring 1 [Some ''a;b'', Some ''c;d'']"
  using getstring_removestring [of 0 0] by simp

end
