(* ===== verification/Matching.thy ===== *)
theory Matching
  imports Strings
begin

text \<open>
  The host mask matcher \<open>wild_match\<close> of src/match.c, the one the bouncer uses for bans,
  ignores, operators, allowed hosts and script triggers. It walks both strings from their last
  character to the first, with one remembered position to fall back to for the most recent \<open>*\<close>.

  A pointer into the mask or the name is the list of the characters from it back to the first
  character (\<open>[]\<close> is the position in front of the string, where the copies made by the routine
  hold a NUL), so \<open>m--\<close> is the tail and \<open>m[-1]\<close> the second element. The loop is a
  \<open>partial_function\<close>: that it always returns is part of what is proved. The counters
  \<open>match\<close> and \<open>sofar\<close> are kept, with \<open>sofar\<close>'s bit 15 marking a quoted character.
\<close>

unbundle bit_operations_syntax

abbreviation QUOTE :: char where
  "QUOTE \<equiv> CHR 0x5C"

abbreviation WILDP :: char where
  "WILDP \<equiv> CHR ''%''"

definition tolowertab :: "nat list" where
  "tolowertab = [0..<65] @ [97..<123] @ [91..<256]"

definition tolower :: "char \<Rightarrow> char" where
  "tolower c = char_of (tolowertab ! code c)"

definition wildSP :: "char \<Rightarrow> bool" where
  "wildSP c \<longleftrightarrow> c = star \<or> c = WILDP"

definition quoted :: "string \<Rightarrow> bool" where
  "quoted m \<longleftrightarrow> length m > 1 \<and> m ! 1 = QUOTE"

text \<open>Skipping redundant wildcards after a \<open>*\<close>, keeping a quoted one.\<close>

definition zap :: "string \<Rightarrow> string" where
  "zap m =
     (let r = dropWhile wildSP (tl m) in
      if r \<noteq> [] \<and> hd r = QUOTE then drop (length m - length r - 1) m else r)"

partial_function (option) wm_loop ::
  "string \<Rightarrow> string \<Rightarrow> (string \<times> string) option \<Rightarrow> nat \<Rightarrow> nat \<Rightarrow> nat option" where
  [code]: "wm_loop m n ls match sofar =
     (case n of
        [] \<Rightarrow> Some (if dropWhile wildSP m = [] then (match + sofar) AND 0x7FFF else 0)
      | c # n' \<Rightarrow>
          if \<not> quoted m \<and> at m 0 = star then
            wm_loop (zap m) n (Some (zap m, n)) (match + sofar) 0
          else if \<not> quoted m \<and> at m 0 = quest then
            wm_loop (tl m) n' ls match sofar
          else
            (let sofar1 = (if quoted m then sofar OR 0x8000 else sofar AND 0x7FFF) in
             if tolower (at m 0) = tolower c then
               wm_loop (if (sofar1 + 1) AND 0x8000 \<noteq> 0 then tl (tl m) else tl m) n' ls match
                 (sofar1 + 1)
             else
               (case ls of
                  Some (lsm, lsn) \<Rightarrow>
                    wm_loop lsm (tl lsn) (if tl lsn = [] then None else Some (lsm, tl lsn)) match 0
                | None \<Rightarrow> Some 0)))"

definition wild_match :: "string \<Rightarrow> string \<Rightarrow> nat option" where
  "wild_match em en =
     (if em = [] \<or> en = [] then Some 0 else wm_loop (rev em) (rev en) None 1 0)"

section \<open>The reference matcher\<close>

text \<open>
  \<open>bmatch\<close> tries every length for every \<open>*\<close>. It reads the reversed mask with the same
  rules for quotes, for wildcards next to a \<open>*\<close> and for wildcards left over at the front.
\<close>

lemma zap_shorter: "\<not> quoted m \<Longrightarrow> m \<noteq> [] \<Longrightarrow> length (zap m) < length m"
proof -
  assume nq: "\<not> quoted m" and ne: "m \<noteq> []"
  let ?r = "dropWhile wildSP (tl m)"
  have le: "length ?r \<le> length (tl m)" by (rule length_dropWhile_le)
  show ?thesis
  proof (cases "?r \<noteq> [] \<and> hd ?r = QUOTE")
    case True
    have "?r \<noteq> tl m"
    proof
      assume "?r = tl m"
      with True ne nq show False by (cases m; cases "tl m") (auto simp: quoted_def)
    qed
    then have "length ?r < length (tl m)"
      using le by (metis append_eq_append_conv append_self_conv2 dropWhile_eq_self_iff
          le_neq_implies_less takeWhile_dropWhile_id)
    with True ne show ?thesis by (simp add: zap_def Let_def)
  next
    case False
    with le ne show ?thesis by (cases m) (auto simp: zap_def Let_def)
  qed
qed

function bmatch :: "string \<Rightarrow> string \<Rightarrow> bool" where
  "bmatch m n =
     (case n of
        [] \<Rightarrow> dropWhile wildSP m = []
      | c # n' \<Rightarrow>
          if quoted m then tolower (hd m) = tolower c \<and> bmatch (tl (tl m)) n'
          else if m = [] then False
          else if hd m = star then list_ex (\<lambda>k. bmatch (zap m) (drop k n)) [0..<Suc (length n)]
          else if hd m = quest then bmatch (tl m) n'
          else tolower (hd m) = tolower c \<and> bmatch (tl m) n')"
  by pat_completeness auto
termination
  by (relation "measure (\<lambda>(m, n). length m)")
    (auto simp: zap_shorter quoted_def)

declare bmatch.simps [simp del]

lemma bmatch_end: "bmatch m [] \<longleftrightarrow> dropWhile wildSP m = []"
  by (simp add: bmatch.simps)

lemma bmatch_front: "\<not> bmatch [] (c # n)"
  by (simp add: bmatch.simps quoted_def)

text \<open>Consuming one mask token that is not a star.\<close>

definition starhead :: "string \<Rightarrow> bool" where
  "starhead m \<longleftrightarrow> \<not> quoted m \<and> m \<noteq> [] \<and> hd m = star"

definition tokstep :: "string \<Rightarrow> string" where
  "tokstep m = (if quoted m then tl (tl m) else tl m)"

definition tokhit :: "string \<Rightarrow> char \<Rightarrow> bool" where
  "tokhit m c \<longleftrightarrow> (\<not> quoted m \<and> hd m = quest) \<or> tolower (hd m) = tolower c"

lemma bmatch_token:
  "\<not> starhead m \<Longrightarrow> bmatch m (c # n) \<longleftrightarrow> m \<noteq> [] \<and> tokhit m c \<and> bmatch (tokstep m) n"
  by (auto simp: bmatch.simps [of m "c # n"] starhead_def tokstep_def tokhit_def quoted_def)

lemma bmatch_star:
  "starhead m \<Longrightarrow> bmatch m (c # n) \<longleftrightarrow>
     (\<exists>k. k \<le> length (c # n) \<and> bmatch (zap m) (drop k (c # n)))"
  by (auto simp: bmatch.simps [of m "c # n"] starhead_def list_ex_iff less_Suc_eq_le
      simp del: upt_Suc)

lemma dropWhile_Nil_tl: "dropWhile P m = [] \<Longrightarrow> dropWhile P (tl m) = []"
  by (cases m) (auto split: if_splits)

lemma bmatch_tokstep:
  assumes "\<not> starhead m" and "bmatch m s"
  shows "bmatch (tokstep m) (tl s)"
proof (cases s)
  case Nil
  with assms show ?thesis
    by (auto simp: bmatch_end tokstep_def dropWhile_Nil_tl simp del: dropWhile_eq_Nil_conv)
next
  case (Cons c n)
  with assms show ?thesis by (simp add: bmatch_token)
qed

lemma bmatch_tokstep_pow:
  "bmatch m s \<Longrightarrow> (\<And>i. i < j \<Longrightarrow> \<not> starhead ((tokstep ^^ i) m)) \<Longrightarrow>
   bmatch ((tokstep ^^ j) m) (drop j s)"
proof (induction j)
  case (Suc j)
  then have "bmatch ((tokstep ^^ j) m) (drop j s)" by simp
  then have "bmatch (tokstep ((tokstep ^^ j) m)) (tl (drop j s))"
    using Suc.prems(2) by (intro bmatch_tokstep) auto
  then show ?case by (simp add: drop_Suc tl_drop)
qed simp

lemma bmatch_star_absorbs:
  assumes "starhead m" and "bmatch m s"
  shows "bmatch m (t @ s)"
proof (cases "t @ s")
  case Nil
  with assms show ?thesis by simp
next
  case ts: (Cons d u)
  have "\<exists>k. k \<le> length (t @ s) \<and> bmatch (zap m) (drop k (t @ s))"
  proof (cases s)
    case Nil
    with assms have "zap m = []" by (simp add: bmatch_end zap_def dropWhile_Nil_tl)
    then show ?thesis using Nil by (intro exI [of _ "length t"]) (simp add: bmatch_end)
  next
    case (Cons c n)
    with assms obtain k where "k \<le> length s" "bmatch (zap m) (drop k s)"
      by (auto simp: bmatch_star)
    then show ?thesis by (intro exI [of _ "length t + k"]) simp
  qed
  then show ?thesis unfolding ts bmatch_star [OF assms(1)] .
qed

section \<open>The loop decides the reference relation\<close>

text \<open>
  \<open>reach lm ln m n\<close>: from the fallback position \<open>(lm, ln)\<close> the loop came to \<open>(m, n)\<close> without
  meeting another star.
\<close>

definition reach :: "string \<Rightarrow> string \<Rightarrow> string \<Rightarrow> string \<Rightarrow> bool" where
  "reach lm ln m n \<longleftrightarrow>
     (\<exists>j. j \<le> length ln \<and> n = drop j ln \<and> m = (tokstep ^^ j) lm \<and>
          (\<forall>i. i < j \<longrightarrow> \<not> starhead ((tokstep ^^ i) lm)))"

lemma reach_refl: "reach lm ln lm ln"
  unfolding reach_def by (intro exI [of _ 0]) simp

lemma reach_step: "reach lm ln m (c # n) \<Longrightarrow> \<not> starhead m \<Longrightarrow> reach lm ln (tokstep m) n"
proof -
  assume r: "reach lm ln m (c # n)" and ns: "\<not> starhead m"
  from r obtain j where j: "j \<le> length ln" "c # n = drop j ln" "m = (tokstep ^^ j) lm"
    "\<And>i. i < j \<Longrightarrow> \<not> starhead ((tokstep ^^ i) lm)" unfolding reach_def by blast
  have "Suc j \<le> length ln" using j(2) by (metis Suc_leI drop_eq_Nil linorder_not_less list.distinct(1))
  moreover have "n = drop (Suc j) ln" using j(2) by (metis drop_Suc list.sel(3) tl_drop)
  ultimately show ?thesis unfolding reach_def
    using j ns by (intro exI [of _ "Suc j"]) (auto simp: less_Suc_eq)
qed

lemma length_tokstep: "length (tokstep m) \<le> length m"
  by (simp add: tokstep_def)

lemma reach_length: "reach lm ln m n \<Longrightarrow> length m \<le> length lm"
proof -
  have "length ((tokstep ^^ j) lm) \<le> length lm" for j
    by (induction j) (auto intro: order_trans [OF length_tokstep])
  then show "reach lm ln m n \<Longrightarrow> length m \<le> length lm" unfolding reach_def by auto
qed

text \<open>Meeting a new star makes the older fallback position superfluous.\<close>

lemma new_star_enough:
  assumes "reach lm ln m n" and "starhead m" and "bmatch lm (drop k ln)"
  shows "bmatch m n"
proof -
  from assms(1) obtain j where j: "j \<le> length ln" "n = drop j ln" "m = (tokstep ^^ j) lm"
    "\<And>i. i < j \<Longrightarrow> \<not> starhead ((tokstep ^^ i) lm)" unfolding reach_def by blast
  have "bmatch m (drop (j + k) ln)"
    using bmatch_tokstep_pow [OF assms(3) j(4)] j(3) by (simp add: add.commute)
  then have "bmatch m (take k n @ drop k n)"
    using bmatch_star_absorbs [OF assms(2), of "drop k n" "take k n"] j(2)
    by (simp add: add.commute)
  then show ?thesis by simp
qed

text \<open>The counters: bit 15 of \<open>sofar\<close> is the quote mark, the rest counts matched characters.\<close>

lemma bit_8000: "bit (0x8000::nat) i \<longleftrightarrow> i = 15"
proof -
  have e: "(0x8000::nat) = 2 ^ 15" by simp
  show ?thesis unfolding e bit_exp_iff by auto
qed

lemma bit_7FFF: "bit (0x7FFF::nat) i \<longleftrightarrow> i < 15"
proof -
  have e: "(0x7FFF::nat) = mask 15" by (simp add: mask_eq_exp_minus_1)
  show ?thesis unfolding e bit_mask_iff by auto
qed

lemma and_7FFF: "(x::nat) AND 0x7FFF = x mod 0x8000"
proof -
  have "x AND 0x7FFF = take_bit 15 x" by (rule bit_eqI) (auto simp: bit_simps bit_7FFF)
  then show ?thesis by (simp add: take_bit_eq_mod)
qed

lemma and_8000: "(x::nat) < 0x10000 \<Longrightarrow> x AND 0x8000 = (if x < 0x8000 then 0 else 0x8000)"
proof -
  assume lt: "x < 0x10000"
  have "bit x 15 \<longleftrightarrow> \<not> x < 0x8000"
  proof -
    have "bit x 15 \<longleftrightarrow> odd (x div 0x8000)" by (simp add: bit_iff_odd)
    moreover have "x div 0x8000 = (if x < 0x8000 then 0 else 1)" using lt by auto
    ultimately show ?thesis by simp
  qed
  moreover have "x AND 0x8000 = (if bit x 15 then 0x8000 else 0)"
    by (rule bit_eqI) (auto simp: bit_and_iff bit_8000)
  ultimately show ?thesis by simp
qed

lemma or_8000: "(x::nat) < 0x10000 \<Longrightarrow> x OR 0x8000 = x mod 0x8000 + 0x8000"
proof -
  assume lt: "x < 0x10000"
  have "x OR 0x8000 = (x AND 0x7FFF) OR 0x8000"
  proof (rule bit_eqI)
    fix i
    have "x = take_bit 16 x" using lt by (simp add: take_bit_nat_eq_self)
    then have "bit x i \<Longrightarrow> i < 16" by (metis bit_take_bit_iff)
    moreover have "i < 16 \<longleftrightarrow> i = 15 \<or> i < 15" by arith
    ultimately show "bit (x OR 0x8000) i \<longleftrightarrow> bit ((x AND 0x7FFF) OR 0x8000) i"
      unfolding bit_or_iff bit_and_iff bit_8000 bit_7FFF by blast
  qed
  also have "\<dots> = (x AND 0x7FFF) + 0x8000"
    by (rule disjunctive_add_eq_or [symmetric], rule bit_eqI)
      (auto simp: bit_and_iff bit_8000 bit_7FFF)
  finally show ?thesis by (simp add: and_7FFF)
qed

text \<open>One unfolding of the loop per branch.\<close>

lemma wm_loop_end:
  "wm_loop m [] ls match sofar =
     Some (if dropWhile wildSP m = [] then (match + sofar) mod 0x8000 else 0)"
  by (simp add: wm_loop.simps and_7FFF)

lemma starhead_at: "starhead m \<longleftrightarrow> \<not> quoted m \<and> at m 0 = star"
  by (cases m) (auto simp: starhead_def at_def)

lemma wm_loop_star:
  "starhead m \<Longrightarrow>
   wm_loop m (c # n) ls match sofar = wm_loop (zap m) (c # n) (Some (zap m, c # n)) (match + sofar) 0"
  by (subst wm_loop.simps) (simp add: starhead_at)

lemma tolower_NUL_iff [simp]: "tolower c = NUL \<longleftrightarrow> c = NUL"
proof -
  have "tolowertab ! code c = (if 65 \<le> code c \<and> code c < 91 then code c + 32 else code c)"
    using code_less [of c] by (auto simp: tolowertab_def nth_append simp del: upt_rec_numeral)
  moreover from this have "tolowertab ! code c < 256" using code_less [of c] by auto
  ultimately have "code (tolower c) = 0 \<longleftrightarrow> code c = 0"
    by (auto simp: tolower_def code_char_of simp del: code_eq_0)
  then show ?thesis by simp
qed

lemma wm_loop_hit:
  assumes "\<not> starhead m" and "m \<noteq> []" and "tokhit m c"
    and "sofar < 0x10000" and "sofar mod 0x8000 + 1 < 0x8000"
  shows "\<exists>sofar'. wm_loop m (c # n) ls match sofar = wm_loop (tokstep m) n ls match sofar' \<and>
           sofar' < 0x10000 \<and> sofar' mod 0x8000 \<le> sofar mod 0x8000 + 1"
proof -
  from assms(1,2) have ns: "quoted m \<or> hd m \<noteq> star" by (auto simp: starhead_def)
  have at: "at m 0 = hd m" using assms(2) by (simp add: at_def hd_conv_nth)
  consider (any) "\<not> quoted m" "hd m = quest" | (quo) "quoted m" "tolower (hd m) = tolower c"
    | (lit) "\<not> quoted m" "hd m \<noteq> quest" "tolower (hd m) = tolower c"
    using assms(3) by (auto simp: tokhit_def)
  then show ?thesis
  proof cases
    case any
    then have "wm_loop m (c # n) ls match sofar = wm_loop (tokstep m) n ls match sofar"
      using ns by (subst wm_loop.simps) (simp add: at tokstep_def)
    with assms(4) show ?thesis by (intro exI [of _ sofar]) simp
  next
    case quo
    let ?s = "sofar mod 0x8000 + 0x8000 + 1"
    have "?s AND 0x8000 = 0x8000" using assms(5) and_8000 [of ?s] by simp
    then have "wm_loop m (c # n) ls match sofar = wm_loop (tokstep m) n ls match ?s"
      using quo assms(4) by (subst wm_loop.simps) (simp add: at tokstep_def or_8000)
    moreover have "?s mod 0x8000 = sofar mod 0x8000 + 1"
    proof -
      have "?s mod 0x8000 = (0x8000 + (sofar mod 0x8000 + 1)) mod 0x8000" by (simp add: ac_simps)
      then show ?thesis using assms(5) by (simp only: mod_add_self1 mod_less)
    qed
    ultimately show ?thesis using assms(5) by (intro exI [of _ ?s]) simp
  next
    case lit
    let ?s = "sofar mod 0x8000 + 1"
    have "?s AND 0x8000 = 0" using assms(5) and_8000 [of ?s] by simp
    then have "wm_loop m (c # n) ls match sofar = wm_loop (tokstep m) n ls match ?s"
      using lit ns by (subst wm_loop.simps) (simp add: at tokstep_def and_7FFF)
    then show ?thesis using assms(5) by (intro exI [of _ ?s]) simp
  qed
qed

lemma wm_loop_miss:
  assumes "\<not> starhead m" and "m = [] \<or> \<not> tokhit m c" and "c \<noteq> NUL"
  shows "wm_loop m (c # n) ls match sofar =
    (case ls of
       Some (lsm, lsn) \<Rightarrow>
         wm_loop lsm (tl lsn) (if tl lsn = [] then None else Some (lsm, tl lsn)) match 0
     | None \<Rightarrow> Some 0)"
proof (cases m)
  case Nil
  have "tolower NUL = NUL" by simp
  then have "tolower NUL \<noteq> tolower c" using assms(3) by (metis tolower_NUL_iff)
  with Nil show ?thesis by (subst wm_loop.simps) (simp add: at_def quoted_def)
next
  case (Cons x m')
  with assms show ?thesis
    by (subst wm_loop.simps) (auto simp: at_def tokhit_def starhead_def)
qed

text \<open>The loop invariant on a state of the loop, for a name of \<open>N\<close> characters.\<close>

definition wm_inv :: "nat \<Rightarrow> string \<Rightarrow> string \<Rightarrow> (string \<times> string) option \<Rightarrow> nat \<Rightarrow> nat \<Rightarrow> bool" where
  "wm_inv N m n ls match sofar \<longleftrightarrow>
     N + 1 < 0x8000 \<and> NUL \<notin> set n \<and> 1 \<le> match mod 0x8000 \<and> sofar < 0x10000 \<and>
     match mod 0x8000 + sofar mod 0x8000 + length n \<le> N + 1 \<and>
     (case ls of
        None \<Rightarrow> True
      | Some (lm, ln) \<Rightarrow>
          ln \<noteq> [] \<and> NUL \<notin> set ln \<and> match mod 0x8000 + length ln \<le> N + 1 \<and> reach lm ln m n)"

definition wm_goal :: "string \<Rightarrow> string \<Rightarrow> (string \<times> string) option \<Rightarrow> bool" where
  "wm_goal m n ls \<longleftrightarrow> bmatch m n \<or>
     (case ls of
        None \<Rightarrow> False
      | Some (lm, ln) \<Rightarrow> \<exists>k. 1 \<le> k \<and> k \<le> length ln \<and> bmatch lm (drop k ln))"

definition wm_rank :: "(string \<times> string \<times> (string \<times> string) option) \<Rightarrow> nat \<times> nat \<times> nat" where
  "wm_rank = (\<lambda>(m, n, ls). case ls of
     None \<Rightarrow> (Suc (length m), 0, length n)
   | Some (lm, ln) \<Rightarrow> (length lm, length ln, length n))"

lemma reach_end:
  assumes "reach lm ln m []" and "\<not> bmatch m []" and "k \<le> length ln"
  shows "\<not> bmatch lm (drop k ln)"
proof
  assume b: "bmatch lm (drop k ln)"
  from assms(1) obtain j where j: "j \<le> length ln" "[] = drop j ln" "m = (tokstep ^^ j) lm"
    "\<And>i. i < j \<Longrightarrow> \<not> starhead ((tokstep ^^ i) lm)" unfolding reach_def by blast
  have "bmatch ((tokstep ^^ j) lm) (drop j (drop k ln))" using b j(4) by (rule bmatch_tokstep_pow)
  with j(2,3) assms(2) show False by simp
qed

lemma wm_goal_fallback:
  assumes "reach lm (d # ln) m (c # n)" and "\<not> starhead m" and "m = [] \<or> \<not> tokhit m c"
  shows "wm_goal m (c # n) (Some (lm, d # ln)) \<longleftrightarrow>
    wm_goal lm ln (if ln = [] then None else Some (lm, ln))"
proof -
  have "\<not> bmatch m (c # n)" using assms(2,3) by (auto simp: bmatch_token)
  then have "wm_goal m (c # n) (Some (lm, d # ln)) \<longleftrightarrow> (\<exists>k. k \<le> length ln \<and> bmatch lm (drop k ln))"
    (is "_ \<longleftrightarrow> ?R")
    unfolding wm_goal_def
    by (auto simp: Suc_le_eq gr0_conv_Suc)
  also have "?R \<longleftrightarrow> bmatch lm ln \<or> (\<exists>k. 1 \<le> k \<and> k \<le> length ln \<and> bmatch lm (drop k ln))"
    by (metis One_nat_def Suc_leI drop0 le0 neq0_conv)
  finally show ?thesis by (auto simp: wm_goal_def)
qed

lemma wm_loop_correct:
  "wm_inv N m n ls match sofar \<Longrightarrow>
   \<exists>r. wm_loop m n ls match sofar = Some r \<and> (r \<noteq> 0 \<longleftrightarrow> wm_goal m n ls)"
proof (induction "wm_rank (m, n, ls)" arbitrary: m n ls match sofar
    rule: wf_induct_rule [OF wf_lex_prod [OF wf_less_than wf_lex_prod [OF wf_less_than wf_less_than]]])
  case (1 m n ls match sofar)
  note IH = 1(1) and inv = 1(2) [unfolded wm_inv_def]
  show ?case
  proof (cases n)
    case Nil
    have "(match + sofar) mod 0x8000 \<noteq> 0"
    proof -
      have "(match mod 0x8000 + sofar mod 0x8000) mod 0x8000 = match mod 0x8000 + sofar mod 0x8000"
        using inv by (intro mod_less) auto
      then show ?thesis using inv by (metis add_is_0 mod_add_eq not_one_le_zero)
    qed
    moreover have "wm_goal m [] ls \<longleftrightarrow> bmatch m []"
      using inv Nil reach_end by (fastforce simp: wm_goal_def split: option.splits)
    ultimately show ?thesis using Nil by (simp add: wm_loop_end bmatch_end)
  next
    case (Cons c n')
    note n = this
    have c: "c \<noteq> NUL" using inv n by auto
    consider (star) "starhead m" | (hit) "\<not> starhead m" "m \<noteq> []" "tokhit m c"
      | (miss) "\<not> starhead m" "m = [] \<or> \<not> tokhit m c" by blast
    then show ?thesis
    proof cases
      case star
      let ?z = "zap m"
      have m: "m \<noteq> []" "\<not> quoted m" using star by (auto simp: starhead_def)
      have dec: "(wm_rank (?z, n, Some (?z, n)), wm_rank (m, n, ls))
          \<in> less_than <*lex*> less_than <*lex*> less_than"
        using zap_shorter [OF m(2,1)] inv reach_length
        by (fastforce simp: wm_rank_def split: option.splits)
      have "(match + sofar) mod 0x8000 = match mod 0x8000 + sofar mod 0x8000"
        using inv by (subst mod_add_eq [symmetric]) simp
      then have "wm_inv N ?z n (Some (?z, n)) (match + sofar) 0"
        using inv n reach_refl by (auto simp: wm_inv_def)
      with IH [OF dec] obtain r where r: "wm_loop ?z n (Some (?z, n)) (match + sofar) 0 = Some r"
        "r \<noteq> 0 \<longleftrightarrow> wm_goal ?z n (Some (?z, n))" by blast
      have "wm_goal ?z n (Some (?z, n)) \<longleftrightarrow> bmatch m n"
        unfolding n bmatch_star [OF star] wm_goal_def
        by (auto simp: le_Suc_eq) (metis One_nat_def Suc_leI drop0 neq0_conv)+
      moreover have "wm_goal m n ls \<longleftrightarrow> bmatch m n"
        using inv star new_star_enough by (auto simp: wm_goal_def split: option.splits)
      ultimately show ?thesis using r n wm_loop_star [OF star] by simp
    next
      case hit
      have "sofar mod 0x8000 + 1 < 0x8000" using inv n by auto
      with wm_loop_hit [OF hit, of sofar n' ls match] inv obtain sofar'
        where eq: "wm_loop m n ls match sofar = wm_loop (tokstep m) n' ls match sofar'"
          and s': "sofar' < 0x10000" "sofar' mod 0x8000 \<le> sofar mod 0x8000 + 1"
        unfolding n by blast
      have "length (tokstep m) < length m" using hit(2) by (cases m) (auto simp: tokstep_def)
      then have dec: "(wm_rank (tokstep m, n', ls), wm_rank (m, n, ls))
          \<in> less_than <*lex*> less_than <*lex*> less_than"
        using n by (auto simp: wm_rank_def split: option.splits)
      have "wm_inv N (tokstep m) n' ls match sofar'"
        using inv n s' reach_step [OF _ hit(1)] by (auto simp: wm_inv_def split: option.splits)
      moreover have "wm_goal (tokstep m) n' ls \<longleftrightarrow> wm_goal m n ls"
        using hit by (auto simp: wm_goal_def n bmatch_token)
      ultimately show ?thesis using IH [OF dec] eq by simp
    next
      case miss
      note eq = wm_loop_miss [OF miss c, of n' ls match sofar, folded n]
      show ?thesis
      proof (cases ls)
        case None
        then show ?thesis using eq miss n by (auto simp: wm_goal_def bmatch_token)
      next
        case (Some p)
        then obtain lm d ln where ls: "ls = Some (lm, d # ln)"
          using inv by (cases p; cases "snd p") auto
        have goal: "wm_goal m n ls \<longleftrightarrow> wm_goal lm ln (if ln = [] then None else Some (lm, ln))"
          using wm_goal_fallback [OF _ miss] inv ls n by auto
        show ?thesis
        proof (cases "ln = []")
          case True
          then show ?thesis using eq ls goal inv
            by (auto simp: wm_loop_end wm_goal_def bmatch_end)
        next
          case False
          have dec: "(wm_rank (lm, ln, Some (lm, ln)), wm_rank (m, n, ls))
              \<in> less_than <*lex*> less_than <*lex*> less_than"
            using ls by (auto simp: wm_rank_def)
          have "wm_inv N lm ln (Some (lm, ln)) match 0"
            using inv ls False reach_refl by (auto simp: wm_inv_def)
          with IH [OF dec] show ?thesis using eq ls goal False by auto
        qed
      qed
    qed
  qed
qed

lemma wild_match_total:
  assumes "em \<noteq> []" and "en \<noteq> []" and "no_nul en" and "length en < 0x7FFF"
  shows "\<exists>r. wild_match em en = Some r \<and> (r \<noteq> 0 \<longleftrightarrow> bmatch (rev em) (rev en))"
proof -
  have "wm_inv (length en) (rev em) (rev en) None 1 0"
    using assms by (auto simp: wm_inv_def no_nul_def)
  then have "\<exists>r. wm_loop (rev em) (rev en) None 1 0 = Some r \<and>
      (r \<noteq> 0 \<longleftrightarrow> wm_goal (rev em) (rev en) None)"
    by (rule wm_loop_correct)
  with assms show ?thesis by (simp add: wild_match_def wm_goal_def)
qed

section \<open>Plain masks\<close>

definition lcase :: "string \<Rightarrow> string" where
  "lcase s = map tolower s"

lemma code_tolower:
  "code (tolower c) = (if 65 \<le> code c \<and> code c < 91 then code c + 32 else code c)"
proof -
  have "tolowertab ! code c = (if 65 \<le> code c \<and> code c < 91 then code c + 32 else code c)"
    using code_less [of c] by (auto simp: tolowertab_def nth_append simp del: upt_rec_numeral)
  moreover from this have "tolowertab ! code c < 256" using code_less [of c] by auto
  ultimately show ?thesis by (simp add: tolower_def code_char_of)
qed

lemma tolower_wild [simp]: "tolower c = star \<longleftrightarrow> c = star" "tolower c = quest \<longleftrightarrow> c = quest"
proof -
  have "code star = 42" "code quest = 63" by (simp_all add: code_def)
  then show "tolower c = star \<longleftrightarrow> c = star" "tolower c = quest \<longleftrightarrow> c = quest"
    unfolding code_inject [symmetric] code_tolower by auto
qed

definition plain_mask :: "string \<Rightarrow> bool" where
  "plain_mask m \<longleftrightarrow> QUOTE \<notin> set m \<and> WILDP \<notin> set m"

lemma plain_mask_simps [simp]:
  "plain_mask []"
  "plain_mask (x # m) \<longleftrightarrow> x \<noteq> QUOTE \<and> x \<noteq> WILDP \<and> plain_mask m"
  by (auto simp: plain_mask_def)

lemma plain_not_quoted: "plain_mask m \<Longrightarrow> \<not> quoted m"
  by (auto simp: plain_mask_def quoted_def dest: nth_mem)

lemma plain_dropWhile: "plain_mask m \<Longrightarrow> plain_mask (dropWhile P m)"
  by (auto simp: plain_mask_def dest: set_dropWhileD)

lemma plain_zap: "plain_mask m \<Longrightarrow> zap m = dropWhile wildSP (tl m)"
proof -
  assume p: "plain_mask m"
  let ?r = "dropWhile wildSP (tl m)"
  have "plain_mask ?r" using p by (cases m) (auto intro: plain_dropWhile)
  then have "?r \<noteq> [] \<Longrightarrow> hd ?r \<noteq> QUOTE" by (cases ?r) auto
  then show ?thesis by (auto simp: zap_def Let_def)
qed

lemma tolower_star [simp]: "tolower star = star"
  by simp

lemma glob_star_star: "glob (star # star # p) s \<longleftrightarrow> glob (star # p) s"
  by (induction s) auto

lemma glob_star_zap:
  "plain_mask m \<Longrightarrow> glob (star # lcase (dropWhile wildSP m)) s \<longleftrightarrow> glob (star # lcase m) s"
proof (induction m)
  case (Cons x m)
  then show ?case
    by (cases "x = star") (auto simp: wildSP_def lcase_def glob_star_star simp del: glob.simps)
qed simp

lemma glob_all_star: "plain_mask m \<Longrightarrow> dropWhile wildSP m = [] \<longleftrightarrow> glob (lcase m) []"
  by (induction m) (auto simp: wildSP_def lcase_def)

lemma bmatch_glob: "plain_mask m \<Longrightarrow> bmatch m n \<longleftrightarrow> glob (lcase m) (lcase n)"
proof (induction "length m" arbitrary: m n rule: less_induct)
  case less
  show ?case
  proof (cases n)
    case Nil
    with less(2) show ?thesis
      using glob_all_star [of m] by (simp add: bmatch_end lcase_def)
  next
    case n: (Cons c n')
    show ?thesis
    proof (cases m)
      case Nil
      with n show ?thesis by (simp add: bmatch_front lcase_def)
    next
      case m: (Cons x m')
      have nq: "\<not> quoted m" using less(2) by (rule plain_not_quoted)
      show ?thesis
      proof (cases "x = star")
        case True
        let ?z = "dropWhile wildSP m'"
        have z: "zap m = ?z" using plain_zap [OF less(2)] m by simp
        have sh: "starhead m" using m True nq by (simp add: starhead_def)
        have IH: "bmatch ?z s \<longleftrightarrow> glob (lcase ?z) (lcase s)" for s
          using less m length_dropWhile_le [of wildSP m']
          by (intro less(1)) (auto intro: plain_dropWhile)
        have "bmatch m n \<longleftrightarrow> (\<exists>k. k \<le> length n \<and> glob (lcase ?z) (drop k (lcase n)))"
          unfolding n bmatch_star [OF sh] unfolding n [symmetric] z IH by (simp add: lcase_def drop_map)
        also have "\<dots> \<longleftrightarrow> glob (star # lcase ?z) (lcase n)"
          unfolding glob_star by (simp add: lcase_def)
        also have "\<dots> \<longleftrightarrow> glob (star # lcase m') (lcase n)"
          using glob_star_zap less(2) m by simp
        finally show ?thesis using m True by (simp add: lcase_def)
      next
        case False
        then have "\<not> starhead m" using m by (simp add: starhead_def)
        then show ?thesis using less m n nq False
          by (auto simp: bmatch_token tokhit_def tokstep_def lcase_def)
      qed
    qed
  qed
qed

text \<open>
  (C30) The host mask matcher always returns (whatever the mask, quotes and percent signs
  included), and it reports a match exactly when some choice of lengths for the stars makes
  the mask fit the name: the single remembered fallback position loses no match.
\<close>

theorem wild_match_complete:
  assumes "em \<noteq> []" and "en \<noteq> []" and "no_nul en" and "length en < 0x7FFF"
  shows "\<exists>r. wild_match em en = Some r \<and> (r \<noteq> 0 \<longleftrightarrow> bmatch (rev em) (rev en))"
  using assms by (rule wild_match_total)

theorem wild_match_complete_witness:
  "\<exists>r. wild_match (''a*'' @ [QUOTE] @ ''*b'') ''axx*b'' = Some r \<and>
     (r \<noteq> 0 \<longleftrightarrow> bmatch (rev (''a*'' @ [QUOTE] @ ''*b'')) (rev ''axx*b''))"
  by (rule wild_match_complete) simp_all

text \<open>
  For masks without quotes and percent signs, \<open>wild_match\<close> decides the
  case-insensitive wildcard relation \<open>glob\<close> on every non-empty name below 32767 characters.
\<close>

theorem wild_match_glob:
  assumes "em \<noteq> []" and "en \<noteq> []" and "no_nul en" and "length en < 0x7FFF" and "plain_mask em"
  shows "\<exists>r. wild_match em en = Some r \<and> (r \<noteq> 0 \<longleftrightarrow> glob (lcase em) (lcase en))"
proof -
  have "plain_mask (rev em)" using assms(5) by (simp add: plain_mask_def)
  then have "bmatch (rev em) (rev en) \<longleftrightarrow> glob (rev (lcase em)) (rev (lcase en))"
    by (simp add: bmatch_glob lcase_def rev_map)
  then show ?thesis using wild_match_total [OF assms(1-4)] by (simp add: glob_rev)
qed

theorem wild_match_glob_witness:
  "\<exists>r. wild_match ''*!?ser@*.Example.org'' ''nick!user@host.example.org'' = Some r \<and>
     (r \<noteq> 0 \<longleftrightarrow> glob (lcase ''*!?ser@*.Example.org'') (lcase ''nick!user@host.example.org''))"
  by (rule wild_match_glob) simp_all

end
