(* ===== verification/Crypt.thy ===== *)
theory Crypt
  imports Strings
begin

text \<open>
  The printable encoding of bytes (\<open>hashdot\<close>, \<open>unhashdot\<close>, \<open>hashstring\<close>, \<open>unhashstring\<close>
  of src/p_idea.c) and the offset cipher for stored passwords and keys (\<open>psycrypt\<close>,
  \<open>cryptit\<close>, \<open>decryptit\<close> of src/p_crypt.c) with the salt of salt.h.

  \<open>None\<close> is an access outside an array or a string. Plain \<open>char\<close> is unsigned, as on the ARM
  target of the port; \<open>unsigned int\<close> values are naturals reduced modulo \<open>2^32\<close>. The global
  flag \<open>wrong\<close> is passed in and out.
\<close>

section \<open>The printable byte encoding\<close>

definition base :: string where
  "base = CHR 0x27 # CHR 0x60 #
     ''0123456789abcdefghijklmnopqrstuvxyzABCDEFGHIJKLMNOPQRSTUVWXYZ@$=&*-#''"

definition baselen :: nat where
  "baselen = 67"

fun hashdot_loop :: "nat \<Rightarrow> nat \<Rightarrow> nat \<Rightarrow> nat \<times> nat" where
  "hashdot_loop 0 hh hl = (hh, hl)"
| "hashdot_loop (Suc cnt) hh hl =
     (if hl + 1 = baselen then hashdot_loop cnt (hh + 1) 0 else hashdot_loop cnt hh (hl + 1))"

definition base_at :: "nat \<Rightarrow> char option" where
  "base_at i = (if i \<le> length base then Some (at base i) else None)"

definition hashdot :: "nat \<Rightarrow> string option" where
  "hashdot r =
     (case hashdot_loop r 0 0 of
        (hh, hl) \<Rightarrow>
          (case (base_at hh, base_at hl) of
             (Some a, Some b) \<Rightarrow> Some [a, b]
           | _ \<Rightarrow> None))"

definition unhashdot :: "char \<Rightarrow> char \<Rightarrow> nat \<times> bool" where
  "unhashdot h0 h1 =
     (case (find_char h0 (take baselen base), find_char h1 (take baselen base)) of
        (Some a, Some b) \<Rightarrow> (a * baselen + b, False)
      | (Some a, None) \<Rightarrow> (a * baselen, True)
      | (None, Some b) \<Rightarrow> (b, True)
      | (None, None) \<Rightarrow> (0, True))"

fun hashstring :: "byte list \<Rightarrow> string option" where
  "hashstring [] = Some []"
| "hashstring (chr # hsh) =
     (case hashdot (unat chr) of
        None \<Rightarrow> None
      | Some h \<Rightarrow> map_option (\<lambda>t. cstr h @ t) (hashstring hsh))"

fun unhash_loop :: "bool \<Rightarrow> string \<Rightarrow> byte list \<times> bool" where
  "unhash_loop wrong [] = ([], wrong)"
| "unhash_loop wrong [_] = ([], wrong)"
| "unhash_loop wrong (a # b # rest) =
     (case unhashdot a b of
        (erg, w) \<Rightarrow>
          if w then ([of_nat erg], True)
          else (case unhash_loop False rest of (bs, w') \<Rightarrow> (of_nat erg # bs, w')))"

text \<open>The result buffer is allocated zeroed with \<open>strlen / 2 + 11\<close> bytes.\<close>

definition unhashstring :: "bool \<Rightarrow> string \<Rightarrow> byte list \<times> bool" where
  "unhashstring wrong hashed =
     (case unhash_loop wrong hashed of
        (bs, w) \<Rightarrow> (bs @ replicate (length hashed div 2 + 11 - length bs) 0, w))"

section \<open>The offset cipher\<close>

record salt =
  slt1 :: string
  slt2 :: string
  CODE1 :: nat
  CODE2 :: nat
  SA1 :: nat
  SA2 :: nat

definition makesalt :: salt where
  "makesalt = \<lparr>slt1 = ''ndkandroidsalt'', slt2 = ''psybncportable'',
     CODE1 = 73, CODE2 = 79, SA1 = 3, SA2 = 5\<rparr>"

record crypt_state =
  pts1 :: nat
  pts2 :: nat
  tslt1 :: nat
  tslt2 :: nat
  slen :: nat

definition crypt_init :: "salt \<Rightarrow> crypt_state" where
  "crypt_init sl = \<lparr>pts1 = SA1 sl, pts2 = SA2 sl, tslt1 = CODE1 sl, tslt2 = CODE2 sl, slen = 0\<rparr>"

text \<open>The checks at the top of the loop body.\<close>

definition crypt_reload :: "salt \<Rightarrow> crypt_state \<Rightarrow> crypt_state" where
  "crypt_reload sl st =
     st\<lparr>tslt1 := (if tslt1 st > 255 then CODE1 sl else tslt1 st),
        tslt2 := (if tslt2 st > 255 then CODE2 sl else tslt2 st),
        pts1 := (if at (slt1 sl) (pts1 st) = NUL then 0 else pts1 st),
        pts2 := (if at (slt2 sl) (pts2 st) = NUL then 0 else pts2 st)\<rparr>"

definition crypt_offset :: "salt \<Rightarrow> crypt_state \<Rightarrow> int" where
  "crypt_offset sl st =
     int (code (at (slt1 sl) (pts1 st))) + int (tslt1 st)
     - int (code (at (slt2 sl) (pts2 st))) + int (tslt2 st)"

text \<open>The updates at the end of the loop body; \<open>res / 10\<close> truncates towards zero.\<close>

definition crypt_advance :: "int \<Rightarrow> nat \<Rightarrow> crypt_state \<Rightarrow> crypt_state" where
  "crypt_advance res written st =
     st\<lparr>tslt1 := nat ((int (tslt1 st) - 1) mod 2 ^ 32),
        tslt2 := nat ((int (tslt2 st) + (if res < 0 then - ((- res) div 10) else res div 10)) mod 2 ^ 32),
        pts1 := pts1 st + 1, pts2 := pts2 st + 1, slen := slen st + written\<rparr>"

fun psycrypt_enc :: "salt \<Rightarrow> crypt_state \<Rightarrow> string \<Rightarrow> string option" where
  "psycrypt_enc sl st [] = Some []"
| "psycrypt_enc sl st (c # ptt) =
     (if slen st > 1990 then Some []
      else
        let st = crypt_reload sl st;
            erg = int (code c) + crypt_offset sl st
        in case hashdot (nat (erg mod 2 ^ 32)) of
             None \<Rightarrow> None
           | Some h \<Rightarrow>
               map_option (\<lambda>t. h @ t) (psycrypt_enc sl (crypt_advance (int (code c)) 2 st) ptt))"

fun psycrypt_dec :: "salt \<Rightarrow> crypt_state \<Rightarrow> string \<Rightarrow> string option" where
  "psycrypt_dec sl st [] = Some []"
| "psycrypt_dec sl st [h0] = (if slen st > 1990 then Some [] else None)"
| "psycrypt_dec sl st (h0 # h1 # ptt) =
     (if slen st > 1990 then Some []
      else
        let st = crypt_reload sl st;
            erg = int (fst (unhashdot h0 h1)) - crypt_offset sl st
        in map_option (\<lambda>t. char_of (nat (erg mod 256)) # t)
             (psycrypt_dec sl (crypt_advance erg 1 st) ptt))"

text \<open>A leading plus sign selects decryption. The result is read as a C string.\<close>

definition psycrypt :: "salt \<Rightarrow> string \<Rightarrow> string option" where
  "psycrypt sl st =
     (if at st 0 = CHR ''+''
      then map_option cstr (psycrypt_dec sl (crypt_init sl) (tl st))
      else map_option (\<lambda>t. cstr (CHR ''+'' # t)) (psycrypt_enc sl (crypt_init sl) st))"

definition cryptit :: "salt \<Rightarrow> string \<Rightarrow> string option" where
  "cryptit sl tocipher = (if at tocipher 0 = CHR ''+'' then Some tocipher else psycrypt sl tocipher)"

definition decryptit :: "salt \<Rightarrow> string \<Rightarrow> string option" where
  "decryptit sl todecipher =
     (if at todecipher 0 = CHR ''+'' then psycrypt sl todecipher else Some todecipher)"

section \<open>The printable byte encoding: correctness\<close>

lemma hashdot_loop_eq:
  "hl < baselen \<Longrightarrow>
   hashdot_loop cnt hh hl = (hh + (hl + cnt) div baselen, (hl + cnt) mod baselen)"
proof (induction cnt arbitrary: hh hl)
  case (Suc cnt)
  then show ?case by (auto simp: baselen_def)
qed simp

lemma length_base [simp]: "length base = 70"
  by (simp add: base_def)

lemma distinct_base: "distinct (take baselen base)"
  by (simp add: base_def baselen_def)

lemma base_no_nul [simp]: "no_nul base"
  by (simp add: base_def)

lemma find_char_base: "i < baselen \<Longrightarrow> find_char (base ! i) (take baselen base) = Some i"
proof -
  assume i: "i < baselen"
  let ?b = "take baselen base"
  have len: "length ?b = 67" by (simp add: baselen_def)
  have nth: "?b ! i = base ! i" using i by simp
  then have "find_char (base ! i) ?b \<noteq> None"
    using i len by (metis baselen_def find_char_None nth_mem)
  then obtain j where j: "find_char (base ! i) ?b = Some j" by auto
  from find_char_SomeD [OF j] have "j < length ?b" "?b ! j = ?b ! i" using nth by auto
  then have "j = i" using nth_eq_iff_index_eq [OF distinct_base, of j i] i len
    by (simp add: baselen_def)
  with j show ?thesis by simp
qed

lemma hashdot_eq:
  assumes "r < baselen * baselen"
  shows "hashdot r = Some [base ! (r div baselen), base ! (r mod baselen)]"
proof -
  have "r div baselen < baselen" "r mod baselen < baselen"
    using assms by (auto simp: baselen_def less_mult_imp_div_less)
  moreover have "i < baselen \<Longrightarrow> base_at i = Some (base ! i)" for i
    by (simp add: base_at_def at_def baselen_def)
  ultimately show ?thesis
    by (simp add: hashdot_def hashdot_loop_eq)
qed

lemma base_nth_not_nul: "i < baselen \<Longrightarrow> base ! i \<noteq> NUL"
proof -
  assume "i < baselen"
  then have "base ! i \<in> set base" by (intro nth_mem) (simp add: baselen_def)
  then show ?thesis using base_no_nul by (auto simp: no_nul_def)
qed

lemma unhashdot_hashdot:
  assumes "r < baselen * baselen" and "hashdot r = Some h"
  shows "length h = 2 \<and> no_nul h \<and> unhashdot (h ! 0) (h ! 1) = (r, False)"
proof -
  have lt: "r div baselen < baselen" "r mod baselen < baselen"
    using assms by (auto simp: baselen_def less_mult_imp_div_less)
  have h: "h = [base ! (r div baselen), base ! (r mod baselen)]"
    using assms hashdot_eq by simp
  with lt show ?thesis by (simp add: unhashdot_def find_char_base base_nth_not_nul)
qed

lemma hashstring_total: "\<exists>t. hashstring bs = Some t \<and> length t = 2 * length bs \<and> no_nul t"
proof (induction bs)
  case (Cons b bs)
  have lt: "unat b < baselen * baselen"
    using unsigned_less [of b, where 'a = nat] by (simp add: baselen_def)
  then obtain h where h: "hashdot (unat b) = Some h" using hashdot_eq by blast
  from unhashdot_hashdot [OF lt h] have "length h = 2" "no_nul h" by auto
  with Cons h show ?case by auto
qed simp

lemma unhash_loop_hashstring:
  "hashstring bs = Some t \<Longrightarrow> (bs = [] \<Longrightarrow> \<not> wrong) \<Longrightarrow> unhash_loop wrong t = (bs, False)"
proof (induction bs arbitrary: t wrong)
  case (Cons b bs)
  have lt: "unat b < baselen * baselen"
    using unsigned_less [of b, where 'a = nat] by (simp add: baselen_def)
  then obtain h where h: "hashdot (unat b) = Some h" using hashdot_eq by blast
  note u = unhashdot_hashdot [OF lt h]
  then obtain x y where xy: "h = [x, y]"
    by (metis (no_types, opaque_lifting) One_nat_def Suc_1 Suc_length_conv length_0_conv)
  from Cons.prems(1) h obtain t' where t': "hashstring bs = Some t'" "t = h @ t'"
    using u by auto
  with Cons.IH [OF t'(1), of False] u xy show ?case by simp
qed simp

lemma unhashstring_hashstring:
  assumes "hashstring bs = Some t" and "bs \<noteq> []"
  shows "unhashstring wrong t = (bs @ replicate 11 0, False)"
proof -
  have "length t = 2 * length bs" using assms(1) hashstring_total [of bs] by auto
  then show ?thesis
    using unhash_loop_hashstring [OF assms(1), of wrong] assms(2) by (simp add: unhashstring_def)
qed

text \<open>
  The printable encoding is lossless: every byte sequence is encoded, without a NUL and
  with two characters per byte, and decoding returns the same bytes with the error flag clear.
\<close>

theorem hashstring_roundtrip:
  "\<exists>t. hashstring bs = Some t \<and> no_nul t \<and> length t = 2 * length bs \<and>
     unhash_loop False t = (bs, False)"
  using hashstring_total [of bs] unhash_loop_hashstring [of bs _ False] by blast

section \<open>The offset cipher: correctness\<close>

text \<open>
  What the cipher needs of a salt: letters only, start codes in one byte, and a second code
  that is at least the distance between two letters.
\<close>

definition salt_ok :: "salt \<Rightarrow> bool" where
  "salt_ok sl \<longleftrightarrow>
     slt1 sl \<noteq> [] \<and> slt2 sl \<noteq> [] \<and>
     (\<forall>c \<in> set (slt1 sl) \<union> set (slt2 sl). 97 \<le> code c \<and> code c \<le> 122) \<and>
     CODE1 sl \<le> 255 \<and> 25 \<le> CODE2 sl \<and> CODE2 sl \<le> 255"

definition crypt_inv :: "salt \<Rightarrow> crypt_state \<Rightarrow> bool" where
  "crypt_inv sl st \<longleftrightarrow> 25 \<le> tslt2 st"

lemma at_salt_bounds:
  assumes "\<forall>c \<in> set s. 97 \<le> code c \<and> code c \<le> 122" and "s \<noteq> []"
  shows "97 \<le> code (at s (if at s i = NUL then 0 else i)) \<and>
         code (at s (if at s i = NUL then 0 else i)) \<le> 122"
proof (cases "i < length s")
  case True
  then have b: "97 \<le> code (s ! i) \<and> code (s ! i) \<le> 122" using assms(1) by simp
  then have "s ! i \<noteq> NUL" by (auto simp del: code_eq_0 simp: code_def)
  with b True show ?thesis by (simp add: at_def)
next
  case False
  then show ?thesis using assms by (auto simp: at_def)
qed

lemma crypt_offset_bounds:
  assumes "salt_ok sl" and "crypt_inv sl st"
  shows "0 \<le> crypt_offset sl (crypt_reload sl st) \<and> crypt_offset sl (crypt_reload sl st) \<le> 535"
proof -
  let ?a = "code (at (slt1 sl) (pts1 (crypt_reload sl st)))"
  let ?b = "code (at (slt2 sl) (pts2 (crypt_reload sl st)))"
  have a: "97 \<le> ?a \<and> ?a \<le> 122"
    using at_salt_bounds [of "slt1 sl" "pts1 st"] assms(1) by (simp add: salt_ok_def crypt_reload_def)
  have b: "97 \<le> ?b \<and> ?b \<le> 122"
    using at_salt_bounds [of "slt2 sl" "pts2 st"] assms(1) by (simp add: salt_ok_def crypt_reload_def)
  have "tslt1 (crypt_reload sl st) \<le> 255" "25 \<le> tslt2 (crypt_reload sl st)"
    "tslt2 (crypt_reload sl st) \<le> 255"
    using assms by (auto simp: salt_ok_def crypt_inv_def crypt_reload_def)
  with a b show ?thesis unfolding crypt_offset_def by linarith
qed

lemma crypt_inv_advance:
  assumes "salt_ok sl" and "crypt_inv sl st"
  shows "crypt_inv sl (crypt_advance (int (code c)) w (crypt_reload sl st))"
proof -
  have "25 \<le> tslt2 (crypt_reload sl st)" "tslt2 (crypt_reload sl st) \<le> 255"
    using assms by (auto simp: salt_ok_def crypt_inv_def crypt_reload_def)
  moreover have "0 \<le> int (code c) div 10" "int (code c) div 10 < 256"
    using code_less [of c] by linarith+
  ultimately have "int (tslt2 (crypt_reload sl st)) + int (code c) div 10 < 2 ^ 32"
    "25 \<le> int (tslt2 (crypt_reload sl st)) + int (code c) div 10" by auto
  then show ?thesis by (simp add: crypt_inv_def crypt_advance_def mod_pos_pos_trivial)
qed

lemma crypt_advance_slen:
  "crypt_advance r w st = (crypt_advance r w' st)\<lparr>slen := slen st + w\<rparr>"
  by (simp add: crypt_advance_def)

text \<open>Encrypting and decrypting walk through the same sequence of offsets.\<close>

lemma crypt_steps_agree:
  assumes "st' = st\<lparr>slen := k\<rparr>"
  shows "crypt_offset sl (crypt_reload sl st') = crypt_offset sl (crypt_reload sl st)"
    and "crypt_advance r w' (crypt_reload sl st') =
         (crypt_advance r w (crypt_reload sl st))\<lparr>slen := k + w'\<rparr>"
  using assms by (simp_all add: crypt_offset_def crypt_reload_def crypt_advance_def)

lemma psycrypt_dec_enc:
  assumes "salt_ok sl"
  shows "crypt_inv sl st \<Longrightarrow> slen st + 2 * length s \<le> 1992 \<Longrightarrow> k + length s \<le> 1991 \<Longrightarrow>
    \<exists>t. psycrypt_enc sl st s = Some t \<and> no_nul t \<and> length t = 2 * length s \<and>
        psycrypt_dec sl (st\<lparr>slen := k\<rparr>) t = Some s"
proof (induction s arbitrary: st k)
  case (Cons c s)
  let ?r = "crypt_reload sl st" and ?r' = "crypt_reload sl (st\<lparr>slen := k\<rparr>)"
  let ?erg = "int (code c) + crypt_offset sl ?r"
  have "0 \<le> ?erg" "?erg < 791"
    using crypt_offset_bounds [OF assms Cons.prems(1)] code_less [of c] by linarith+
  then have bounds: "0 \<le> ?erg" "?erg < 2 ^ 32" "nat ?erg < baselen * baselen"
    by (auto simp: baselen_def)
  then have mod: "nat (?erg mod 2 ^ 32) = nat ?erg" by (simp add: mod_pos_pos_trivial)
  obtain h where h: "hashdot (nat ?erg) = Some h" using hashdot_eq [OF bounds(3)] by blast
  note u = unhashdot_hashdot [OF bounds(3) h]
  obtain x y where xy: "h = [x, y]"
    using u by (metis (no_types, opaque_lifting) One_nat_def Suc_1 Suc_length_conv length_0_conv)
  let ?st1 = "crypt_advance (int (code c)) 2 ?r"
  have sl1: "slen ?st1 = slen st + 2" by (simp add: crypt_advance_def crypt_reload_def)
  obtain t where t: "psycrypt_enc sl ?st1 s = Some t" "no_nul t"
      "psycrypt_dec sl (?st1\<lparr>slen := k + 1\<rparr>) t = Some s" "length t = 2 * length s"
    using Cons.IH [of ?st1 "k + 1"] crypt_inv_advance [OF assms Cons.prems(1)] Cons.prems sl1 by auto
  have enc: "psycrypt_enc sl st (c # s) = Some (h @ t)"
    using Cons.prems h t mod by simp
  have dec_erg: "int (nat ?erg) - crypt_offset sl ?r' = int (code c)"
    using bounds crypt_steps_agree(1) [OF refl] by simp
  have adv: "crypt_advance (int (code c)) 1 ?r' = ?st1\<lparr>slen := k + 1\<rparr>"
    by (rule crypt_steps_agree(2) [OF refl])
  have "psycrypt_dec sl (st\<lparr>slen := k\<rparr>) (h @ t) = Some (c # s)"
    using Cons.prems(3) u xy dec_erg adv t(3) by (simp add: Let_def)
  with enc u xy t(2,4) show ?case by auto
qed simp

text \<open>The encrypted text has a plus sign and two characters for each of the text.\<close>

lemma cryptit_back:
  assumes "salt_ok sl" and "no_nul s" and "length s \<le> 995" and "at s 0 \<noteq> CHR ''+''"
  shows "\<exists>t. cryptit sl s = Some (CHR ''+'' # t) \<and> length t = 2 * length s \<and> decryptit sl (CHR ''+'' # t) = Some s"
proof -
  have inv: "crypt_inv sl (crypt_init sl)" using assms(1)
    by (simp add: crypt_inv_def crypt_init_def salt_ok_def)
  have eq: "(crypt_init sl)\<lparr>slen := 0\<rparr> = crypt_init sl" by (simp add: crypt_init_def)
  obtain t where t: "psycrypt_enc sl (crypt_init sl) s = Some t" "no_nul t" "length t = 2 * length s"
      "psycrypt_dec sl (crypt_init sl) t = Some s"
    using psycrypt_dec_enc [OF assms(1) inv, of s 0] assms(3) eq by (auto simp: crypt_init_def)
  have "cryptit sl s = Some (CHR ''+'' # t)"
    using assms(4) t by (simp add: cryptit_def psycrypt_def)
  moreover have "decryptit sl (CHR ''+'' # t) = Some s"
    using t assms(2) by (simp add: decryptit_def psycrypt_def at_def)
  ultimately show ?thesis using t(3) by auto
qed

text \<open>
  (C33) A stored password or key survives its encryption: for every salt of the expected
  shape and every text of at most 995 characters that does not itself start with a plus
  sign, \<open>cryptit\<close> succeeds, marks its result with a plus sign, and \<open>decryptit\<close> gives
  the text back.
\<close>

theorem decryptit_cryptit:
  assumes "salt_ok sl" and "no_nul s" and "length s \<le> 995" and "at s 0 \<noteq> CHR ''+''"
  shows "\<exists>t. cryptit sl s = Some t \<and> at t 0 = CHR ''+'' \<and> decryptit sl t = Some s"
proof -
  obtain t where "cryptit sl s = Some (CHR ''+'' # t)" "decryptit sl (CHR ''+'' # t) = Some s"
    using cryptit_back [OF assms] by blast
  then show ?thesis by (intro exI [of _ "CHR ''+'' # t"]) (simp add: at_def)
qed

lemma makesalt_ok: "salt_ok makesalt"
  by (simp add: salt_ok_def makesalt_def code_def)

theorem decryptit_cryptit_witness:
  "\<exists>t. cryptit makesalt ''secret pass'' = Some t \<and> at t 0 = CHR ''+'' \<and>
     decryptit makesalt t = Some ''secret pass''"
  by (rule decryptit_cryptit [OF makesalt_ok]) (simp_all add: at_def)

end
