(* ===== verification/BlockCipher.thy ===== *)
theory BlockCipher
  imports Crypt
begin

text \<open>
  The contract a block cipher gives to the string encryption built on it: 8-byte blocks are
  mapped to 8-byte blocks and deciphering undoes enciphering. \<open>map_blocks\<close> is the loop that
  both ciphers of the program run over a buffer, block by block; the round trip of the whole
  buffer is proved once, from the contract.
\<close>

function map_blocks :: "(byte list \<Rightarrow> byte list) \<Rightarrow> byte list \<Rightarrow> byte list" where
  "map_blocks f bs = (if bs = [] then [] else f (take 8 bs) @ map_blocks f (drop 8 bs))"
  by pat_completeness auto
termination
  by (relation "measure (\<lambda>(f, bs). length bs)") auto

declare map_blocks.simps [simp del]

lemma map_blocks_Nil [simp]: "map_blocks f [] = []"
  by (simp add: map_blocks.simps)

lemma map_blocks_append:
  "length b = 8 \<Longrightarrow> map_blocks f (b @ bs) = f b @ map_blocks f bs"
  by (subst map_blocks.simps) auto

lemma blocks_induct [consumes 1, case_names Nil Block]:
  assumes "8 dvd length bs" and "P []"
    and "\<And>b bs. length b = 8 \<Longrightarrow> 8 dvd length bs \<Longrightarrow> P bs \<Longrightarrow> P (b @ bs)"
  shows "P bs"
  using assms(1)
proof (induction "length bs" arbitrary: bs rule: less_induct)
  case less
  show ?case
  proof (cases "bs = []")
    case False
    then have ge: "8 \<le> length bs" using less(2) by (simp add: dvd_imp_le)
    then have "P (drop 8 bs)" using less by auto
    then have "P (take 8 bs @ drop 8 bs)" using ge less(2) by (intro assms(3)) auto
    then show ?thesis by simp
  qed (simp add: assms(2))
qed

lemma map_blocks_append_dvd:
  "8 dvd length a \<Longrightarrow> map_blocks f (a @ b) = map_blocks f a @ map_blocks f b"
  by (induction a rule: blocks_induct) (simp_all add: map_blocks_append)

locale block_cipher =
  fixes encb :: "byte list \<Rightarrow> byte list"
    and decb :: "byte list \<Rightarrow> byte list"
  assumes length_encb: "length b = 8 \<Longrightarrow> length (encb b) = 8"
    and decb_encb: "length b = 8 \<Longrightarrow> decb (encb b) = b"
begin

lemma length_map_encb: "8 dvd length bs \<Longrightarrow> length (map_blocks encb bs) = length bs"
  by (induction bs rule: blocks_induct) (simp_all add: map_blocks_append length_encb)

lemma map_decb_map_encb: "8 dvd length bs \<Longrightarrow> map_blocks decb (map_blocks encb bs) = bs"
  by (induction bs rule: blocks_induct) (simp_all add: map_blocks_append length_encb decb_encb)

text \<open>Distinct blocks have distinct ciphers.\<close>

lemma encb_inj: "length a = 8 \<Longrightarrow> length b = 8 \<Longrightarrow> encb a = encb b \<Longrightarrow> a = b"
  by (metis decb_encb)

end

text \<open>Padding with zero bytes to full blocks, as both string encryptions do.\<close>

definition zero_pad :: "byte list \<Rightarrow> byte list" where
  "zero_pad bs = bs @ replicate ((8 - length bs mod 8) mod 8) 0"

lemma zero_pad_dvd [simp]: "8 dvd length (zero_pad bs)"
proof -
  define r where "r = length bs mod 8"
  have r: "r < 8" by (simp add: r_def)
  have "(length bs + (8 - r) mod 8) mod 8 = (r + (8 - r)) mod 8"
    unfolding r_def by (simp only: mod_add_left_eq mod_add_right_eq)
  also have "r + (8 - r) = 8" using r by simp
  finally have "(length bs + (8 - r) mod 8) mod 8 = 0" by simp
  then show ?thesis
    unfolding zero_pad_def length_append length_replicate r_def [symmetric]
    by (rule mod_0_imp_dvd)
qed

lemma cstr_zero_pad:
  "no_nul s \<Longrightarrow> cstr (map char_of_byte (zero_pad (map byte_of s) @ replicate k 0)) = s"
proof -
  assume s: "no_nul s"
  have c0: "char_of_byte 0 = NUL" by (simp add: char_of_byte_def char_of_def)
  have tail: "cstr (s @ replicate j NUL) = s" for j
    using s by (cases j) simp_all
  have "map char_of_byte (zero_pad (map byte_of s) @ replicate k 0) =
      s @ replicate ((8 - length s mod 8) mod 8 + k) NUL"
    by (simp add: zero_pad_def c0 comp_def replicate_add)
  then show ?thesis by (simp add: tail)
qed

end
