(* ===== verification/Idea.thy ===== *)
theory Idea
  imports BlockCipher "HOL-Library.Monad_Syntax"
begin

text \<open>
  The IDEA cipher of src/p_idea.c and the string encryption built on it. \<open>unsigned short\<close> is
  a 16-bit word, arithmetic wraps. The global key arrays are the fields of a state record.
  \<open>None\<close> stands for a read or a write outside an array, and for a loop that does not end
  (\<open>MulInv\<close>, whose loop is a \<open>partial_function\<close>; it is proved to end).

  The build is the one without \<open>BIGIDEA\<close> on a little-endian machine. A key argument is the
  memory at the key pointer, since 16 bytes are copied from there whatever the key's length.
\<close>

unbundle bit_operations_syntax

type_synonym word16 = "16 word"

definition IDEAROUNDS :: nat where
  "IDEAROUNDS = 8"

definition IDEAKEYLEN :: nat where
  "IDEAKEYLEN = 6 * IDEAROUNDS + 4"

record idea_state =
  IDEAUserKey :: "byte list"
  IDEAEncryptionKey :: "word16 list"
  IDEADecryptionKey :: "word16 list"

section \<open>Multiplication and its inverse\<close>

definition IDEA_MUL :: "word16 \<Rightarrow> word16 \<Rightarrow> word16" where
  "IDEA_MUL x y =
     (if y \<noteq> 0 then
        (if x \<noteq> 0 then
           let t32 = (ucast x :: 32 word) * ucast y;
               x' = (ucast t32 :: word16);
               t16 = (ucast (drop_bit 16 t32) :: word16)
           in (x' - t16) + (if x' < t16 then 1 else 0)
         else 1 - y)
      else 1 - x)"

text \<open>The \<open>do ... while (y != 1)\<close> loop; \<open>q\<close> keeps its value when \<open>y\<close> is 0.\<close>

partial_function (option) mulinv_loop ::
  "word16 \<Rightarrow> word16 \<Rightarrow> word16 \<Rightarrow> word16 \<Rightarrow> word16 \<Rightarrow> word16 option" where
  "mulinv_loop q x y t0 t1 =
     (let q1 = (if y > 0 then x div y else q);
          x1 = (if y > 0 then x mod y else x);
          t0' = t0 + q1 * t1
      in if x1 \<le> 1 then Some t0'
         else
           let q2 = y div x1;
               y2 = y mod x1;
               t1' = t1 + q2 * t0'
           in if y2 \<noteq> 1 then mulinv_loop q2 x1 y2 t0' t1' else Some (1 - t1'))"

definition MulInv :: "word16 \<Rightarrow> word16 option" where
  "MulInv x =
     (if x \<le> 1 then Some x
      else
        let t1 = (of_nat (0x10001 div unat x) :: word16);
            y = (of_nat (0x10001 mod unat x) :: word16)
        in if y = 1 then Some (1 - t1) else mulinv_loop 0 x y 1 t1)"

section \<open>The key schedule\<close>

definition user_words :: "byte list \<Rightarrow> word16 list" where
  "user_words userkey =
     map (\<lambda>j. push_bit 8 (ucast (userkey ! (2 * j))) + ucast (userkey ! (2 * j + 1))) [0..<8]"

text \<open>One turn of the second loop on the array, the offset of the moving pointer and \<open>i\<close>.\<close>

definition expand_step :: "nat \<Rightarrow> word16 list \<times> nat \<times> nat \<Rightarrow> word16 list \<times> nat \<times> nat" where
  "expand_step j s =
     (case s of (ek, off, i0) \<Rightarrow>
        let i = i0 + 1 in
        (ek[off + i + 7 :=
             push_bit 9 (ek ! (off + i mod 8)) OR drop_bit 7 (ek ! (off + (i + 1) mod 8))],
         off + (if i = 8 then 8 else 0), i mod 8))"

definition encryption_key :: "byte list \<Rightarrow> word16 list" where
  "encryption_key userkey =
     fst (fold expand_step [8..<IDEAKEYLEN]
            (user_words userkey @ replicate (IDEAKEYLEN - 8) 0, 0, 0))"

text \<open>
  The decryption key is filled from its end: \<open>p\<close> is the part already written. A group is one
  multiplicative, two additive and one multiplicative key; the groups in the middle exchange
  the additive keys.
\<close>

definition invert_group :: "bool \<Rightarrow> word16 list \<Rightarrow> word16 list \<Rightarrow> word16 list option" where
  "invert_group exchange ek p =
     do {
       t1 \<leftarrow> MulInv (ek ! 0);
       t4 \<leftarrow> MulInv (ek ! 3);
       let t2 = - (ek ! 1);
       let t3 = - (ek ! 2);
       Some (if exchange then t1 # t3 # t2 # t4 # p else t1 # t2 # t3 # t4 # p)
     }"

primrec decryption_rounds :: "nat \<Rightarrow> word16 list \<Rightarrow> word16 list \<Rightarrow> (word16 list \<times> word16 list) option" where
  "decryption_rounds 0 ek p = Some (ek, p)"
| "decryption_rounds (Suc n) ek p =
     do {
       p' \<leftarrow> invert_group True (drop 2 ek) (ek ! 0 # ek ! 1 # p);
       decryption_rounds n (drop 6 ek) p'
     }"

definition decryption_key :: "word16 list \<Rightarrow> word16 list option" where
  "decryption_key ek =
     do {
       p \<leftarrow> invert_group False ek [];
       (ek', p') \<leftarrow> decryption_rounds (IDEAROUNDS - 1) (drop 4 ek) p;
       invert_group False (drop 2 ek') (ek' ! 0 # ek' ! 1 # p')
     }"

definition generatePartKeys :: "idea_state \<Rightarrow> idea_state option" where
  "generatePartKeys st =
     do {
       let ek = encryption_key (IDEAUserKey st);
       dk \<leftarrow> decryption_key ek;
       Some (st\<lparr>IDEAEncryptionKey := ek, IDEADecryptionKey := dk\<rparr>)
     }"

text \<open>The key made from the clock: \<open>d\<close> is the difference of the two times.\<close>

fun generateKey_loop :: "nat \<Rightarrow> byte \<Rightarrow> byte list \<Rightarrow> nat \<Rightarrow> nat \<Rightarrow> byte list option" where
  "generateKey_loop 0 d uk byte_pos bit_pos = Some uk"
| "generateKey_loop (Suc cnt) d uk byte_pos bit_pos =
     (if byte_pos < length uk
      then let uk' = uk[byte_pos := uk ! byte_pos OR push_bit bit_pos (d AND 3)] in
        (if bit_pos = 6 then generateKey_loop cnt d uk' (byte_pos + 1) 0
         else generateKey_loop cnt d uk' byte_pos (bit_pos + 2))
      else None)"

definition generateKey_start :: "idea_state \<Rightarrow> idea_state" where
  "generateKey_start st = st\<lparr>IDEAUserKey := replicate 16 0\<rparr>"

definition generateKey_action :: "byte \<Rightarrow> idea_state \<Rightarrow> idea_state option" where
  "generateKey_action d st =
     map_option (\<lambda>uk. st\<lparr>IDEAUserKey := uk\<rparr>) (generateKey_loop 2000 d (IDEAUserKey st) 0 0)"

definition IDEAKEY_generate :: "byte list \<Rightarrow> idea_state \<Rightarrow> idea_state option" where
  "IDEAKEY_generate UserKey st =
     (if UserKey = [] then None
      else if UserKey ! 0 = 0 then generatePartKeys (st\<lparr>IDEAUserKey := replicate 16 0\<rparr>)
      else if 16 \<le> length UserKey then generatePartKeys (st\<lparr>IDEAUserKey := take 16 UserKey\<rparr>)
      else None)"

definition IDEAKEY_clear :: "idea_state \<Rightarrow> idea_state" where
  "IDEAKEY_clear st =
     st\<lparr>IDEAUserKey := replicate 16 0, IDEAEncryptionKey := replicate IDEAKEYLEN 0,
        IDEADecryptionKey := replicate IDEAKEYLEN 0\<rparr>"

definition IDEA_keyset :: "byte \<Rightarrow> byte list \<Rightarrow> idea_state \<Rightarrow> idea_state option" where
  "IDEA_keyset d key st =
     (if key = [] then None
      else if key ! 0 = 0
      then do {
        st' \<leftarrow> generateKey_action d (generateKey_start (IDEAKEY_clear st));
        generatePartKeys st'
      }
      else IDEAKEY_generate key (IDEAKEY_clear st))"

section \<open>The cipher\<close>

type_synonym quad = "word16 \<times> word16 \<times> word16 \<times> word16"

definition cipher_round :: "word16 list \<Rightarrow> quad \<Rightarrow> quad" where
  "cipher_round key x =
     (case x of (x1, x2, x3, x4) \<Rightarrow>
        let x1 = IDEA_MUL x1 (key ! 0);
            x2 = x2 + key ! 1;
            x3 = x3 + key ! 2;
            x4 = IDEA_MUL x4 (key ! 3);
            s3 = x3;
            x3 = IDEA_MUL (x3 XOR x1) (key ! 4);
            s2 = x2;
            x2 = IDEA_MUL ((x2 XOR x4) + x3) (key ! 5);
            x3 = x3 + x2;
            x1 = x1 XOR x2;
            x4 = x4 XOR x3;
            x2 = x2 XOR s3;
            x3 = x3 XOR s2
        in (x1, x2, x3, x4))"

primrec cipher_rounds :: "nat \<Rightarrow> word16 list \<Rightarrow> quad \<Rightarrow> word16 list \<times> quad" where
  "cipher_rounds 0 key x = (key, x)"
| "cipher_rounds (Suc r) key x = cipher_rounds r (drop 6 key) (cipher_round key x)"

text \<open>The halves are stored in the order \<open>x1, x3, x2, x4\<close>.\<close>

definition cipher_words :: "word16 list \<Rightarrow> quad \<Rightarrow> quad" where
  "cipher_words key x =
     (case cipher_rounds IDEAROUNDS key x of (key', x1, x2, x3, x4) \<Rightarrow>
        (IDEA_MUL x1 (key' ! 0), x3 + key' ! 1, x2 + key' ! 2, IDEA_MUL x4 (key' ! 3)))"

definition swap_bytes :: "word16 \<Rightarrow> word16" where
  "swap_bytes x = drop_bit 8 x OR push_bit 8 x"

definition short_at :: "byte list \<Rightarrow> nat \<Rightarrow> word16" where
  "short_at b i = push_bit 8 (ucast (b ! (i + 1))) + ucast (b ! i)"

text \<open>Storing an \<open>unsigned short\<close> on a little-endian machine.\<close>

definition short_bytes :: "word16 \<Rightarrow> byte list" where
  "short_bytes x = [ucast x, ucast (drop_bit 8 x)]"

definition cipher :: "word16 list \<Rightarrow> byte list \<Rightarrow> byte list" where
  "cipher key inbuf =
     (case cipher_words key
             (swap_bytes (short_at inbuf 0), swap_bytes (short_at inbuf 2),
              swap_bytes (short_at inbuf 4), swap_bytes (short_at inbuf 6))
      of (o0, o1, o2, o3) \<Rightarrow>
        let cout = short_bytes (swap_bytes o0) @ short_bytes (swap_bytes o1)
                 @ short_bytes (swap_bytes o2) @ short_bytes (swap_bytes o3)
        in short_bytes (short_at cout 0) @ short_bytes (short_at cout 2)
         @ short_bytes (short_at cout 4) @ short_bytes (short_at cout 6))"

section \<open>Buffers and strings\<close>

text \<open>The first loop takes the full blocks, the rest is padded with zero bytes.\<close>

definition IDEAencrypt :: "idea_state \<Rightarrow> byte list \<Rightarrow> byte list" where
  "IDEAencrypt st input =
     (let sz = length input;
          n = sz - sz mod 8;
          full = map_blocks (cipher (IDEAEncryptionKey st)) (take n input)
      in if sz mod 8 > 0
         then full @ cipher (IDEAEncryptionKey st)
                       (take 8 (drop n input @ replicate 8 0))
         else full)"

text \<open>\<open>None\<close>: a block that reaches over the end of the input.\<close>

function IDEAdecrypt_loop :: "idea_state \<Rightarrow> byte list \<Rightarrow> nat \<Rightarrow> byte list option" where
  "IDEAdecrypt_loop st input sz =
     (if sz = 0 then Some []
      else if length input < 8 then None
      else map_option (\<lambda>t. cipher (IDEADecryptionKey st) (take 8 input) @ t)
             (IDEAdecrypt_loop st (drop 8 input) (sz - 8)))"
  by pat_completeness auto
termination
  by (relation "measure (\<lambda>(st, input, sz). sz)") auto

declare IDEAdecrypt_loop.simps [simp del]

text \<open>
  The result buffer has \<open>size + 9\<close> bytes and is zeroed; what lies behind the blocks written
  is kept here so that the result can be read as a C string.
\<close>

definition IDEAdecrypt :: "idea_state \<Rightarrow> byte list \<Rightarrow> nat \<Rightarrow> byte list option" where
  "IDEAdecrypt st input sz =
     map_option (\<lambda>t. t @ replicate (sz + 9 - length t) 0) (IDEAdecrypt_loop st input sz)"

definition IDEA_encrypt :: "byte \<Rightarrow> idea_state \<Rightarrow> byte list \<Rightarrow> byte list \<Rightarrow> (byte list \<times> idea_state) option" where
  "IDEA_encrypt d st input key =
     map_option (\<lambda>st'. (IDEAencrypt st' input, st')) (IDEA_keyset d key st)"

definition IDEA_decrypt ::
  "byte \<Rightarrow> idea_state \<Rightarrow> byte list \<Rightarrow> byte list \<Rightarrow> nat \<Rightarrow> (byte list \<times> idea_state) option" where
  "IDEA_decrypt d st input key sz =
     do {
       st' \<leftarrow> IDEA_keyset d key st;
       r \<leftarrow> IDEAdecrypt st' input sz;
       Some (r, st')
     }"

definition cut_line :: "string \<Rightarrow> string" where
  "cut_line input =
     (case strchr input LF of
        Some i \<Rightarrow> take i input
      | None \<Rightarrow> (case strchr input CR of Some i \<Rightarrow> take i input | None \<Rightarrow> input))"

definition IDEA_stringencrypt :: "byte \<Rightarrow> idea_state \<Rightarrow> string \<Rightarrow> byte list \<Rightarrow> (string \<times> idea_state) option" where
  "IDEA_stringencrypt d st input0 key =
     (let input = cut_line input0 in
      do {
        (result, st') \<leftarrow> IDEA_encrypt d st (map byte_of input @ [0]) key;
        hashed \<leftarrow> hashstring result;
        Some (if input = [] then [] else hashed, st')
      })"

definition IDEA_stringdecrypt ::
  "bool \<Rightarrow> byte \<Rightarrow> idea_state \<Rightarrow> string \<Rightarrow> byte list \<Rightarrow> (string \<times> idea_state \<times> bool) option" where
  "IDEA_stringdecrypt wrong0 d st input0 key =
     (let input = cut_line input0 in
      case unhashstring wrong0 input of
        (unhashed, wrong) \<Rightarrow>
          if wrong then Some (cstr (map char_of_byte unhashed), st, wrong)
          else do {
            (result, st') \<leftarrow> IDEA_decrypt d st unhashed key (length input div 2);
            Some (if input = [] then [] else cstr (map char_of_byte result), st', wrong)
          })"

section \<open>Multiplication modulo 65537\<close>

text \<open>The number a word stands for: 0 stands for 65536.\<close>

definition mv :: "word16 \<Rightarrow> nat" where
  "mv x = (if x = 0 then 65536 else unat x)"

lemma unat_less_16: "unat (x :: word16) < 65536"
  using unsigned_less [of x, where 'a = nat] by simp

lemma mv_bounds: "1 \<le> mv x" "mv x \<le> 65536"
  using unat_less_16 [of x] by (auto simp: mv_def Suc_le_eq unat_gt_0)

lemma mv_inject: "mv x = mv y \<Longrightarrow> x = y"
  using unat_less_16 [of x] unat_less_16 [of y] by (auto simp: mv_def intro: unsigned_word_eqI split: if_splits)

lemma mv_of_nat: "1 \<le> n \<Longrightarrow> n \<le> 65536 \<Longrightarrow> mv (of_nat n) = n"
proof -
  assume n: "1 \<le> n" "n \<le> 65536"
  show ?thesis
  proof (cases "n = 65536")
    case True
    then have "(of_nat n :: word16) = 0" by (simp add: word_of_nat_eq_0_iff)
    with True show ?thesis by (simp add: mv_def)
  next
    case False
    with n have lt: "n < 65536" by simp
    then have "\<not> 65536 dvd n" using n by (auto dest: dvd_imp_le)
    with lt show ?thesis by (simp add: mv_def word_of_nat_eq_0_iff unat_of_nat)
  qed
qed

lemma no_small_divisor:
  assumes "2 \<le> d" and "d \<le> 256"
  shows "(65537 :: nat) mod d \<noteq> 0"
proof -
  have "list_all (\<lambda>d. (65537 :: nat) mod d \<noteq> 0) [2..<257]" by simp
  then show ?thesis using assms by (auto simp: list_all_iff simp del: upt_rec_numeral)
qed

lemma coprime_65537:
  assumes "1 \<le> a" and "a \<le> 65536"
  shows "coprime a (65537 :: nat)"
proof -
  define g where "g = gcd a 65537"
  have "g dvd 65537" by (simp add: g_def)
  then obtain k where k: "g * k = 65537" by (metis dvdE)
  then have kd: "65537 mod g = 0" "65537 mod k = 0"
    by (simp_all only: k [symmetric] mod_mult_self1_is_0 mod_mult_self2_is_0)
  have g: "g \<le> a" unfolding g_def by (rule gcd_le1_nat) (use assms(1) in simp)
  have "0 < g" unfolding g_def by simp
  have "g = 1"
  proof (rule ccontr)
    assume "g \<noteq> 1"
    then have g2: "2 \<le> g" using \<open>0 < g\<close> by linarith
    have k2: "2 \<le> k"
    proof (rule ccontr)
      assume "\<not> 2 \<le> k"
      then consider "k = 0" | "k = 1" by linarith
      then show False
      proof cases
        case 2
        then have "g = 65537" using k by simp
        then show False using g assms(2) by simp
      qed (use k in simp)
    qed
    have "g \<le> 256 \<or> k \<le> 256"
    proof (rule ccontr)
      assume "\<not> ?thesis"
      then have "257 \<le> g" "257 \<le> k" by auto
      then have "257 * 257 \<le> g * k" by (rule mult_le_mono)
      then show False using k by simp
    qed
    then show False using no_small_divisor [of g] no_small_divisor [of k] g2 k2 kd by linarith
  qed
  then show ?thesis by (simp add: g_def coprime_iff_gcd_eq_1)
qed

lemma mul_mod_nonzero:
  assumes "1 \<le> a" "a \<le> 65536" "1 \<le> b" "b \<le> 65536"
  shows "a * b mod 65537 \<noteq> (0 :: nat)"
proof
  assume "a * b mod 65537 = 0"
  then have "65537 dvd a * b" by (rule mod_0_imp_dvd)
  moreover have "coprime 65537 a" using coprime_65537 [OF assms(1,2)] by (simp add: coprime_commute)
  ultimately have "65537 dvd b" by (simp add: coprime_dvd_mult_right_iff)
  then show False using assms by (auto dest: dvd_imp_le)
qed

lemma mv_one_minus: "y \<noteq> 0 \<Longrightarrow> mv (1 - y) = 65537 - unat y"
proof -
  assume "y \<noteq> 0"
  then have b: "0 < unat y" by (simp add: unat_gt_0)
  have lt: "unat y < 65536" by (rule unat_less_16)
  have "(of_nat (65537 - unat y) :: word16) = of_nat 65537 - y"
    using lt by (subst of_nat_diff) simp_all
  then have "1 - y = of_nat (65537 - unat y)" by simp
  moreover have "mv (of_nat (65537 - unat y)) = 65537 - unat y"
    using b lt by (intro mv_of_nat) simp_all
  ultimately show ?thesis by (simp only:)
qed

lemma mod_eqI: "n = q * m + r \<Longrightarrow> r < m \<Longrightarrow> n mod m = (r :: nat)"
  by simp

lemma fold_low_high:
  fixes p :: nat
  assumes "p < 2 ^ 32" and "p mod 65537 \<noteq> 0"
  defines "l \<equiv> p mod 65536" and "h \<equiv> p div 65536"
  shows "p mod 65537 = (if l < h then l + 65537 - h else l - h)"
proof -
  have p: "p = h * 65536 + l" unfolding h_def l_def by simp
  have lh: "l < 65536" "h < 65536" using assms(1) unfolding h_def l_def by (simp_all add: less_mult_imp_div_less)
  show ?thesis
  proof (cases "l < h")
    case True
    then have "p = (h - 1) * 65537 + (l + 65537 - h)" using p lh by (simp add: diff_mult_distrib)
    moreover have "l + 65537 - h < 65537" using True by simp
    ultimately show ?thesis using True mod_eqI [of p "h - 1" 65537 "l + 65537 - h"] by simp
  next
    case False
    then have "p = h * 65537 + (l - h)" using p by simp
    moreover have "l - h < 65537" using lh by simp
    ultimately show ?thesis using False mod_eqI [of p h 65537 "l - h"] by simp
  qed
qed

lemma mv_mul_nonzero:
  assumes "x \<noteq> 0" and "y \<noteq> 0"
  shows "mv (IDEA_MUL x y) = unat x * unat y mod 65537"
proof -
  let ?p = "unat x * unat y"
  let ?t = "(ucast x :: 32 word) * ucast y"
  have b: "1 \<le> unat x" "unat x \<le> 65535" "1 \<le> unat y" "unat y \<le> 65535"
    using assms unat_less_16 [of x] unat_less_16 [of y] by (auto simp: Suc_le_eq unat_gt_0)
  have le: "?p \<le> 65535 * 65535" using b by (intro mult_le_mono)
  then have lt: "?p < 2 ^ 32" by simp
  have nz: "?p mod 65537 \<noteq> 0" using b by (intro mul_mod_nonzero) auto
  have t: "unat ?t = ?p"
    using lt b by (simp add: unat_word_ariths unsigned_ucast_eq take_bit_eq_mod)
  define l h where "l = ?p mod 65536" and "h = ?p div 65536"
  have lh: "l < 65536" "h < 65536"
    using lt unfolding h_def l_def by (simp_all add: less_mult_imp_div_less)
  have low: "unat (ucast ?t :: word16) = l"
    unfolding unsigned_ucast_eq t by (simp add: take_bit_eq_mod l_def)
  have high: "unat (ucast (drop_bit 16 ?t) :: word16) = h"
    using lh unfolding unsigned_ucast_eq unat_drop_bit_eq t by (simp add: take_bit_eq_mod drop_bit_eq_div h_def)
  have "IDEA_MUL x y = of_nat (if l < h then l + 65537 - h else l - h)"
  proof (cases "l < h")
    case True
    have "of_nat (l + 65537 - h) = of_nat l - of_nat h + (1 :: word16)"
      using lh by (subst of_nat_diff) simp_all
    then show ?thesis
      using True assms unfolding IDEA_MUL_def Let_def word_less_nat_alt low high
      by (simp flip: low high)
  next
    case False
    then show ?thesis
      using assms unfolding IDEA_MUL_def Let_def word_less_nat_alt low high
      by (simp add: of_nat_diff flip: low high)
  qed
  moreover have "?p mod 65537 = (if l < h then l + 65537 - h else l - h)"
    unfolding l_def h_def by (rule fold_low_high [OF lt nz])
  moreover have "?p mod 65537 \<le> 65536" by (simp add: less_Suc_eq_le [symmetric])
  ultimately show ?thesis using nz mv_of_nat [of "?p mod 65537"] by (simp only: not_less_eq_eq)
qed

lemma mv_IDEA_MUL: "mv (IDEA_MUL x y) = mv x * mv y mod 65537"
proof -
  have neg: "65536 * b mod 65537 = 65537 - b" if "1 \<le> b" "b \<le> 65536" for b :: nat
  proof -
    have "65536 * b = (b - 1) * 65537 + (65537 - b)" using that by (simp add: diff_mult_distrib)
    moreover have "65537 - b < 65537" using that by simp
    ultimately show ?thesis by (rule mod_eqI)
  qed
  consider "x \<noteq> 0" "y \<noteq> 0" | "x = 0" "y \<noteq> 0" | "y = 0" by blast
  then show ?thesis
  proof cases
    case 1
    then show ?thesis using mv_mul_nonzero by (simp add: mv_def)
  next
    case 2
    then show ?thesis
      using neg [of "unat y"] mv_bounds [of y] mv_one_minus [of y] by (simp add: IDEA_MUL_def mv_def)
  next
    case 3
    then show ?thesis
      using neg [of "mv x"] mv_bounds [of x] mv_one_minus [of x]
      by (cases "x = 0") (simp_all add: IDEA_MUL_def mv_def mult.commute)
  qed
qed


lemma IDEA_MUL_cancel:
  assumes "mv e * mv i mod 65537 = 1"
  shows "IDEA_MUL (IDEA_MUL x e) i = x"
proof (rule mv_inject)
  have "mv (IDEA_MUL (IDEA_MUL x e) i) = mv x * (mv e * mv i mod 65537) mod 65537"
    by (simp add: mv_IDEA_MUL mod_mult_left_eq mod_mult_right_eq mult.assoc)
  also have "\<dots> = mv x" using mv_bounds [of x] by (simp add: assms)
  finally show "mv (IDEA_MUL (IDEA_MUL x e) i) = mv x" .
qed


section \<open>The inverse\<close>

lemma no_divisor:
  assumes "2 \<le> d" and "d \<le> 65536"
  shows "\<not> d dvd (65537 :: nat)"
proof
  assume "d dvd 65537"
  then have "d dvd gcd d 65537" by simp
  also have "gcd d 65537 = 1"
    using coprime_65537 [of d] assms by (simp add: coprime_iff_gcd_eq_1)
  finally show False using assms by simp
qed

text \<open>
  What the loop keeps for the argument \<open>X\<close>: \<open>x \<equiv> t0 * X\<close> and \<open>y \<equiv> - t1 * X\<close> modulo 65537, and
  the products add up to 65537, which bounds both factors.
\<close>

definition mulinv_inv :: "int \<Rightarrow> nat \<Rightarrow> nat \<Rightarrow> nat \<Rightarrow> nat \<Rightarrow> bool" where
  "mulinv_inv X x y t0 t1 \<longleftrightarrow>
     x * t1 + y * t0 = 65537 \<and>
     65537 dvd int t0 * X - int x \<and> 65537 dvd int t1 * X + int y"

lemma mulinv_inv_x:
  assumes "mulinv_inv X x y t0 t1"
  shows "mulinv_inv X (x mod y) y (t0 + (x div y) * t1) t1"
proof -
  let ?q = "x div y"
  have x: "x = ?q * y + x mod y" by simp
  have "(x mod y) * t1 + y * (t0 + ?q * t1) = (?q * y + x mod y) * t1 + y * t0"
    by (simp only: algebra_simps)
  then have sum: "(x mod y) * t1 + y * (t0 + ?q * t1) = 65537"
    using assms by (simp add: mulinv_inv_def)
  have "int (t0 + ?q * t1) * X - int (x mod y) =
      (int t0 * X - int (?q * y + x mod y)) + int ?q * (int t1 * X + int y)"
    by (simp only: of_nat_add of_nat_mult) (simp add: algebra_simps)
  also have "\<dots> = (int t0 * X - int x) + int ?q * (int t1 * X + int y)"
    by (simp only: x [symmetric])
  finally show ?thesis
    using assms sum by (simp only: mulinv_inv_def) (simp add: dvd_add dvd_mult)
qed

lemma mulinv_inv_y:
  assumes "mulinv_inv X x y t0 t1"
  shows "mulinv_inv X x (y mod x) t0 (t1 + (y div x) * t0)"
proof -
  let ?q = "y div x"
  have y: "y = ?q * x + y mod x" by simp
  have "x * (t1 + ?q * t0) + (y mod x) * t0 = x * t1 + (?q * x + y mod x) * t0"
    by (simp only: algebra_simps)
  then have sum: "x * (t1 + ?q * t0) + (y mod x) * t0 = 65537"
    using assms by (simp add: mulinv_inv_def)
  have "int (t1 + ?q * t0) * X + int (y mod x) =
      (int t1 * X + int (?q * x + y mod x)) + int ?q * (int t0 * X - int x)"
    by (simp only: of_nat_add of_nat_mult) (simp add: algebra_simps)
  also have "\<dots> = (int t1 * X + int y) + int ?q * (int t0 * X - int x)"
    by (simp only: y [symmetric])
  finally show ?thesis
    using assms sum by (simp only: mulinv_inv_def) (simp add: dvd_add dvd_mult)
qed

lemma mulinv_inv_mod_pos:
  assumes "mulinv_inv X x y t0 t1" and "2 \<le> y" and "y \<le> 65536"
  shows "0 < x mod y"
proof (rule ccontr)
  assume "\<not> 0 < x mod y"
  then have "y dvd x" by (simp add: mod_0_imp_dvd)
  then have "y dvd x * t1 + y * t0" by simp
  then show False using assms no_divisor [of y] by (simp add: mulinv_inv_def)
qed

lemma mulinv_inv_mod_pos':
  assumes "mulinv_inv X x y t0 t1" and "2 \<le> x" and "x \<le> 65536"
  shows "0 < y mod x"
proof (rule ccontr)
  assume "\<not> 0 < y mod x"
  then have "x dvd y" by (simp add: mod_0_imp_dvd)
  then have "x dvd x * t1 + y * t0" by simp
  then show False using assms no_divisor [of x] by (simp add: mulinv_inv_def)
qed

lemma half_bound: "2 \<le> a \<Longrightarrow> a * b \<le> 65537 \<Longrightarrow> b < (65536 :: nat)"
proof (rule ccontr)
  assume "2 \<le> a" "a * b \<le> 65537" "\<not> b < 65536"
  then have "2 * 65536 \<le> a * b" by (intro mult_le_mono) auto
  then show False using \<open>a * b \<le> 65537\<close> by simp
qed

lemma inverse_t0:
  assumes "mulinv_inv (int X) 1 y (unat t0) t1"
  shows "65537 dvd int (mv t0) * int X - 1"
proof -
  have "t0 \<noteq> 0" using assms by (auto simp: mulinv_inv_def)
  then show ?thesis using assms by (simp add: mulinv_inv_def mv_def)
qed

lemma inverse_t1:
  assumes "mulinv_inv (int X) x 1 t0 (unat t1)"
  shows "65537 dvd int (mv (1 - t1)) * int X - 1"
proof -
  have d: "65537 dvd int (unat t1) * int X + 1" using assms by (simp add: mulinv_inv_def)
  then have "t1 \<noteq> 0" by auto
  then have "int (mv (1 - t1)) = 65537 - int (unat t1)"
    using unat_less_16 [of t1] by (simp add: mv_one_minus of_nat_diff)
  then have "int (mv (1 - t1)) * int X - 1 = 65537 * int X - (int (unat t1) * int X + 1)"
    by (simp only: left_diff_distrib)
  then show ?thesis using d by (metis dvd_diff dvd_triv_left)
qed


lemma unat_add_mult:
  "unat (a :: word16) + unat q * unat b < 65536 \<Longrightarrow> unat (a + q * b) = unat a + unat q * unat b"
  by (simp add: unat_word_ariths)

lemma unat_mod_less: "0 < unat y \<Longrightarrow> unat (x mod (y :: word16)) < unat y"
  unfolding unat_mod by simp

lemma mulinv_loop_correct:
  assumes "mulinv_inv (int X) (unat x) (unat y) (unat t0) (unat t1)"
    and "2 \<le> unat y"
  shows "\<exists>i. mulinv_loop q x y t0 t1 = Some i \<and> 65537 dvd int (mv i) * int X - 1"
  using assms
proof (induction "unat y" arbitrary: q x y t0 t1 rule: less_induct)
  case less
  let ?x1 = "x mod y" and ?t0 = "t0 + x div y * t1"
  let ?y2 = "y mod ?x1" and ?t1 = "t1 + y div ?x1 * ?t0"
  have y0: "0 < y" using less.prems(2) by (simp add: word_less_nat_alt)
  have y16: "unat y \<le> 65536" using unat_less_16 [of y] by simp
  note ux = unat_mod [of x y]
  have inv1: "mulinv_inv (int X) (unat ?x1) (unat y) (unat t0 + unat x div unat y * unat t1) (unat t1)"
    unfolding ux by (rule mulinv_inv_x [OF less.prems(1)])
  have pos1: "0 < unat ?x1" unfolding ux using mulinv_inv_mod_pos [OF less.prems y16] .
  have "unat t0 + unat x div unat y * unat t1 < 65536"
    using inv1 less.prems(2) by (intro half_bound [of "unat y"]) (auto simp: mulinv_inv_def)
  then have ut0: "unat ?t0 = unat t0 + unat x div unat y * unat t1"
    using unat_add_mult [of t0 "x div y" t1] unat_div [of x y] by simp
  have inv1': "mulinv_inv (int X) (unat ?x1) (unat y) (unat ?t0) (unat t1)"
    using inv1 by (simp only: ut0)
  show ?case
  proof (cases "?x1 \<le> 1")
    case True
    then have "unat ?x1 = 1" using pos1 by (simp add: word_le_nat_alt)
    then have "65537 dvd int (mv ?t0) * int X - 1" using inv1' by (intro inverse_t0) simp
    then show ?thesis using True y0 by (subst mulinv_loop.simps) (auto simp: Let_def)
  next
    case False
    then have x2: "2 \<le> unat ?x1" using pos1 by (simp add: word_le_nat_alt)
    have x16: "unat ?x1 \<le> 65536" using unat_less_16 [of ?x1] by simp
    have inv2: "mulinv_inv (int X) (unat ?x1) (unat ?y2) (unat ?t0)
        (unat t1 + unat y div unat ?x1 * unat ?t0)"
      unfolding unat_mod [of y ?x1] by (rule mulinv_inv_y [OF inv1'])
    have pos2: "0 < unat ?y2"
      unfolding unat_mod [of y ?x1] by (rule mulinv_inv_mod_pos' [OF inv1' x2 x16])
    have "unat t1 + unat y div unat ?x1 * unat ?t0 < 65536"
      using inv2 x2 by (intro half_bound [of "unat ?x1"]) (auto simp: mulinv_inv_def)
    then have "unat ?t1 = unat t1 + unat y div unat ?x1 * unat ?t0"
      using unat_add_mult [of t1 "y div ?x1" ?t0] unat_div [of y ?x1] by simp
    with inv2 have inv2': "mulinv_inv (int X) (unat ?x1) (unat ?y2) (unat ?t0) (unat ?t1)" by simp
    have unfold: "mulinv_loop q x y t0 t1 =
        (if ?y2 \<noteq> 1 then mulinv_loop (y div ?x1) ?x1 ?y2 ?t0 ?t1 else Some (1 - ?t1))"
      using False y0 by (subst mulinv_loop.simps) (auto simp: Let_def)
    show ?thesis
    proof (cases "?y2 = 1")
      case True
      then have "65537 dvd int (mv (1 - ?t1)) * int X - 1"
        using inv2' by (intro inverse_t1) simp
      then show ?thesis using True unfold by auto
    next
      case y2: False
      then have "unat ?y2 \<noteq> 1" by (metis unsigned_1 unsigned_word_eqI)
      then have "2 \<le> unat ?y2" using pos2 by simp
      moreover have "unat ?y2 < unat y"
        using unat_mod_less [of ?x1 y] unat_mod_less [of y x] pos1 less.prems(2) by linarith
      ultimately show ?thesis using less.hyps [OF _ inv2'] unfold y2 by simp
    qed
  qed
qed


lemma dvd_inverse:
  assumes "65537 dvd int a * int b - 1"
  shows "b * a mod 65537 = (1 :: nat)"
proof -
  have "int a * int b mod 65537 = 1 mod 65537" using assms by (simp only: mod_eq_dvd_iff)
  then have "int (b * a mod 65537) = int 1" by (simp add: zmod_int mult.commute)
  then show ?thesis by (simp only: of_nat_eq_iff)
qed

lemma MulInv_correct: "\<exists>i. MulInv x = Some i \<and> mv x * mv i mod 65537 = 1"
proof (cases "x \<le> 1")
  case True
  then have "unat x = 0 \<or> unat x = 1" by (auto simp: word_le_nat_alt)
  then have "x = 0 \<or> x = 1" by (metis unsigned_0 unsigned_1 unsigned_word_eqI)
  then show ?thesis by (auto simp: MulInv_def mv_def)
next
  case False
  then have x2: "2 \<le> unat x" by (simp add: word_le_nat_alt)
  then have x: "mv x = unat x" by (auto simp: mv_def)
  let ?t = "65537 div unat x" and ?y = "65537 mod unat x"
  have "?t \<le> 65537 div 2" using x2 by (intro div_le_mono2) auto
  then have t: "?t < 65536" by simp
  have "?y < unat x" using x2 by (intro mod_less_divisor) simp
  then have y: "?y < 65536" using unat_less_16 [of x] by simp
  have ut: "unat (of_nat ?t :: word16) = ?t" "unat (of_nat ?y :: word16) = ?y"
    using t y by (simp_all add: unat_of_nat)
  have eq: "unat x * ?t + ?y = 65537" by (rule mult_div_mod_eq)
  then have "int (unat x * ?t + ?y) = int 65537" by (simp only:)
  then have "int ?t * int (unat x) + int ?y = 65537"
    by (simp only: of_nat_add of_nat_mult of_nat_numeral mult.commute [of "int ?t"])
  then have inv: "mulinv_inv (int (unat x)) (unat x) ?y (unat (1 :: word16)) ?t"
    using eq by (simp only: mulinv_inv_def) simp
  show ?thesis
  proof (cases "?y = 1")
    case True
    then have "65537 dvd int (mv (1 - of_nat ?t)) * int (unat x) - 1"
      using inv by (intro inverse_t1 [of "unat x" "unat x" 1]) (simp add: ut)
    then have "unat x * mv (1 - of_nat ?t) mod 65537 = 1" by (rule dvd_inverse)
    then show ?thesis using False True x by (auto simp: MulInv_def Let_def)
  next
    case y1: False
    have "?y \<noteq> 0" using no_divisor [OF x2] unat_less_16 [of x] by (auto simp: mod_eq_0_iff_dvd)
    then have "2 \<le> unat (of_nat ?y :: word16)" using y1 ut by linarith
    then obtain i where i: "mulinv_loop 0 x (of_nat ?y) 1 (of_nat ?t) = Some i"
        "65537 dvd int (mv i) * int (unat x) - 1"
      using mulinv_loop_correct [of "unat x" x "of_nat ?y" 1 "of_nat ?t" 0] inv ut by auto
    have "(of_nat ?y :: word16) \<noteq> 1" using y1 ut(2) by (metis unsigned_1)
    then show ?thesis using False i(1) dvd_inverse [OF i(2)] x by (auto simp: MulInv_def Let_def)
  qed
qed


section \<open>Deciphering undoes enciphering\<close>

definition minv :: "word16 \<Rightarrow> word16" where
  "minv x = (case MulInv x of Some i \<Rightarrow> i | None \<Rightarrow> 0)"

lemma MulInv_minv: "MulInv x = Some (minv x)"
  using MulInv_correct [of x] by (auto simp: minv_def)

lemma MUL_minv: "IDEA_MUL (IDEA_MUL x e) (minv e) = x"
  using MulInv_correct [of e] by (intro IDEA_MUL_cancel) (auto simp: minv_def)

text \<open>A round is a key transformation, a self-inverse mixing step and an exchange of the middle words.\<close>

definition idea_T :: "word16 \<Rightarrow> word16 \<Rightarrow> word16 \<Rightarrow> word16 \<Rightarrow> quad \<Rightarrow> quad" where
  "idea_T a b c d x = (case x of (x1, x2, x3, x4) \<Rightarrow> (IDEA_MUL x1 a, x2 + b, x3 + c, IDEA_MUL x4 d))"

definition idea_A :: "word16 \<Rightarrow> word16 \<Rightarrow> quad \<Rightarrow> quad" where
  "idea_A k l x =
     (case x of (x1, x2, x3, x4) \<Rightarrow>
        let u = IDEA_MUL (x3 XOR x1) k;
            w = IDEA_MUL ((x2 XOR x4) + u) l;
            z = u + w
        in (x1 XOR w, x2 XOR z, x3 XOR w, x4 XOR z))"

definition idea_X :: "quad \<Rightarrow> quad" where
  "idea_X x = (case x of (x1, x2, x3, x4) \<Rightarrow> (x1, x3, x2, x4))"

lemma idea_inverses:
  "idea_T (minv a) (- b) (- c) (minv d) (idea_T a b c d x) = x"
  "idea_T (minv a) (- c) (- b) (minv d) (idea_X (idea_T a b c d x)) = idea_X x"
  "idea_X (idea_X x) = x"
  by (cases x; simp add: idea_T_def idea_X_def MUL_minv)+

lemma idea_A_inverse: "idea_A k l (idea_A k l x) = x"
proof -
  obtain x1 x2 x3 x4 where x: "x = (x1, x2, x3, x4)" by (cases x)
  have "(a XOR w) XOR (b XOR w) = a XOR b" for a b w :: word16
    by (rule bit_word_eqI) (auto simp: bit_xor_iff)
  then show ?thesis by (simp add: x idea_A_def Let_def xor.assoc)
qed

lemma cipher_round_eq:
  "cipher_round key x =
     idea_X (idea_A (key ! 4) (key ! 5) (idea_T (key ! 0) (key ! 1) (key ! 2) (key ! 3) x))"
  by (cases x) (simp add: cipher_round_def idea_X_def idea_A_def idea_T_def Let_def xor.commute)

lemma cipher_words_eq:
  "cipher_words key x =
     (case cipher_rounds 8 key x of (k, y) \<Rightarrow> idea_T (k ! 0) (k ! 1) (k ! 2) (k ! 3) (idea_X y))"
  by (simp add: cipher_words_def IDEAROUNDS_def idea_T_def idea_X_def split: prod.splits)

lemma cipher_rounds_8:
  "cipher_rounds 8 key x =
     (drop 48 key,
      cipher_round (drop 42 key) (cipher_round (drop 36 key) (cipher_round (drop 30 key)
        (cipher_round (drop 24 key) (cipher_round (drop 18 key) (cipher_round (drop 12 key)
          (cipher_round (drop 6 key) (cipher_round key x))))))))"
  by (simp add: eval_nat_numeral)


lemma invert_group_eq:
  "invert_group ex ek p =
     Some (if ex then minv (ek ! 0) # - (ek ! 2) # - (ek ! 1) # minv (ek ! 3) # p
           else minv (ek ! 0) # - (ek ! 1) # - (ek ! 2) # minv (ek ! 3) # p)"
  by (simp add: invert_group_def MulInv_minv)

lemma decryption_rounds_step:
  "0 < n \<Longrightarrow> decryption_rounds n ek p =
     decryption_rounds (n - 1) (drop 6 ek)
       (minv (drop 2 ek ! 0) # - (drop 2 ek ! 2) # - (drop 2 ek ! 1) # minv (drop 2 ek ! 3) # ek ! 0 # ek ! 1 # p)"
  by (cases n) (simp_all add: invert_group_eq)

lemma decryption_key_eq:
  assumes "length ek = 52"
  shows "decryption_key ek = Some
     [minv (ek ! 48), - (ek ! 49), - (ek ! 50), minv (ek ! 51),
      ek ! 46, ek ! 47, minv (ek ! 42), - (ek ! 44), - (ek ! 43), minv (ek ! 45),
      ek ! 40, ek ! 41, minv (ek ! 36), - (ek ! 38), - (ek ! 37), minv (ek ! 39),
      ek ! 34, ek ! 35, minv (ek ! 30), - (ek ! 32), - (ek ! 31), minv (ek ! 33),
      ek ! 28, ek ! 29, minv (ek ! 24), - (ek ! 26), - (ek ! 25), minv (ek ! 27),
      ek ! 22, ek ! 23, minv (ek ! 18), - (ek ! 20), - (ek ! 19), minv (ek ! 21),
      ek ! 16, ek ! 17, minv (ek ! 12), - (ek ! 14), - (ek ! 13), minv (ek ! 15),
      ek ! 10, ek ! 11, minv (ek ! 6), - (ek ! 8), - (ek ! 7), minv (ek ! 9),
      ek ! 4, ek ! 5, minv (ek ! 0), - (ek ! 1), - (ek ! 2), minv (ek ! 3)]"
  using assms
  by (simp add: decryption_key_def IDEAROUNDS_def decryption_rounds_step invert_group_eq)

lemma cipher_words_inverse:
  assumes "length ek = 52" and "decryption_key ek = Some dk"
  shows "cipher_words dk (cipher_words ek x) = x"
  using assms(2) unfolding decryption_key_eq [OF assms(1)] option.inject
  by (elim subst) (simp add: cipher_words_eq cipher_rounds_8 cipher_round_eq assms(1)
      idea_inverses idea_A_inverse)


section \<open>Blocks\<close>

lemma bit_byte_high: "8 \<le> n \<Longrightarrow> \<not> bit (b :: byte) n"
  using bit_imp_le_length [of b n] by auto

lemma bit_short:
  assumes "n < 16"
  shows "bit (push_bit 8 (ucast (b :: byte)) + ucast (a :: byte) :: word16) n \<longleftrightarrow>
    (if n < 8 then bit a n else bit b (n - 8))"
proof -
  have "push_bit 8 (ucast b :: word16) + ucast a = push_bit 8 (ucast b) OR ucast a"
    by (rule disjunctive_add)
      (auto simp: bit_push_bit_iff bit_unsigned_iff bit_byte_high)
  then show ?thesis
    using assms by (auto simp: bit_or_iff bit_push_bit_iff bit_unsigned_iff bit_byte_high)
qed

lemma swap_bytes_swap_bytes [simp]: "swap_bytes (swap_bytes x) = x"
proof (rule bit_word_eqI)
  fix n assume "n < LENGTH(16)"
  then have n: "n < 16" by simp
  have high: "16 \<le> k \<Longrightarrow> \<not> bit x k" for k using bit_imp_le_length [of x k] by auto
  from n show "bit (swap_bytes (swap_bytes x)) n \<longleftrightarrow> bit x n"
    by (cases "n < 8")
      (simp_all add: swap_bytes_def bit_or_iff bit_push_bit_iff bit_drop_bit_eq high)
qed

lemma short_at_short_bytes:
  "push_bit 8 (ucast (ucast (drop_bit 8 x) :: byte)) + ucast (ucast x :: byte) = (x :: word16)"
proof (rule bit_word_eqI)
  fix n assume "n < LENGTH(16)"
  then have n: "n < 16" by simp
  then show "bit (push_bit 8 (ucast (ucast (drop_bit 8 x) :: byte)) + ucast (ucast x :: byte) :: word16) n
      \<longleftrightarrow> bit x n"
    by (cases "n < 8") (auto simp: bit_short bit_unsigned_iff bit_drop_bit_eq)
qed

lemma short_bytes_short:
  "short_bytes (push_bit 8 (ucast b) + ucast a) = [a, b]"
proof -
  have "ucast (push_bit 8 (ucast b) + ucast a :: word16) = a"
    by (rule bit_word_eqI) (simp add: bit_unsigned_iff bit_short)
  moreover have "ucast (drop_bit 8 (push_bit 8 (ucast b) + ucast a :: word16)) = b"
    by (rule bit_word_eqI) (simp add: bit_unsigned_iff bit_short bit_drop_bit_eq)
  ultimately show ?thesis by (simp add: short_bytes_def)
qed

lemma length_8E:
  assumes "length bs = 8"
  obtains a b c d e f g h where "bs = [a, b, c, d, e, f, g, h]"
proof -
  have "bs = [bs ! 0, bs ! 1, bs ! 2, bs ! 3, bs ! 4, bs ! 5, bs ! 6, bs ! 7]"
    using assms by (intro nth_equalityI) (auto simp: less_Suc_eq numeral_eq_Suc)
  then show thesis by (rule that)
qed

lemma cipher_inverse:
  assumes "length ek = 52" and "decryption_key ek = Some dk" and "length b = 8"
  shows "cipher dk (cipher ek b) = b"
proof -
  obtain b0 b1 b2 b3 b4 b5 b6 b7 where b: "b = [b0, b1, b2, b3, b4, b5, b6, b7]"
    using assms(3) by (rule length_8E)
  let ?x = "(swap_bytes (short_at b 0), swap_bytes (short_at b 2),
             swap_bytes (short_at b 4), swap_bytes (short_at b 6))"
  obtain o0 o1 o2 o3 where y: "cipher_words ek ?x = (o0, o1, o2, o3)" by (cases "cipher_words ek ?x")
  have c: "cipher ek b = short_bytes (swap_bytes o0) @ short_bytes (swap_bytes o1)
      @ short_bytes (swap_bytes o2) @ short_bytes (swap_bytes o3)" (is "_ = ?c")
    unfolding cipher_def y by (simp add: Let_def short_at_def short_bytes_def short_at_short_bytes)
  have "short_at ?c 0 = swap_bytes o0" "short_at ?c 2 = swap_bytes o1"
      "short_at ?c 4 = swap_bytes o2" "short_at ?c 6 = swap_bytes o3"
    by (simp_all add: short_at_def short_bytes_def short_at_short_bytes)
  then have "cipher dk ?c = b"
    using cipher_words_inverse [OF assms(1,2), of ?x]
    by (simp add: cipher_def y)
      (simp add: b short_at_def short_bytes_short)
  then show ?thesis by (simp add: c)
qed

lemma length_cipher: "length (cipher key b) = 8"
  by (simp add: cipher_def Let_def short_bytes_def split: prod.splits)


lemma length_encryption_key: "length (encryption_key uk) = 52"
proof -
  have "length (fst (fold expand_step js s)) = length (fst s)" for js s
    by (induction js arbitrary: s) (auto simp: expand_step_def Let_def split: prod.splits)
  then show ?thesis
    unfolding encryption_key_def by (simp only:) (simp add: user_words_def IDEAKEYLEN_def IDEAROUNDS_def)
qed

definition dec_key :: "byte list \<Rightarrow> word16 list" where
  "dec_key uk = (case decryption_key (encryption_key uk) of Some dk \<Rightarrow> dk | None \<Rightarrow> [])"

lemma decryption_key_dec_key: "decryption_key (encryption_key uk) = Some (dec_key uk)"
  unfolding dec_key_def decryption_key_eq [OF length_encryption_key] by simp

interpretation idea: block_cipher "cipher (encryption_key uk)" "cipher (dec_key uk)" for uk
  by unfold_locales
    (simp_all add: length_cipher cipher_inverse [OF length_encryption_key decryption_key_dec_key])

section \<open>Buffers and strings: correctness\<close>

lemma IDEA_keyset_eq:
  assumes "16 \<le> length key" and "key ! 0 \<noteq> 0"
  shows "IDEA_keyset d key st =
    Some (st\<lparr>IDEAUserKey := take 16 key, IDEAEncryptionKey := encryption_key (take 16 key),
             IDEADecryptionKey := dec_key (take 16 key)\<rparr>)"
  using assms
  by (auto simp: IDEA_keyset_def IDEAKEY_generate_def IDEAKEY_clear_def generatePartKeys_def
      decryption_key_dec_key)

lemma IDEAencrypt_eq: "IDEAencrypt st input = map_blocks (cipher (IDEAEncryptionKey st)) (zero_pad input)"
proof -
  define n where "n = length input - length input mod 8"
  have n: "8 dvd length (take n input)" "length (drop n input) = length input mod 8"
    by (simp_all add: n_def dvd_minus_mod)
  have split: "input = take n input @ drop n input" by simp
  show ?thesis
  proof (cases "length input mod 8 = 0")
    case True
    then show ?thesis by (simp add: IDEAencrypt_def zero_pad_def)
  next
    case False
    define r where "r = length input mod 8"
    have r: "0 < r" "r < 8" using False by (auto simp: r_def)
    have "zero_pad input = take n input @ (drop n input @ replicate (8 - r) 0)"
      using r by (simp add: zero_pad_def r_def [symmetric] flip: append_assoc)
    also have "drop n input @ replicate (8 - r) 0 = take 8 (drop n input @ replicate 8 0)"
      using n(2) r by (simp add: r_def [symmetric] min_def)
    finally have pad: "zero_pad input = take n input @ take 8 (drop n input @ replicate 8 0)" .
    have "length (take 8 (drop n input @ replicate 8 0)) = 8" by simp
    then have "map_blocks f (take 8 (drop n input @ replicate 8 0)) = f (take 8 (drop n input @ replicate 8 0))" for f
      using map_blocks_append [of "take 8 (drop n input @ replicate 8 0)" f "[]"]
      by (simp only: append_Nil2 map_blocks_Nil)
    then show ?thesis
      using False unfolding IDEAencrypt_def Let_def n_def [symmetric] pad
      by (simp only: map_blocks_append_dvd [OF n(1)]) simp
  qed
qed

lemma IDEAdecrypt_loop_eq:
  "8 dvd length bs \<Longrightarrow>
   IDEAdecrypt_loop st (bs @ t) (length bs) = Some (map_blocks (cipher (IDEADecryptionKey st)) bs)"
proof (induction bs rule: blocks_induct)
  case (Block b bs)
  then show ?case by (subst IDEAdecrypt_loop.simps) (simp add: map_blocks_append)
qed (simp add: IDEAdecrypt_loop.simps)

lemma hashstring_base: "hashstring bs = Some t \<Longrightarrow> set t \<subseteq> set base"
proof (induction bs arbitrary: t)
  case (Cons b bs)
  have lt: "unat b < baselen * baselen"
    using unsigned_less [of b, where 'a = nat] by (simp add: baselen_def)
  then have "unat b div baselen < 70" "unat b mod baselen < 70"
    by (auto simp: baselen_def less_mult_imp_div_less)
  then have "set [base ! (unat b div baselen), base ! (unat b mod baselen)] \<subseteq> set base" by simp
  moreover have "set (cstr h) \<subseteq> set h" for h by (auto simp: cstr_def dest: set_takeWhileD)
  ultimately show ?case using Cons hashdot_eq [OF lt] by (fastforce split: option.splits)
qed simp

lemma char_of_byte_0: "char_of_byte 0 = NUL"
  by (simp add: char_of_byte_def char_of_def)

lemma cut_line_id: "CR \<notin> set s \<Longrightarrow> LF \<notin> set s \<Longrightarrow> cut_line s = s"
  by (simp add: cut_line_def strchr_def find_char_None [THEN iffD2])


text \<open>
  (C32) IDEA string encryption is undone by IDEA string decryption under the same key: for a
  key of at least 16 bytes that does not start with a zero byte, every one-line C string is
  encrypted, and decrypting the printable result gives it back, whatever the two key states
  and the error flag were before.
\<close>

theorem IDEA_stringdecrypt_encrypt:
  assumes "16 \<le> length key" and "key ! 0 \<noteq> 0"
    and "no_nul s" and "CR \<notin> set s" and "LF \<notin> set s"
  shows "\<exists>t st1. IDEA_stringencrypt d st s key = Some (t, st1) \<and>
     (\<exists>st2. IDEA_stringdecrypt False d' st' t key = Some (s, st2, False))"
proof -
  let ?uk = "take 16 key"
  let ?in = "map byte_of s @ [0]"
  let ?c = "map_blocks (cipher (encryption_key ?uk)) (zero_pad ?in)"
  obtain t where t: "hashstring ?c = Some t" "length t = 2 * length ?c"
    using hashstring_total by blast
  have len: "length ?c = length (zero_pad ?in)" by (simp add: idea.length_map_encb)
  have dvd: "8 dvd length ?c" unfolding len by simp
  have cne: "?c \<noteq> []" using len by (auto simp: zero_pad_def)
  have "set t \<subseteq> set base" by (rule hashstring_base [OF t(1)])
  then have tline: "cut_line t = t" by (intro cut_line_id) (auto simp: base_def)
  have tne: "t \<noteq> []" using t cne by (metis length_0_conv mult_is_0 zero_neq_numeral)
  have enc: "\<exists>st1. IDEA_stringencrypt d st s key = Some (if s = [] then [] else t, st1)"
    using t(1) by (simp add: IDEA_stringencrypt_def cut_line_id assms IDEA_encrypt_def
        IDEA_keyset_eq IDEAencrypt_eq)
  show ?thesis
  proof (cases "s = []")
    case True
    have "\<exists>st2. IDEA_stringdecrypt False d' st' [] key = Some ([], st2, False)"
      by (simp add: IDEA_stringdecrypt_def cut_line_id unhashstring_def IDEA_decrypt_def
          IDEA_keyset_eq assms IDEAdecrypt_def IDEAdecrypt_loop.simps [of _ _ 0])
    with enc True show ?thesis by auto
  next
    case False
    have u: "unhashstring False t = (?c @ replicate 11 0, False)"
      by (rule unhashstring_hashstring [OF t(1) cne])
    have "\<exists>st2. IDEA_decrypt d' st' (?c @ replicate 11 0) key (length ?c) =
        Some (zero_pad ?in @ replicate 9 0, st2)"
      unfolding IDEA_decrypt_def IDEA_keyset_eq [OF assms(1,2)] IDEAdecrypt_def
        IDEAdecrypt_loop_eq [OF dvd]
      by (simp add: idea.map_decb_map_encb len)
    moreover have "cstr (map char_of_byte (zero_pad ?in @ replicate 9 0)) = s"
      using cstr_append_nul [OF assms(3)] by (simp add: zero_pad_def comp_def char_of_byte_0)
    ultimately have "\<exists>st2. IDEA_stringdecrypt False d' st' t key = Some (s, st2, False)"
      using u t(2) tne tline by (auto simp: IDEA_stringdecrypt_def)
    then show ?thesis using enc False by auto
  qed
qed

lemma generateKey_loop_overflow:
  "byte_pos < length uk \<or> byte_pos = length uk \<and> bit_pos = 0 \<Longrightarrow> bit_pos \<in> {0, 2, 4, 6} \<Longrightarrow>
   4 * length uk < cnt + 4 * byte_pos + bit_pos div 2 \<Longrightarrow>
   generateKey_loop cnt d uk byte_pos bit_pos = None"
proof (induction cnt arbitrary: uk byte_pos bit_pos)
  case 0
  then have "bit_pos div 2 \<le> 3" by auto
  with 0 show ?case by linarith
next
  case (Suc cnt)
  let ?uk = "uk[byte_pos := uk ! byte_pos OR push_bit bit_pos (d AND 3)]"
  show ?case
  proof (cases "byte_pos < length uk")
    case True
    show ?thesis
    proof (cases "bit_pos = 6")
      case six: True
      have "generateKey_loop cnt d ?uk (byte_pos + 1) 0 = None"
        by (rule Suc.IH) (use True six Suc.prems in auto)
      then show ?thesis using True six by (simp add: Let_def)
    next
      case False
      have "generateKey_loop cnt d ?uk byte_pos (bit_pos + 2) = None"
        by (rule Suc.IH) (use True False Suc.prems in auto)
      then show ?thesis using True False by (simp add: Let_def)
    qed
  qed simp
qed

text \<open>
  With an empty key the program makes a key from the clock; that loop takes 2000 steps of
  two bits each and so leaves the 16-byte key array, whatever the clock says.
\<close>

theorem IDEA_keyset_empty_key:
  "IDEA_keyset d (0 # rest) st = None"
  by (simp add: IDEA_keyset_def generateKey_action_def generateKey_start_def generateKey_loop_overflow)

theorem IDEA_stringdecrypt_encrypt_witness:
  "\<exists>t st1. IDEA_stringencrypt 0 \<lparr>IDEAUserKey = [], IDEAEncryptionKey = [], IDEADecryptionKey = []\<rparr>
       ''hello'' (replicate 16 7) = Some (t, st1) \<and>
     (\<exists>st2. IDEA_stringdecrypt False 0
        \<lparr>IDEAUserKey = [], IDEAEncryptionKey = [], IDEADecryptionKey = []\<rparr> t (replicate 16 7) =
          Some (''hello'', st2, False))"
  by (rule IDEA_stringdecrypt_encrypt) simp_all

end
