(* ===== verification/Format.thy ===== *)
theory Format
  imports Strings "HOL-Library.Monad_Syntax"
begin

text \<open>
  The bounded formatter of src/snprintf.c, through which the program builds every text it
  stores, sends or logs. \<open>int\<close>, \<open>long\<close> and the widest integer are 32 bits wide on the target;
  the variable arguments are a list of tagged values.

  \<open>None\<close> stands for undefined behaviour: an argument that is missing or of the wrong type, a
  precision that leaves \<open>num_buf\<close>, and the floating point conversions, which are not modelled.
  Widths and precisions are not bounded by the range of \<open>int\<close>. The result of the formatter
  says whether the buffer was full, which is the return value -1 of \<open>flush_func\<close>.
\<close>

unbundle bit_operations_syntax

datatype fmt_arg = ArgInt "32 word" | ArgStr "string option"

datatype var_type_enum = IS_QUAD | IS_LONG | IS_SHORT | IS_INT

datatype adjust_enum = LEFT | RIGHT

record fmt_spec =
  fs_adjust :: adjust_enum
  alternate_form :: bool
  print_sign :: bool
  print_blank :: bool
  pad_char :: char
  adjust_width :: bool
  min_width :: nat
  adjust_precision :: bool
  fs_precision :: nat

definition default_spec :: fmt_spec where
  "default_spec = \<lparr>fs_adjust = RIGHT, alternate_form = False, print_sign = False, print_blank = False,
     pad_char = CHR '' '', adjust_width = False, min_width = 0, adjust_precision = False,
     fs_precision = 0\<rparr>"

definition NUM_BUF_SIZE :: nat where
  "NUM_BUF_SIZE = 512"

section \<open>Number conversions\<close>

definition digit_char :: "nat \<Rightarrow> char" where
  "digit_char d = char_of (48 + d)"

function conv_10_loop :: "nat \<Rightarrow> string \<Rightarrow> string" where
  "conv_10_loop magnitude p =
     (let new_magnitude = magnitude div 10;
          p' = digit_char (magnitude - new_magnitude * 10) # p
      in if new_magnitude = 0 then p' else conv_10_loop new_magnitude p')"
  by pat_completeness auto
termination
  by (relation "measure fst") auto

declare conv_10_loop.simps [simp del]

definition conv_10 :: "32 word \<Rightarrow> bool \<Rightarrow> string \<times> bool" where
  "conv_10 num is_unsigned =
     (let is_negative = (\<not> is_unsigned \<and> num <s 0);
          magnitude = (if is_negative then unat (- (num + 1) + 1) else unat num)
      in (conv_10_loop magnitude [], is_negative))"

text \<open>\<open>num >>= nbits\<close> as division; the loop ends because the callers pass 3 or 4 bits.\<close>

partial_function (option) conv_p2_loop :: "string \<Rightarrow> nat \<Rightarrow> nat \<Rightarrow> string \<Rightarrow> string option" where
  "conv_p2_loop digits nbits num p =
     (let p' = digits ! (num mod 2 ^ nbits) # p;
          num' = num div 2 ^ nbits
      in if num' = 0 then Some p' else conv_p2_loop digits nbits num' p')"

declare conv_p2_loop.simps [code]

definition conv_p2 :: "32 word \<Rightarrow> nat \<Rightarrow> char \<Rightarrow> string option" where
  "conv_p2 num nbits format =
     conv_p2_loop (if format = CHR ''X'' then ''0123456789ABCDEF'' else ''0123456789abcdef'')
       nbits (unat num) []"

definition FIX_PRECISION :: "fmt_spec \<Rightarrow> string \<Rightarrow> string" where
  "FIX_PRECISION spec s =
     (if adjust_precision spec then replicate (fs_precision spec - length s) (CHR ''0'') @ s else s)"

section \<open>Reading a conversion specification\<close>

text \<open>The flags, in a loop that stops at the first other character.\<close>

fun parse_flags :: "fmt_spec \<Rightarrow> string \<Rightarrow> fmt_spec \<times> string" where
  "parse_flags spec [] = (spec, [])"
| "parse_flags spec (c # fmt) =
     (if c = CHR ''-'' then parse_flags (spec\<lparr>fs_adjust := LEFT\<rparr>) fmt
      else if c = CHR ''+'' then parse_flags (spec\<lparr>print_sign := True\<rparr>) fmt
      else if c = CHR ''#'' then parse_flags (spec\<lparr>alternate_form := True\<rparr>) fmt
      else if c = CHR '' '' then parse_flags (spec\<lparr>print_blank := True\<rparr>) fmt
      else if c = CHR ''0'' then parse_flags (spec\<lparr>pad_char := CHR ''0''\<rparr>) fmt
      else (spec, c # fmt))"

definition STR_TO_DEC :: "string \<Rightarrow> nat \<times> string" where
  "STR_TO_DEC s = (digits_val 0 s, dropWhile isdigit s)"

definition parse_width ::
  "fmt_spec \<Rightarrow> string \<Rightarrow> fmt_arg list \<Rightarrow> (fmt_spec \<times> string \<times> fmt_arg list) option" where
  "parse_width spec fmt ap =
     (if isdigit (at fmt 0)
      then case STR_TO_DEC fmt of
        (n, fmt') \<Rightarrow> Some (spec\<lparr>adjust_width := True, min_width := n\<rparr>, fmt', ap)
      else if at fmt 0 = CHR ''*''
      then (case ap of
              ArgInt w # ap' \<Rightarrow>
                Some (if w <s 0
                      then spec\<lparr>adjust_width := True, fs_adjust := LEFT, min_width := unat (- w)\<rparr>
                      else spec\<lparr>adjust_width := True, min_width := unat w\<rparr>, tl fmt, ap')
            | _ \<Rightarrow> None)
      else Some (spec\<lparr>adjust_width := False\<rparr>, fmt, ap))"

definition parse_precision ::
  "fmt_spec \<Rightarrow> string \<Rightarrow> fmt_arg list \<Rightarrow> (fmt_spec \<times> string \<times> fmt_arg list) option" where
  "parse_precision spec fmt0 ap =
     (if at fmt0 0 = CHR ''.''
      then let fmt = tl fmt0 in
        (if isdigit (at fmt 0)
         then case STR_TO_DEC fmt of
           (n, fmt') \<Rightarrow> Some (spec\<lparr>adjust_precision := True, fs_precision := n\<rparr>, fmt', ap)
         else if at fmt 0 = CHR ''*''
         then (case ap of
                 ArgInt w # ap' \<Rightarrow>
                   Some (spec\<lparr>adjust_precision := True,
                              fs_precision := (if w <s 0 then 0 else unat w)\<rparr>, tl fmt, ap')
               | _ \<Rightarrow> None)
         else Some (spec\<lparr>adjust_precision := True, fs_precision := 0\<rparr>, fmt, ap))
      else Some (spec\<lparr>adjust_precision := False\<rparr>, fmt0, ap))"

definition islower :: "char \<Rightarrow> bool" where
  "islower c \<longleftrightarrow> 97 \<le> code c \<and> code c \<le> 122"

definition parse_spec ::
  "string \<Rightarrow> fmt_arg list \<Rightarrow> (fmt_spec \<times> string \<times> fmt_arg list) option" where
  "parse_spec fmt ap =
     (if \<not> islower (at fmt 0)
      then (case parse_flags default_spec fmt of
              (spec, fmt1) \<Rightarrow>
                do {
                  (spec, fmt2, ap) \<leftarrow> parse_width spec fmt1 ap;
                  parse_precision spec fmt2 ap
                })
      else Some (default_spec, fmt, ap))"

definition parse_modifier :: "string \<Rightarrow> var_type_enum \<times> string" where
  "parse_modifier fmt =
     (if at fmt 0 = CHR ''q'' then (IS_QUAD, tl fmt)
      else if at fmt 0 = CHR ''l'' then (IS_LONG, tl fmt)
      else if at fmt 0 = CHR ''h'' then (IS_SHORT, tl fmt)
      else (IS_INT, fmt))"

section \<open>Converting an argument\<close>

definition arg_unsigned :: "var_type_enum \<Rightarrow> 32 word \<Rightarrow> 32 word" where
  "arg_unsigned vt w = (if vt = IS_SHORT then ucast (ucast w :: 16 word) else w)"

definition arg_signed :: "var_type_enum \<Rightarrow> 32 word \<Rightarrow> 32 word" where
  "arg_signed vt w = (if vt = IS_SHORT then scast (ucast w :: 16 word) else w)"

text \<open>
  What the switch leaves: the text, the prefix character, the pad character, the remaining
  arguments and the variable \<open>i_num\<close>, which keeps its value from one conversion to the next.
\<close>

record fmt_conv =
  fc_s :: string
  prefix_char :: char
  fc_pad :: char
  fc_ap :: "fmt_arg list"
  i_num :: "32 word"

text \<open>A number is built at the end of \<open>num_buf\<close>; \<open>None\<close>: it leaves the buffer.\<close>

definition number_conv :: "fmt_spec \<Rightarrow> string \<Rightarrow> char \<Rightarrow> fmt_arg list \<Rightarrow> 32 word \<Rightarrow> fmt_conv option" where
  "number_conv spec s pfx ap inum =
     (if length s + (if pfx \<noteq> NUL then 1 else 0) \<le> NUM_BUF_SIZE
      then Some \<lparr>fc_s = s, prefix_char = pfx, fc_pad = pad_char spec, fc_ap = ap, i_num = inum\<rparr>
      else None)"

definition conv_signed :: "fmt_spec \<Rightarrow> var_type_enum \<Rightarrow> 32 word \<Rightarrow> fmt_arg list \<Rightarrow> 32 word \<Rightarrow> fmt_conv option" where
  "conv_signed spec vt w ap inum =
     (let v = arg_signed vt w in
      case conv_10 v False of
        (s, is_negative) \<Rightarrow>
          number_conv spec (FIX_PRECISION spec s)
            (if is_negative then CHR ''-''
             else if print_sign spec then CHR ''+''
             else if print_blank spec then CHR '' '' else NUL)
            ap (if vt = IS_QUAD then inum else v))"

definition conv_unsigned :: "fmt_spec \<Rightarrow> var_type_enum \<Rightarrow> 32 word \<Rightarrow> fmt_arg list \<Rightarrow> 32 word \<Rightarrow> fmt_conv option" where
  "conv_unsigned spec vt w ap inum =
     (let v = arg_unsigned vt w in
      number_conv spec (FIX_PRECISION spec (fst (conv_10 v True))) NUL ap
        (if vt = IS_QUAD then inum else v))"

definition conv_octal :: "fmt_spec \<Rightarrow> var_type_enum \<Rightarrow> 32 word \<Rightarrow> fmt_arg list \<Rightarrow> 32 word \<Rightarrow> fmt_conv option" where
  "conv_octal spec vt w ap inum =
     do {
       s0 \<leftarrow> conv_p2 (arg_unsigned vt w) 3 (CHR ''o'');
       let s = FIX_PRECISION spec s0;
       number_conv spec
         (if alternate_form spec \<and> at s 0 \<noteq> CHR ''0'' then CHR ''0'' # s else s) NUL ap inum
     }"

text \<open>The prefix of the alternate form depends on \<open>i_num\<close>, not on the number printed.\<close>

definition conv_hex :: "char \<Rightarrow> fmt_spec \<Rightarrow> var_type_enum \<Rightarrow> 32 word \<Rightarrow> fmt_arg list \<Rightarrow> 32 word \<Rightarrow> fmt_conv option" where
  "conv_hex c spec vt w ap inum =
     do {
       s0 \<leftarrow> conv_p2 (arg_unsigned vt w) 4 c;
       let s = FIX_PRECISION spec s0;
       number_conv spec
         (if alternate_form spec \<and> inum \<noteq> 0 then CHR ''0'' # c # s else s) NUL ap inum
     }"

definition conv_text :: "string \<Rightarrow> fmt_arg list \<Rightarrow> 32 word \<Rightarrow> fmt_conv" where
  "conv_text s ap inum =
     \<lparr>fc_s = s, prefix_char = NUL, fc_pad = CHR '' '', fc_ap = ap, i_num = inum\<rparr>"

definition conv_string :: "fmt_spec \<Rightarrow> string option \<Rightarrow> string" where
  "conv_string spec v =
     (case v of
        None \<Rightarrow> ''(null)''
      | Some s \<Rightarrow> if adjust_precision spec \<and> fs_precision spec < length s
                  then take (fs_precision spec) s else s)"

definition convert_arg ::
  "char \<Rightarrow> fmt_spec \<Rightarrow> var_type_enum \<Rightarrow> fmt_arg list \<Rightarrow> 32 word \<Rightarrow> fmt_conv option" where
  "convert_arg c spec vt ap inum =
     (if c \<in> {CHR ''u'', CHR ''d'', CHR ''i'', CHR ''o'', CHR ''x'', CHR ''X'', CHR ''c''}
      then (case ap of
              ArgInt w # ap' \<Rightarrow>
                (if c = CHR ''u'' then conv_unsigned spec vt w ap' inum
                 else if c = CHR ''d'' \<or> c = CHR ''i'' then conv_signed spec vt w ap' inum
                 else if c = CHR ''o'' then conv_octal spec vt w ap' inum
                 else if c = CHR ''c'' then Some (conv_text [char_of (unat w mod 256)] ap' inum)
                 else conv_hex c spec vt w ap' inum)
            | _ \<Rightarrow> None)
      else if c = CHR ''s''
      then (case ap of ArgStr v # ap' \<Rightarrow> Some (conv_text (conv_string spec v) ap' inum) | _ \<Rightarrow> None)
      else if c \<in> {CHR ''f'', CHR ''e'', CHR ''E'', CHR ''g'', CHR ''G''} then None
      else if c = CHR ''%'' then Some (conv_text ''%'' ap inum)
      else if c = CHR ''n'' \<or> c = CHR ''p'' then Some (conv_text ''?'' ap inum)
      else Some (conv_text [CHR ''%'', c] ap inum))"

section \<open>Printing\<close>

text \<open>The characters printed for a conversion: the prefix, the padding and the text.\<close>

definition pad_conv :: "fmt_spec \<Rightarrow> fmt_conv \<Rightarrow> string" where
  "pad_conv spec cv =
     (let s = (if prefix_char cv \<noteq> NUL then prefix_char cv # fc_s cv else fc_s cv);
          s_len = length s;
          fill = replicate (min_width spec - s_len) (fc_pad cv)
      in if adjust_width spec \<and> min_width spec > s_len
         then (if fs_adjust spec = RIGHT
               then (if fc_pad cv = CHR ''0'' \<and> prefix_char cv \<noteq> NUL
                     then prefix_char cv # fill @ fc_s cv
                     else fill @ s)
               else s @ fill)
         else s)"

datatype fmt_result = Full string | Done string

text \<open>\<open>INS_CHAR\<close> for the characters of \<open>s\<close>, in a buffer with room for \<open>n\<close> characters.\<close>

definition INS_CHARS :: "nat \<Rightarrow> string \<Rightarrow> string \<Rightarrow> fmt_result" where
  "INS_CHARS n out s =
     (if length out + length s \<le> n then Done (out @ s) else Full (take n (out @ s)))"

lemma parse_flags_length: "parse_flags spec fmt = (spec', fmt') \<Longrightarrow> length fmt' \<le> length fmt"
  by (induction spec fmt rule: parse_flags.induct) (auto split: if_splits)

lemma parse_width_length:
  "parse_width spec fmt ap = Some (spec', fmt', ap') \<Longrightarrow> length fmt' \<le> length fmt"
  using length_dropWhile_le [of isdigit fmt]
  by (auto simp: parse_width_def STR_TO_DEC_def split: if_splits list.splits fmt_arg.splits)

lemma parse_precision_length:
  "parse_precision spec fmt ap = Some (spec', fmt', ap') \<Longrightarrow> length fmt' \<le> length fmt"
  using length_dropWhile_le [of isdigit "tl fmt"]
  by (auto simp: parse_precision_def STR_TO_DEC_def Let_def split: if_splits list.splits fmt_arg.splits)

lemma parse_spec_length:
  "parse_spec fmt ap = Some (spec, fmt', ap') \<Longrightarrow> length fmt' \<le> length fmt"
  by (fastforce simp: parse_spec_def split: if_splits prod.splits bind_splits
      dest!: parse_flags_length parse_width_length parse_precision_length)

lemma parse_modifier_length: "length (snd (parse_modifier fmt)) \<le> length fmt"
  by (simp add: parse_modifier_def)

function ap_vformatter :: "nat \<Rightarrow> string \<Rightarrow> 32 word \<Rightarrow> string \<Rightarrow> fmt_arg list \<Rightarrow> fmt_result option" where
  "ap_vformatter n out inum [] ap = Some (Done out)"
| "ap_vformatter n out inum (c # fmt) ap =
     (if c \<noteq> CHR ''%''
      then (case INS_CHARS n out [c] of
              Full r \<Rightarrow> Some (Full r)
            | Done out' \<Rightarrow> ap_vformatter n out' inum fmt ap)
      else
        (case parse_spec fmt ap of
           None \<Rightarrow> None
         | Some (spec, fmt1, ap1) \<Rightarrow>
             (case parse_modifier fmt1 of
                (vt, fmt2) \<Rightarrow>
                  (case fmt2 of
                     [] \<Rightarrow> Some (Done out)
                   | conv # fmt3 \<Rightarrow>
                       (case convert_arg conv spec vt ap1 inum of
                          None \<Rightarrow> None
                        | Some cv \<Rightarrow>
                            (case INS_CHARS n out (pad_conv spec cv) of
                               Full r \<Rightarrow> Some (Full r)
                             | Done out' \<Rightarrow> ap_vformatter n out' (i_num cv) fmt3 (fc_ap cv)))))))"
  by pat_completeness auto
termination
proof (relation "measure (\<lambda>(n, out, inum, fmt, ap). length fmt)", goal_cases)
  case (3 n out inum c fmt ap p spec q fmt1 ap1 vt fmt2 conv fmt3 cv out')
  then have "parse_spec fmt ap = Some (spec, fmt1, ap1)" by simp
  then have "length fmt1 \<le> length fmt" by (rule parse_spec_length)
  moreover have "length (conv # fmt3) \<le> length fmt1"
    using 3 parse_modifier_length [of fmt1] by (metis snd_conv)
  ultimately show ?case by simp
qed auto

text \<open>The buffer's C string and the return value; the two functions have the same body.\<close>

definition ap_vsnprintf :: "nat \<Rightarrow> string \<Rightarrow> fmt_arg list \<Rightarrow> (string \<times> nat) option" where
  "ap_vsnprintf len format ap =
     (if len = 0 then Some ([], 0)
      else case ap_vformatter (len - 1) [] 0 format ap of
        None \<Rightarrow> None
      | Some (Done r) \<Rightarrow> Some (cstr r, length r)
      | Some (Full r) \<Rightarrow> Some (cstr r, len))"

definition ap_snprintf :: "nat \<Rightarrow> string \<Rightarrow> fmt_arg list \<Rightarrow> (string \<times> nat) option" where
  "ap_snprintf len format args = ap_vsnprintf len format args"

section \<open>The buffer is never left\<close>

lemma INS_CHARS_length:
  "length out \<le> n \<Longrightarrow> INS_CHARS n out s = Done r \<Longrightarrow> length r \<le> n"
  "INS_CHARS n out s = Full r \<Longrightarrow> length r \<le> n"
  by (auto simp: INS_CHARS_def split: if_splits)

lemma ap_vformatter_length:
  "length out \<le> n \<Longrightarrow> ap_vformatter n out inum fmt ap = Some res \<Longrightarrow>
   (case res of Done r \<Rightarrow> length r \<le> n | Full r \<Rightarrow> length r = n)"
proof (induction n out inum fmt ap rule: ap_vformatter.induct)
  case (2 n out inum c fmt ap)
  have full: "INS_CHARS n out s = Full r \<Longrightarrow> length r = n" for s r
    by (auto simp: INS_CHARS_def split: if_splits)
  show ?case
    using 2 by (auto split: if_splits option.splits fmt_result.splits prod.splits list.splits
        dest: full INS_CHARS_length(1))
qed auto

lemma length_cstr_le: "length (cstr b) \<le> length b"
  by (simp add: cstr_def length_takeWhile_le)

text \<open>
  (C25) Whatever the format and the arguments, the formatter leaves a terminated string in the
  buffer, one byte shorter than the buffer at most; the return value is the buffer's size when
  the text did not fit, and otherwise smaller than it.
\<close>

theorem ap_snprintf_bounded:
  assumes "ap_snprintf len format args = Some (buf, cc)" and "0 < len"
  shows "length buf < len \<and> no_nul buf \<and> cc \<le> len \<and> length buf \<le> cc"
proof -
  obtain res where res: "ap_vformatter (len - 1) [] 0 format args = Some res"
    using assms by (auto simp: ap_snprintf_def ap_vsnprintf_def split: option.splits)
  then have len: "case res of Done r \<Rightarrow> length r \<le> len - 1 | Full r \<Rightarrow> length r = len - 1"
    by (rule ap_vformatter_length [rotated]) simp
  show ?thesis
  proof (cases res)
    case (Full r)
    then show ?thesis
      using assms res len length_cstr_le [of r] by (auto simp: ap_snprintf_def ap_vsnprintf_def)
  next
    case (Done r)
    then show ?thesis
      using assms res len length_cstr_le [of r] by (auto simp: ap_snprintf_def ap_vsnprintf_def)
  qed
qed

theorem ap_snprintf_bounded_witness:
  "length (fst (the (ap_snprintf 8 ''%5d|%s'' [ArgInt 42, ArgStr (Some ''psybnc'')]))) < 8"
proof -
  have "ap_snprintf 8 ''%5d|%s'' [ArgInt 42, ArgStr (Some ''psybnc'')] = Some (''   42|p'', 8)"
    by code_simp
  from ap_snprintf_bounded [OF this] this show ?thesis by simp
qed

section \<open>Decimal numbers are read back\<close>

lemma code_digit_char: "d < 10 \<Longrightarrow> code (digit_char d) = 48 + d"
  by (simp add: digit_char_def code_char_of)

lemma isdigit_digit_char [simp]: "d < 10 \<Longrightarrow> isdigit (digit_char d)"
  by (simp add: isdigit_def code_digit_char)

text \<open>The digits of a number, most significant first.\<close>

fun decimal :: "nat \<Rightarrow> string" where
  "decimal n = (if n < 10 then [digit_char n] else decimal (n div 10) @ [digit_char (n mod 10)])"

declare decimal.simps [simp del]

lemma conv_10_loop_decimal: "conv_10_loop m p = decimal m @ p"
proof (induction m p rule: conv_10_loop.induct)
  case (1 m p)
  have mod: "m - m div 10 * 10 = m mod 10" by (simp add: minus_div_mult_eq_mod)
  show ?case
  proof (cases "m < 10")
    case True
    then show ?thesis by (subst conv_10_loop.simps, subst decimal.simps) (simp add: Let_def)
  next
    case False
    then have "m div 10 \<noteq> 0" by simp
    then show ?thesis
      using 1 [OF refl refl] False
      by (subst conv_10_loop.simps, subst decimal.simps) (simp add: Let_def mod)
  qed
qed

lemma digits_val_append:
  "(\<forall>c \<in> set a. isdigit c) \<Longrightarrow> digits_val acc (a @ b) = digits_val (digits_val acc a) b"
  by (induction a arbitrary: acc) auto

lemma decimal_digits: "\<forall>c \<in> set (decimal n). isdigit c"
proof (induction n rule: decimal.induct)
  case (1 n)
  then show ?case by (subst decimal.simps) auto
qed

lemma digits_val_decimal: "digits_val 0 (decimal n) = n"
proof (induction n rule: decimal.induct)
  case (1 n)
  show ?case
  proof (cases "n < 10")
    case True
    then show ?thesis by (subst decimal.simps) (simp add: code_digit_char)
  next
    case False
    have "digits_val 0 (decimal n) = digits_val (n div 10) [digit_char (n mod 10)]"
      using 1 False by (subst decimal.simps) (simp add: digits_val_append decimal_digits)
    then show ?thesis by (simp add: code_digit_char)
  qed
qed

lemma decimal_not_Nil: "decimal n \<noteq> []"
  by (subst decimal.simps) simp

definition decimal_int :: "int \<Rightarrow> string" where
  "decimal_int i = (if i < 0 then CHR ''-'' # decimal (nat (- i)) else decimal (nat i))"

lemma isdigit_plain: "isdigit c \<Longrightarrow> \<not> isspace c \<and> c \<noteq> CHR ''-'' \<and> c \<noteq> CHR ''+'' \<and> c \<noteq> NUL"
  by (auto simp: isdigit_def isspace_def code_def)

lemma atoi_decimal_int: "atoi (decimal_int i) = i"
proof (cases "i < 0")
  case True
  then show ?thesis
    by (simp add: decimal_int_def atoi_def isspace_def code_def digits_val_decimal)
next
  case False
  obtain c cs where d: "decimal (nat i) = c # cs" by (cases "decimal (nat i)") (auto simp: decimal_not_Nil)
  then have c: "isdigit c" using decimal_digits [of "nat i"] by auto
  have "atoi (c # cs) = int (digits_val 0 (c # cs))"
    using isdigit_plain [OF c] by (simp add: atoi_def Let_def)
  then show ?thesis using False digits_val_decimal [of "nat i"] by (simp add: decimal_int_def d)
qed

lemma conv_10_signed:
  "conv_10 w False = (decimal (nat \<bar>sint w\<bar>), sint w < 0)"
proof -
  have b: "- (2 ^ 31) \<le> sint w" "sint w < 2 ^ 31"
    using sint_ge [of w] sint_lt [of w] by simp_all
  have "unat (of_int k :: 32 word) = nat k" if "0 \<le> k" "k \<le> 2 ^ 31" for k
    using that by (simp add: unsigned_of_int take_bit_int_eq_self)
  from this [of "sint w"] this [of "- sint w"] b
  have "0 \<le> sint w \<Longrightarrow> unat w = nat (sint w)" "sint w < 0 \<Longrightarrow> unat (- w) = nat (- sint w)"
    by simp_all
  then show ?thesis
    by (simp add: conv_10_def conv_10_loop_decimal word_sless_alt Let_def)
qed

lemma length_decimal: "0 < k \<Longrightarrow> n < 10 ^ k \<Longrightarrow> length (decimal n) \<le> k"
proof (induction k arbitrary: n)
  case (Suc k)
  show ?case
  proof (cases "n < 10")
    case True
    then show ?thesis by (subst decimal.simps) simp
  next
    case False
    then have "0 < k" using Suc.prems by (cases k) auto
    moreover have "n div 10 < 10 ^ k" using Suc.prems by (simp add: less_mult_imp_div_less)
    ultimately show ?thesis using Suc.IH [of "n div 10"] False by (subst decimal.simps) simp
  qed
qed simp

lemma abs_sint_less: "nat \<bar>sint (w :: 32 word)\<bar> < 10 ^ 10"
  using sint_ge [of w] sint_lt [of w] by (simp add: abs_if) linarith

lemma length_decimal_sint: "length (decimal (nat \<bar>sint (w :: 32 word)\<bar>)) \<le> 10"
  by (rule length_decimal [OF _ abs_sint_less]) simp

lemma conv_p2_loop_total: "0 < nbits \<Longrightarrow> \<exists>s. conv_p2_loop digits nbits num p = Some s"
proof (induction num arbitrary: p rule: less_induct)
  case (less num)
  show ?case
  proof (cases "num div 2 ^ nbits = 0")
    case False
    have "(1 :: nat) < 2 ^ nbits" using less.prems by (intro one_less_power) simp_all
    then have "num div 2 ^ nbits < num" using False by (intro div_less_dividend) (auto intro: Nat.gr0I)
    then show ?thesis using less False by (subst conv_p2_loop.simps) (simp add: Let_def)
  qed (subst conv_p2_loop.simps, simp add: Let_def)
qed

section \<open>Formats of plain conversions\<close>

text \<open>
  What a format with only \<open>%s\<close>, \<open>%d\<close> and \<open>%c\<close> stands for. Nearly all of the program's formats
  are of this kind; the other theories write their text as the concatenation given here.
\<close>

fun plain_fmt :: "string \<Rightarrow> fmt_arg list \<Rightarrow> string option" where
  "plain_fmt [] ap = Some []"
| "plain_fmt (c # fmt) ap =
     (if c \<noteq> CHR ''%'' then map_option (\<lambda>r. c # r) (plain_fmt fmt ap)
      else case (fmt, ap) of
        (k # rest, ArgStr (Some t) # ap') \<Rightarrow>
          (if k = CHR ''s'' then map_option (\<lambda>r. t @ r) (plain_fmt rest ap') else None)
      | (k # rest, ArgInt w # ap') \<Rightarrow>
          (if k = CHR ''d'' then map_option (\<lambda>r. decimal_int (sint w) @ r) (plain_fmt rest ap')
           else if k = CHR ''c''
           then map_option (\<lambda>r. char_of (unat w mod 256) # r) (plain_fmt rest ap')
           else None)
      | _ \<Rightarrow> None)"

lemma islower_conv [simp]: "islower (CHR ''s'')" "islower (CHR ''d'')" "islower (CHR ''c'')"
  by (simp_all add: islower_def code_def)

lemma convert_s:
  "convert_arg (CHR ''s'') default_spec IS_INT (ArgStr (Some t) # ap) inum = Some (conv_text t ap inum)"
  by (simp add: convert_arg_def conv_string_def default_spec_def)

lemma convert_c:
  "convert_arg (CHR ''c'') default_spec IS_INT (ArgInt w # ap) inum =
     Some (conv_text [char_of (unat w mod 256)] ap inum)"
  by (simp add: convert_arg_def)

lemma convert_d:
  "\<exists>cv. convert_arg (CHR ''d'') default_spec IS_INT (ArgInt w # ap) inum = Some cv \<and>
     pad_conv default_spec cv = decimal_int (sint w) \<and> fc_ap cv = ap"
  using length_decimal_sint [of w]
  by (auto simp: convert_arg_def conv_signed_def arg_signed_def conv_10_signed number_conv_def
      FIX_PRECISION_def default_spec_def NUM_BUF_SIZE_def pad_conv_def decimal_int_def)

lemma pad_conv_text [simp]: "pad_conv default_spec (conv_text t ap inum) = t"
  by (simp add: pad_conv_def conv_text_def default_spec_def)

lemma conv_text_fields [simp]: "fc_ap (conv_text t ap inum) = ap" "i_num (conv_text t ap inum) = inum"
  by (simp_all add: conv_text_def)

lemma INS_CHARS_append:
  "INS_CHARS n out s = Full r \<Longrightarrow> INS_CHARS n out (s @ t) = Full r"
  "INS_CHARS n out s = Done out' \<Longrightarrow> INS_CHARS n out (s @ t) = INS_CHARS n out' t"
  by (auto simp: INS_CHARS_def split: if_splits)

lemma ap_vformatter_conv:
  assumes "islower k" and "k \<notin> {CHR ''q'', CHR ''l'', CHR ''h''}"
    and "convert_arg k default_spec IS_INT ap inum = Some cv"
    and "pad_conv default_spec cv = s"
    and "\<And>out'. length out' \<le> n \<Longrightarrow>
           ap_vformatter n out' (i_num cv) rest (fc_ap cv) = Some (INS_CHARS n out' t)"
    and "length out \<le> n"
  shows "ap_vformatter n out inum (CHR ''%'' # k # rest) ap = Some (INS_CHARS n out (s @ t))"
proof -
  have "parse_spec (k # rest) ap = Some (default_spec, k # rest, ap)"
    using assms(1) by (simp add: parse_spec_def at_def)
  moreover have "parse_modifier (k # rest) = (IS_INT, k # rest)"
    using assms(2) by (simp add: parse_modifier_def at_def)
  ultimately show ?thesis
    using assms(3-6) INS_CHARS_length(1) [OF assms(6)]
    by (auto simp: INS_CHARS_append split: fmt_result.splits)
qed

lemma ap_vformatter_plain:
  "plain_fmt fmt ap = Some t \<Longrightarrow> length out \<le> n \<Longrightarrow>
   ap_vformatter n out inum fmt ap = Some (INS_CHARS n out t)"
proof (induction fmt ap arbitrary: t out inum rule: plain_fmt.induct)
  case (1 ap)
  then show ?case by (simp add: INS_CHARS_def)
next
  case (2 c fmt ap)
  show ?case
  proof (cases "c = CHR ''%''")
    case False
    then obtain r where r: "plain_fmt fmt ap = Some r" "t = c # r" using "2.prems" by auto
    show ?thesis
    proof (cases "INS_CHARS n out [c]")
      case (Full x)
      then show ?thesis using False r(2) INS_CHARS_append(1) [of n out "[c]" x r] by simp
    next
      case (Done out')
      then have "length out' \<le> n" by (rule INS_CHARS_length(1) [OF "2.prems"(2)])
      then show ?thesis
        using False r Done "2.IH"(1) [OF False r(1)] INS_CHARS_append(2) [of n out "[c]" out' r] by simp
    qed
  next
    case True
    then obtain k rest a ap' where fa: "fmt = k # rest" "ap = a # ap'"
      using "2.prems"(1) by (auto split: list.splits)
    show ?thesis
    proof (cases a)
      case (ArgInt w)
      consider (d) "k = CHR ''d''" | (c) "k = CHR ''c''"
        using True "2.prems"(1) fa ArgInt by (auto split: if_splits)
      then show ?thesis
      proof cases
        case d
        then obtain r where r: "plain_fmt rest ap' = Some r" "t = decimal_int (sint w) @ r"
          using True "2.prems"(1) fa ArgInt by auto
        obtain cv where cv: "convert_arg (CHR ''d'') default_spec IS_INT ap inum = Some cv"
            "pad_conv default_spec cv = decimal_int (sint w)" "fc_ap cv = ap'"
          using convert_d [of w ap' inum] fa ArgInt by auto
        show ?thesis
          unfolding True fa(1) d r(2)
          by (rule ap_vformatter_conv [OF _ _ cv(1,2)])
            (use "2.IH" True fa ArgInt d r(1) cv(3) "2.prems"(2) in auto)
      next
        case c
        then obtain r where r: "plain_fmt rest ap' = Some r" "t = [char_of (unat w mod 256)] @ r"
          using True "2.prems"(1) fa ArgInt by auto
        show ?thesis
          unfolding True fa c r(2) ArgInt
          by (rule ap_vformatter_conv [OF _ _ convert_c])
            (use "2.IH" True fa ArgInt c r(1) "2.prems"(2) in auto)
      qed
    next
      case (ArgStr v)
      then obtain u r where r: "v = Some u" "k = CHR ''s''" "plain_fmt rest ap' = Some r" "t = u @ r"
        using True "2.prems"(1) fa by (auto split: option.splits if_splits)
      show ?thesis
        unfolding True fa r(1,2,4) ArgStr
        by (rule ap_vformatter_conv [OF _ _ convert_s])
          (use "2.IH" True fa ArgStr r "2.prems"(2) in auto)
    qed
  qed
qed

lemma ap_snprintf_plain_aux:
  assumes "plain_fmt fmt args = Some t" and "no_nul t" and "0 < len"
  shows "ap_snprintf len fmt args = Some (snpf len t, if length t < len then length t else len)"
proof -
  have "ap_vformatter (len - 1) [] 0 fmt args = Some (INS_CHARS (len - 1) [] t)"
    using assms(1) by (rule ap_vformatter_plain) simp
  then show ?thesis
    using assms(2,3) by (auto simp: ap_snprintf_def ap_vsnprintf_def INS_CHARS_def snpf_def)
qed

text \<open>
  A format made of literal characters, \<open>%s\<close>, \<open>%d\<close> and \<open>%c\<close> prints exactly the concatenation
  it stands for, cut to the buffer, and returns the number of characters when they fit.
\<close>

theorem ap_snprintf_plain:
  assumes "plain_fmt fmt args = Some t" and "no_nul t" and "0 < len"
  shows "ap_snprintf len fmt args = Some (snpf len t, if length t < len then length t else len)"
  using assms by (rule ap_snprintf_plain_aux)

theorem ap_snprintf_plain_witness:
  "ap_snprintf 400 '':%s!%s 353 %d'' [ArgStr (Some ''me''), ArgStr (Some ''u@h''), ArgInt 5] =
     Some ('':me!u@h 353 5'', 13)"
proof -
  have "plain_fmt '':%s!%s 353 %d'' [ArgStr (Some ''me''), ArgStr (Some ''u@h''), ArgInt 5] =
      Some '':me!u@h 353 5''" by code_simp
  from ap_snprintf_plain [OF this, of 400] show ?thesis by simp
qed

text \<open>
  A number printed with \<open>%d\<close> into a buffer of at least 12 bytes is read back by \<open>atoi\<close>,
  negative numbers and the most negative one included.
\<close>

theorem atoi_ap_snprintf:
  assumes "12 \<le> len"
  shows "\<exists>buf cc. ap_snprintf len ''%d'' [ArgInt w] = Some (buf, cc) \<and> atoi buf = sint w"
proof -
  have t: "plain_fmt ''%d'' [ArgInt w] = Some (decimal_int (sint w))" by simp
  have len: "length (decimal_int (sint w)) < len"
    using assms length_decimal_sint [of w] by (auto simp: decimal_int_def abs_if split: if_splits)
  have "no_nul (decimal k)" for k
    using decimal_digits [of k] isdigit_plain by (auto simp: no_nul_def)
  then have "no_nul (decimal_int (sint w))" by (simp add: decimal_int_def)
  then show ?thesis
    using ap_snprintf_plain_aux [OF t] len assms by (simp add: atoi_decimal_int)
qed

theorem atoi_ap_snprintf_witness:
  "\<exists>buf cc. ap_snprintf 12 ''%d'' [ArgInt 0x80000000] = Some (buf, cc) \<and> atoi buf = - 2147483648"
  using atoi_ap_snprintf [of 12 "0x80000000"] by simp

text \<open>
  The alternate hexadecimal form tests the wrong variable: a first \<open>%#x\<close> prints no
  prefix, whatever the number.
\<close>

theorem hex_prefix_missing:
  "ap_snprintf 20 ''%#x'' [ArgInt 0xFF] = Some (''ff'', 2) \<and>
   ap_snprintf 20 ''%d %#x'' [ArgInt 7, ArgInt 0] = Some (''7 0x0'', 5)"
  by code_simp

end
