(* ===== verification/Types.thy ===== *)
theory Types
  imports Strings
begin

text \<open>
  The data structures of src/p_global.h, field by field, with the fields that the build
  configuration selects (scripting, DCC, encryption and traffic logs are in; SSL, IPv6 and
  translation are not). A linked list is the list of its elements, a fixed-size character
  array the C string it holds, a file handle whether it is open, and a script its process
  number. A field keeps the name it has in C, with a prefix for its structure.

  The constants \<open>zero_...\<close> are the structures as \<open>pmalloc\<close> returns them, all bytes zero.
\<close>

text \<open>A pending DCC.\<close>

record dcct =
  d_type :: int
  d_host :: string
  d_file :: string
  d_nick :: string
  d_fhandle :: bool
  d_filesize :: int
  d_transferred :: int
  d_lasttransferred :: int
  d_port :: int
  d_sock :: int
  d_uid :: int
  d_pid :: int
  d_delay :: int

text \<open>A link to another bouncer or a DCC peer.\<close>

record datalinkt =
  l_type :: int
  l_name :: string
  l_user :: string
  l_host :: string
  l_pass :: string
  l_vhost :: string
  l_iam :: string
  l_port :: int
  l_allowrelay :: int
  l_instate :: int
  l_outstate :: int
  l_insock :: int
  l_outsock :: int
  l_delayed :: int

text \<open>\<open>struct linknodes\<close>: a user number and a link, possibly null.\<close>

type_synonym linknodes = "(int \<times> datalinkt option) list"

text \<open>A user on a channel.\<close>

record uchannelusert =
  cu_nick :: string
  cu_ident :: string
  cu_host :: string
  cu_mode :: string

text \<open>A channel of a user.\<close>

record uchannelt =
  c_name :: string
  c_modes :: string
  c_limit :: int
  c_key :: string
  c_topic :: string
  c_prefixmodes :: string
  c_prefixchars :: string
  c_chanmodes :: string
  c_ison :: int
  c_isentry :: int
  c_usern :: int
  c_bans :: stringarray
  c_invites :: stringarray
  c_intops :: stringarray
  c_users :: "uchannelusert list"

text \<open>A user of the bouncer.\<close>

record usert =
  u_parent :: int
  u_nick :: string
  u_wantnick :: string
  u_login :: string
  u_user :: string
  u_pass :: string
  u_vhost :: string
  u_vlink :: int
  u_host :: string
  u_server :: string
  u_proxy :: string
  u_spass :: string
  u_pport :: int
  u_firstnick :: string
  u_away :: string
  u_awaynick :: string
  u_leavemsg :: string
  u_network :: string
  u_last :: string
  u_prefixmodes :: string
  u_prefixchars :: string
  u_chanmodes :: string
  u_chantypes :: string
  u_quitted :: int
  u_welcome :: int
  u_doaway :: int
  u_lastctcp :: int
  u_lastdccchat :: int
  u_innames :: int
  u_inchan :: string
  u_afterquit :: int
  u_srinit :: int
  u_port :: int
  u_instate :: int
  u_outstate :: int
  u_insock :: int
  u_outsock :: int
  u_rights :: int
  u_kicks :: int
  u_gotop :: int
  u_autopongreply :: int
  u_autorejoin :: int
  u_currentserver :: int
  u_triggered :: int
  u_autogetdcc :: int
  u_leavequit :: int
  u_antiidle :: int
  u_sysmsg :: int
  u_dccenabled :: int
  u_penalty :: int
  u_pinged :: int
  u_pingtime :: int
  u_nickgain :: int
  u_altnick :: string
  u_pentime :: int
  u_lastlog :: int
  u_delayed :: int
  u_channels :: "uchannelt list"
  u_script :: "nat option"
  u_bans :: stringarray
  u_ops :: stringarray
  u_aops :: stringarray
  u_askops :: stringarray
  u_logs :: stringarray
  u_keys :: stringarray
  u_ignores :: stringarray
  u_encrypt :: stringarray
  u_pdcc :: "dcct list"
  u_dcc :: "linknodes"
  u_trafficlog :: bool

text \<open>A newly connected peer that has not logged in.\<close>

record newpeert =
  p_user :: string
  p_login :: string
  p_name :: string
  p_nick :: string
  p_pass :: string
  p_host :: string
  p_vhost :: string
  p_server :: string
  p_port :: int
  p_lnkport :: int
  p_insock :: int
  p_state :: int
  p_type :: int
  p_delayed :: int

section \<open>Zeroed structures\<close>

definition zero_dcct :: dcct where
  "zero_dcct = \<lparr>
    d_type = 0, d_host = [], d_file = [], d_nick = [], d_fhandle = False, d_filesize = 0,
    d_transferred = 0, d_lasttransferred = 0, d_port = 0, d_sock = 0, d_uid = 0, d_pid = 0,
    d_delay = 0\<rparr>"

definition zero_datalinkt :: datalinkt where
  "zero_datalinkt = \<lparr>
    l_type = 0, l_name = [], l_user = [], l_host = [], l_pass = [], l_vhost = [], l_iam = [],
    l_port = 0, l_allowrelay = 0, l_instate = 0, l_outstate = 0, l_insock = 0, l_outsock = 0,
    l_delayed = 0\<rparr>"

definition zero_uchannelusert :: uchannelusert where
  "zero_uchannelusert = \<lparr>
    cu_nick = [], cu_ident = [], cu_host = [], cu_mode = []\<rparr>"

definition zero_uchannelt :: uchannelt where
  "zero_uchannelt = \<lparr>
    c_name = [], c_modes = [], c_limit = 0, c_key = [], c_topic = [], c_prefixmodes = [],
    c_prefixchars = [], c_chanmodes = [], c_ison = 0, c_isentry = 0, c_usern = 0, c_bans = [],
    c_invites = [], c_intops = [], c_users = []\<rparr>"

definition zero_usert :: usert where
  "zero_usert = \<lparr>
    u_parent = 0, u_nick = [], u_wantnick = [], u_login = [], u_user = [], u_pass = [],
    u_vhost = [], u_vlink = 0, u_host = [], u_server = [], u_proxy = [], u_spass = [],
    u_pport = 0, u_firstnick = [], u_away = [], u_awaynick = [], u_leavemsg = [],
    u_network = [], u_last = [], u_prefixmodes = [], u_prefixchars = [], u_chanmodes = [],
    u_chantypes = [], u_quitted = 0, u_welcome = 0, u_doaway = 0, u_lastctcp = 0,
    u_lastdccchat = 0, u_innames = 0, u_inchan = [], u_afterquit = 0, u_srinit = 0,
    u_port = 0, u_instate = 0, u_outstate = 0, u_insock = 0, u_outsock = 0, u_rights = 0,
    u_kicks = 0, u_gotop = 0, u_autopongreply = 0, u_autorejoin = 0, u_currentserver = 0,
    u_triggered = 0, u_autogetdcc = 0, u_leavequit = 0, u_antiidle = 0, u_sysmsg = 0,
    u_dccenabled = 0, u_penalty = 0, u_pinged = 0, u_pingtime = 0, u_nickgain = 0,
    u_altnick = [], u_pentime = 0, u_lastlog = 0, u_delayed = 0, u_channels = [],
    u_script = None, u_bans = [], u_ops = [], u_aops = [], u_askops = [], u_logs = [],
    u_keys = [], u_ignores = [], u_encrypt = [], u_pdcc = [], u_dcc = [], u_trafficlog = False\<rparr>"

definition zero_newpeert :: newpeert where
  "zero_newpeert = \<lparr>
    p_user = [], p_login = [], p_name = [], p_nick = [], p_pass = [], p_host = [],
    p_vhost = [], p_server = [], p_port = 0, p_lnkport = 0, p_insock = 0, p_state = 0,
    p_type = 0, p_delayed = 0\<rparr>"

end
