(* ===== verification/Ini.thy ===== *)
theory Ini
  imports Format Types
begin

text \<open>
  The configuration store of src/p_inifunc.c: the list of configuration lines that the
  program keeps in memory, its file, and the operations that read, write and clear entries.

  An entry is a line \<open>dat.section.param=value\<close>. A list cell whose text pointer is null is \<open>None\<close>.
  Results are \<open>None\<close> where the C code follows a null or a freed pointer. A file is its
  content; \<open>None\<close> for a file that cannot be opened. Texts built by the formatter are written
  as their concatenation, cut to the buffer by \<open>snpf\<close>.
\<close>

type_synonym conf = stringarray

section \<open>The file\<close>

definition resetconfig :: "conf \<Rightarrow> conf" where
  "resetconfig c = []"

text \<open>\<open>fgets\<close> into a buffer of \<open>n\<close> bytes.\<close>

definition fgets :: "nat \<Rightarrow> string \<Rightarrow> string" where
  "fgets n s =
     (case find_char LF (take (n - 1) s) of
        Some i \<Rightarrow> take (i + 1) s
      | None \<Rightarrow> take (n - 1) s)"

lemma fgets_not_Nil: "s \<noteq> [] \<Longrightarrow> 2 \<le> n \<Longrightarrow> fgets n s \<noteq> []"
  by (auto simp: fgets_def split: option.splits)

text \<open>The lines that the reading loop stores, without the line feed.\<close>

function read_lines :: "string \<Rightarrow> conf" where
  "read_lines s =
     (if s = [] then []
      else let inistring = fgets 400 s in
        Some (case strchr inistring LF of Some i \<Rightarrow> take i inistring | None \<Rightarrow> inistring)
          # read_lines (drop (length inistring) s))"
  by pat_completeness auto
termination
  by (relation "measure length") (auto simp: fgets_not_Nil)

declare read_lines.simps [simp del]

text \<open>
  \<open>wconf\<close> is read before the old list is freed: with an old list, the first line is
  attached to a freed cell.
\<close>

definition readconfig :: "conf \<Rightarrow> string option \<Rightarrow> (int \<times> conf) option" where
  "readconfig c file =
     (case file of
        None \<Rightarrow> Some (-1, [])
      | Some content \<Rightarrow>
          if c \<noteq> [] \<and> content \<noteq> [] then None
          else Some (0, read_lines content))"

fun flush_lines :: "conf \<Rightarrow> string" where
  "flush_lines [] = []"
| "flush_lines (None # wconf) = flush_lines wconf"
| "flush_lines (Some e # wconf) =
     (if length e > 1 then e @ [LF] else []) @ flush_lines wconf"

text \<open>The new content of the file; \<open>None\<close> when the file cannot be opened for writing.\<close>

definition flushconfig :: "bool \<Rightarrow> conf \<Rightarrow> string option" where
  "flushconfig opened c = (if opened then Some (flush_lines c) else None)"

section \<open>Entries\<close>

definition starts :: "string \<Rightarrow> string option \<Rightarrow> bool" where
  "starts pattern e = (case e of None \<Rightarrow> False | Some t \<Rightarrow> strstr t pattern = Some 0)"

text \<open>
  Clearing a section. Behind the first cell the loop removes every matching cell. When the
  first cell matches, the new first cell is not looked at; when there is none, the loop
  follows a null pointer.
\<close>

fun clear_loop :: "string \<Rightarrow> conf \<Rightarrow> conf" where
  "clear_loop pattern [] = []"
| "clear_loop pattern (w # wconf) =
     (if starts pattern w then clear_loop pattern wconf else w # clear_loop pattern wconf)"

definition clearsectionconfig :: "string \<Rightarrow> conf \<Rightarrow> conf option" where
  "clearsectionconfig pattern c =
     (case c of
        [] \<Rightarrow> Some []
      | w # wconf \<Rightarrow>
          if starts pattern w
          then (case wconf of [] \<Rightarrow> None | x # xconf \<Rightarrow> Some (x # clear_loop pattern xconf))
          else Some (w # clear_loop pattern wconf))"

definition key_text :: "string \<Rightarrow> string \<Rightarrow> string \<Rightarrow> string" where
  "key_text inidat section param = inidat @ ''.'' @ section @ ''.'' @ param @ ''=''"

definition section_text :: "string \<Rightarrow> string \<Rightarrow> string" where
  "section_text inidat section = inidat @ ''.'' @ section @ ''.''"

fun getini_loop :: "string \<Rightarrow> conf \<Rightarrow> int \<times> string" where
  "getini_loop ppuf [] = (-2, [])"
| "getini_loop ppuf (w # wconf) =
     (case w of
        None \<Rightarrow> getini_loop ppuf wconf
      | Some e \<Rightarrow>
          if strstr e ppuf = Some 0 then (0, strmncpy (drop (length ppuf) e) 200)
          else getini_loop ppuf wconf)"

text \<open>The return code and the global \<open>value\<close> (200 bytes), which is empty when nothing is found.\<close>

definition getini :: "string \<Rightarrow> string \<Rightarrow> string \<Rightarrow> conf \<Rightarrow> int \<times> string" where
  "getini section param inidat c = getini_loop (snpf 400 (key_text inidat section param)) c"

text \<open>
  The search loop of \<open>writeini\<close>. \<open>pre\<close> are the cells already passed, last one first, and
  \<open>sect\<close> the position behind which a new entry of the section goes: the cell in front of the
  section's last entry, or the first cell.
\<close>

datatype write_found = Found conf | NotFound "nat option"

fun write_loop :: "string \<Rightarrow> string \<Rightarrow> string option \<Rightarrow> conf \<Rightarrow> nat option \<Rightarrow> conf \<Rightarrow> write_found" where
  "write_loop ppuf spuf buf pre sect [] = NotFound sect"
| "write_loop ppuf spuf buf pre sect (w # wconf) =
     (if starts spuf w
      then (if starts ppuf w
            then Found (rev pre @ (case buf of None \<Rightarrow> wconf | Some b \<Rightarrow> Some b # wconf))
            else write_loop ppuf spuf buf (w # pre) (Some (length pre - 1)) wconf)
      else write_loop ppuf spuf buf (w # pre) sect wconf)"

definition writeini :: "string \<Rightarrow> string \<Rightarrow> string \<Rightarrow> string option \<Rightarrow> conf \<Rightarrow> conf option" where
  "writeini section param inidat data c =
     (let data_p = (case data of Some [] \<Rightarrow> None | _ \<Rightarrow> data);
          ppuf = snpf 200 (key_text inidat section param);
          spuf = snpf 200 (section_text inidat section);
          buf = map_option (\<lambda>d. snpf 2048 (ppuf @ d)) data_p
      in case write_loop ppuf spuf buf [] None c of
           Found c' \<Rightarrow> Some c'
         | NotFound sect \<Rightarrow>
             (case buf of
                None \<Rightarrow> Some c
              | Some b \<Rightarrow>
                  (case sect of
                     None \<Rightarrow> if c = [] then None else Some (c @ [Some b])
                   | Some i \<Rightarrow> Some (take (i + 1) c @ Some b # drop (i + 1) c))))"

section \<open>Counting entries\<close>

text \<open>
  \<open>sscanf\<close> for the formats used here: literal characters, \<open>%d\<close> and \<open>%255s\<close>. The result is the
  number of conversions stored and the integer stored last.
\<close>

definition scan_int :: "string \<Rightarrow> (int \<times> string) option" where
  "scan_int s0 =
     (let s = dropWhile isspace s0;
          neg = (at s 0 = CHR ''-'');
          t = (if at s 0 = CHR ''-'' \<or> at s 0 = CHR ''+'' then tl s else s)
      in if isdigit (at t 0)
         then Some (if neg then - int (digits_val 0 t) else int (digits_val 0 t), dropWhile isdigit t)
         else None)"

function sscanf :: "string \<Rightarrow> string \<Rightarrow> int \<Rightarrow> nat \<Rightarrow> nat \<times> int" where
  "sscanf fmt s i rc =
     (if prefix ''%d'' fmt
      then (case scan_int s of
              None \<Rightarrow> (rc, i)
            | Some (j, s') \<Rightarrow> sscanf (drop 2 fmt) s' j (rc + 1))
      else if prefix ''%255s'' fmt
      then (let t = takeWhile (\<lambda>c. \<not> isspace c) (dropWhile isspace s) in
            if t = [] then (rc, i)
            else sscanf (drop 5 fmt) (drop (length (take 255 t)) (dropWhile isspace s)) i (rc + 1))
      else if fmt \<noteq> [] \<and> s \<noteq> [] \<and> hd fmt = hd s
      then sscanf (tl fmt) (tl s) i rc
      else (rc, i))"
  by pat_completeness auto
termination
  by (relation "measure (\<lambda>(fmt, s, i, rc). length fmt)") (auto dest: prefix_length_le)

declare sscanf.simps [simp del]

definition MAXITEML :: nat where
  "MAXITEML = 256"

text \<open>A cell without text is given to \<open>sscanf\<close>, and a negative index is written: both give \<open>None\<close>.\<close>

fun count_loop :: "string \<Rightarrow> conf \<Rightarrow> int \<Rightarrow> bool list \<Rightarrow> nat \<Rightarrow> (bool list \<times> nat) option" where
  "count_loop buf [] i itemlist cnt = Some (itemlist, cnt)"
| "count_loop buf (w # wconf) i itemlist cnt =
     (case w of
        None \<Rightarrow> None
      | Some e \<Rightarrow>
          (case sscanf buf e i 0 of
             (rc, i') \<Rightarrow>
               if rc = 2
               then (if i' < int MAXITEML
                     then (if i' < 0 then None
                           else count_loop buf wconf i' (itemlist[nat i' := True]) (cnt + 1))
                     else count_loop buf wconf i' itemlist (cnt + 1))
               else count_loop buf wconf i' itemlist cnt))"

fun first_free :: "nat \<Rightarrow> bool list \<Rightarrow> nat" where
  "first_free k [] = 0"
| "first_free k (b # bs) = (if b then first_free (k + 1) bs else k)"

text \<open>The number of entries and the global \<open>lastfree\<close>.\<close>

definition countconfentries :: "string \<Rightarrow> string \<Rightarrow> string \<Rightarrow> conf \<Rightarrow> (nat \<times> nat) option" where
  "countconfentries section entry fname c =
     (let buf = snpf 256 (key_text fname section entry @ ''%255s'') in
      map_option (\<lambda>(itemlist, cnt). (cnt, first_free 0 itemlist))
        (count_loop buf c 0 (replicate MAXITEML False) 0))"

section \<open>Servers of a user\<close>

definition user_key :: "int \<Rightarrow> string" where
  "user_key usernum = snpf 20 (''USER'' @ decimal_int usernum)"

definition getserver :: "int \<Rightarrow> int \<Rightarrow> conf \<Rightarrow> usert \<Rightarrow> int \<times> usert" where
  "getserver srvnr usernum c u =
     (let fnmuser = user_key usernum in
      case getini ''SERVERS'' (snpf 100 (''SERVER'' @ decimal_int srvnr)) fnmuser c of
        (ern, value) \<Rightarrow>
          if ern \<noteq> 0 then (ern, u)
          else
            let u = u\<lparr>u_server := snpf 255 value\<rparr> in
            (case getini ''SERVERS'' (snpf 100 (''PORT'' @ decimal_int srvnr)) fnmuser c of
               (ern, value) \<Rightarrow>
                 let u = u\<lparr>u_port := (if ern \<noteq> 0 then 6667 else atoi value)\<rparr> in
                 (case getini ''SERVERS'' (snpf 100 (''SPASS'' @ decimal_int srvnr)) fnmuser c of
                    (ern, value) \<Rightarrow>
                      (0, u\<lparr>u_spass := (if ern \<noteq> 0 then [] else snpf 64 value)\<rparr>))))"

partial_function (option) nextserver_loop :: "int \<Rightarrow> int \<Rightarrow> conf \<Rightarrow> usert \<Rightarrow> (int \<times> usert) option" where
  "nextserver_loop first nuser c u =
     (let u = u\<lparr>u_currentserver := u_currentserver u + 1\<rparr> in
      case getserver (u_currentserver u) nuser c u of
        (ern, u) \<Rightarrow>
          if ern = 0 then Some (0, u)
          else
            let u = (if u_currentserver u > 20 then u\<lparr>u_currentserver := 0\<rparr> else u) in
            if u_currentserver u = first then Some (-1, u)
            else nextserver_loop first nuser c u)"

definition getnextserver :: "int \<Rightarrow> conf \<Rightarrow> usert \<Rightarrow> (int \<times> usert) option" where
  "getnextserver nuser c u = nextserver_loop (u_currentserver u) nuser c u"

section \<open>Deleting a user\<close>

text \<open>The files renamed, the user, the new list and the new content of the file.\<close>

definition deluser :: "bool \<Rightarrow> int \<Rightarrow> conf \<Rightarrow> usert \<Rightarrow> (string list \<times> usert \<times> conf \<times> string) option" where
  "deluser opened uind c u =
     do {
       let u = (if u_trafficlog u then u\<lparr>u_trafficlog := False\<rparr> else u);
       let log = snpf 60 (''log/USER'' @ decimal_int uind @ ''.LOG'');
       let tra = snpf 60 (''log/USER'' @ decimal_int uind @ ''.TRA'');
       c' \<leftarrow> clearsectionconfig (snpf 60 (''USER'' @ decimal_int uind @ ''.'')) c;
       content \<leftarrow> flushconfig opened c';
       Some ([log, tra], u, c', content)
     }"

section \<open>The file: correctness\<close>

definition line_ok :: "string option \<Rightarrow> bool" where
  "line_ok e = (case e of None \<Rightarrow> False | Some t \<Rightarrow> 1 < length t \<and> length t < 399 \<and> LF \<notin> set t)"

lemma fgets_line: "LF \<notin> set t \<Longrightarrow> length t < 399 \<Longrightarrow> fgets 400 (t @ LF # r) = t @ [LF]"
proof -
  assume t: "LF \<notin> set t" "length t < 399"
  then have "take 399 (t @ LF # r) = t @ LF # take (398 - length t) r"
    by (simp add: take_Cons')
  then show ?thesis using t by (simp add: fgets_def)
qed

lemma read_lines_flush_lines: "\<forall>e \<in> set c. line_ok e \<Longrightarrow> read_lines (flush_lines c) = c"
proof (induction c rule: flush_lines.induct)
  case (3 e wconf)
  then have e: "1 < length e" "length e < 399" "LF \<notin> set e" by (auto simp: line_ok_def)
  have "flush_lines (Some e # wconf) = e @ LF # flush_lines wconf" using e by simp
  then show ?case
    using 3 e by (subst read_lines.simps) (simp add: fgets_line)
qed (auto simp: line_ok_def read_lines.simps [of "[]"])

text \<open>
  (C38) Saving and loading: a configuration whose lines have at least two and at most 398
  characters and no line feed is written to the file and read back unchanged.
\<close>

theorem readconfig_flushconfig:
  assumes "\<forall>e \<in> set c. line_ok e"
  shows "\<exists>content. flushconfig True c = Some content \<and> readconfig [] (Some content) = Some (0, c)"
  using read_lines_flush_lines [OF assms] by (simp add: flushconfig_def readconfig_def)

theorem readconfig_flushconfig_witness:
  "\<exists>content. flushconfig True [Some ''PSYBNC.SYSTEM.PORT1=31337'', Some ''USER1.USER.LOGIN=psy''] = Some content \<and>
     readconfig [] (Some content) =
       Some (0, [Some ''PSYBNC.SYSTEM.PORT1=31337'', Some ''USER1.USER.LOGIN=psy''])"
  by (rule readconfig_flushconfig) (simp add: line_ok_def)

section \<open>Entries: correctness\<close>

lemma starts_Some [simp]: "starts p (Some t) \<longleftrightarrow> prefix p t"
  by (simp add: starts_def)

lemma starts_None [simp]: "\<not> starts p None"
  by (simp add: starts_def)

lemma starts_prefix: "prefix q p \<Longrightarrow> starts p e \<Longrightarrow> starts q e"
  by (cases e) (auto elim: prefix_order.trans)

definition value_of :: "string \<Rightarrow> conf \<Rightarrow> string option" where
  "value_of p c = map_option (\<lambda>e. take 199 (drop (length p) (the e))) (List.find (starts p) c)"

lemma getini_loop_value_of:
  "getini_loop p c = (case value_of p c of None \<Rightarrow> (-2, []) | Some v \<Rightarrow> (0, v))"
  by (induction p c rule: getini_loop.induct) (auto simp: value_of_def strmncpy_def split: option.splits)

lemma value_of_append:
  "value_of p (a @ b) = (case value_of p a of None \<Rightarrow> value_of p b | Some v \<Rightarrow> Some v)"
  by (induction a) (auto simp: value_of_def)

lemma value_of_None: "\<forall>e \<in> set c. \<not> starts p e \<Longrightarrow> value_of p c = None"
  by (auto simp: value_of_def find_None_iff)

text \<open>The effect of a write: an old entry, if any, is replaced in its place, and no cell in front of it has the key.\<close>

lemma write_loop_cases:
  assumes "prefix spuf ppuf" and "write_loop ppuf spuf buf pre sect c = r"
  shows "(\<exists>A w B. c = A @ w # B \<and> (\<forall>e \<in> set A. \<not> starts ppuf e) \<and> starts ppuf w \<and>
            r = Found (rev pre @ A @ (case buf of None \<Rightarrow> B | Some b \<Rightarrow> Some b # B))) \<or>
         ((\<forall>e \<in> set c. \<not> starts ppuf e) \<and> (\<exists>s. r = NotFound s))"
  using assms(2)
proof (induction c arbitrary: pre sect)
  case (Cons w c)
  show ?case
  proof (cases "starts ppuf w")
    case True
    then have "starts spuf w" using assms(1) starts_prefix by blast
    then show ?thesis using True Cons.prems by (intro disjI1 exI [of _ "[]"]) auto
  next
    case False
    then obtain s where "write_loop ppuf spuf buf (w # pre) s c = r"
      using Cons.prems by (auto split: if_splits)
    from Cons.IH [OF this] show ?thesis
    proof
      assume "\<exists>A v B. c = A @ v # B \<and> (\<forall>e \<in> set A. \<not> starts ppuf e) \<and> starts ppuf v \<and>
            r = Found (rev (w # pre) @ A @ (case buf of None \<Rightarrow> B | Some b \<Rightarrow> Some b # B))"
      then obtain A v B where "c = A @ v # B" "\<forall>e \<in> set A. \<not> starts ppuf e" "starts ppuf v"
        "r = Found (rev (w # pre) @ A @ (case buf of None \<Rightarrow> B | Some b \<Rightarrow> Some b # B))" by blast
      then show ?thesis using False by (intro disjI1 exI [of _ "w # A"] exI [of _ v] exI [of _ B]) auto
    qed (use False in auto)
  qed
qed auto

definition key_ok :: "string \<times> string \<times> string \<Rightarrow> bool" where
  "key_ok k = (case k of (d, s, p) \<Rightarrow>
     CHR ''='' \<notin> set d \<union> set s \<union> set p \<and> length (key_text d s p) < 200)"

definition key_name :: "string \<times> string \<times> string \<Rightarrow> string" where
  "key_name k = (case k of (d, s, p) \<Rightarrow> key_text d s p)"

definition val_ok :: "string \<Rightarrow> bool" where
  "val_ok v \<longleftrightarrow> v \<noteq> [] \<and> length v < 200"

definition conf_get :: "string \<times> string \<times> string \<Rightarrow> conf \<Rightarrow> string option" where
  "conf_get k c = (case k of (d, s, p) \<Rightarrow>
     case getini s p d c of (rc, v) \<Rightarrow> if rc = 0 then Some v else None)"

definition conf_put :: "string \<times> string \<times> string \<Rightarrow> string \<Rightarrow> conf \<Rightarrow> conf option" where
  "conf_put k v c = (case k of (d, s, p) \<Rightarrow> writeini s p d (Some v) c)"

lemma conf_get_eq: "key_ok k \<Longrightarrow> conf_get k c = value_of (key_name k) c"
  by (auto simp: conf_get_def key_ok_def key_name_def getini_def getini_loop_value_of split: option.splits)

lemma key_name_prefix:
  assumes "key_ok k" and "key_ok k'" and "prefix (key_name k') (key_name k @ v)"
  shows "key_name k' = key_name k"
proof -
  have shape: "\<exists>b. key_name k = b @ [CHR ''=''] \<and> CHR ''='' \<notin> set b" if "key_ok k" for k
    using that by (auto simp: key_ok_def key_name_def key_text_def split: prod.splits)
  obtain b b' where b: "key_name k = b @ [CHR ''='']" "CHR ''='' \<notin> set b"
      "key_name k' = b' @ [CHR ''='']" "CHR ''='' \<notin> set b'"
    using shape assms(1,2) by metis
  then obtain z where z: "b @ CHR ''='' # v = b' @ CHR ''='' # z"
    using assms(3) by (auto simp: prefix_def)
  have tw: "CHR ''='' \<notin> set a \<Longrightarrow> takeWhile (\<lambda>c. c \<noteq> CHR ''='') (a @ CHR ''='' # r) = a" for a r
    by (induction a) auto
  have "b = b'" using arg_cong [OF z, of "takeWhile (\<lambda>c. c \<noteq> CHR ''='')"] tw b(2,4) by simp
  then show ?thesis using b by simp
qed

lemma conf_put_cases:
  assumes "key_ok k" and "val_ok v" and "conf_put k v c = Some c'"
  shows "\<exists>A old B. c = A @ old @ B \<and> c' = A @ Some (key_name k @ v) # B \<and>
     (\<forall>e \<in> set A. \<not> starts (key_name k) e) \<and> (\<forall>e \<in> set old. starts (key_name k) e) \<and>
     (old = [] \<longrightarrow> (\<forall>e \<in> set B. \<not> starts (key_name k) e))"
proof -
  obtain d s p where k: "k = (d, s, p)" by (cases k)
  let ?pp = "key_text d s p" and ?sp = "section_text d s"
  have kn: "key_name k = ?pp" by (simp add: key_name_def k)
  have len: "length ?pp < 200" "length ?sp < 200" and pre: "prefix ?sp ?pp"
    using assms(1) by (auto simp: key_ok_def k key_text_def section_text_def)
  obtain x xs where v: "v = x # xs" using assms(2) by (cases v) (auto simp: val_ok_def)
  have buf: "snpf 2048 (?pp @ v) = ?pp @ v" using len assms(2) by (simp add: val_ok_def)
  let ?r = "write_loop ?pp ?sp (Some (?pp @ v)) [] None c"
  have put: "conf_put k v c = (case ?r of Found c' \<Rightarrow> Some c' | NotFound sect \<Rightarrow>
      (case sect of None \<Rightarrow> if c = [] then None else Some (c @ [Some (?pp @ v)])
       | Some i \<Rightarrow> Some (take (i + 1) c @ Some (?pp @ v) # drop (i + 1) c)))"
    unfolding conf_put_def k writeini_def Let_def prod.case
    using len buf by (simp add: v split: write_found.splits option.splits)
  from write_loop_cases [OF pre refl, where buf = "Some (?pp @ v)" and pre = "[]" and sect = None and c = c] show ?thesis
  proof
    assume "\<exists>A w B. c = A @ w # B \<and> (\<forall>e \<in> set A. \<not> starts ?pp e) \<and> starts ?pp w \<and>
      ?r = Found (rev [] @ A @ (case Some (?pp @ v) of None \<Rightarrow> B | Some b \<Rightarrow> Some b # B))"
    then obtain A w B where "c = A @ w # B" "\<forall>e \<in> set A. \<not> starts ?pp e" "starts ?pp w"
      "?r = Found (A @ Some (?pp @ v) # B)" by auto
    then show ?thesis
      using assms(3) put kn
      by (simp only: kn) (rule exI [of _ A], rule exI [of _ "[w]"], rule exI [of _ B], simp)
  next
    assume nf: "(\<forall>e \<in> set c. \<not> starts ?pp e) \<and> (\<exists>s. ?r = NotFound s)"
    then obtain sect where "?r = NotFound sect" by blast
    then have "c' = take (length c) c @ Some (?pp @ v) # drop (length c) c \<or>
        (\<exists>i. c' = take i c @ Some (?pp @ v) # drop i c)"
      using assms(3) put by (auto split: option.splits if_splits)
    then obtain i where "c' = take i c @ Some (?pp @ v) # drop i c" by blast
    then show ?thesis
      using nf
      by (simp only: kn)
        (rule exI [of _ "take i c"], rule exI [of _ "[]"], rule exI [of _ "drop i c"],
          auto dest: in_set_takeD in_set_dropD)
  qed
qed


lemma conf_put_total:
  assumes "c \<noteq> []" and "key_ok k" and "val_ok v"
  shows "\<exists>c'. conf_put k v c = Some c' \<and> c' \<noteq> []"
proof -
  obtain d s p where k: "k = (d, s, p)" by (cases k)
  obtain x xs where v: "v = x # xs" using assms(3) by (cases v) (auto simp: val_ok_def)
  have "conf_put k v c \<noteq> None"
    using assms(1) by (auto simp: conf_put_def k v writeini_def Let_def split: write_found.splits option.splits)
  then obtain c' where c': "conf_put k v c = Some c'" by blast
  with conf_put_cases [OF assms(2,3) c'] show ?thesis by auto
qed

lemma conf_get_put:
  assumes "key_ok k" and "val_ok v" and "key_ok k'" and "conf_put k v c = Some c'"
  shows "conf_get k' c' = (if key_name k' = key_name k then Some v else conf_get k' c)"
proof -
  obtain A old B where c: "c = A @ old @ B" "c' = A @ Some (key_name k @ v) # B"
      "\<forall>e \<in> set A. \<not> starts (key_name k) e" "\<forall>e \<in> set old. starts (key_name k) e"
    using conf_put_cases [OF assms(1,2,4)] by blast
  have v: "take 199 v = v" using assms(2) by (simp add: val_ok_def)
  show ?thesis
  proof (cases "key_name k' = key_name k")
    case True
    then have "value_of (key_name k') A = None" using c(3) by (simp add: value_of_None)
    moreover have "value_of (key_name k') (Some (key_name k @ v) # B) = Some v"
      using True v by (simp add: value_of_def)
    ultimately show ?thesis using True by (simp add: conf_get_eq assms(3) c(2) value_of_append)
  next
    case False
    have no: "\<not> starts (key_name k') (Some (key_name k @ r))" for r
      using False key_name_prefix [OF assms(1,3)] by auto
    have "\<forall>e \<in> set old. \<not> starts (key_name k') e"
      using c(4) no by (metis prefix_def starts_Some starts_None option.exhaust)
    then have "value_of (key_name k') old = None" by (rule value_of_None)
    moreover have "value_of (key_name k') (Some (key_name k @ v) # B) = value_of (key_name k') B"
      using no [of v] by (simp add: value_of_def)
    ultimately show ?thesis
      using False by (auto simp: conf_get_eq assms(3) c(1,2) value_of_append split: option.splits)
  qed
qed

section \<open>The contract of a configuration store\<close>

text \<open>
  What the modules that keep their data in the configuration rely on: a value written under a
  key is read back under it, and no other key is disturbed.
\<close>

primrec put_all :: "('k \<Rightarrow> string \<Rightarrow> 'c \<Rightarrow> 'c option) \<Rightarrow> ('k \<times> string) list \<Rightarrow> 'c \<Rightarrow> 'c option" where
  "put_all put [] c = Some c"
| "put_all put (kv # kvs) c =
     (case put (fst kv) (snd kv) c of None \<Rightarrow> None | Some c' \<Rightarrow> put_all put kvs c')"

locale config_store =
  fixes get :: "'k \<Rightarrow> 'c \<Rightarrow> string option"
    and put :: "'k \<Rightarrow> string \<Rightarrow> 'c \<Rightarrow> 'c option"
    and name :: "'k \<Rightarrow> 'n"
    and kok :: "'k \<Rightarrow> bool"
    and vok :: "string \<Rightarrow> bool"
    and usable :: "'c \<Rightarrow> bool"
  assumes put_total: "usable c \<Longrightarrow> kok k \<Longrightarrow> vok v \<Longrightarrow> \<exists>c'. put k v c = Some c' \<and> usable c'"
    and get_put: "kok k \<Longrightarrow> vok v \<Longrightarrow> kok k' \<Longrightarrow> put k v c = Some c' \<Longrightarrow>
      get k' c' = (if name k' = name k then Some v else get k' c)"
begin

lemma put_all_total:
  "usable c \<Longrightarrow> \<forall>kv \<in> set kvs. kok (fst kv) \<and> vok (snd kv) \<Longrightarrow>
   \<exists>c'. put_all put kvs c = Some c' \<and> usable c'"
proof (induction kvs arbitrary: c)
  case (Cons kv kvs)
  then obtain c1 where "put (fst kv) (snd kv) c = Some c1" "usable c1" using put_total by force
  then show ?case using Cons by auto
qed simp

lemma get_put_all_other:
  "put_all put kvs c = Some c' \<Longrightarrow> \<forall>kv \<in> set kvs. kok (fst kv) \<and> vok (snd kv) \<Longrightarrow> kok k \<Longrightarrow>
   name k \<notin> name ` fst ` set kvs \<Longrightarrow> get k c' = get k c"
proof (induction kvs arbitrary: c)
  case (Cons kv kvs)
  then obtain c1 where c1: "put (fst kv) (snd kv) c = Some c1" "put_all put kvs c1 = Some c'"
    by (auto split: option.splits)
  have "get k c1 = get k c" using get_put [OF _ _ _ c1(1), of k] Cons.prems by auto
  then show ?case using Cons.IH [OF c1(2)] Cons.prems by auto
qed simp

lemma get_put_all:
  "put_all put kvs c = Some c' \<Longrightarrow> \<forall>kv \<in> set kvs. kok (fst kv) \<and> vok (snd kv) \<Longrightarrow>
   distinct (map (name \<circ> fst) kvs) \<Longrightarrow> (k, v) \<in> set kvs \<Longrightarrow> get k c' = Some v"
proof (induction kvs arbitrary: c)
  case (Cons kv kvs)
  then obtain c1 where c1: "put (fst kv) (snd kv) c = Some c1" "put_all put kvs c1 = Some c'"
    by (auto split: option.splits)
  show ?case
  proof (cases "(k, v) = kv")
    case True
    then have "get k c1 = Some v" using get_put [OF _ _ _ c1(1), of k] Cons.prems by auto
    moreover have "name k \<notin> name ` fst ` set kvs" using True Cons.prems(3) by force
    ultimately show ?thesis
      using get_put_all_other [OF c1(2), of k] Cons.prems(2) True by auto
  next
    case False
    then show ?thesis using Cons.IH [OF c1(2)] Cons.prems by auto
  qed
qed simp

end

text \<open>A store from which entries can be erased, as long as no key occurs twice in it.\<close>

primrec set_all ::
  "('k \<Rightarrow> string \<Rightarrow> 'c \<Rightarrow> 'c option) \<Rightarrow> ('k \<Rightarrow> 'c \<Rightarrow> 'c option) \<Rightarrow> ('k \<times> string) list \<Rightarrow> 'c \<Rightarrow> 'c option" where
  "set_all put del [] c = Some c"
| "set_all put del (kv # kvs) c =
     (case (if snd kv = [] then del (fst kv) c else put (fst kv) (snd kv) c) of
        None \<Rightarrow> None
      | Some c' \<Rightarrow> set_all put del kvs c')"

locale erasable_store = config_store +
  fixes del :: "'k \<Rightarrow> 'c \<Rightarrow> 'c option"
    and single :: "'c \<Rightarrow> bool"
  assumes get_usable: "get k c \<noteq> None \<Longrightarrow> usable c"
    and del_total: "kok k \<Longrightarrow> \<exists>c'. del k c = Some c'"
    and get_del: "single c \<Longrightarrow> kok k \<Longrightarrow> kok k' \<Longrightarrow> del k c = Some c' \<Longrightarrow>
      get k' c' = (if name k' = name k then None else get k' c)"
    and single_put: "single c \<Longrightarrow> kok k \<Longrightarrow> vok v \<Longrightarrow> put k v c = Some c' \<Longrightarrow> single c'"
    and single_del: "single c \<Longrightarrow> kok k \<Longrightarrow> del k c = Some c' \<Longrightarrow> single c'"
begin

text \<open>Setting a list of entries, some to nothing, while some other entry \<open>a\<close> keeps the store usable.\<close>

lemma set_all_values:
  "single c \<Longrightarrow> kok a \<Longrightarrow> get a c \<noteq> None \<Longrightarrow> name a \<notin> (name \<circ> fst) ` set kvs \<Longrightarrow>
   \<forall>kv \<in> set kvs. kok (fst kv) \<and> (snd kv = [] \<or> vok (snd kv)) \<Longrightarrow> distinct (map (name \<circ> fst) kvs) \<Longrightarrow>
   \<exists>c'. set_all put del kvs c = Some c' \<and> single c' \<and> usable c' \<and>
     (\<forall>kv \<in> set kvs. get (fst kv) c' = (if snd kv = [] then None else Some (snd kv))) \<and>
     (\<forall>k. kok k \<longrightarrow> name k \<notin> (name \<circ> fst) ` set kvs \<longrightarrow> get k c' = get k c)"
proof (induction kvs arbitrary: c)
  case Nil
  then show ?case using get_usable by auto
next
  case (Cons kv kvs)
  have kv: "kok (fst kv)" "snd kv = [] \<or> vok (snd kv)" using Cons.prems(5) by auto
  obtain c1 where c1: "(if snd kv = [] then del (fst kv) c else put (fst kv) (snd kv) c) = Some c1"
    using kv del_total put_total get_usable [OF Cons.prems(3)] by (metis (full_types))
  have s1: "single c1"
    using c1 kv single_put [OF Cons.prems(1) kv(1)] single_del [OF Cons.prems(1) kv(1)] by (auto split: if_splits)
  have g1: "get k c1 = (if name k = name (fst kv) then (if snd kv = [] then None else Some (snd kv)) else get k c)"
    if "kok k" for k
    using c1 kv get_put [OF kv(1) _ that] get_del [OF Cons.prems(1) kv(1) that] by (auto split: if_splits)
  have "get a c1 \<noteq> None" using g1 [OF Cons.prems(2)] Cons.prems(3,4) by auto
  then obtain c' where c': "set_all put del kvs c1 = Some c'" "single c'" "usable c'"
      "\<forall>kv \<in> set kvs. get (fst kv) c' = (if snd kv = [] then None else Some (snd kv))"
      "\<forall>k. kok k \<longrightarrow> name k \<notin> (name \<circ> fst) ` set kvs \<longrightarrow> get k c' = get k c1"
    using Cons.IH [OF s1 Cons.prems(2)] Cons.prems(4-6) by auto
  have "name (fst kv) \<notin> (name \<circ> fst) ` set kvs" using Cons.prems(6) by simp
  then have "get (fst kv) c' = (if snd kv = [] then None else Some (snd kv))"
    using c'(5) kv(1) g1 by auto
  then show ?case using c1 c' g1 by (auto split: if_splits)
qed

text \<open>The first entry is not empty and keeps the store usable for the rest.\<close>

lemma set_all_first:
  assumes "single c" "usable c" "vok (snd kv)" "snd kv \<noteq> []"
    and "\<forall>e \<in> set (kv # kvs). kok (fst e) \<and> (snd e = [] \<or> vok (snd e))" "distinct (map (name \<circ> fst) (kv # kvs))"
  shows "\<exists>c'. set_all put del (kv # kvs) c = Some c' \<and> single c' \<and> usable c' \<and>
     (\<forall>e \<in> set (kv # kvs). get (fst e) c' = (if snd e = [] then None else Some (snd e))) \<and>
     (\<forall>k. kok k \<longrightarrow> name k \<notin> (name \<circ> fst) ` set (kv # kvs) \<longrightarrow> get k c' = get k c)"
proof -
  have kok: "kok (fst kv)" using assms(5) by simp
  obtain c1 where c1: "put (fst kv) (snd kv) c = Some c1" using put_total [OF assms(2) kok assms(3)] by blast
  have g1: "get k c1 = (if name k = name (fst kv) then Some (snd kv) else get k c)" if "kok k" for k
    using get_put [OF kok assms(3) that c1] .
  have nm: "name (fst kv) \<notin> (name \<circ> fst) ` set kvs" using assms(6) by simp
  obtain c' where c': "set_all put del kvs c1 = Some c'" "single c'" "usable c'"
      "\<forall>kv \<in> set kvs. get (fst kv) c' = (if snd kv = [] then None else Some (snd kv))"
      "\<forall>k. kok k \<longrightarrow> name k \<notin> (name \<circ> fst) ` set kvs \<longrightarrow> get k c' = get k c1"
    using set_all_values [OF single_put [OF assms(1) kok assms(3) c1] kok _ nm] g1 [OF kok] assms(5,6) by auto
  then show ?thesis using c1 assms(4) g1 kok nm by auto
qed

end

interpretation ini: config_store conf_get conf_put key_name key_ok val_ok "\<lambda>c. c \<noteq> []"
proof unfold_locales
  fix c :: conf and k v
  show "c \<noteq> [] \<Longrightarrow> key_ok k \<Longrightarrow> val_ok v \<Longrightarrow> \<exists>c'. conf_put k v c = Some c' \<and> c' \<noteq> []"
    by (rule conf_put_total)
next
  fix c c' :: conf and k v k'
  show "key_ok k \<Longrightarrow> val_ok v \<Longrightarrow> key_ok k' \<Longrightarrow> conf_put k v c = Some c' \<Longrightarrow>
      conf_get k' c' = (if key_name k' = key_name k then Some v else conf_get k' c)"
    by (rule conf_get_put)
qed

text \<open>Erasing an entry.\<close>

definition conf_del :: "string \<times> string \<times> string \<Rightarrow> conf \<Rightarrow> conf option" where
  "conf_del k c = (case k of (d, s, p) \<Rightarrow> writeini s p d None c)"

definition key_count :: "string \<Rightarrow> conf \<Rightarrow> nat" where
  "key_count p c = length (filter (starts p) c)"

definition single_keys :: "conf \<Rightarrow> bool" where
  "single_keys c \<longleftrightarrow> (\<forall>k. key_ok k \<longrightarrow> key_count (key_name k) c \<le> 1)"

lemma key_count_simps [simp]:
  "key_count p [] = 0"
  "key_count p (e # c) = (if starts p e then 1 else 0) + key_count p c"
  "key_count p (a @ b) = key_count p a + key_count p b"
  by (simp_all add: key_count_def)

lemma key_count_0: "key_count p c = 0 \<longleftrightarrow> (\<forall>e \<in> set c. \<not> starts p e)"
  by (simp add: key_count_def filter_empty_conv)

lemma key_count_all: "\<forall>e \<in> set c. starts p e \<Longrightarrow> key_count p c = length c"
  by (simp add: key_count_def)

lemma starts_other_key:
  assumes "key_ok k" "key_ok k'" "key_name k' \<noteq> key_name k" "starts (key_name k) e"
  shows "\<not> starts (key_name k') e"
  using assms key_name_prefix [OF assms(1,2)] by (cases e) (auto simp: prefix_def)

lemma conf_del_cases:
  assumes "key_ok k" and "conf_del k c = Some c'"
  shows "(\<exists>A w B. c = A @ w # B \<and> c' = A @ B \<and> (\<forall>e \<in> set A. \<not> starts (key_name k) e) \<and> starts (key_name k) w) \<or>
     (c' = c \<and> (\<forall>e \<in> set c. \<not> starts (key_name k) e))"
proof -
  obtain d s p where k: "k = (d, s, p)" by (cases k)
  let ?pp = "key_text d s p" and ?sp = "section_text d s"
  have len: "length ?pp < 200" "length ?sp < 200" and pre: "prefix ?sp ?pp"
    using assms(1) by (auto simp: key_ok_def k key_text_def section_text_def)
  have "conf_del k c = (case write_loop ?pp ?sp None [] None c of Found c' \<Rightarrow> Some c' | NotFound sect \<Rightarrow> Some c)"
    unfolding conf_del_def k writeini_def Let_def prod.case using len by (simp split: write_found.splits)
  then show ?thesis
    using write_loop_cases [OF pre refl, where buf = None and pre = "[]" and sect = None and c = c] assms(2) by (fastforce simp: key_name_def k)
qed

lemma single_keysD: "single_keys c \<Longrightarrow> key_ok k \<Longrightarrow> key_count (key_name k) c \<le> 1"
  unfolding single_keys_def by blast

lemma conf_get_del:
  assumes "single_keys c" "key_ok k" "key_ok k'" "conf_del k c = Some c'"
  shows "conf_get k' c' = (if key_name k' = key_name k then None else conf_get k' c)"
  using conf_del_cases [OF assms(2,4)]
proof
  assume "\<exists>A w B. c = A @ w # B \<and> c' = A @ B \<and> (\<forall>e \<in> set A. \<not> starts (key_name k) e) \<and> starts (key_name k) w"
  then obtain A w B where c: "c = A @ w # B" "c' = A @ B" "\<forall>e \<in> set A. \<not> starts (key_name k) e" "starts (key_name k) w"
    by blast
  show ?thesis
  proof (cases "key_name k' = key_name k")
    case True
    have "key_count (key_name k) B = 0" using single_keysD [OF assms(1,2)] c by simp
    then show ?thesis using True c by (simp add: conf_get_eq assms(3) key_count_0 value_of_append value_of_None)
  next
    case False
    then have "value_of (key_name k') [w] = None"
      using starts_other_key [OF assms(2,3) False c(4)] by (simp add: value_of_None)
    then show ?thesis using False value_of_append [of "key_name k'" "[w]" B]
      by (simp add: conf_get_eq assms(3) c(1,2) value_of_append split: option.split)
  qed
qed (auto simp: conf_get_eq assms(3) value_of_None)

lemma single_keys_del: "single_keys c \<Longrightarrow> key_ok k \<Longrightarrow> conf_del k c = Some c' \<Longrightarrow> single_keys c'"
  using conf_del_cases [of k c c'] by (fastforce simp: single_keys_def split: if_splits)

lemma single_keys_put:
  assumes "single_keys c" "key_ok k" "val_ok v" "conf_put k v c = Some c'"
  shows "single_keys c'"
  unfolding single_keys_def
proof (intro allI impI)
  fix k' assume k': "key_ok k'"
  obtain A old B where c: "c = A @ old @ B" "c' = A @ Some (key_name k @ v) # B"
      "\<forall>e \<in> set A. \<not> starts (key_name k) e" "\<forall>e \<in> set old. starts (key_name k) e"
      "old = [] \<longrightarrow> (\<forall>e \<in> set B. \<not> starts (key_name k) e)"
    using conf_put_cases [OF assms(2-4)] by blast
  show "key_count (key_name k') c' \<le> 1"
  proof (cases "key_name k' = key_name k")
    case True
    have "key_count (key_name k) B = 0"
    proof (cases "old = []")
      case False
      then have "key_count (key_name k) old \<ge> 1" using c(4) by (simp add: key_count_all Suc_leI)
      then show ?thesis using single_keysD [OF assms(1,2)] c(1) by simp
    qed (use c(5) in \<open>simp add: key_count_0\<close>)
    then show ?thesis using True c(2,3) by (simp add: key_count_0 [symmetric])
  next
    case False
    have "\<not> starts (key_name k') (Some (key_name k @ v))"
      by (rule starts_other_key [OF assms(2) k' False]) simp
    then show ?thesis using single_keysD [OF assms(1) k'] c(1,2) by simp
  qed
qed

interpretation eini: erasable_store conf_get conf_put key_name key_ok val_ok "\<lambda>c. c \<noteq> []" conf_del single_keys
proof unfold_locales
  fix k :: "string \<times> string \<times> string" and c :: conf
  show "conf_get k c \<noteq> None \<Longrightarrow> c \<noteq> []"
    by (auto simp: conf_get_def getini_def split: prod.splits)
  show "key_ok k \<Longrightarrow> \<exists>c'. conf_del k c = Some c'"
    by (auto simp: conf_del_def writeini_def Let_def split: prod.splits write_found.splits option.splits)
qed (fact conf_get_del single_keys_put single_keys_del)+

text \<open>
  (C23) Writing an entry and reading the store: with a non-empty store, a key without equal
  signs that fits its buffer and a value of 1 to 199 characters, the write succeeds, the value is
  read back, and every other key reads as before.
\<close>

theorem getini_writeini:
  assumes "c \<noteq> []" and "key_ok (d, s, p)" and "val_ok v" and "key_ok (d', s', p')"
  shows "\<exists>c'. writeini s p d (Some v) c = Some c' \<and>
    getini s' p' d' c' = (if key_text d' s' p' = key_text d s p then (0, v) else getini s' p' d' c)"
proof -
  obtain c' where c': "conf_put (d, s, p) v c = Some c'"
    using ini.put_total [of c "(d, s, p)" v] assms by blast
  have g: "getini s' p' d' x = (case conf_get (d', s', p') x of None \<Rightarrow> (-2, []) | Some w \<Rightarrow> (0, w))" for x
    by (simp add: conf_get_def getini_def getini_loop_value_of split: option.splits)
  have "getini s' p' d' c' = (if key_text d' s' p' = key_text d s p then (0, v) else getini s' p' d' c)"
    unfolding g ini.get_put [OF assms(2,3,4) c'] by (simp add: key_name_def)
  then show ?thesis using c' by (simp add: conf_put_def)
qed

theorem getini_writeini_witness:
  "\<exists>c'. writeini ''SYSTEM'' ''ME'' ''PSYBNC'' (Some ''home'') [Some ''PSYBNC.SYSTEM.PORT1=31337''] = Some c' \<and>
    getini ''SYSTEM'' ''PORT1'' ''PSYBNC'' c' = (0, ''31337'')"
proof -
  have g: "getini ''SYSTEM'' ''PORT1'' ''PSYBNC'' [Some ''PSYBNC.SYSTEM.PORT1=31337''] = (0, ''31337'')"
    by code_simp
  show ?thesis
    using getini_writeini [of "[Some ''PSYBNC.SYSTEM.PORT1=31337'']" "''PSYBNC''" "''SYSTEM''" "''ME''" "''home''"
        "''PSYBNC''" "''SYSTEM''" "''PORT1''"] g
    by (simp add: key_ok_def val_ok_def key_text_def)
qed


section \<open>Clearing a section\<close>

lemma clear_loop_filter: "clear_loop pattern c = filter (\<lambda>e. \<not> starts pattern e) c"
  by (induction c) auto

text \<open>
  Clearing a section removes exactly the entries that begin with the pattern and keeps the
  others in their order, whenever the first line of the configuration is not one of them.
\<close>

theorem clearsectionconfig_filter:
  assumes "c \<noteq> []" and "\<not> starts pattern (hd c)"
  shows "clearsectionconfig pattern c = Some (filter (\<lambda>e. \<not> starts pattern e) c)"
  using assms by (cases c) (simp_all add: clearsectionconfig_def clear_loop_filter)

theorem clearsectionconfig_filter_witness:
  "clearsectionconfig ''LISTS.BANS.'' [Some ''A.B.C=1'', Some ''LISTS.BANS.ENTRY0=x'', Some ''A.B.D=2''] =
     Some [Some ''A.B.C=1'', Some ''A.B.D=2'']"
  using clearsectionconfig_filter [of "[Some ''A.B.C=1'', Some ''LISTS.BANS.ENTRY0=x'', Some ''A.B.D=2'']" "''LISTS.BANS.''"]
  by simp

text \<open>
  When the section stands at the front of the configuration the routine goes wrong: of two
  leading entries of the section the second one survives, and a configuration of a single entry of
  the section makes the loop follow a null pointer.
\<close>

theorem clearsectionconfig_at_front:
  assumes "starts pattern x" and "starts pattern y"
  shows "clearsectionconfig pattern (x # y # c) = Some (y # filter (\<lambda>e. \<not> starts pattern e) c) \<and>
    clearsectionconfig pattern [x] = None"
  using assms by (simp add: clearsectionconfig_def clear_loop_filter)

theorem clearsectionconfig_at_front_witness:
  "clearsectionconfig ''USER1.'' [Some ''USER1.A.B=1'', Some ''USER1.A.C=2''] = Some [Some ''USER1.A.C=2''] \<and>
   clearsectionconfig ''USER1.'' [Some ''USER1.A.B=1''] = None"
  using clearsectionconfig_at_front [of "''USER1.''" "Some ''USER1.A.B=1''" "Some ''USER1.A.C=2''" "[]"] by simp

section \<open>The next server\<close>

definition has_server :: "int \<Rightarrow> conf \<Rightarrow> int \<Rightarrow> bool" where
  "has_server nuser c n \<longleftrightarrow>
     fst (getini ''SERVERS'' (snpf 100 (''SERVER'' @ decimal_int n)) (user_key nuser) c) = 0"

lemma getserver_cases:
  "has_server nuser c n \<Longrightarrow>
     \<exists>u'. getserver n nuser c u = (0, u') \<and> u_currentserver u' = u_currentserver u"
  "\<not> has_server nuser c n \<Longrightarrow> \<exists>e. e \<noteq> 0 \<and> getserver n nuser c u = (e, u)"
  by (auto simp: has_server_def getserver_def Let_def split: prod.splits)

definition server_result :: "int \<Rightarrow> conf \<Rightarrow> int set \<Rightarrow> (int \<times> usert) option \<Rightarrow> bool" where
  "server_result nuser c tried r \<longleftrightarrow>
     (\<exists>u'. r = Some (0, u') \<and> has_server nuser c (u_currentserver u') \<and> u_currentserver u' \<in> {1..21}) \<or>
     (\<exists>u'. r = Some (-1, u') \<and> (\<forall>i \<in> tried. \<not> has_server nuser c i))"

lemma nextserver_loop_step:
  fixes u :: usert
  defines "k \<equiv> u_currentserver u" and "k' \<equiv> (if u_currentserver u + 1 > 20 then 0 else u_currentserver u + 1)"
  shows "has_server nuser c (k + 1) \<Longrightarrow>
      \<exists>u'. nextserver_loop first nuser c u = Some (0, u') \<and> u_currentserver u' = k + 1"
    and "\<not> has_server nuser c (k + 1) \<Longrightarrow>
      nextserver_loop first nuser c u =
        (if k' = first then Some (-1, u\<lparr>u_currentserver := k'\<rparr>)
         else nextserver_loop first nuser c (u\<lparr>u_currentserver := k'\<rparr>))"
proof -
  let ?u = "u\<lparr>u_currentserver := k + 1\<rparr>"
  assume "has_server nuser c (k + 1)"
  from getserver_cases(1) [OF this, of ?u] show "\<exists>u'. nextserver_loop first nuser c u = Some (0, u') \<and> u_currentserver u' = k + 1"
    by (subst nextserver_loop.simps) (auto simp: k_def Let_def)
next
  let ?u = "u\<lparr>u_currentserver := k + 1\<rparr>"
  assume "\<not> has_server nuser c (k + 1)"
  from getserver_cases(2) [OF this, of ?u] show "nextserver_loop first nuser c u =
        (if k' = first then Some (-1, u\<lparr>u_currentserver := k'\<rparr>)
         else nextserver_loop first nuser c (u\<lparr>u_currentserver := k'\<rparr>))"
    by (subst nextserver_loop.simps) (auto simp: k_def k'_def Let_def)
qed

lemma server_result_insert:
  "server_result nuser c T r \<Longrightarrow> \<not> has_server nuser c x \<Longrightarrow> T' \<subseteq> insert x T \<Longrightarrow> server_result nuser c T' r"
  by (auto simp: server_result_def)

lemma nextserver_loop_result:
  assumes "0 \<le> u_currentserver u" "u_currentserver u \<le> 20"
    and "(u_currentserver u + 1 + int d) mod 21 = first" and "d \<le> 20"
  shows "server_result nuser c {(u_currentserver u + int j) mod 21 + 1 | j. j \<le> d}
    (nextserver_loop first nuser c u)"
  using assms
proof (induction d arbitrary: u)
  case (0 u)
  let ?k = "u_currentserver u"
  have next0: "(if ?k + 1 > 20 then 0 else ?k + 1) = first" using 0 by (auto split: if_splits)
  show ?case
  proof (cases "has_server nuser c (?k + 1)")
    case True
    then show ?thesis using nextserver_loop_step(1) [OF True, of first] 0 by (auto simp: server_result_def)
  next
    case False
    then show ?thesis
      using nextserver_loop_step(2) [OF False, of first] next0 0 by (auto simp: server_result_def)
  qed
next
  case (Suc d u)
  let ?k = "u_currentserver u"
  let ?k' = "if ?k + 1 > 20 then 0 else ?k + 1"
  have k': "?k' = (?k + 1) mod 21" using Suc.prems by auto
  show ?case
  proof (cases "has_server nuser c (?k + 1)")
    case True
    then show ?thesis using nextserver_loop_step(1) [OF True, of first] Suc.prems by (auto simp: server_result_def)
  next
    case False
    let ?u = "u\<lparr>u_currentserver := ?k'\<rparr>"
    have nxt: "(?k' + 1 + int d) mod 21 = first"
      unfolding k' using Suc.prems(3) mod_add_left_eq [of "?k + 1" 21 "1 + int d"]
      by (simp add: add.assoc)
    have diff: "?k' \<noteq> first"
    proof
      assume "?k' = first"
      then have "(?k' + 1 + int d) mod 21 = ?k' mod 21" using nxt k' by simp
      then have "21 dvd 1 + int d" by (simp add: mod_eq_dvd_iff algebra_simps)
      then show False using Suc.prems(4) zdvd_imp_le [of 21 "1 + int d"] by simp
    qed
    have IH: "server_result nuser c {(?k' + int j) mod 21 + 1 | j. j \<le> d} (nextserver_loop first nuser c ?u)"
      using Suc.IH [of ?u] Suc.prems nxt by auto
    have "(?k + int j) mod 21 + 1 \<in> insert (?k + 1) {(?k' + int j) mod 21 + 1 | j. j \<le> d}" if "j \<le> Suc d" for j
    proof (cases j)
      case 0
      then show ?thesis using Suc.prems by simp
    next
      case (Suc i)
      then have "(?k + int j) mod 21 = (?k' + int i) mod 21" 
        unfolding k' using mod_add_left_eq [of "?k + 1" 21 "int i"] by (simp add: algebra_simps)
      then show ?thesis using that Suc by auto
    qed
    then have "{(?k + int j) mod 21 + 1 | j. j \<le> Suc d} \<subseteq> insert (?k + 1) {(?k' + int j) mod 21 + 1 | j. j \<le> d}"
      by blast
    moreover have "nextserver_loop first nuser c u = nextserver_loop first nuser c ?u"
      unfolding nextserver_loop_step(2) [OF False, of first] using diff by (simp only: if_False)
    ultimately show ?thesis using server_result_insert [OF IH False] by (simp only:)
  qed
qed


text \<open>
  (C39) Looking for the next server ends: from a current server number between 0 and 20 the
  search returns, either with a configured server whose number is then current, or with -1
  when none of the server entries 1 to 21 is configured.
\<close>

theorem getnextserver_ends:
  assumes "0 \<le> u_currentserver u" and "u_currentserver u \<le> 20"
  shows "server_result nuser c {1..21} (getnextserver nuser c u)"
proof -
  let ?k = "u_currentserver u"
  have "(?k + 1 + int 20) mod 21 = (?k + 21) mod 21" by simp
  also have "\<dots> = ?k" using assms by simp
  finally have r: "server_result nuser c {(?k + int j) mod 21 + 1 | j. j \<le> 20}
      (nextserver_loop ?k nuser c u)" using assms by (intro nextserver_loop_result) auto
  have "{1..21} \<subseteq> {(?k + int j) mod 21 + 1 | j. j \<le> 20}"
  proof
    fix i :: int assume i: "i \<in> {1..21}"
    let ?j = "nat ((i - 1 - ?k) mod 21)"
    have "(i - 1 - ?k) mod 21 < 21" "0 \<le> (i - 1 - ?k) mod 21" by simp_all
    moreover have "(?k + (i - 1 - ?k) mod 21) mod 21 = (?k + (i - 1 - ?k)) mod 21" by (rule mod_add_right_eq)
    then have "(?k + (i - 1 - ?k) mod 21) mod 21 = i - 1" using i by simp
    ultimately show "i \<in> {(?k + int j) mod 21 + 1 | j. j \<le> 20}"
      by (intro CollectI exI [of _ ?j]) auto
  qed
  then show ?thesis using r unfolding getnextserver_def server_result_def by blast
qed

theorem getnextserver_ends_witness:
  "server_result 1 [Some ''USER1.SERVERS.SERVER3=irc.example.org''] {1..21}
     (getnextserver 1 [Some ''USER1.SERVERS.SERVER3=irc.example.org''] (zero_usert\<lparr>u_currentserver := 3\<rparr>))"
  by (rule getnextserver_ends) simp_all


section \<open>The first free number\<close>

lemma first_free_least:
  "\<exists>n < length bs. \<not> bs ! n \<Longrightarrow>
   \<exists>n < length bs. first_free k bs = k + n \<and> \<not> bs ! n \<and> (\<forall>m < n. bs ! m)"
proof (induction bs arbitrary: k)
  case (Cons b bs)
  show ?case
  proof (cases b)
    case True
    then obtain n where "n < length bs" "\<not> bs ! n" using Cons.prems by (metis less_Suc_eq_0_disj
      length_Cons nth_Cons_0 nth_Cons_Suc)
    then obtain m where "m < length bs" "first_free (k + 1) bs = k + 1 + m" "\<not> bs ! m" "\<forall>i < m. bs ! i"
      using Cons.IH [of "k + 1"] by blast
    then show ?thesis using True by (intro exI [of _ "Suc m"]) (auto simp: less_Suc_eq_0_disj)
  qed (intro exI [of _ 0], simp)
qed simp

definition marks :: "bool list \<Rightarrow> nat" where
  "marks bs = length (filter (\<lambda>b. b) bs)"

lemma marks_update: "i < length bs \<Longrightarrow> marks (bs[i := True]) \<le> marks bs + 1"
proof (induction bs arbitrary: i)
  case (Cons b bs)
  then show ?case by (cases i) (auto simp: marks_def)
qed simp

lemma marks_all: "\<forall>n < length bs. bs ! n \<Longrightarrow> marks bs = length bs"
  by (auto simp: marks_def in_set_conv_nth filter_id_conv intro!: arg_cong [of _ bs length])

lemma count_loop_marks:
  assumes "count_loop buf c i items cnt = Some (items', cnt')" and "length items = MAXITEML"
  shows "length items' = MAXITEML \<and> marks items' + cnt \<le> marks items + cnt' \<and>
    (\<forall>j < MAXITEML. items ! j \<longrightarrow> items' ! j) \<and>
    (\<forall>e j. Some e \<in> set c \<longrightarrow> (\<forall>i. sscanf buf e i 0 = (2, int j)) \<longrightarrow> j < MAXITEML \<longrightarrow> items' ! j)"
  using assms
proof (induction c arbitrary: i items cnt)
  case (Cons w c)
  obtain e where w: "w = Some e" using Cons.prems by (cases w) auto
  obtain rc i' where sc: "sscanf buf e i 0 = (rc, i')" by fastforce
  show ?case
  proof (cases "rc = 2 \<and> i' < int MAXITEML")
    case True
    then have "0 \<le> i'" and step: "count_loop buf c i' (items[nat i' := True]) (cnt + 1) = Some (items', cnt')"
      using Cons.prems w sc by (auto split: if_splits)
    then have lt: "nat i' < length items" using True Cons.prems(2) by (simp add: nat_less_iff)
    note IH = Cons.IH [OF step]
    have "marks items' + cnt \<le> marks items + cnt'" using IH marks_update [OF lt] Cons.prems(2) by auto
    moreover have "items' ! j" if "j < MAXITEML" "items ! j" for j
    proof -
      have "items[nat i' := True] ! j" using that lt by (simp add: nth_list_update)
      then show ?thesis using IH that(1) Cons.prems(2) by simp
    qed
    moreover have "items' ! j" if "\<forall>i. sscanf buf e i 0 = (2, int j)" "j < MAXITEML" for j
      using IH that sc Cons.prems(2) lt by (auto simp: nth_list_update)
    ultimately show ?thesis using IH Cons.prems(2) w by auto
  next
    case False
    then have "count_loop buf c i' items (cnt + 1) = Some (items', cnt') \<or>
        count_loop buf c i' items (cnt + 0) = Some (items', cnt')"
      using Cons.prems w sc by (auto split: if_splits)
    then obtain n where step: "count_loop buf c i' items (cnt + n) = Some (items', cnt')" by blast
    have "\<not> (\<forall>i. sscanf buf e i 0 = (2, int j))" if "j < MAXITEML" for j
      using False sc that by (metis of_nat_less_iff prod.inject)
    then show ?thesis using Cons.IH [OF step] Cons.prems(2) w by auto
  qed
qed simp

lemma sscanf_literal:
  "CHR ''%'' \<notin> set pre \<Longrightarrow> sscanf (pre @ F) (pre @ S) i rc = sscanf F S i rc"
  by (induction pre) (simp_all add: sscanf.simps [of "_ # _"])

lemma digits_stop:
  "\<forall>c \<in> set d. isdigit c \<Longrightarrow> r = [] \<or> \<not> isdigit (hd r) \<Longrightarrow>
   digits_val acc (d @ r) = digits_val acc d \<and> dropWhile isdigit (d @ r) = r"
proof (induction d arbitrary: acc)
  case Nil
  then show ?case by (cases r) auto
qed simp

lemma scan_int_decimal: "r = [] \<or> \<not> isdigit (hd r) \<Longrightarrow> scan_int (decimal n @ r) = Some (int n, r)"
proof -
  assume r: "r = [] \<or> \<not> isdigit (hd r)"
  obtain c cs where d: "decimal n = c # cs" by (cases "decimal n") (auto simp: decimal_not_Nil)
  then have c: "isdigit c" using decimal_digits [of n] by auto
  have "digits_val 0 (decimal n @ r) = n" "dropWhile isdigit (decimal n @ r) = r"
    using digits_stop [OF decimal_digits r] digits_val_decimal by auto
  then show ?thesis
    using isdigit_plain [OF c] c by (simp add: scan_int_def d at_def Let_def)
qed

lemma sscanf_entry:
  assumes "CHR ''%'' \<notin> set pre" and "v \<noteq> []" and "\<not> isspace (hd v)"
  shows "sscanf (pre @ ''%d=%255s'') (pre @ decimal n @ ''='' @ v) i 0 = (2, int n)"
proof -
  have eq: "\<not> isdigit (CHR ''='')" by (simp add: isdigit_def code_def)
  obtain x xs where v: "v = x # xs" "\<not> isspace x" using assms(2,3) by (cases v) auto
  show ?thesis
    unfolding sscanf_literal [OF assms(1)]
    by (subst sscanf.simps) (simp add: scan_int_decimal eq sscanf.simps [of "CHR ''='' # _"]
        sscanf.simps [of "CHR ''%'' # CHR ''2'' # _"] sscanf.simps [of "[]"] v)
qed


text \<open>The entries of a numbered section have values that begin with a visible character.\<close>

definition entries_visible :: "string \<Rightarrow> conf \<Rightarrow> bool" where
  "entries_visible pre c \<longleftrightarrow>
     (\<forall>n v. Some (pre @ decimal n @ ''='' @ v) \<in> set c \<longrightarrow> v \<noteq> [] \<and> \<not> isspace (hd v))"

lemma countconfentries_free:
  assumes "countconfentries section (entry @ ''%d'') fname c = Some (cnt, lastfree)"
    and "cnt < MAXITEML"
    and "CHR ''%'' \<notin> set (section_text fname section @ entry)"
    and "length (section_text fname section @ entry) < 240"
    and "entries_visible (section_text fname section @ entry) c"
  shows "lastfree < MAXITEML \<and>
    (\<forall>v. Some (key_text fname section (entry @ decimal lastfree) @ v) \<notin> set c)"
proof -
  let ?pre = "section_text fname section @ entry"
  have buf: "snpf 256 (key_text fname section (entry @ ''%d'') @ ''%255s'') = ?pre @ ''%d=%255s''"
    using assms(4) by (simp add: key_text_def section_text_def)
  then obtain items where items: "count_loop (?pre @ ''%d=%255s'') c 0 (replicate MAXITEML False) 0 = Some (items, cnt)"
      "lastfree = first_free 0 items"
    using assms(1) by (auto simp: countconfentries_def Let_def)
  note m = count_loop_marks [OF items(1)]
  have "marks items \<le> cnt" using m by (simp add: marks_def)
  then have "marks items \<noteq> length items" using assms(2) m by auto
  then obtain n where "n < length items" "\<not> items ! n" using marks_all by blast
  then have lf: "lastfree < MAXITEML" "\<not> items ! lastfree"
    using first_free_least [of items 0] items(2) m by auto
  have "Some (key_text fname section (entry @ decimal lastfree) @ v) \<notin> set c" for v
  proof
    assume "Some (key_text fname section (entry @ decimal lastfree) @ v) \<in> set c"
    then have e: "Some (?pre @ decimal lastfree @ ''='' @ v) \<in> set c"
      by (simp add: key_text_def section_text_def)
    then have "v \<noteq> []" "\<not> isspace (hd v)" using assms(5) unfolding entries_visible_def by blast+
    then have "\<forall>i. sscanf (?pre @ ''%d=%255s'') (?pre @ decimal lastfree @ ''='' @ v) i 0 = (2, int lastfree)"
      using sscanf_entry [OF assms(3)] by blast
    then have "items ! lastfree" using m e lf(1) by auto
    then show False using lf by blast
  qed
  then show ?thesis using lf by blast
qed

end
