(* ===== verification/Lists.thy ===== *)
theory Lists
  imports Ini Matching Crypt
begin

text \<open>
  The user lists of src/p_string.c: lists of masks with a parameter (bans, operators, ignores,
  log filters, encryption keys) that are kept in memory as a \<open>stringarray\<close> and, numbered, in a
  section of the configuration; and \<open>checkstrings\<close>, which decides whether the sender of the
  current message is on such a list.

  A list name is \<open>fname.section\<close>, or a section of \<open>LISTS\<close>. The globals that \<open>checkstrings\<close> reads
  and writes are a record; \<open>ircfrom\<close> is an argument.
\<close>

section \<open>Lists in the configuration\<close>

definition split_file :: "nat \<Rightarrow> string \<Rightarrow> string \<times> string" where
  "split_file bufsize afile =
     (let buf = strmncpy afile bufsize in
      case strchr buf (CHR ''.'') of
        Some i \<Rightarrow> (strmncpy (take i buf) 100, strmncpy (drop (i + 1) buf) 100)
      | None \<Rightarrow> (''LISTS'', strmncpy afile 100))"

definition entry_name :: "int \<Rightarrow> string" where
  "entry_name i = snpf 100 (''ENTRY'' @ decimal_int i)"

definition loadlist_step :: "string \<Rightarrow> string \<Rightarrow> conf \<Rightarrow> nat \<Rightarrow> stringarray \<Rightarrow> stringarray" where
  "loadlist_step fname section c i first =
     (case getini section (entry_name (int i)) fname c of
        (rc, value) \<Rightarrow> if rc = 0 then addstring value first else first)"

definition loadlist :: "string \<Rightarrow> stringarray \<Rightarrow> conf \<Rightarrow> stringarray" where
  "loadlist afile th c =
     (case split_file 100 afile of
        (fname, section) \<Rightarrow> fold (loadlist_step fname section c) [0..<100] th)"

definition writelist :: "string \<Rightarrow> string \<Rightarrow> string \<Rightarrow> stringarray \<Rightarrow> conf \<Rightarrow> (stringarray \<times> conf) option" where
  "writelist host param afile th c =
     (case split_file 2048 afile of
        (fname, section) \<Rightarrow>
          do {
            (fn, lastfree) \<leftarrow> countconfentries section ''ENTRY%d'' fname c;
            let buf = snpf 2048 (host @ '';'' @ param);
            c' \<leftarrow> writeini section (entry_name (int lastfree)) fname (Some buf) c;
            Some (addstring buf th, c')
          })"

fun eraselist_loop :: "string \<Rightarrow> string \<Rightarrow> nat \<Rightarrow> stringarray \<Rightarrow> conf \<Rightarrow> conf option" where
  "eraselist_loop fname section cnt [] c = Some c"
| "eraselist_loop fname section cnt (None # ith) c = eraselist_loop fname section cnt ith c"
| "eraselist_loop fname section cnt (Some e # ith) c =
     do {
       c' \<leftarrow> writeini section (entry_name (int cnt)) fname (Some e) c;
       eraselist_loop fname section (cnt + 1) ith c'
     }"

definition eraselist :: "int \<Rightarrow> string \<Rightarrow> stringarray \<Rightarrow> conf \<Rightarrow> (stringarray \<times> conf) option" where
  "eraselist entryn afile th c =
     (case split_file 200 afile of
        (fname, section) \<Rightarrow>
          do {
            let first = removestring entryn th;
            c1 \<leftarrow> clearsectionconfig (snpf 200 (section_text fname section)) c;
            c2 \<leftarrow> eraselist_loop fname section 0 first c1;
            Some (first, c2)
          })"

section \<open>Looking up the sender\<close>

record check_state =
  ircto :: string
  ehost :: string
  eparm :: string
  echan :: string

text \<open>
  The channel and the parameter of an entry. As in C, \<open>strchr\<close> finds the terminator of
  the set of channel characters, so that an empty parameter counts as a channel.
\<close>

definition split_param :: "string \<Rightarrow> (string \<times> bool) \<times> string option" where
  "split_param po =
     (if strchr ''#&+!'' (at po 0) \<noteq> None
      then (case strchr po (CHR '' '') of
              Some j \<Rightarrow> ((strmncpy (nobreak (ucase (take j po))) 200, True), Some (drop (j + 1) po))
            | None \<Rightarrow> ((strmncpy (nobreak (ucase po)) 200, True), None))
      else (([], False), Some po))"

text \<open>The globals after an entry is taken apart, and whether it names a channel.\<close>

definition load_entry :: "string \<Rightarrow> string \<Rightarrow> check_state \<Rightarrow> bool \<times> check_state" where
  "load_entry hmask po st =
     (case split_param po of
        ((chan, pc), par) \<Rightarrow>
          (pc, st\<lparr>echan := chan,
                  eparm := (case par of None \<Rightarrow> [] | Some p \<Rightarrow> strmncpy (nobreak p) 200),
                  ehost := strmncpy (nobreak hmask) 400,
                  ircto := (if pc then ucase (ircto st) else ircto st)\<rparr>))"

definition test_entry :: "string \<Rightarrow> bool \<Rightarrow> check_state \<Rightarrow> bool option" where
  "test_entry ircfrom pc st =
     (let match = (pc \<longrightarrow> length (ircto st) = length (echan st) \<and> strstr (ircto st) (echan st) \<noteq> None) in
      if match
      then (if at (ehost st) 0 = CHR ''-'' \<or> at (ehost st) 0 = CHR '')'' then Some True
            else map_option (\<lambda>r. r \<noteq> 0) (wild_match (ehost st) ircfrom))
      else Some False)"

definition check_entry :: "salt \<Rightarrow> string \<Rightarrow> string \<Rightarrow> check_state \<Rightarrow> (bool \<times> check_state) option" where
  "check_entry sl ircfrom pt st =
     (case strchr pt (CHR '';'') of
        None \<Rightarrow> Some (False, st)
      | Some i \<Rightarrow>
          (case (if at (drop (i + 1) pt) 0 = CHR ''+'' then decryptit sl (drop (i + 1) pt)
                 else Some (drop (i + 1) pt)) of
             None \<Rightarrow> None
           | Some po \<Rightarrow>
               (case load_entry (take i pt) po st of
                  (pc, st') \<Rightarrow> map_option (\<lambda>found. (found, st')) (test_entry ircfrom pc st'))))"

fun checkstrings_loop :: "salt \<Rightarrow> string \<Rightarrow> stringarray \<Rightarrow> check_state \<Rightarrow> (bool \<times> check_state) option" where
  "checkstrings_loop sl ircfrom [] st = Some (False, st)"
| "checkstrings_loop sl ircfrom (None # th) st = Some (False, st)"
| "checkstrings_loop sl ircfrom (Some e # th) st =
     (case check_entry sl ircfrom (strmncpy e 650) st of
        None \<Rightarrow> None
      | Some (found, st') \<Rightarrow>
          if found then Some (True, st') else checkstrings_loop sl ircfrom th st')"

definition checkstrings :: "salt \<Rightarrow> string \<Rightarrow> stringarray \<Rightarrow> check_state \<Rightarrow> (bool \<times> check_state) option" where
  "checkstrings sl ircfrom th st =
     checkstrings_loop sl ircfrom th (st\<lparr>ehost := [], eparm := [], echan := []\<rparr>)"

section \<open>The configuration holds the list\<close>

lemma decimal_inject: "decimal m = decimal n \<longleftrightarrow> m = n"
  by (metis digits_val_decimal)

lemma length_decimal_100: "n < 1000 \<Longrightarrow> length (decimal n) \<le> 3"
  by (rule length_decimal) simp_all

lemma entry_name_eq: "n < 1000 \<Longrightarrow> entry_name (int n) = ''ENTRY'' @ decimal n"
  using length_decimal_100 [of n] by (simp add: entry_name_def decimal_int_def)

text \<open>What the names of a list have to satisfy, and the key of its \<open>i\<close>-th entry.\<close>

definition list_ok :: "string \<times> string \<Rightarrow> bool" where
  "list_ok fs \<longleftrightarrow> CHR ''='' \<notin> set (fst fs) \<union> set (snd fs) \<and> CHR ''%'' \<notin> set (fst fs) \<union> set (snd fs) \<and>
     length (fst fs) + length (snd fs) < 180"

definition list_key :: "string \<times> string \<Rightarrow> nat \<Rightarrow> string \<times> string \<times> string" where
  "list_key fs i = (fst fs, snd fs, ''ENTRY'' @ decimal i)"

lemma list_key_ok: "list_ok fs \<Longrightarrow> i < 1000 \<Longrightarrow> key_ok (list_key fs i)"
proof -
  assume a: "list_ok fs" "i < 1000"
  have "CHR ''='' \<notin> set (decimal i)"
    using decimal_digits [of i] by (auto simp: isdigit_def code_def)
  then show ?thesis
    using a length_decimal_100 [of i]
    by (auto simp: key_ok_def list_key_def key_text_def list_ok_def)
qed

lemma list_key_name: "key_name (list_key fs i) = section_text (fst fs) (snd fs) @ ''ENTRY'' @ decimal i @ ''=''"
  by (simp add: key_name_def list_key_def key_text_def section_text_def)

lemma list_key_inject: "key_name (list_key fs i) = key_name (list_key fs j) \<longleftrightarrow> i = j"
  by (simp add: list_key_name decimal_inject)

lemma loadlist_step_eq:
  "i < 1000 \<Longrightarrow> loadlist_step (fst fs) (snd fs) c i first =
     (case conf_get (list_key fs i) c of None \<Rightarrow> first | Some v \<Rightarrow> addstring v first)"
  by (auto simp: loadlist_step_def conf_get_def list_key_def entry_name_eq getini_def
      getini_loop_value_of split: option.splits)

text \<open>Reading the numbered entries of a section that holds exactly the texts \<open>es\<close>.\<close>

lemma loadlist_fold:
  assumes "\<And>i. i < n \<Longrightarrow> conf_get (list_key fs i) c = (if i < length es then Some (es ! i) else None)"
    and "n < 1000"
  shows "fold (loadlist_step (fst fs) (snd fs) c) [0..<n] [] = map Some (take n es)"
  using assms
proof (induction n)
  case (Suc n)
  then have IH: "fold (loadlist_step (fst fs) (snd fs) c) [0..<n] [] = map Some (take n es)" by simp
  have step: "loadlist_step (fst fs) (snd fs) c n x =
      (if n < length es then addstring (es ! n) x else x)" for x
    using Suc.prems(1) [of n] Suc.prems(2) by (simp add: loadlist_step_eq)
  have add: "addstring t (map Some xs) = map Some (xs @ [t])" for t xs
    by (induction xs) auto
  show ?case
    using IH step add by (auto simp: take_Suc_conv_app_nth)
qed simp

lemma eraselist_loop_put_all:
  "cnt + length es < 1000 \<Longrightarrow>
   eraselist_loop (fst fs) (snd fs) cnt (map Some es) c =
     put_all conf_put (map (\<lambda>i. (list_key fs (cnt + i), es ! i)) [0..<length es]) c"
proof (induction es arbitrary: cnt c)
  case (Cons e es)
  have shift: "map (\<lambda>i. (list_key fs (cnt + i), (e # es) ! i)) [0..<length (e # es)] =
      (list_key fs cnt, e) # map (\<lambda>i. (list_key fs (Suc cnt + i), es ! i)) [0..<length es]"
    unfolding length_Cons upt_conv_Cons [OF zero_less_Suc] map_Suc_upt [symmetric] by simp
  show ?case
    unfolding shift using Cons
    by (auto simp: conf_put_def list_key_def entry_name_eq split: Option.bind_splits option.splits)
qed simp

lemma value_of_cleared:
  assumes "\<forall>e \<in> set c. \<not> starts sec e" and "prefix sec k"
  shows "value_of k c = None"
  using assms starts_prefix by (intro value_of_None) blast

lemma eraselist_values:
  assumes ok: "list_ok fs" and es: "\<forall>e \<in> set es. val_ok e" "length es \<le> 100"
    and c1: "c1 \<noteq> []" "\<forall>e \<in> set c1. \<not> starts (section_text (fst fs) (snd fs)) e"
  shows "\<exists>c2. eraselist_loop (fst fs) (snd fs) 0 (map Some es) c1 = Some c2 \<and>
     (\<forall>i < 100. conf_get (list_key fs i) c2 = (if i < length es then Some (es ! i) else None))"
proof -
  let ?kvs = "map (\<lambda>i. (list_key fs i, es ! i)) [0..<length es]"
  have kvs: "\<forall>kv \<in> set ?kvs. key_ok (fst kv) \<and> val_ok (snd kv)"
    using es by (auto simp: list_key_ok [OF ok])
  have dist: "distinct (map (key_name \<circ> fst) ?kvs)"
    by (simp add: distinct_map comp_def inj_on_def list_key_inject)
  obtain c2 where c2: "put_all conf_put ?kvs c1 = Some c2"
    using ini.put_all_total [OF c1(1) kvs] by blast
  have "conf_get (list_key fs i) c2 = (if i < length es then Some (es ! i) else None)" if "i < 100" for i
  proof (cases "i < length es")
    case True
    then show ?thesis using ini.get_put_all [OF c2 kvs dist] by auto
  next
    case False
    have iok: "key_ok (list_key fs i)" using that by (simp add: list_key_ok [OF ok])
    have "key_name (list_key fs i) \<notin> key_name ` fst ` set ?kvs"
      using False by (auto simp: list_key_inject)
    then have "conf_get (list_key fs i) c2 = conf_get (list_key fs i) c1"
      by (rule ini.get_put_all_other [OF c2 kvs iok])
    also have "\<dots> = None"
      unfolding conf_get_eq [OF iok] by (rule value_of_cleared [OF c1(2)]) (simp add: list_key_name)
    finally show ?thesis using False by simp
  qed
  moreover have "eraselist_loop (fst fs) (snd fs) 0 (map Some es) c1 = Some c2"
    using eraselist_loop_put_all [of 0 es fs c1] es(2) c2 by simp
  ultimately show ?thesis by blast
qed

text \<open>
  (C24) Erasing an entry keeps memory and configuration in step: for a list of at most 100
  entries of 1 to 199 characters, in a section that does not stand at the front of the
  configuration, \<open>eraselist\<close> succeeds, returns the list without the entry, and loading the list
  from the new configuration gives that list again.
\<close>

theorem loadlist_eraselist:
  assumes "split_file 100 afile = fs" and "split_file 200 afile = fs" and "list_ok fs"
    and "\<forall>e \<in> set es. val_ok e" and "length es \<le> 100"
    and "c \<noteq> []" and "\<not> starts (section_text (fst fs) (snd fs)) (hd c)"
  shows "\<exists>c'. eraselist n afile (map Some es) c = Some (removestring n (map Some es), c') \<and>
    loadlist afile [] c' = removestring n (map Some es)"
proof -
  let ?sec = "section_text (fst fs) (snd fs)"
  define es' where "es' = (if 0 \<le> n then take (nat n) es @ drop (Suc (nat n)) es else es)"
  have es': "removestring n (map Some es) = map Some es'"
    by (simp add: es'_def removestring_drop take_map drop_map)
  have "\<forall>e \<in> set es'. val_ok e"
    using assms(4) by (auto simp: es'_def dest: in_set_takeD in_set_dropD split: if_splits)
  moreover have len: "length es' \<le> 100" using assms(5) by (auto simp: es'_def)
  ultimately have stored: "c1 \<noteq> [] \<Longrightarrow> \<forall>e \<in> set c1. \<not> starts ?sec e \<Longrightarrow>
      \<exists>c2. eraselist_loop (fst fs) (snd fs) 0 (map Some es') c1 = Some c2 \<and>
        (\<forall>i < 100. conf_get (list_key fs i) c2 = (if i < length es' then Some (es' ! i) else None))" for c1
    by (rule eraselist_values [OF assms(3)])
  have sec: "snpf 200 ?sec = ?sec" using assms(3) by (simp add: section_text_def list_ok_def)
  let ?c1 = "filter (\<lambda>e. \<not> starts ?sec e) c"
  have c1: "clearsectionconfig ?sec c = Some ?c1"
    using assms(6,7) by (cases c) (simp_all add: clearsectionconfig_def clear_loop_filter)
  have "?c1 \<noteq> []" using assms(6,7) by (cases c) auto
  moreover have "\<forall>e \<in> set ?c1. \<not> starts ?sec e" by simp
  ultimately obtain c2 where c2: "eraselist_loop (fst fs) (snd fs) 0 (map Some es') ?c1 = Some c2"
      "\<forall>i < 100. conf_get (list_key fs i) c2 = (if i < length es' then Some (es' ! i) else None)"
    using stored by blast
  have "eraselist n afile (map Some es) c = Some (map Some es', c2)"
    using c2(1) c1 sec by (simp add: eraselist_def assms(2) es' split_beta)
  moreover have "loadlist afile [] c2 = map Some es'"
    using loadlist_fold [of 100 fs c2 es'] c2(2) len
    by (simp add: loadlist_def assms(1) split_beta del: upt_rec_numeral)
  ultimately show ?thesis using es' by simp
qed


theorem loadlist_eraselist_witness:
  "\<exists>c'. eraselist 0 ''USER1.BANS'' [Some ''*!*@a;x'', Some ''*!*@b;y'']
       [Some ''PSYBNC.SYSTEM.ME=home'', Some ''USER1.BANS.ENTRY0=*!*@a;x'', Some ''USER1.BANS.ENTRY1=*!*@b;y''] =
       Some (removestring 0 [Some ''*!*@a;x'', Some ''*!*@b;y''], c') \<and>
     loadlist ''USER1.BANS'' [] c' = removestring 0 [Some ''*!*@a;x'', Some ''*!*@b;y'']"
proof -
  have f: "split_file 100 ''USER1.BANS'' = (''USER1'', ''BANS'')" "split_file 200 ''USER1.BANS'' = (''USER1'', ''BANS'')"
    by code_simp+
  show ?thesis
    using loadlist_eraselist [OF f, of "[''*!*@a;x'', ''*!*@b;y'']"
        "[Some ''PSYBNC.SYSTEM.ME=home'', Some ''USER1.BANS.ENTRY0=*!*@a;x'', Some ''USER1.BANS.ENTRY1=*!*@b;y'']" 0]
    by (simp add: list_ok_def val_ok_def section_text_def)
qed

lemma entries_visibleI:
  assumes "list_all (\<lambda>e. case e of None \<Rightarrow> True | Some t \<Rightarrow>
      prefix pre t \<longrightarrow> (let r = dropWhile isdigit (drop (length pre) t) in
        length r > 1 \<and> \<not> isspace (r ! 1))) c"
  shows "entries_visible pre c"
  unfolding entries_visible_def
proof (intro allI impI)
  fix n v assume "Some (pre @ decimal n @ ''='' @ v) \<in> set c"
  moreover have "dropWhile isdigit (decimal n @ ''='' @ v) = ''='' @ v"
    using digits_stop [OF decimal_digits, of "''='' @ v"] by (simp add: isdigit_def code_def)
  ultimately show "v \<noteq> [] \<and> \<not> isspace (hd v)"
    using assms by (cases v) (auto simp: list_all_iff Let_def)
qed

text \<open>A numbered entry written under the first free number is new, and the only change.\<close>

lemma fresh_entry:
  assumes "list_ok fs"
    and "countconfentries (snd fs) ''ENTRY%d'' (fst fs) c = Some (cnt, lastfree)" and "cnt < MAXITEML"
    and "entries_visible (section_text (fst fs) (snd fs) @ ''ENTRY'') c"
    and "c \<noteq> []" and "val_ok v"
  shows "lastfree < 256 \<and> conf_get (list_key fs lastfree) c = None \<and>
    (\<exists>c'. conf_put (list_key fs lastfree) v c = Some c' \<and> conf_get (list_key fs lastfree) c' = Some v \<and>
      (\<forall>k. key_ok k \<longrightarrow> key_name k \<noteq> key_name (list_key fs lastfree) \<longrightarrow> conf_get k c' = conf_get k c))"
proof -
  let ?k = "list_key fs lastfree"
  have free: "lastfree < MAXITEML"
      "\<forall>v. Some (key_text (fst fs) (snd fs) (''ENTRY'' @ decimal lastfree) @ v) \<notin> set c"
    using countconfentries_free [of "snd fs" "''ENTRY''" "fst fs" c cnt lastfree] assms(1-4)
    by (auto simp: list_ok_def section_text_def)
  then have kok: "key_ok ?k" by (intro list_key_ok assms(1)) (simp add: MAXITEML_def)
  obtain c' where c': "conf_put ?k v c = Some c'" using ini.put_total [OF assms(5) kok assms(6)] by blast
  have "\<not> starts (key_name ?k) e" if "e \<in> set c" for e
    using free(2) that by (cases e) (auto simp: key_name_def list_key_def prefix_def)
  then have "conf_get ?k c = None" unfolding conf_get_eq [OF kok] by (intro value_of_None) blast
  then show ?thesis using ini.get_put [OF kok assms(6) _ c'] c' kok free(1) by (auto simp: MAXITEML_def)
qed

text \<open>
  Adding an entry overwrites none: when the section has fewer than 256 entries, all with a
  visible value, \<open>writelist\<close> stores the new entry under a number that was not in use, appends it
  to the list in memory and leaves every other key of the configuration as it was.
\<close>

theorem writelist_fresh:
  assumes "split_file 2048 afile = fs" and "list_ok fs"
    and "countconfentries (snd fs) ''ENTRY%d'' (fst fs) c = Some (cnt, lastfree)" and "cnt < MAXITEML"
    and "entries_visible (section_text (fst fs) (snd fs) @ ''ENTRY'') c"
    and "c \<noteq> []" and "length host + length param < 199"
  shows "\<exists>c'. writelist host param afile th c = Some (addstring (host @ '';'' @ param) th, c') \<and>
    conf_get (list_key fs lastfree) c = None \<and>
    conf_get (list_key fs lastfree) c' = Some (host @ '';'' @ param) \<and>
    (\<forall>k. key_ok k \<longrightarrow> key_name k \<noteq> key_name (list_key fs lastfree) \<longrightarrow> conf_get k c' = conf_get k c)"
proof -
  have v: "snpf 2048 (host @ '';'' @ param) = host @ '';'' @ param" "val_ok (host @ '';'' @ param)"
    using assms(7) by (simp_all add: val_ok_def)
  note f = fresh_entry [OF assms(2-6) v(2)]
  then obtain c' where c': "conf_put (list_key fs lastfree) (host @ '';'' @ param) c = Some c'"
      "conf_get (list_key fs lastfree) c' = Some (host @ '';'' @ param)"
      "\<forall>k. key_ok k \<longrightarrow> key_name k \<noteq> key_name (list_key fs lastfree) \<longrightarrow> conf_get k c' = conf_get k c"
    by blast
  have "writelist host param afile th c = Some (addstring (host @ '';'' @ param) th, c')"
    using c'(1) v(1) assms(1,3) f
    by (simp add: writelist_def split_beta conf_put_def list_key_def entry_name_eq)
  then show ?thesis using c' f by blast
qed

theorem writelist_fresh_witness:
  "\<exists>c'. writelist ''*!*@c'' ''z'' ''USER1.BANS'' []
       [Some ''PSYBNC.SYSTEM.ME=home'', Some ''USER1.BANS.ENTRY0=*!*@a;x'', Some ''USER1.BANS.ENTRY2=*!*@b;y''] =
       Some ([Some ''*!*@c;z''], c') \<and>
     conf_get (list_key (''USER1'', ''BANS'') 1) c' = Some ''*!*@c;z''"
proof -
  let ?c = "[Some ''PSYBNC.SYSTEM.ME=home'', Some ''USER1.BANS.ENTRY0=*!*@a;x'', Some ''USER1.BANS.ENTRY2=*!*@b;y'']"
  have f: "split_file 2048 ''USER1.BANS'' = (''USER1'', ''BANS'')" by code_simp
  have cnt: "countconfentries ''BANS'' ''ENTRY%d'' ''USER1'' ?c = Some (2, 1)" by code_simp
  have vis: "entries_visible (section_text ''USER1'' ''BANS'' @ ''ENTRY'') ?c"
    by (rule entries_visibleI) code_simp
  show ?thesis
    using writelist_fresh [OF f, of ?c 2 1 "''*!*@c''" "''z''" "[]"] cnt vis
    by (auto simp: list_ok_def MAXITEML_def)
qed


section \<open>Nobody is let in without a matching mask\<close>

lemma strstr_same_length:
  assumes "length s = length p" and "strstr s p \<noteq> None"
  shows "s = p"
proof -
  obtain i where i: "strstr s p = Some i" using assms(2) by blast
  then have "i \<le> length s" "prefix p (drop i s)" using strstr_SomeD by blast+
  moreover from this have "length p \<le> length s - i" by (metis length_drop prefix_length_le)
  ultimately have "i = 0 \<or> s = []" using assms(1) by (cases s) auto
  then show ?thesis using \<open>prefix p (drop i s)\<close> assms(1) prefix_same_length [of s p] by auto
qed

lemma check_entry_cases:
  assumes "check_entry sl ircfrom pt st = Some (b, st')"
  shows "(\<not> b \<and> st' = st) \<or>
    (\<exists>i. strchr pt (CHR '';'') = Some i \<and> ehost st' = strmncpy (nobreak (take i pt)) 400 \<and>
      (ircto st' = ircto st \<or> ircto st' = ucase (ircto st)) \<and>
      (b \<longrightarrow> (at (ehost st') 0 \<in> {CHR ''-'', CHR '')''} \<or> (\<exists>r. wild_match (ehost st') ircfrom = Some r \<and> r \<noteq> 0)) \<and>
        (echan st' \<noteq> [] \<longrightarrow> ircto st' = echan st' \<and> ircto st' = ucase (ircto st))))"
proof (cases "strchr pt (CHR '';'')")
  case None
  then show ?thesis using assms by (simp add: check_entry_def)
next
  case (Some i)
  then obtain po pc where l: "load_entry (take i pt) po st = (pc, st')" "test_entry ircfrom pc st' = Some b"
    using assms by (auto simp: check_entry_def split: option.splits prod.splits)
  obtain chan par where sp: "split_param po = ((chan, pc), par)"
    using l(1) by (auto simp: load_entry_def split: prod.splits)
  have st': "echan st' = chan" "ehost st' = strmncpy (nobreak (take i pt)) 400"
      "ircto st' = (if pc then ucase (ircto st) else ircto st)"
    using l(1) sp by (auto simp: load_entry_def)
  have nochan: "\<not> pc \<Longrightarrow> chan = []"
    using sp by (auto simp: split_param_def split: if_splits option.splits)
  have "b \<Longrightarrow> chan \<noteq> [] \<Longrightarrow> ucase (ircto st) = chan"
    using l(2) nochan st' strstr_same_length [of "ucase (ircto st)" chan]
    by (auto simp: test_entry_def Let_def split: if_splits)
  moreover have "b \<Longrightarrow> at (ehost st') 0 \<in> {CHR ''-'', CHR '')''} \<or>
      (\<exists>r. wild_match (ehost st') ircfrom = Some r \<and> r \<noteq> 0)"
    using l(2) by (auto simp: test_entry_def Let_def split: if_splits)
  ultimately show ?thesis using Some st' nochan by (auto split: if_splits)
qed

lemma check_entry_True:
  assumes "check_entry sl ircfrom pt st = Some (True, st')"
  shows "\<exists>i. strchr pt (CHR '';'') = Some i \<and> ehost st' = strmncpy (nobreak (take i pt)) 400 \<and>
    (at (ehost st') 0 \<in> {CHR ''-'', CHR '')''} \<or> (\<exists>r. wild_match (ehost st') ircfrom = Some r \<and> r \<noteq> 0)) \<and>
    (echan st' \<noteq> [] \<longrightarrow> ircto st' = echan st' \<and> ircto st' = ucase (ircto st))"
  using check_entry_cases [OF assms] by blast

lemma check_entry_ircto:
  assumes "check_entry sl ircfrom pt st = Some (b, st')"
  shows "ircto st' = ircto st \<or> ircto st' = ucase (ircto st)"
  using check_entry_cases [OF assms] by auto



end
