(* ===== verification/Uchannel.thy ===== *)
theory Uchannel
  imports Lists
begin

text \<open>
  The channel lists of src/p_uchannel.c: for every user the channels it is on, and for every
  channel its modes, topic and users. Channels and channel users are lists; a pointer to an
  element is its index. The build has no internal network, so that a user number is never -1.

  The configuration store is the pair of the lines in memory and the content of the file, which
  \<open>flushconfig\<close> brings up to date. \<open>None\<close> is a write outside a buffer, or a failure of one of the
  configuration routines. Mode events for the scripts and lines for the client are returned as
  lists.
\<close>

section \<open>The configuration store\<close>

type_synonym store = "conf \<times> string"

definition flush_store :: "store \<Rightarrow> store" where
  "flush_store s = (fst s, flush_lines (fst s))"

definition store_write :: "string \<Rightarrow> string \<Rightarrow> string \<Rightarrow> string option \<Rightarrow> store \<Rightarrow> store option" where
  "store_write section param inidat data s =
     map_option (\<lambda>c. (c, snd s)) (writeini section param inidat data (fst s))"

definition store_clear :: "string \<Rightarrow> store \<Rightarrow> store option" where
  "store_clear pattern s = map_option (\<lambda>c. (c, snd s)) (clearsectionconfig pattern (fst s))"

section \<open>Channel modes\<close>

text \<open>One turn of the loop over the known modes: the modes left, the modes in order, the parameters.\<close>

definition order_step ::
  "uchannelt \<Rightarrow> char \<Rightarrow> string \<times> string \<times> string \<Rightarrow> string \<times> string \<times> string" where
  "order_step channel k s =
     (case s of (modes, newmode, param) \<Rightarrow>
        case strchr modes k of
          None \<Rightarrow> (modes, newmode, param)
        | Some i \<Rightarrow>
            let limit = snpf 10 (decimal_int (c_limit channel));
                param = (if k = CHR ''k'' \<and> length param + length (c_key channel) + 2 < 199
                         then param @ c_key channel @ '' '' else param);
                param = (if k = CHR ''l'' \<and> length param + length limit + 2 < 199
                         then param @ limit @ '' '' else param);
                newmode = (if length newmode < 29 then newmode @ [k] else newmode)
            in (modes[i := CHR '' ''], newmode, param))"

definition append_mode :: "char \<Rightarrow> string \<Rightarrow> string" where
  "append_mode c newmode = (if c \<noteq> CHR '' '' \<and> length newmode < 29 then newmode @ [c] else newmode)"

definition ordermodes :: "uchannelt \<Rightarrow> uchannelt \<times> string" where
  "ordermodes channel =
     (case fold (order_step channel) ''spmntilk'' (c_modes channel, [], []) of
        (modes, newmode, param) \<Rightarrow>
          let newmode = (if c_usern channel \<noteq> -1 then fold append_mode modes newmode else newmode)
          in (channel\<lparr>c_modes := strmncpy newmode 20\<rparr>, snpf 300 (''+'' @ newmode @ '' '' @ param)))"

text \<open>\<open>None\<close>: the array of 20 bytes has no room for the new mode and its terminator.\<close>

definition addmodetochannel :: "uchannelt \<Rightarrow> char \<Rightarrow> uchannelt option" where
  "addmodetochannel channel mode =
     (if length (c_modes channel) < 20 \<and> strstr (c_modes channel) [mode] = None
      then (if length (c_modes channel) + 1 < 20
            then Some (channel\<lparr>c_modes := c_modes channel @ [mode]\<rparr>)
            else None)
      else Some channel)"

definition deletemodefromchannel :: "uchannelt \<Rightarrow> char \<Rightarrow> uchannelt" where
  "deletemodefromchannel channel mode =
     (case strchr (c_modes channel) mode of
        None \<Rightarrow> channel
      | Some i \<Rightarrow>
          channel\<lparr>c_modes := strmncpy (snpf 60 (take i (c_modes channel) @ drop (i + 1) (c_modes channel))) 20\<rparr>)"

definition setchanneltopic :: "uchannelt \<Rightarrow> string \<Rightarrow> uchannelt" where
  "setchanneltopic chan topic = chan\<lparr>c_topic := strmncpy topic 600\<rparr>"

section \<open>Users on a channel\<close>

fun channelnick_loop :: "string \<Rightarrow> uchannelusert list \<Rightarrow> nat option" where
  "channelnick_loop uu [] = None"
| "channelnick_loop uu (ukm # rest) =
     (if strmcmp uu (ucase (strmncpy (cu_nick ukm) 64)) then Some 0
      else map_option Suc (channelnick_loop uu rest))"

definition getchannelnick :: "uchannelt \<Rightarrow> string \<Rightarrow> nat option" where
  "getchannelnick channel nick = channelnick_loop (ucase (strmncpy nick 64)) (c_users channel)"

definition addnicktochannel :: "uchannelt \<Rightarrow> string \<Rightarrow> string \<Rightarrow> string \<Rightarrow> uchannelt \<times> nat" where
  "addnicktochannel chan nick ident host =
     (let fill = (\<lambda>scu. scu\<lparr>cu_nick := strmncpy nick 64, cu_ident := strmncpy ident 64,
                           cu_host := strmncpy host 256\<rparr>)
      in case getchannelnick chan nick of
           Some i \<Rightarrow> (chan\<lparr>c_users := (c_users chan)[i := fill (c_users chan ! i)]\<rparr>, i)
         | None \<Rightarrow> (chan\<lparr>c_users := c_users chan @ [fill zero_uchannelusert]\<rparr>, length (c_users chan)))"

text \<open>Unlike the lookup, the removal compares the nick as it is written.\<close>

fun removenick_loop :: "string \<Rightarrow> uchannelusert list \<Rightarrow> uchannelusert list" where
  "removenick_loop nick [] = []"
| "removenick_loop nick (chanuser # rest) =
     (if strmcmp (cu_nick chanuser) nick then rest else chanuser # removenick_loop nick rest)"

definition removenickfromchannel :: "uchannelt \<Rightarrow> string \<Rightarrow> uchannelt" where
  "removenickfromchannel channel nick = channel\<lparr>c_users := removenick_loop nick (c_users channel)\<rparr>"

definition removeallusersfromchannel :: "uchannelt \<Rightarrow> uchannelt" where
  "removeallusersfromchannel lkm = lkm\<lparr>c_users := []\<rparr>"

text \<open>
  The modes of a user on a channel, as prefix characters in the order of the network. \<open>order\<close>
  has 20 bytes; \<open>None\<close> when it is full, since it then has no terminator.
\<close>

fun usermode_loop :: "string \<Rightarrow> char \<Rightarrow> string \<Rightarrow> string \<Rightarrow> string \<Rightarrow> string" where
  "usermode_loop cumode mode order [] mc = order"
| "usermode_loop cumode mode order (m # md) mc =
     (if (strchr cumode (at mc 0) \<noteq> None \<or> mode = m) \<and> length order < 20
      then usermode_loop cumode mode (order @ [at mc 0]) md (tl mc)
      else usermode_loop cumode mode order md (tl mc))"

definition addchannelusermode :: "uchannelt \<Rightarrow> string \<Rightarrow> char \<Rightarrow> uchannelt option" where
  "addchannelusermode channel nickname mode =
     (case getchannelnick channel nickname of
        None \<Rightarrow> Some channel
      | Some i \<Rightarrow>
          let cu = c_users channel ! i;
              order = usermode_loop (cu_mode cu) mode [] (c_prefixmodes channel) (c_prefixchars channel)
          in if length order < 20 \<or> NUL \<in> set order
             then Some (channel\<lparr>c_users := (c_users channel)[i := cu\<lparr>cu_mode := cstr order\<rparr>]\<rparr>)
             else None)"

definition removechannelusermode :: "uchannelt \<Rightarrow> string \<Rightarrow> char \<Rightarrow> uchannelt" where
  "removechannelusermode channel nickname mode =
     (let imode = (case strchr (c_prefixmodes channel) mode of
                     Some j \<Rightarrow> at (c_prefixchars channel) j
                   | None \<Rightarrow> mode)
      in case getchannelnick channel nickname of
           None \<Rightarrow> channel
         | Some i \<Rightarrow>
             let cu = c_users channel ! i;
                 temp = strmncpy (cu_mode cu) 20
             in case strchr temp imode of
                  None \<Rightarrow> channel
                | Some j \<Rightarrow>
                    channel\<lparr>c_users := (c_users channel)[i :=
                      cu\<lparr>cu_mode := snpf 20 (take j temp @ drop (j + 1) temp)\<rparr>]\<rparr>)"

section \<open>Channels of a user\<close>

fun userchannel_loop :: "string \<Rightarrow> uchannelt list \<Rightarrow> nat option" where
  "userchannel_loop uc [] = None"
| "userchannel_loop uc (lkm # rest) =
     (if strmcmp (ucase (strmncpy (c_name lkm) 255)) uc then Some 0
      else map_option Suc (userchannel_loop uc rest))"

definition getuserchannel :: "usert \<Rightarrow> string \<Rightarrow> nat option" where
  "getuserchannel u channel = userchannel_loop (ucase (strmncpy channel 255)) (u_channels u)"

definition hasmode :: "usert \<Rightarrow> string \<Rightarrow> string \<Rightarrow> char \<Rightarrow> bool" where
  "hasmode u nick channel modesymbol =
     (case getuserchannel u channel of
        None \<Rightarrow> False
      | Some i \<Rightarrow>
          (case getchannelnick (u_channels u ! i) nick of
             None \<Rightarrow> False
           | Some j \<Rightarrow> strchr (cu_mode (c_users (u_channels u ! i) ! j)) modesymbol \<noteq> None))"

definition new_channel :: "int \<Rightarrow> usert \<Rightarrow> string \<Rightarrow> uchannelt" where
  "new_channel usern u channel =
     zero_uchannelt\<lparr>c_name := strmncpy channel 255,
       c_prefixmodes := strmncpy (u_prefixmodes u) 30,
       c_prefixchars := strmncpy (u_prefixchars u) 30,
       c_chanmodes := strmncpy (u_chanmodes u) 100,
       c_modes := ''nt'', c_usern := usern\<rparr>"

definition addchanneltouser ::
  "int \<Rightarrow> string \<Rightarrow> bool \<Rightarrow> usert \<Rightarrow> store \<Rightarrow> (nat \<times> usert \<times> store) option" where
  "addchanneltouser usern channel nowrite u s =
     (case getuserchannel u channel of
        Some i \<Rightarrow> Some (i, u, s)
      | None \<Rightarrow>
          let i = length (u_channels u);
              llkm = new_channel usern u channel
          in if nowrite then Some (i, u\<lparr>u_channels := u_channels u @ [llkm]\<rparr>, s)
             else do {
               let bf = snpf 400 (''USER'' @ decimal_int usern);
               (cnt, lastfree) \<leftarrow> countconfentries ''CHANNELS'' ''ENTRY%d'' bf (fst s);
               let uc = snpf 255 (''ENTRY'' @ decimal_int (int lastfree));
               s' \<leftarrow> store_write ''CHANNELS'' uc bf (Some channel) s;
               Some (i, u\<lparr>u_channels := u_channels u @ [llkm\<lparr>c_isentry := int lastfree\<rparr>]\<rparr>, flush_store s')
             })"

definition nickchange :: "string \<Rightarrow> string \<Rightarrow> usert \<Rightarrow> usert" where
  "nickchange oldnick newnick u =
     u\<lparr>u_channels := map (\<lambda>channel.
         case getchannelnick channel oldnick of
           None \<Rightarrow> channel
         | Some i \<Rightarrow> channel\<lparr>c_users := (c_users channel)[i :=
             (c_users channel ! i)\<lparr>cu_nick := strmncpy newnick 64\<rparr>]\<rparr>) (u_channels u)\<rparr>"

definition removeallchannelsfromuser :: "usert \<Rightarrow> usert" where
  "removeallchannelsfromuser u = u\<lparr>u_channels := []\<rparr>"

definition removechannelfromuser :: "int \<Rightarrow> string \<Rightarrow> usert \<Rightarrow> store \<Rightarrow> (usert \<times> store) option" where
  "removechannelfromuser usern channel u s =
     (case getuserchannel u channel of
        None \<Rightarrow> Some (u, s)
      | Some i \<Rightarrow>
          do {
            let u' = u\<lparr>u_channels := take i (u_channels u) @ drop (i + 1) (u_channels u)\<rparr>;
            let isentry = decimal_int (c_isentry (u_channels u ! i));
            let key = ''USER'' @ decimal_int usern @ ''.CHANNELS.'';
            s1 \<leftarrow> store_clear (snpf 255 (key @ ''ENTRY'' @ isentry)) s;
            s2 \<leftarrow> store_clear (snpf 255 (key @ ''KEY'' @ isentry)) s1;
            Some (u', flush_store s2)
          })"

text \<open>
  The loop visits the channels that were there at the start, \<open>n\<close> of them are left and the next
  one is at index \<open>i\<close>; a channel without users is removed, so that its successor moves up.
\<close>

fun removenickall_loop :: "nat \<Rightarrow> nat \<Rightarrow> int \<Rightarrow> string \<Rightarrow> usert \<Rightarrow> store \<Rightarrow> (usert \<times> store) option" where
  "removenickall_loop 0 i usern nick u s = Some (u, s)"
| "removenickall_loop (Suc n) i usern nick u s =
     (let channel = removenickfromchannel (u_channels u ! i) nick;
          u = u\<lparr>u_channels := (u_channels u)[i := channel]\<rparr>
      in if c_users channel = []
         then do {
           (u, s) \<leftarrow> removechannelfromuser usern (c_name channel) u s;
           removenickall_loop n i usern nick u s
         }
         else removenickall_loop n (i + 1) usern nick u s)"

definition removenickfromallchannels :: "int \<Rightarrow> string \<Rightarrow> usert \<Rightarrow> store \<Rightarrow> (usert \<times> store) option" where
  "removenickfromallchannels usern nick u s =
     removenickall_loop (length (u_channels u)) 0 usern nick u s"

definition resetallchannels :: "usert \<Rightarrow> usert" where
  "resetallchannels u =
     u\<lparr>u_channels := map (\<lambda>chan. (removeallusersfromchannel chan)\<lparr>c_ison := 0, c_topic := []\<rparr>) (u_channels u)\<rparr>"

section \<open>Mode changes\<close>

text \<open>The first parameter and, unless nothing follows, the rest.\<close>

definition next_param :: "string \<Rightarrow> string \<times> string option" where
  "next_param par =
     (case strchr par (CHR '' '') of
        None \<Rightarrow> (par, None)
      | Some i \<Rightarrow> (take i par, if drop (i + 1) par = [] then None else Some (drop (i + 1) par)))"

definition store_key :: "salt \<Rightarrow> uchannelt \<Rightarrow> store \<Rightarrow> store option" where
  "store_key sl lkm s =
     do {
       let sb = snpf 20 (''USER'' @ decimal_int (c_usern lkm));
       let eb = snpf 20 (''KEY'' @ decimal_int (c_isentry lkm));
       ck \<leftarrow> cryptit sl (c_key lkm);
       s' \<leftarrow> store_write ''CHANNELS'' eb sb (Some ck) s;
       Some (flush_store s')
     }"

definition store_nokey :: "uchannelt \<Rightarrow> store \<Rightarrow> store option" where
  "store_nokey lkm s =
     do {
       let sb = snpf 20 (''USER'' @ decimal_int (c_usern lkm));
       let eb = snpf 20 (''KEY'' @ decimal_int (c_isentry lkm));
       s' \<leftarrow> store_write ''CHANNELS'' eb sb None s;
       Some (flush_store s')
     }"

text \<open>Here a parameter that ends the text leaves an empty rest, not a null pointer.\<close>

fun setmode_loop :: "salt \<Rightarrow> string \<Rightarrow> string option \<Rightarrow> uchannelt \<Rightarrow> store \<Rightarrow> (uchannelt \<times> store) option" where
  "setmode_loop sl [] par lkm s = Some (lkm, s)"
| "setmode_loop sl (m # md) par lkm s =
     (case par of
        None \<Rightarrow> setmode_loop sl md par lkm s
      | Some p \<Rightarrow>
          let (w, rest) = (case strchr p (CHR '' '') of
                             None \<Rightarrow> (p, None) | Some i \<Rightarrow> (take i p, Some (drop (i + 1) p)))
          in if m = CHR ''l'' then setmode_loop sl md rest (lkm\<lparr>c_limit := atoi w\<rparr>) s
             else if m = CHR ''k''
             then let lkm = lkm\<lparr>c_key := strmncpy w 64\<rparr> in
               (if c_usern lkm > 0
                then (case store_key sl lkm s of None \<Rightarrow> None | Some s' \<Rightarrow> setmode_loop sl md rest lkm s')
                else setmode_loop sl md rest lkm s)
             else setmode_loop sl md par lkm s)"

definition setchannelmode ::
  "salt \<Rightarrow> string \<Rightarrow> string option \<Rightarrow> uchannelt \<Rightarrow> store \<Rightarrow> (uchannelt \<times> store) option" where
  "setchannelmode sl mode param lkm s =
     setmode_loop sl mode param (lkm\<lparr>c_modes := strmncpy mode 20\<rparr>) s"

definition raisemodeevent :: "char \<Rightarrow> char \<Rightarrow> string option \<Rightarrow> string" where
  "raisemodeevent pfx mode param =
     (case param of
        Some p \<Rightarrow> snpf 4096 ([pfx, mode] @ '' '' @ p)
      | None \<Rightarrow> snpf 4096 [pfx, mode])"

text \<open>The number of commas in front of position \<open>i\<close>, the first character not counted.\<close>

definition aftercomma :: "string \<Rightarrow> nat \<Rightarrow> nat" where
  "aftercomma chanmodes i = length (filter (\<lambda>c. c = CHR '','') (tl (take (i + 1) chanmodes)))"

definition mode_event :: "uchannelt \<Rightarrow> char \<Rightarrow> char \<Rightarrow> string option \<Rightarrow> string list" where
  "mode_event lkm pfx m par = (if c_usern lkm > 0 then [raisemodeevent pfx m par] else [])"

definition change_mode :: "char \<Rightarrow> char \<Rightarrow> uchannelt \<Rightarrow> uchannelt option" where
  "change_mode pfx m lkm =
     (if pfx = CHR ''+'' then addmodetochannel lkm m else Some (deletemodefromchannel lkm m))"

definition change_usermode :: "char \<Rightarrow> char \<Rightarrow> string \<Rightarrow> uchannelt \<Rightarrow> uchannelt option" where
  "change_usermode pfx m w lkm =
     (if pfx = CHR ''+'' then addchannelusermode lkm w m else Some (removechannelusermode lkm w m))"

text \<open>The effect of a channel mode with a parameter, in front of the change of the mode itself.\<close>

definition param_mode :: "salt \<Rightarrow> char \<Rightarrow> char \<Rightarrow> string \<Rightarrow> uchannelt \<Rightarrow> store \<Rightarrow> (uchannelt \<times> store) option" where
  "param_mode sl pfx m w lkm s =
     (if m = CHR ''l'' then Some (lkm\<lparr>c_limit := atoi w\<rparr>, s)
      else if m = CHR ''k''
      then (if pfx = CHR ''+''
            then let lkm = lkm\<lparr>c_key := strmncpy w 64\<rparr> in
              (if c_usern lkm > 0 then map_option (\<lambda>s'. (lkm, s')) (store_key sl lkm s) else Some (lkm, s))
            else let lkm = lkm\<lparr>c_key := []\<rparr> in
              (if c_usern lkm > 0 then map_option (\<lambda>s'. (lkm, s')) (store_nokey lkm s) else Some (lkm, s)))
      else if m = CHR ''s'' \<and> pfx = CHR ''+'' then Some (deletemodefromchannel lkm (CHR ''p''), s)
      else if m = CHR ''p'' \<and> pfx = CHR ''+'' then Some (deletemodefromchannel lkm (CHR ''s''), s)
      else Some (lkm, s))"

definition mode_has_param :: "uchannelt \<Rightarrow> char \<Rightarrow> char \<Rightarrow> bool" where
  "mode_has_param lkm pfx m =
     (case strchr (c_chanmodes lkm) m of
        None \<Rightarrow> False
      | Some i \<Rightarrow> aftercomma (c_chanmodes lkm) i < 2 \<or> (aftercomma (c_chanmodes lkm) i = 2 \<and> pfx \<noteq> CHR ''-''))"

fun addmode_loop ::
  "salt \<Rightarrow> char \<Rightarrow> string option \<Rightarrow> string \<Rightarrow> uchannelt \<Rightarrow> store \<Rightarrow> string list \<Rightarrow> (uchannelt \<times> store \<times> string list) option" where
  "addmode_loop sl pfx par [] lkm s ev = Some (lkm, s, ev)"
| "addmode_loop sl pfx par (m # md) lkm s ev =
     (if m = CHR ''+'' \<or> m = CHR ''-'' then addmode_loop sl m par md lkm s ev
      else if strchr (c_prefixmodes lkm) m \<noteq> None
      then (case par of
              None \<Rightarrow> Some (lkm, s, ev)
            | Some p \<Rightarrow>
                (case next_param p of
                   (w, rest) \<Rightarrow>
                     (case change_usermode pfx m w lkm of
                        None \<Rightarrow> None
                      | Some lkm' \<Rightarrow> addmode_loop sl pfx rest md lkm' s (ev @ mode_event lkm' pfx m (Some w)))))
      else if strchr (c_chanmodes lkm) m \<noteq> None
      then (if mode_has_param lkm pfx m
            then (case par of
                    None \<Rightarrow> Some (lkm, s, ev)
                  | Some p \<Rightarrow>
                      (case next_param p of
                         (w, rest) \<Rightarrow>
                           (case param_mode sl pfx m w lkm s of
                              None \<Rightarrow> None
                            | Some (lkm1, s1) \<Rightarrow>
                                (case change_mode pfx m lkm1 of
                                   None \<Rightarrow> None
                                 | Some lkm2 \<Rightarrow>
                                     addmode_loop sl pfx rest md lkm2 s1 (ev @ mode_event lkm2 pfx m (Some w))))))
            else (case change_mode pfx m lkm of
                    None \<Rightarrow> None
                  | Some lkm1 \<Rightarrow>
                      let lkm2 = (if m = CHR ''l'' then lkm1\<lparr>c_limit := 0\<rparr> else lkm1) in
                      addmode_loop sl pfx par md lkm2 s (ev @ mode_event lkm2 pfx m None)))
      else addmode_loop sl pfx par md lkm s ev)"

definition addchannelmode ::
  "salt \<Rightarrow> string \<Rightarrow> string \<Rightarrow> uchannelt \<Rightarrow> store \<Rightarrow> (uchannelt \<times> store \<times> string list) option" where
  "addchannelmode sl mode param lkm s =
     map_option (\<lambda>(lkm, s, ev). (fst (ordermodes lkm), s, ev))
       (addmode_loop sl (CHR ''+'') (Some (strmncpy param 4096)) (strmncpy mode 200) lkm s [])"

section \<open>Sending the names\<close>

text \<open>
  The text added for one user; \<open>own\<close> is the nick of the user, \<open>pnick\<close> the nick of the parent
  user, to whom the names go.
\<close>

definition name_item :: "string \<Rightarrow> string \<Rightarrow> string \<Rightarrow> uchannelusert \<Rightarrow> string" where
  "name_item own pnick token cu =
     (if cu_mode cu \<noteq> [] then [hd (cu_mode cu)] else []) @
     (if strmcmp (cu_nick cu) own then pnick else tl token @ cu_nick cu) @ '' ''"

text \<open>A full line is sent before the next name is added; the loop would not end with a long \<open>nameline\<close>.\<close>

partial_function (option) names_loop ::
  "string \<Rightarrow> string \<Rightarrow> string \<Rightarrow> string \<Rightarrow> string \<Rightarrow> uchannelusert list \<Rightarrow> string list option" where
  "names_loop own pnick token nameline line users =
     (case users of
        [] \<Rightarrow> Some [line @ [LF]]
      | cu # rest \<Rightarrow>
          if length line > 500
          then do {
            ls \<leftarrow> names_loop own pnick token nameline (strmncpy nameline 1024) users;
            Some ((line @ [LF]) # ls)
          }
          else names_loop own pnick token nameline (line @ name_item own pnick token cu) rest)"

declare names_loop.simps [code]

text \<open>\<open>rtrim\<close> trims the channel name and \<open>inchan\<close> in place.\<close>

definition sendnames :: "usert \<Rightarrow> usert \<Rightarrow> uchannelt \<Rightarrow> (usert \<times> uchannelt \<times> string list) option" where
  "sendnames u parent chan0 =
     (let chan = (if u_innames u = 1 then chan0\<lparr>c_name := rtrim (c_name chan0)\<rparr> else chan0);
          u = (if u_innames u = 1 then u\<lparr>u_inchan := rtrim (u_inchan u)\<rparr> else u);
          uc1 = ucase (strmncpy (c_name chan) 200);
          uc2 = ucase (strmncpy (u_inchan u) 200)
      in if u_innames u = 1 \<and> strmcmp uc1 uc2 then Some (u\<lparr>u_innames := 2\<rparr>, chan, [])
         else
           let up = (if u_parent u \<noteq> 0 then parent else u);
               token = (if u_parent u \<noteq> 0 then snpf 60 (''#'' @ u_network u @ ''~'') else []);
               nameline = snpf 300 ('':'' @ u_server u @ '' 353 '' @ u_nick u @ '' = '' @ token @ c_name chan @ '' :'')
           in map_option (\<lambda>ls. (u, chan, ls
                @ [snpf 1024 ('':'' @ u_server u @ '' 366 '' @ u_nick u @ '' '' @ token @ c_name chan
                     @ '' :End of /NAMES list.'' @ [LF])]))
                (names_loop (u_nick u) (u_nick up) token nameline (strmncpy nameline 1024) (c_users chan)))"

section \<open>Loading and converting\<close>

function lastwhois_loop :: "int \<Rightarrow> string \<Rightarrow> usert \<Rightarrow> store \<Rightarrow> (usert \<times> store) option" where
  "lastwhois_loop usern ept0 u s =
     (let ept = dropWhile (\<lambda>c. c = CHR '' '') ept0 in
      if ept = [] then Some (u, s)
      else
        let w = (case strchr ept (CHR '' '') of None \<Rightarrow> ept | Some i \<Rightarrow> take i ept);
            rest = (case strchr ept (CHR '' '') of None \<Rightarrow> None | Some i \<Rightarrow> Some (drop (i + 1) ept));
            name = (if strchr (u_prefixchars u) (hd w) \<noteq> None then tl w else w)
        in case addchanneltouser usern name False u s of
             None \<Rightarrow> None
           | Some (i, u', s') \<Rightarrow>
               (case rest of None \<Rightarrow> Some (u', s') | Some r \<Rightarrow> lastwhois_loop usern r u' s'))"
  by pat_completeness auto
termination
proof (relation "measure (\<lambda>(usern, ept, u, s). length ept)", goal_cases)
  case (2 usern ept0 u s ept w rest name res i y u1 s1 r)
  then obtain j where "strchr ept (CHR '' '') = Some j" and "drop (j + 1) ept = r"
    by (auto split: option.splits)
  moreover have "length ept \<le> length ept0" and "ept \<noteq> []"
    using 2 length_dropWhile_le by auto
  ultimately show ?case by (cases ept) auto
qed simp

definition convertlastwhois :: "int \<Rightarrow> string \<Rightarrow> usert \<Rightarrow> store \<Rightarrow> (usert \<times> store) option" where
  "convertlastwhois usern lastwhois u s = lastwhois_loop usern (strmncpy lastwhois 2048) u s"

definition load_channel :: "salt \<Rightarrow> int \<Rightarrow> store \<Rightarrow> nat \<Rightarrow> usert option \<Rightarrow> usert option" where
  "load_channel sl usern s i uo =
     do {
       u \<leftarrow> uo;
       let bf = snpf 30 (''USER'' @ decimal_int usern);
       let (rc, value) = getini ''CHANNELS'' (snpf 30 (''ENTRY'' @ decimal_int (int i))) bf (fst s);
       if rc \<noteq> 0 then Some u
       else do {
         (j, u, s') \<leftarrow> addchanneltouser usern value True u s;
         let (rc, value) = getini ''CHANNELS'' (snpf 30 (''KEY'' @ decimal_int (int i))) bf (fst s);
         let chan = (u_channels u ! j)\<lparr>c_isentry := int i\<rparr>;
         chan \<leftarrow> (if rc = 0
                  then do {
                    k \<leftarrow> (if at value 0 = CHR ''+'' then decryptit sl value else Some value);
                    Some (chan\<lparr>c_modes := ''tnk'', c_key := strmncpy k 64\<rparr>)
                  }
                  else Some chan);
         Some (u\<lparr>u_channels := (u_channels u)[j := chan]\<rparr>)
       }
     }"

definition loadchannels :: "salt \<Rightarrow> int \<Rightarrow> store \<Rightarrow> usert \<Rightarrow> usert option" where
  "loadchannels sl usern s u = fold (load_channel sl usern s) [0..<40] (Some u)"

section \<open>Looking up channels and nicks\<close>

definition nick_key :: "string \<Rightarrow> string" where
  "nick_key nick = ucase (strmncpy nick 64)"

definition channel_key :: "string \<Rightarrow> string" where
  "channel_key name = ucase (strmncpy name 255)"

lemma strmncpy_twice [simp]: "strmncpy (strmncpy s n) n = strmncpy s n"
  by (simp add: strmncpy_def)

lemma key_copied [simp]:
  "nick_key (strmncpy s 64) = nick_key s"
  "channel_key (strmncpy s 255) = channel_key s"
  by (simp_all add: nick_key_def channel_key_def)

interpretation cn: keyed_list channelnick_loop "\<lambda>cu. nick_key (cu_nick cu)"
  by unfold_locales (auto simp: nick_key_def)

interpretation uc: keyed_list userchannel_loop "\<lambda>lkm. channel_key (c_name lkm)"
  by unfold_locales (auto simp: channel_key_def)

lemma getchannelnick_key: "getchannelnick channel nick = channelnick_loop (nick_key nick) (c_users channel)"
  by (simp add: getchannelnick_def nick_key_def)

lemma getuserchannel_key: "getuserchannel u channel = userchannel_loop (channel_key channel) (u_channels u)"
  by (simp add: getuserchannel_def channel_key_def)

text \<open>
  (C36) A nick added to a channel is found there, with the ident and the host of the join and
  with the modes it had, if it was there already; every other nick is found where it was. The
  channel has one user more exactly when the nick was not on it.
\<close>

theorem addnicktochannel_lookup:
  assumes "addnicktochannel chan nick ident host = (chan', i)"
  shows "getchannelnick chan' nick = Some i \<and>
    cu_nick (c_users chan' ! i) = strmncpy nick 64 \<and>
    cu_ident (c_users chan' ! i) = strmncpy ident 64 \<and>
    cu_host (c_users chan' ! i) = strmncpy host 256 \<and>
    cu_mode (c_users chan' ! i) =
      (case getchannelnick chan nick of Some j \<Rightarrow> cu_mode (c_users chan ! j) | None \<Rightarrow> []) \<and>
    (\<forall>other. nick_key other \<noteq> nick_key nick \<longrightarrow> getchannelnick chan' other = getchannelnick chan other) \<and>
    length (c_users chan') = length (c_users chan) + (if getchannelnick chan nick = None then 1 else 0)"
proof (cases "getchannelnick chan nick")
  case None
  then show ?thesis using assms
    by (auto simp: addnicktochannel_def getchannelnick_key cn.lookup_snoc zero_uchannelusert_def
          nth_append split: option.splits)
next
  case (Some j)
  then have "j < length (c_users chan)" "nick_key (cu_nick (c_users chan ! j)) = nick_key nick"
    using cn.lookup_SomeD by (auto simp: getchannelnick_key)
  then show ?thesis using assms Some
    by (auto simp: addnicktochannel_def getchannelnick_key cn.lookup_update)
qed

theorem addnicktochannel_lookup_witness:
  "\<exists>chan'. addnicktochannel zero_uchannelt ''Zed'' ''z'' ''host'' = (chan', 0) \<and>
     getchannelnick chan' ''zED'' = Some 0"
proof -
  obtain chan' i where r: "addnicktochannel zero_uchannelt ''Zed'' ''z'' ''host'' = (chan', i)"
    by fastforce
  then have "i = 0" by (auto simp: addnicktochannel_def getchannelnick_def zero_uchannelt_def)
  moreover have "nick_key ''zED'' = nick_key ''Zed''" by code_simp
  ultimately show ?thesis
    using addnicktochannel_lookup [OF r] r by (auto simp: getchannelnick_key)
qed

text \<open>The invariant of the channels of a user: their names differ, case ignored.\<close>

definition channels_ok :: "usert \<Rightarrow> bool" where
  "channels_ok u \<longleftrightarrow> distinct (map (\<lambda>lkm. channel_key (c_name lkm)) (u_channels u))"

lemma addchanneltouser_lookup:
  assumes r: "addchanneltouser usern channel nowrite u s = Some (i, u', s')" and ok: "channels_ok u"
  shows "channels_ok u' \<and> getuserchannel u' channel = Some i \<and>
    (\<forall>other. channel_key other \<noteq> channel_key channel \<longrightarrow> getuserchannel u' other = getuserchannel u other)"
proof (cases "getuserchannel u channel")
  case None
  from r None obtain n where u': "u' = u\<lparr>u_channels := u_channels u @ [(new_channel usern u channel)\<lparr>c_isentry := n\<rparr>]\<rparr>"
      and i: "i = length (u_channels u)"
    by (auto simp: addchanneltouser_def Let_def new_channel_def zero_uchannelt_def
        split: if_splits prod.splits Option.bind_splits)
  have k: "channel_key (c_name ((new_channel usern u channel)\<lparr>c_isentry := n\<rparr>)) = channel_key channel"
    by (simp add: new_channel_def)
  show ?thesis
    using None ok k uc.distinct_snoc [of "u_channels u" "(new_channel usern u channel)\<lparr>c_isentry := n\<rparr>"]
    by (auto simp: u' i channels_ok_def getuserchannel_key uc.lookup_snoc split: option.splits)
next
  case (Some j)
  then show ?thesis using r ok by (auto simp: addchanneltouser_def)
qed

lemma removechannelfromuser_lookup:
  assumes r: "removechannelfromuser usern channel u s = Some (u', s')" and ok: "channels_ok u"
  shows "channels_ok u' \<and> getuserchannel u' channel = None"
proof (cases "getuserchannel u channel")
  case None
  then show ?thesis using r ok by (auto simp: removechannelfromuser_def)
next
  case (Some i)
  with r have u': "u' = u\<lparr>u_channels := take i (u_channels u) @ drop (i + 1) (u_channels u)\<rparr>"
    by (auto simp: removechannelfromuser_def Let_def split: Option.bind_splits)
  from Some ok show ?thesis
    using uc.lookup_remove [of "u_channels u" "channel_key channel" i]
    by (simp add: u' channels_ok_def getuserchannel_key uc.lookup_None)
qed

section \<open>Well-formed channels\<close>

text \<open>Every string fits its array with the terminator, and the channel belongs to the user.\<close>

definition chanuser_wf :: "uchannelusert \<Rightarrow> bool" where
  "chanuser_wf cu \<longleftrightarrow> length (cu_nick cu) < 64 \<and> length (cu_ident cu) < 64 \<and>
     length (cu_host cu) < 256 \<and> length (cu_mode cu) < 20"

definition channel_wf :: "int \<Rightarrow> uchannelt \<Rightarrow> bool" where
  "channel_wf usern c \<longleftrightarrow>
     length (c_name c) < 255 \<and> length (c_modes c) < 20 \<and> length (c_key c) < 64 \<and>
     length (c_topic c) < 600 \<and> length (c_prefixmodes c) < 30 \<and> length (c_prefixchars c) < 30 \<and>
     length (c_chanmodes c) < 100 \<and> c_usern c = usern \<and> (\<forall>cu \<in> set (c_users c). chanuser_wf cu)"

lemmas fits = length_strmncpy length_snpf

text \<open>What every operation on a single channel keeps: its name and its well-formedness.\<close>

definition keeps :: "uchannelt \<Rightarrow> uchannelt \<Rightarrow> bool" where
  "keeps c c' \<longleftrightarrow> c_name c' = c_name c \<and> c_usern c' = c_usern c \<and> (\<forall>usern. channel_wf usern c \<longrightarrow> channel_wf usern c')"

lemma keeps_refl [simp]: "keeps c c"
  by (simp add: keeps_def)

lemma keeps_trans: "keeps a b \<Longrightarrow> keeps b c \<Longrightarrow> keeps a c"
  by (simp add: keeps_def)

lemma keeps_fields [simp]:
  "keeps c (c\<lparr>c_limit := l\<rparr>)"
  "keeps c (c\<lparr>c_key := strmncpy w 64\<rparr>)"
  "keeps c (c\<lparr>c_key := []\<rparr>)"
  "keeps c (c\<lparr>c_modes := strmncpy m 20\<rparr>)"
  "keeps c (c\<lparr>c_ison := n\<rparr>)"
  "keeps c (c\<lparr>c_isentry := n\<rparr>)"
  by (simp_all add: keeps_def channel_wf_def fits)

lemma keeps_users:
  "(\<And>cu. cu \<in> set us \<Longrightarrow> cu \<in> set (c_users c) \<or> chanuser_wf cu) \<Longrightarrow> keeps c (c\<lparr>c_users := us\<rparr>)"
  by (auto simp: keeps_def channel_wf_def)

lemma keeps_user_update:
  assumes "i < length (c_users c)" "chanuser_wf (c_users c ! i) \<Longrightarrow> chanuser_wf cu"
  shows "keeps c (c\<lparr>c_users := (c_users c)[i := cu]\<rparr>)"
proof -
  have "c_users c ! i \<in> set (c_users c)" using assms(1) by simp
  then show ?thesis using assms(2) set_update_subset_insert [of "c_users c" i cu]
    by (auto simp: keeps_def channel_wf_def)
qed

lemma keeps_simple [simp]:
  "keeps c (fst (ordermodes c))"
  "keeps c (deletemodefromchannel c m)"
  "keeps c (setchanneltopic c topic)"
  "keeps c (removeallusersfromchannel c)"
  by (auto simp: ordermodes_def deletemodefromchannel_def setchanneltopic_def Let_def fits
      removeallusersfromchannel_def keeps_users channel_wf_def keeps_def split: prod.splits option.splits)

lemma addmodetochannel_keeps: "addmodetochannel c m = Some c' \<Longrightarrow> keeps c c'"
  by (auto simp: addmodetochannel_def keeps_def channel_wf_def split: if_splits)

lemma getchannelnick_Some: "getchannelnick c nick = Some i \<Longrightarrow> i < length (c_users c)"
  using cn.lookup_SomeD by (auto simp: getchannelnick_key)

lemma keeps_addnick: "keeps c (fst (addnicktochannel c nick ident host))"
proof (cases "getchannelnick c nick")
  case None
  then show ?thesis
    by (auto simp: addnicktochannel_def chanuser_wf_def fits zero_uchannelusert_def intro!: keeps_users)
next
  case (Some i)
  then show ?thesis using getchannelnick_Some [OF Some]
    by (auto simp: addnicktochannel_def chanuser_wf_def fits intro!: keeps_user_update)
qed

lemma set_removenick_loop: "set (removenick_loop nick us) \<subseteq> set us"
  by (induction us) auto

lemma keeps_removenick [simp]: "keeps c (removenickfromchannel c nick)"
  using set_removenick_loop by (auto simp: removenickfromchannel_def intro!: keeps_users)

lemma length_usermode_loop: "length order \<le> 20 \<Longrightarrow> length (usermode_loop cm mode order md mc) \<le> 20"
proof (induction md arbitrary: order mc)
  case (Cons m md)
  then show ?case by (simp add: Cons.IH)
qed simp

lemma length_cstr: "length (cstr s) \<le> length s" "NUL \<in> set s \<Longrightarrow> length (cstr s) < length s"
proof -
  show "length (cstr s) \<le> length s" by (simp add: cstr_def length_takeWhile_le)
  assume "NUL \<in> set s"
  then have "cstr s \<noteq> s" using no_nul_cstr [of s] by (auto simp: no_nul_def)
  then show "length (cstr s) < length s"
    using takeWhile_eq_take [of "\<lambda>c. c \<noteq> NUL" s] \<open>length (cstr s) \<le> length s\<close>
    by (metis cstr_def le_neq_implies_less take_all_iff order_refl)
qed

lemma addchannelusermode_keeps:
  assumes "addchannelusermode c nick mode = Some c'"
  shows "keeps c c'"
proof (cases "getchannelnick c nick")
  case (Some i)
  let ?o = "usermode_loop (cu_mode (c_users c ! i)) mode [] (c_prefixmodes c) (c_prefixchars c)"
  have "length ?o \<le> 20" by (simp add: length_usermode_loop)
  moreover have "length ?o < 20 \<or> NUL \<in> set ?o" using assms Some
    by (auto simp: addchannelusermode_def Let_def split: if_splits)
  ultimately have "length (cstr ?o) < 20" using length_cstr [of ?o] by linarith
  then show ?thesis using assms Some getchannelnick_Some [OF Some]
    by (auto simp: addchannelusermode_def Let_def chanuser_wf_def intro!: keeps_user_update split: if_splits)
qed (use assms in \<open>simp add: addchannelusermode_def\<close>)

lemma keeps_removeusermode [simp]: "keeps c (removechannelusermode c nick mode)"
  using getchannelnick_Some [of c nick]
  by (auto simp: removechannelusermode_def Let_def chanuser_wf_def fits intro!: keeps_user_update
      split: option.splits)

lemma change_keeps:
  "change_mode pfx m c = Some c' \<Longrightarrow> keeps c c'"
  "change_usermode pfx m w c = Some c' \<Longrightarrow> keeps c c'"
  by (auto simp: change_mode_def change_usermode_def addmodetochannel_keeps addchannelusermode_keeps
      split: if_splits)

lemma param_mode_keeps: "param_mode sl pfx m w c s = Some (c', s') \<Longrightarrow> keeps c c'"
  by (auto simp: param_mode_def Let_def split: if_splits)

lemma setmode_loop_keeps: "setmode_loop sl md par c s = Some (c', s') \<Longrightarrow> keeps c c'"
proof (induction md arbitrary: par c s)
  case (Cons m md)
  show ?case using Cons.prems
    by (auto simp: Let_def split: if_splits option.splits
        intro: Cons.IH keeps_trans [OF keeps_fields(1) Cons.IH] keeps_trans [OF keeps_fields(2) Cons.IH])
qed simp

lemma setchannelmode_keeps: "setchannelmode sl mode param c s = Some (c', s') \<Longrightarrow> keeps c c'"
  unfolding setchannelmode_def by (rule keeps_trans [OF _ setmode_loop_keeps]) auto

lemma addmode_loop_keeps: "addmode_loop sl pfx par md c s ev = Some (c', s', ev') \<Longrightarrow> keeps c c'"
proof (induction md arbitrary: pfx par c s ev)
  case (Cons m md)
  have limit: "change_mode p m c = Some c1 \<Longrightarrow> keeps c (c1\<lparr>c_limit := 0\<rparr>)" for p c1
    by (rule keeps_trans [OF change_keeps(1) keeps_fields(1)])
  have both: "param_mode sl p m w c s = Some (c1, s1) \<Longrightarrow> change_mode p m c1 = Some c2 \<Longrightarrow> keeps c c2" for p w s1 c1 c2
    by (rule keeps_trans [OF param_mode_keeps change_keeps(1)])
  show ?case using Cons.prems
    by (auto simp: Let_def split: if_splits option.splits prod.splits
        intro: Cons.IH keeps_trans [OF both Cons.IH] keeps_trans [OF limit Cons.IH]
          keeps_trans [OF change_keeps(1) Cons.IH] keeps_trans [OF change_keeps(2) Cons.IH])
qed simp

lemma addchannelmode_keeps: "addchannelmode sl mode param c s = Some (c', s', ev) \<Longrightarrow> keeps c c'"
  by (auto simp: addchannelmode_def intro: keeps_trans [OF addmode_loop_keeps])

text \<open>
  A mode line for which there is room in the arrays: fewer than 20 modes of users, and fewer than 20 modes
  of the channel and characters of the line together. A change of the key is left out, it writes the configuration.
\<close>

definition mode_room :: "uchannelt \<Rightarrow> string \<Rightarrow> bool" where
  "mode_room c mode \<longleftrightarrow> length (c_prefixmodes c) < 20 \<and> length (c_modes c) + length mode < 20 \<and> CHR ''k'' \<notin> set mode"

lemma change_usermode_room:
  assumes "length (c_prefixmodes c) < 20"
  shows "\<exists>c'. change_usermode pfx m w c = Some c' \<and> c_modes c' = c_modes c \<and> c_prefixmodes c' = c_prefixmodes c"
proof -
  have "length (usermode_loop cm mode order md mc) \<le> length order + length md" for cm mode order md mc
  proof (induction md arbitrary: order mc)
    case (Cons m md)
    show ?case using Cons.IH [of "if (strchr cm (at mc 0) \<noteq> None \<or> mode = m) \<and> length order < 20 then order @ [at mc 0] else order"]
      by (auto intro: le_SucI split: if_splits)
  qed simp
  from this [of _ m "[]" "c_prefixmodes c"] have "length (usermode_loop cm m [] (c_prefixmodes c) mc) < 20" for cm mc
    using assms by (metis add_0 le_less_trans list.size(3))
  then show ?thesis
    by (auto simp: change_usermode_def addchannelusermode_def removechannelusermode_def Let_def split: option.splits)
qed

lemma change_mode_room:
  assumes "length (c_modes c) < 19"
  shows "\<exists>c'. change_mode pfx m c = Some c' \<and> length (c_modes c') \<le> length (c_modes c) + 1 \<and> c_prefixmodes c' = c_prefixmodes c"
  using assms by (auto simp: change_mode_def addmodetochannel_def deletemodefromchannel_def strmncpy_def snpf_def split: option.splits)

lemma delete_room:
  "length (c_modes (deletemodefromchannel c m)) \<le> length (c_modes c)" "c_prefixmodes (deletemodefromchannel c m) = c_prefixmodes c"
  by (auto simp: deletemodefromchannel_def strmncpy_def snpf_def min_def split: option.split)

lemma param_mode_room:
  assumes "m \<noteq> CHR ''k''"
  shows "\<exists>c'. param_mode sl pfx m w c s = Some (c', s) \<and> length (c_modes c') \<le> length (c_modes c) \<and> c_prefixmodes c' = c_prefixmodes c"
  using assms by (simp add: param_mode_def delete_room)

lemma addmode_loop_room: "mode_room c md \<Longrightarrow> addmode_loop sl pfx par md c s ev \<noteq> None"
proof (induction md arbitrary: pfx par c s ev)
  case (Cons m md)
  have room: "length (c_prefixmodes c) < 20" "length (c_modes c) + length md < 19" "m \<noteq> CHR ''k''" "CHR ''k'' \<notin> set md"
    using Cons.prems by (auto simp: mode_room_def)
  have rest: "addmode_loop sl pfx par md c' s ev \<noteq> None"
    if "length (c_modes c') \<le> length (c_modes c) + 1" "c_prefixmodes c' = c_prefixmodes c" for pfx par c' s ev
    using that room by (intro Cons.IH) (simp add: mode_room_def)
  define d where "d q w = the (change_usermode q m w c)" for q w
  have d: "change_usermode q m w c = Some (d q w)" "c_modes (d q w) = c_modes c" "c_prefixmodes (d q w) = c_prefixmodes c" for q w
    using change_usermode_room [OF room(1), of q m w] by (auto simp: d_def)
  define f where "f q x = the (change_mode q m x)" for q x
  have f: "change_mode q m x = Some (f q x)" "length (c_modes (f q x)) \<le> length (c_modes x) + 1" "c_prefixmodes (f q x) = c_prefixmodes x"
    if "length (c_modes x) < 19" for q x
    using change_mode_room [OF that, of q m] by (auto simp: f_def)
  define g where "g q w t = fst (the (param_mode sl q m w c t))" for q w t
  have g: "param_mode sl q m w c t = Some (g q w t, t)" "length (c_modes (g q w t)) \<le> length (c_modes c)"
      "c_prefixmodes (g q w t) = c_prefixmodes c" for q w t
    using param_mode_room [OF room(3), of sl q w c t] by (auto simp: g_def)
  have small: "length (c_modes c) < 19" "length (c_modes (g q w t)) < 19" for q w t using room(2) g(2) [of q w t] by simp_all
  have le: "length (c_modes (f q (g q w t))) \<le> length (c_modes c) + 1" for q w t
    using f(2) [OF small(2)] g(2) [of q w t] by (meson add_le_mono1 le_trans)
  have user: "addmode_loop sl q par md (d q w) s ev \<noteq> None" for q par w s ev using d(2,3) by (intro rest) simp_all
  have param: "addmode_loop sl q par md (f q (g q w t)) s ev \<noteq> None" for q par w t s ev
    using le f(3) [OF small(2)] g(3) by (intro rest) simp_all
  have plain: "addmode_loop sl q par md (f q c) s ev \<noteq> None" "addmode_loop sl q par md (f q c\<lparr>c_limit := 0\<rparr>) s ev \<noteq> None" for q par s ev
    using f(2,3) [OF small(1)] by (intro rest; simp)+
  have sign: "addmode_loop sl q par md c s ev \<noteq> None" for q par s ev by (intro rest) simp_all
  note all = d(1) g(1) f(1) [OF small(1)] f(1) [OF small(2)]
  show ?case
  proof (cases "m = CHR ''l''")
    case True
    show ?thesis unfolding True
      by (simp add: all [unfolded True] user param plain sign Let_def del: not_None_eq split: option.split prod.split)
  qed (simp add: all user param plain sign Let_def del: not_None_eq split: option.split prod.split)
qed simp

lemma addchannelmode_room:
  assumes "mode_room c mode"
  shows "addchannelmode sl mode param c s \<noteq> None"
proof -
  have "mode_room c (strmncpy mode 200)"
    using assms set_take_subset [of 199 mode] by (auto simp: mode_room_def strmncpy_def)
  then show ?thesis using addmode_loop_room [of c "strmncpy mode 200"] by (simp add: addchannelmode_def split_beta)
qed

section \<open>Reachable channel lists\<close>

definition user_wf :: "int \<Rightarrow> usert \<Rightarrow> bool" where
  "user_wf usern u \<longleftrightarrow> channels_ok u \<and> (\<forall>c \<in> set (u_channels u). channel_wf usern c)"

text \<open>The operations on one channel, and those on the channels of a user.\<close>

inductive channel_op :: "salt \<Rightarrow> uchannelt \<Rightarrow> store \<Rightarrow> uchannelt \<Rightarrow> store \<Rightarrow> bool" for sl where
  op_join: "channel_op sl c s (fst (addnicktochannel c nick ident host)) s"
| op_part: "channel_op sl c s (removenickfromchannel c nick) s"
| op_left: "channel_op sl c s (removeallusersfromchannel c) s"
| op_topic: "channel_op sl c s (setchanneltopic c topic) s"
| op_setmode: "setchannelmode sl mode param c s = Some (c', s') \<Longrightarrow> channel_op sl c s c' s'"
| op_mode: "addchannelmode sl mode param c s = Some (c', s', ev) \<Longrightarrow> channel_op sl c s c' s'"

inductive channel_step :: "salt \<Rightarrow> int \<Rightarrow> usert \<times> store \<Rightarrow> usert \<times> store \<Rightarrow> bool" for sl usern where
  st_add: "addchanneltouser usern channel nowrite u s = Some (i, u', s') \<Longrightarrow> channel_step sl usern (u, s) (u', s')"
| st_remove: "removechannelfromuser usern channel u s = Some (u', s') \<Longrightarrow> channel_step sl usern (u, s) (u', s')"
| st_removeall: "channel_step sl usern (u, s) (removeallchannelsfromuser u, s)"
| st_quit: "removenickfromallchannels usern nick u s = Some (u', s') \<Longrightarrow> channel_step sl usern (u, s) (u', s')"
| st_nick: "channel_step sl usern (u, s) (nickchange oldnick newnick u, s)"
| st_reset: "channel_step sl usern (u, s) (resetallchannels u, s)"
| st_whois: "convertlastwhois usern lastwhois u s = Some (u', s') \<Longrightarrow> channel_step sl usern (u, s) (u', s')"
| st_load: "loadchannels sl usern s u = Some u' \<Longrightarrow> channel_step sl usern (u, s) (u', s)"
| st_channel: "i < length (u_channels u) \<Longrightarrow> channel_op sl (u_channels u ! i) s c' s' \<Longrightarrow>
     channel_step sl usern (u, s) (u\<lparr>u_channels := (u_channels u)[i := c']\<rparr>, s')"

lemma channel_op_keeps: "channel_op sl c s c' s' \<Longrightarrow> keeps c c'"
  by (induction rule: channel_op.induct)
    (auto simp: keeps_addnick intro: setchannelmode_keeps addchannelmode_keeps)

lemma user_wf_map: "user_wf usern u \<Longrightarrow> (\<And>c. keeps c (f c)) \<Longrightarrow> user_wf usern (u\<lparr>u_channels := map f (u_channels u)\<rparr>)"
  by (auto simp: user_wf_def channels_ok_def keeps_def comp_def)

lemma user_wf_update:
  assumes wf: "user_wf usern u" and i: "i < length (u_channels u)" and k: "keeps (u_channels u ! i) c"
  shows "user_wf usern (u\<lparr>u_channels := (u_channels u)[i := c]\<rparr>)"
proof -
  have "map (\<lambda>c. channel_key (c_name c)) ((u_channels u)[i := c]) = map (\<lambda>c. channel_key (c_name c)) (u_channels u)"
    using i k by (auto simp: keeps_def map_update list_update_same_conv)
  moreover have "channel_wf usern c" using wf i k by (auto simp: user_wf_def keeps_def)
  ultimately show ?thesis using wf set_update_subset_insert [of "u_channels u" i c]
    by (auto simp: user_wf_def channels_ok_def)
qed

lemma addchanneltouser_wf:
  assumes r: "addchanneltouser usern channel nowrite u s = Some (i, u', s')" and wf: "user_wf usern u"
  shows "user_wf usern u'" "i < length (u_channels u')"
proof -
  have "channel_wf usern ((new_channel usern u channel)\<lparr>c_isentry := n\<rparr>)" for n
    by (simp add: new_channel_def channel_wf_def zero_uchannelt_def fits)
  then have "\<forall>c \<in> set (u_channels u'). channel_wf usern c" using r wf
    by (auto simp: addchanneltouser_def Let_def user_wf_def new_channel_def channel_wf_def zero_uchannelt_def fits
        split: if_splits prod.splits Option.bind_splits option.splits)
  then show "user_wf usern u'" "i < length (u_channels u')"
    using addchanneltouser_lookup [OF r] wf uc.lookup_SomeD by (auto simp: user_wf_def getuserchannel_key)
qed

lemma removechannelfromuser_wf:
  assumes r: "removechannelfromuser usern channel u s = Some (u', s')" and wf: "user_wf usern u"
  shows "user_wf usern u'"
proof -
  have "set (u_channels u') \<subseteq> set (u_channels u)"
    using r set_take_subset set_drop_subset
    by (fastforce simp: removechannelfromuser_def Let_def split: option.splits Option.bind_splits)
  then show ?thesis using removechannelfromuser_lookup [OF r] wf by (auto simp: user_wf_def)
qed

lemma removechannelfromuser_length:
  assumes "removechannelfromuser usern (c_name (u_channels u ! i)) u s = Some (u', s')"
    and "user_wf usern u" "i < length (u_channels u)"
  shows "length (u_channels u') = length (u_channels u) - 1"
proof -
  have "getuserchannel u (c_name (u_channels u ! i)) = Some i"
    using assms uc.lookup_nth [of "u_channels u" i]
    by (simp add: getuserchannel_key user_wf_def channels_ok_def)
  with assms show ?thesis
    by (auto simp: removechannelfromuser_def Let_def split: Option.bind_splits)
qed

lemma removenickall_loop_wf:
  "removenickall_loop n i usern nick u s = Some (u', s') \<Longrightarrow> user_wf usern u \<Longrightarrow>
     i + n = length (u_channels u) \<Longrightarrow> user_wf usern u'"
proof (induction n i usern nick u s rule: removenickall_loop.induct)
  case (2 n i usern nick u s)
  let ?c = "removenickfromchannel (u_channels u ! i) nick"
  let ?u = "u\<lparr>u_channels := (u_channels u)[i := ?c]\<rparr>"
  have i: "i < length (u_channels ?u)" using "2.prems"(3) by simp
  have wf: "user_wf usern ?u" using "2.prems" by (intro user_wf_update) auto
  show ?case
  proof (cases "c_users ?c = []")
    case True
    then obtain u1 s1 where r: "removechannelfromuser usern (c_name ?c) ?u s = Some (u1, s1)"
        and rest: "removenickall_loop n i usern nick u1 s1 = Some (u', s')"
      using "2.prems"(1) by (auto simp: Let_def split: Option.bind_splits)
    have "length (u_channels u1) = length (u_channels ?u) - 1"
      using r i by (intro removechannelfromuser_length [OF _ wf i, of s _ s1]) simp
    then show ?thesis
      using "2.IH"(1) [OF refl refl True r refl rest removechannelfromuser_wf [OF r wf]] "2.prems"(3) by simp
  next
    case False
    have rest: "removenickall_loop n (i + 1) usern nick ?u s = Some (u', s')"
      using "2.prems"(1) False by (simp add: Let_def)
    show ?thesis using "2.IH"(2) [OF refl refl False rest wf] "2.prems"(3) by simp
  qed
qed simp

lemma lastwhois_loop_wf:
  "lastwhois_loop usern ept u s = Some (u', s') \<Longrightarrow> user_wf usern u \<Longrightarrow> user_wf usern u'"
proof (induction usern ept u s rule: lastwhois_loop.induct)
  case (1 usern ept0 u s)
  show ?case using "1.prems"
    by (subst (asm) lastwhois_loop.simps)
      (auto simp: Let_def simp del: lastwhois_loop.simps split: if_splits option.splits prod.splits
        intro: addchanneltouser_wf(1) "1.IH" [OF refl _ refl refl refl])
qed

lemma load_channel_wf:
  assumes "load_channel sl usern s i (Some u) = Some u'" "user_wf usern u"
  shows "user_wf usern u'"
proof -
  have step: "user_wf usern (v\<lparr>u_channels := (u_channels v)[j := c]\<rparr>)"
    if "addchanneltouser usern channel True u s = Some (j, v, s')"
      and "c = (u_channels v ! j)\<lparr>c_isentry := n\<rparr> \<or>
           (\<exists>k. c = (u_channels v ! j)\<lparr>c_isentry := n, c_modes := ''tnk'', c_key := strmncpy k 64\<rparr>)"
    for channel j v s' c n
    using that addchanneltouser_wf [OF that(1) assms(2)]
    by (auto simp: keeps_def channel_wf_def fits intro!: user_wf_update)
  show ?thesis using assms
    by (auto simp: load_channel_def Let_def split: if_splits prod.splits Option.bind_splits intro!: step)
qed

lemma fold_load_None: "fold (load_channel sl usern s) is None = None"
  by (induction "is") (simp_all add: load_channel_def)

lemma loadchannels_wf:
  assumes "loadchannels sl usern s u = Some u'" "user_wf usern u"
  shows "user_wf usern u'"
proof -
  have "fold (load_channel sl usern s) is (Some u) = Some u' \<Longrightarrow> user_wf usern u \<Longrightarrow> user_wf usern u'" for "is" u
  proof (induction "is" arbitrary: u)
    case (Cons i "is")
    then show ?case
      by (cases "load_channel sl usern s i (Some u)") (auto simp: fold_load_None load_channel_wf)
  qed simp
  then show ?thesis using assms by (simp add: loadchannels_def)
qed

lemma channel_step_wf: "channel_step sl usern p q \<Longrightarrow> user_wf usern (fst p) \<Longrightarrow> user_wf usern (fst q)"
proof (induction rule: channel_step.induct)
  case (st_quit nick u s u' s')
  then show ?case using removenickall_loop_wf by (simp add: removenickfromallchannels_def)
next
  case (st_nick u s oldnick newnick)
  have "keeps c (case getchannelnick c oldnick of None \<Rightarrow> c
      | Some i \<Rightarrow> c\<lparr>c_users := (c_users c)[i := (c_users c ! i)\<lparr>cu_nick := strmncpy newnick 64\<rparr>]\<rparr>)" for c
    using getchannelnick_Some [of c oldnick]
    by (auto simp: chanuser_wf_def fits intro!: keeps_user_update split: option.split)
  then show ?case using st_nick user_wf_map by (simp add: nickchange_def)
next
  case (st_reset u s)
  have "keeps c ((removeallusersfromchannel c)\<lparr>c_ison := 0, c_topic := []\<rparr>)" for c
    by (simp add: keeps_def channel_wf_def removeallusersfromchannel_def)
  then show ?case using st_reset user_wf_map by (simp add: resetallchannels_def)
next
  case (st_removeall u s)
  show ?case by (simp add: removeallchannelsfromuser_def user_wf_def channels_ok_def)
qed (auto simp: convertlastwhois_def
  intro: addchanneltouser_wf(1) removechannelfromuser_wf lastwhois_loop_wf loadchannels_wf user_wf_update channel_op_keeps)



text \<open>
  A new channel is saved: for a user number of the bouncer, fewer than 256 stored channels,
  all with a visible name, and a name of 1 to 199 characters, joining a new channel succeeds,
  the channel keeps the number of its entry, the entry is read back as the name, the file is
  up to date, and every channel that was stored before is still stored.
\<close>

theorem addchanneltouser_saved:
  assumes "getuserchannel u channel = None" "0 < usern" "usern \<le> 100" "c \<noteq> []" "val_ok channel"
    and "countconfentries ''CHANNELS'' ''ENTRY%d'' (''USER'' @ decimal_int usern) c = Some (cnt, n)"
    and "cnt < MAXITEML"
    and "entries_visible (''USER'' @ decimal_int usern @ ''.CHANNELS.ENTRY'') c"
  shows "\<exists>u' c'. addchanneltouser usern channel False u (c, file) =
      Some (length (u_channels u), u', c', flush_lines c') \<and>
    c_isentry (u_channels u' ! length (u_channels u)) = int n \<and>
    getini ''CHANNELS'' (''ENTRY'' @ decimal n) (''USER'' @ decimal_int usern) c' = (0, channel) \<and>
    (\<forall>m v. m < 256 \<and> getini ''CHANNELS'' (''ENTRY'' @ decimal m) (''USER'' @ decimal_int usern) c = (0, v) \<longrightarrow>
       getini ''CHANNELS'' (''ENTRY'' @ decimal m) (''USER'' @ decimal_int usern) c' = (0, v))"
proof -
  let ?fs = "(''USER'' @ decimal_int usern, ''CHANNELS'')"
  have us: "decimal_int usern = decimal (nat usern)" "length (decimal (nat usern)) \<le> 3"
    using assms(2,3) length_decimal_100 [of "nat usern"] by (simp_all add: decimal_int_def)
  have "\<forall>x \<in> set (decimal (nat usern)). x \<noteq> CHR ''='' \<and> x \<noteq> CHR ''%''"
    using decimal_digits [of "nat usern"] by (auto simp: isdigit_def code_def)
  then have ok: "list_ok ?fs" using us by (auto simp: list_ok_def)
  have vis: "entries_visible (section_text (fst ?fs) (snd ?fs) @ ''ENTRY'') c"
    using assms(8) by (simp add: section_text_def)
  have cc: "countconfentries (snd ?fs) ''ENTRY%d'' (fst ?fs) c = Some (cnt, n)" using assms(6) by simp
  note f = fresh_entry [OF ok cc assms(7) vis assms(4,5)]
  then obtain c' where c': "conf_put (list_key ?fs n) channel c = Some c'"
      "conf_get (list_key ?fs n) c' = Some channel"
      "\<forall>k. key_ok k \<longrightarrow> key_name k \<noteq> key_name (list_key ?fs n) \<longrightarrow> conf_get k c' = conf_get k c"
    by blast
  have g: "getini ''CHANNELS'' (''ENTRY'' @ decimal m) (''USER'' @ decimal_int usern) x = (0, v) \<longleftrightarrow>
      conf_get (list_key ?fs m) x = Some v" for m x v
    by (auto simp: conf_get_def list_key_def getini_def getini_loop_value_of split: option.splits)
  have "getini ''CHANNELS'' (''ENTRY'' @ decimal m) (''USER'' @ decimal_int usern) c' = (0, v)"
    if "m < 256" "getini ''CHANNELS'' (''ENTRY'' @ decimal m) (''USER'' @ decimal_int usern) c = (0, v)" for m v
  proof -
    have "m \<noteq> n" using f that(2) g by auto
    then have "conf_get (list_key ?fs m) c' = conf_get (list_key ?fs m) c"
      using c'(3) [rule_format, of "list_key ?fs m"] that(1) list_key_ok [OF ok, of m] by (simp add: list_key_inject)
    then show ?thesis using that(2) g by simp
  qed
  moreover have "snpf 400 (''USER'' @ decimal_int usern) = ''USER'' @ decimal_int usern"
      "snpf 255 (''ENTRY'' @ decimal_int (int n)) = ''ENTRY'' @ decimal n"
    using us f length_decimal_100 [of n] by (simp_all add: decimal_int_def)
  ultimately show ?thesis using assms(1,6) c' g
    by (simp add: addchanneltouser_def Let_def store_write_def flush_store_def conf_put_def list_key_def)
qed

theorem addchanneltouser_saved_witness:
  "\<exists>u' c'. addchanneltouser 1 ''#new'' False zero_usert
       ([Some ''PSYBNC.SYSTEM.ME=home'', Some ''USER1.CHANNELS.ENTRY0=#old''], []) = Some (0, u', c', flush_lines c') \<and>
     getini ''CHANNELS'' ''ENTRY1'' ''USER1'' c' = (0, ''#new'') \<and>
     getini ''CHANNELS'' ''ENTRY0'' ''USER1'' c' = (0, ''#old'')"
proof -
  let ?c = "[Some ''PSYBNC.SYSTEM.ME=home'', Some ''USER1.CHANNELS.ENTRY0=#old'']"
  have u: "getuserchannel zero_usert ''#new'' = None" "u_channels zero_usert = []"
    by (simp_all add: getuserchannel_def zero_usert_def)
  have d: "decimal_int 1 = ''1''" "decimal (Suc 0) = ''1''" "decimal 0 = ''0''" by code_simp+
  have cnt: "countconfentries ''CHANNELS'' ''ENTRY%d'' ''USER1'' ?c = Some (1, 1)" by code_simp
  have vis: "entries_visible ''USER1.CHANNELS.ENTRY'' ?c" by (rule entries_visibleI) code_simp
  have old: "getini ''CHANNELS'' ''ENTRY0'' ''USER1'' ?c = (0, ''#old'')" by code_simp
  show ?thesis
    using addchanneltouser_saved [OF u(1), of 1 ?c 1 1 "[]"] cnt vis old
    by (auto simp: d u(2) val_ok_def MAXITEML_def dest!: spec [of _ 0])
qed

section \<open>The modes in order\<close>

definition mode_param :: "uchannelt \<Rightarrow> char \<Rightarrow> string" where
  "mode_param c k =
     (if k = CHR ''k'' then c_key c @ '' ''
      else if k = CHR ''l'' then snpf 10 (decimal_int (c_limit c)) @ '' '' else [])"

lemma length_mode_param: "length (c_key c) < 64 \<Longrightarrow> length (mode_param c k) \<le> 64"
  using length_snpf [of 10 "decimal_int (c_limit c)"] by (simp add: mode_param_def)

lemma map_update_char:
  "distinct ms \<Longrightarrow> find_char k ms = Some i \<Longrightarrow> ms[i := x] = map (\<lambda>m. if m = k then x else m) ms"
proof (induction ms arbitrary: i)
  case (Cons m ms)
  have "m \<notin> set ms \<Longrightarrow> map (\<lambda>y. if y = m then x else y) ms = ms" by (rule map_idI) auto
  with Cons show ?case by (auto split: if_splits)
qed simp

text \<open>The parameters of the modes that have one; they are at most two.\<close>

lemma order_step_eq:
  assumes "strchr ms k = Some i" "length nm < 29" "length par \<le> 70" "length (c_key c) < 64"
  shows "order_step c k (ms, nm, par) = (ms[i := CHR '' ''], nm @ [k], par @ mode_param c k)"
  using assms length_snpf [of 10 "decimal_int (c_limit c)"]
  by (simp add: order_step_def mode_param_def Let_def)

lemma order_step_none: "strchr ms k = None \<Longrightarrow> order_step c k (ms, nm, par) = (ms, nm, par)"
  by (simp add: order_step_def)

lemma strchr_masked:
  assumes "k \<notin> known" "k \<noteq> CHR '' ''" "k \<noteq> NUL"
  shows "find_char k (map (\<lambda>m. if m \<in> known then CHR '' '' else m) ms) = find_char k ms"
  using assms by (induction ms) auto

lemma length_params_filter:
  "length (concat (map f (filter P ks))) \<le> length (concat (map f ks))"
  by (induction ks) auto

lemma order_fold:
  assumes "distinct modes" "length (c_key c) < 64"
  shows "distinct ks \<Longrightarrow> CHR '' '' \<notin> set ks \<Longrightarrow> NUL \<notin> set ks \<Longrightarrow> length ks < 29 \<Longrightarrow>
    length (concat (map (mode_param c) (butlast ks))) \<le> 70 \<Longrightarrow>
    fold (order_step c) ks (modes, [], []) =
      (map (\<lambda>m. if m \<in> set ks then CHR '' '' else m) modes, filter (\<lambda>k. k \<in> set modes) ks,
       concat (map (mode_param c) (filter (\<lambda>k. k \<in> set modes) ks)))"
proof (induction ks rule: rev_induct)
  case (snoc k ks)
  let ?ms = "map (\<lambda>m. if m \<in> set ks then CHR '' '' else m) modes"
  let ?nm = "filter (\<lambda>k. k \<in> set modes) ks"
  have k: "k \<notin> set ks" "k \<noteq> CHR '' ''" "k \<noteq> NUL" using snoc.prems by auto
  have "length (concat (map (mode_param c) (butlast ks))) \<le> length (concat (map (mode_param c) ks))"
    by (cases ks rule: rev_cases) auto
  then have IH: "fold (order_step c) ks (modes, [], []) = (?ms, ?nm, concat (map (mode_param c) ?nm))"
    using snoc by (intro snoc.IH) auto
  have nm: "length ?nm < 29" by (rule le_less_trans [OF length_filter_le]) (use snoc.prems(4) in simp)
  have par: "length (concat (map (mode_param c) ?nm)) \<le> 70"
    using snoc.prems(5) length_params_filter [of "mode_param c" "\<lambda>k. k \<in> set modes" ks] by simp
  have same: "strchr ?ms k = strchr modes k"
    using strchr_masked [of k "set ks" modes] k by (simp add: strchr_def)
  show ?case
  proof (cases "strchr modes k")
    case None
    then have "k \<notin> set modes" by (simp add: strchr_None)
    then show ?thesis using order_step_none [of ?ms k] None same IH by auto
  next
    case (Some i)
    then have f: "find_char k modes = Some i" using k by (simp add: strchr_def)
    then have "i < length modes" "modes ! i = k" using find_char_SomeD by blast+
    then have "k \<in> set modes" by (metis nth_mem)
    moreover have "?ms[i := CHR '' ''] = map (\<lambda>m. if m \<in> set ks \<or> m = k then CHR '' '' else m) modes"
    proof -
      have "?ms[i := CHR '' ''] = map (\<lambda>m. if m \<in> set ks then CHR '' '' else m) (modes[i := CHR '' ''])"
        by (simp add: map_update)
      also have "\<dots> = map (\<lambda>m. if m \<in> set ks \<or> m = k then CHR '' '' else m) modes"
        using map_update_char [OF assms(1) f, of "CHR '' ''"] by auto
      finally show ?thesis .
    qed
    ultimately show ?thesis
      using order_step_eq [OF _ nm par assms(2)] same Some IH by (simp add: insert_iff disj_commute)
  qed
qed (simp add: map_idI)

lemma fold_append_mode:
  "length nm + length ms < 29 \<Longrightarrow> fold append_mode ms nm = nm @ filter (\<lambda>m. m \<noteq> CHR '' '') ms"
proof (induction ms arbitrary: nm)
  case (Cons m ms)
  then show ?case by (auto simp: append_mode_def)
qed simp

lemma filter_masked:
  "CHR '' '' \<notin> set ms \<Longrightarrow>
   filter (\<lambda>m. m \<noteq> CHR '' '') (map (\<lambda>m. if m \<in> K then CHR '' '' else m) ms) = filter (\<lambda>m. m \<notin> K) ms"
  by (induction ms) auto

lemma known_first:
  "set (filter (\<lambda>k. k \<in> set ms) ks @ filter (\<lambda>m. m \<notin> set ks) ms) = set ms"
  "distinct ms \<Longrightarrow> distinct ks \<Longrightarrow> distinct (filter (\<lambda>k. k \<in> set ms) ks @ filter (\<lambda>m. m \<notin> set ks) ms)"
  by auto

text \<open>
  Ordering the modes of a channel loses and adds none: the modes the bouncer knows come
  first, in the order s p m n t i l k, the others follow in the order they had, and the text
  for the client names the modes, then the limit and the key where the channel has them.
\<close>

theorem ordermodes_sorted:
  assumes "channel_wf usern c" "0 \<le> usern" "distinct (c_modes c)" "CHR '' '' \<notin> set (c_modes c)"
  defines "order \<equiv> filter (\<lambda>k. k \<in> set (c_modes c)) ''spmntilk'' @ filter (\<lambda>m. m \<notin> set ''spmntilk'') (c_modes c)"
  shows "c_modes (fst (ordermodes c)) = order \<and> set order = set (c_modes c) \<and>
    snd (ordermodes c) = ''+'' @ order @ '' '' @
      (if CHR ''l'' \<in> set order then snpf 10 (decimal_int (c_limit c)) @ '' '' else []) @
      (if CHR ''k'' \<in> set order then c_key c @ '' '' else [])"
proof -
  let ?ks = "''spmntilk''" and ?ms = "c_modes c"
  have key: "length (c_key c) < 64" and len: "length ?ms < 20" and un: "c_usern c \<noteq> -1"
    using assms(1,2) by (auto simp: channel_wf_def)
  have "length (mode_param c (CHR ''l'')) \<le> 64" by (rule length_mode_param [OF key])
  then have f: "fold (order_step c) ?ks (?ms, [], []) =
      (map (\<lambda>m. if m \<in> set ?ks then CHR '' '' else m) ?ms, filter (\<lambda>k. k \<in> set ?ms) ?ks,
       concat (map (mode_param c) (filter (\<lambda>k. k \<in> set ?ms) ?ks)))"
    by (intro order_fold assms(3) key) (simp_all add: mode_param_def)
  have set: "set order = set ?ms" unfolding order_def by (rule known_first)
  moreover have "distinct order" unfolding order_def by (intro known_first assms(3)) simp
  ultimately have lo: "length order < 20" using len assms(3) by (metis distinct_card)
  have "length (filter (\<lambda>k. k \<in> set ?ms) ?ks) \<le> length ?ks" by (rule length_filter_le)
  then have app: "fold append_mode (map (\<lambda>m. if m \<in> set ?ks then CHR '' '' else m) ?ms) (filter (\<lambda>k. k \<in> set ?ms) ?ks) = order"
    using len filter_masked [OF assms(4), of "set ?ks"] by (subst fold_append_mode) (simp_all add: order_def)
  have par: "concat (map (mode_param c) (filter (\<lambda>k. k \<in> set ?ms) ?ks)) =
      (if CHR ''l'' \<in> set order then snpf 10 (decimal_int (c_limit c)) @ '' '' else []) @
      (if CHR ''k'' \<in> set order then c_key c @ '' '' else [])"
    unfolding set by (simp add: mode_param_def)
  have "ordermodes c = (c\<lparr>c_modes := strmncpy order 20\<rparr>, snpf 300 (''+'' @ order @ '' '' @
      (if CHR ''l'' \<in> set order then snpf 10 (decimal_int (c_limit c)) @ '' '' else []) @
      (if CHR ''k'' \<in> set order then c_key c @ '' '' else [])))"
    unfolding ordermodes_def f prod.case app par using un by (simp add: Let_def)
  then show ?thesis using set lo key length_snpf [of 10 "decimal_int (c_limit c)"] by simp
qed

theorem ordermodes_sorted_witness:
  "snd (ordermodes (zero_uchannelt\<lparr>c_modes := ''zkln'', c_key := ''tea'', c_limit := 12, c_usern := 1\<rparr>)) = ''+nlkz 12 tea ''"
proof -
  let ?c = "zero_uchannelt\<lparr>c_modes := ''zkln'', c_key := ''tea'', c_limit := 12, c_usern := 1\<rparr>"
  have "channel_wf 1 ?c" by (simp add: channel_wf_def zero_uchannelt_def)
  moreover have "snpf 10 (decimal_int 12) = ''12''" by code_simp
  ultimately show ?thesis using ordermodes_sorted [of 1 ?c] by simp
qed

section \<open>The modes of a user on a channel\<close>

lemma usermode_loop_eq:
  "length md = length mc \<Longrightarrow> length order + length md \<le> 20 \<Longrightarrow> no_nul mc \<Longrightarrow>
   usermode_loop cm mode order md mc =
     order @ map snd (filter (\<lambda>(m, p). p \<in> set cm \<or> m = mode) (zip md mc))"
proof (induction md mc arbitrary: order rule: list_induct2)
  case (Cons m md p mc)
  then show ?case
    using Cons.IH [of order] Cons.IH [of "order @ [p]"] by (auto simp: at_def strchr_None)
qed simp

lemma strchr_remove1:
  "strchr s x = Some j \<Longrightarrow> x \<noteq> NUL \<Longrightarrow> take j s @ drop (j + 1) s = remove1 x s"
proof (induction s arbitrary: j)
  case (Cons y ys)
  then show ?case by (auto simp: strchr_def split: if_splits)
qed (simp add: strchr_def)

text \<open>
  Granting a mode to a user of a channel: with a network that has fewer than 20 prefix
  modes, the user's prefixes become those it had and the one of the new mode, in the order of
  the network; taking the mode away removes exactly its prefix. No other user of the channel
  changes.
\<close>

theorem channelusermode_changes:
  assumes "getchannelnick c nick = Some i" "length (c_prefixmodes c) = length (c_prefixchars c)"
    and "length (c_prefixmodes c) < 20" "no_nul (c_prefixchars c)" "channel_wf usern c"
    and "strchr (c_prefixmodes c) mode = Some k" "mode \<noteq> NUL"
  defines "cu \<equiv> c_users c ! i"
  shows "addchannelusermode c nick mode = Some (c\<lparr>c_users := (c_users c)[i := cu\<lparr>cu_mode :=
        map snd (filter (\<lambda>(m, p). p \<in> set (cu_mode cu) \<or> m = mode) (zip (c_prefixmodes c) (c_prefixchars c)))\<rparr>]\<rparr>)
    \<and> removechannelusermode c nick mode =
        c\<lparr>c_users := (c_users c)[i := cu\<lparr>cu_mode := remove1 (c_prefixchars c ! k) (cu_mode cu)\<rparr>]\<rparr>"
proof -
  let ?o = "map snd (filter (\<lambda>(m, p). p \<in> set (cu_mode cu) \<or> m = mode) (zip (c_prefixmodes c) (c_prefixchars c)))"
  have "usermode_loop (cu_mode cu) mode [] (c_prefixmodes c) (c_prefixchars c) = ?o"
    using assms(2-4) by (subst usermode_loop_eq) auto
  moreover have "length ?o < 20"
    unfolding length_map by (rule le_less_trans [OF length_filter_le]) (use assms(3) in simp)
  moreover have "set ?o \<subseteq> set (c_prefixchars c)" by (auto dest: set_zip_rightD)
  then have "no_nul ?o" using assms(4) by (auto simp: no_nul_def)
  ultimately have add: "addchannelusermode c nick mode = Some (c\<lparr>c_users := (c_users c)[i := cu\<lparr>cu_mode := ?o\<rparr>]\<rparr>)"
    using assms(1) by (simp add: addchannelusermode_def cu_def Let_def)
  have i: "i < length (c_users c)" using assms(1) by (rule getchannelnick_Some)
  then have lm: "length (cu_mode cu) < 20" using assms(5) by (auto simp: channel_wf_def chanuser_wf_def cu_def)
  have k: "k < length (c_prefixchars c)"
    using assms(2,6,7) find_char_SomeD [of mode "c_prefixmodes c" k] by (simp add: strchr_def)
  define p where "p = c_prefixchars c ! k"
  have p: "at (c_prefixchars c) k = p" "p \<noteq> NUL"
    using k assms(4) by (auto simp: at_def p_def no_nul_def dest: nth_mem)
  have "removechannelusermode c nick mode = c\<lparr>c_users := (c_users c)[i := cu\<lparr>cu_mode := remove1 p (cu_mode cu)\<rparr>]\<rparr>"
  proof (cases "strchr (cu_mode cu) p")
    case None
    then have "remove1 p (cu_mode cu) = cu_mode cu" by (simp add: strchr_None remove1_idem)
    then show ?thesis using None assms(1,6) p lm by (simp add: removechannelusermode_def cu_def)
  next
    case (Some j)
    have "length (remove1 p (cu_mode cu)) < 20" using lm by (auto simp: length_remove1)
    then show ?thesis using Some assms(1,6) p lm strchr_remove1 [OF Some p(2)]
      by (simp add: removechannelusermode_def cu_def Let_def)
  qed
  then show ?thesis using add by (simp add: p_def)
qed

theorem channelusermode_changes_witness:
  "addchannelusermode (zero_uchannelt\<lparr>c_prefixmodes := ''ohv'', c_prefixchars := ''@%+'',
       c_users := [zero_uchannelusert\<lparr>cu_nick := ''zed'', cu_mode := ''+''\<rparr>]\<rparr>) ''ZED'' (CHR ''o'') =
     Some (zero_uchannelt\<lparr>c_prefixmodes := ''ohv'', c_prefixchars := ''@%+'',
       c_users := [zero_uchannelusert\<lparr>cu_nick := ''zed'', cu_mode := ''@+''\<rparr>]\<rparr>)"
proof -
  let ?c = "zero_uchannelt\<lparr>c_prefixmodes := ''ohv'', c_prefixchars := ''@%+'',
       c_users := [zero_uchannelusert\<lparr>cu_nick := ''zed'', cu_mode := ''+''\<rparr>]\<rparr>"
  have "getchannelnick ?c ''ZED'' = Some 0" by code_simp
  moreover have "channel_wf 0 ?c"
    by (simp add: channel_wf_def chanuser_wf_def zero_uchannelt_def zero_uchannelusert_def)
  moreover have "strchr ''ohv'' (CHR ''o'') = Some 0" by code_simp
  ultimately show ?thesis using channelusermode_changes [of ?c "''ZED''" 0 0 "CHR ''o''" 0] by simp
qed

section \<open>The lines with the names\<close>

lemma length_name_item:
  "chanuser_wf cu \<Longrightarrow> length pnick < 64 \<Longrightarrow> length token < 60 \<Longrightarrow> length (name_item own pnick token cu) \<le> 200"
  by (auto simp: name_item_def chanuser_wf_def)

lemma names_loop_complete:
  assumes nl: "length nameline \<le> 500"
  shows "\<forall>cu \<in> set users. length (name_item own pnick token cu) \<le> 200 \<Longrightarrow> length (nameline @ body) \<le> 700 \<Longrightarrow>
    \<exists>ls. names_loop own pnick token nameline (nameline @ body) users = Some ls \<and>
      (\<forall>l \<in> set ls. prefix nameline l \<and> length l < 1024) \<and>
      concat (map (\<lambda>l. butlast (drop (length nameline) l)) ls) =
        body @ concat (map (name_item own pnick token) users)"
proof (induction users arbitrary: body)
  case Nil
  then show ?case by (subst names_loop.simps) (simp add: butlast_append)
next
  case (Cons cu rest)
  let ?i = "name_item own pnick token cu"
  have add: "\<exists>ls. names_loop own pnick token nameline (nameline @ b) (cu # rest) = Some ls \<and>
      (\<forall>l \<in> set ls. prefix nameline l \<and> length l < 1024) \<and>
      concat (map (\<lambda>l. butlast (drop (length nameline) l)) ls) =
        b @ concat (map (name_item own pnick token) (cu # rest))"
    if "length (nameline @ b) \<le> 500" for b
    using Cons.IH [of "b @ ?i"] Cons.prems(1) that by (subst names_loop.simps) simp
  show ?case
  proof (cases "length (nameline @ body) \<le> 500")
    case True
    then show ?thesis by (rule add)
  next
    case False
    obtain ls where ls: "names_loop own pnick token nameline nameline (cu # rest) = Some ls"
        "\<forall>l \<in> set ls. prefix nameline l \<and> length l < 1024"
        "concat (map (\<lambda>l. butlast (drop (length nameline) l)) ls) = concat (map (name_item own pnick token) (cu # rest))"
      using add [of "[]"] nl by auto
    have "names_loop own pnick token nameline (nameline @ body) (cu # rest) = Some ((nameline @ body @ [LF]) # ls)"
      using False ls(1) nl by (subst names_loop.simps) simp
    then show ?thesis using ls(2,3) Cons.prems(2) by (auto simp: butlast_append)
  qed
qed

text \<open>
  (C37) Sending the names of a channel ends and loses nobody: every line begins with the 353
  header and stays inside its buffer of 1024 bytes, the lines together hold the name of every
  user of the channel, in order and with its prefix, and the last line is the end of the list.
\<close>

theorem sendnames_complete:
  assumes "channel_wf usern chan" "u_innames u \<noteq> 1" "length (u_nick u) < 64" "length (u_nick parent) < 64"
  defines "token \<equiv> (if u_parent u \<noteq> 0 then snpf 60 (''#'' @ u_network u @ ''~'') else [])"
    and "up \<equiv> (if u_parent u \<noteq> 0 then parent else u)"
  defines "nameline \<equiv> snpf 300 ('':'' @ u_server u @ '' 353 '' @ u_nick u @ '' = '' @ token @ c_name chan @ '' :'')"
  shows "\<exists>ls. sendnames u parent chan = Some (u, chan, ls @ [snpf 1024 ('':'' @ u_server u @ '' 366 '' @ u_nick u @
        '' '' @ token @ c_name chan @ '' :End of /NAMES list.'' @ [LF])]) \<and>
    (\<forall>l \<in> set ls. prefix nameline l \<and> length l < 1024) \<and>
    concat (map (\<lambda>l. butlast (drop (length nameline) l)) ls) =
      concat (map (name_item (u_nick u) (u_nick up) token) (c_users chan))"
proof -
  have nl: "length nameline < 300" by (simp add: nameline_def length_snpf)
  have "length token < 60" by (simp add: token_def length_snpf)
  then have "\<forall>cu \<in> set (c_users chan). length (name_item (u_nick u) (u_nick up) token cu) \<le> 200"
    using assms(1,3,4) by (auto simp: channel_wf_def up_def intro!: length_name_item)
  then obtain ls where ls: "names_loop (u_nick u) (u_nick up) token nameline nameline (c_users chan) = Some ls"
      "\<forall>l \<in> set ls. prefix nameline l \<and> length l < 1024"
      "concat (map (\<lambda>l. butlast (drop (length nameline) l)) ls) =
        concat (map (name_item (u_nick u) (u_nick up) token) (c_users chan))"
    using names_loop_complete [of nameline "c_users chan" "u_nick u" "u_nick up" token "[]"] nl by auto
  moreover have "strmncpy nameline 1024 = nameline" using nl by simp
  moreover have "sendnames u parent chan =
      map_option (\<lambda>ls. (u, chan, ls @ [snpf 1024 ('':'' @ u_server u @ '' 366 '' @ u_nick u @
        '' '' @ token @ c_name chan @ '' :End of /NAMES list.'' @ [LF])]))
        (names_loop (u_nick u) (u_nick up) token nameline (strmncpy nameline 1024) (c_users chan))"
    using assms(2) by (simp add: sendnames_def Let_def token_def up_def nameline_def)
  ultimately show ?thesis by auto
qed

theorem sendnames_complete_witness:
  "\<exists>ls. sendnames (zero_usert\<lparr>u_nick := ''zed'', u_server := ''irc''\<rparr>) zero_usert
       (zero_uchannelt\<lparr>c_name := ''#tea'', c_users := [zero_uchannelusert\<lparr>cu_nick := ''zed'', cu_mode := ''@''\<rparr>]\<rparr>) =
       Some (zero_usert\<lparr>u_nick := ''zed'', u_server := ''irc''\<rparr>,
         zero_uchannelt\<lparr>c_name := ''#tea'', c_users := [zero_uchannelusert\<lparr>cu_nick := ''zed'', cu_mode := ''@''\<rparr>]\<rparr>,
         ls @ ['':irc 366 zed #tea :End of /NAMES list.'' @ [LF]]) \<and>
     concat (map (\<lambda>l. butlast (drop (length '':irc 353 zed = #tea :'') l)) ls) = ''@zed ''"
proof -
  let ?u = "zero_usert\<lparr>u_nick := ''zed'', u_server := ''irc''\<rparr>"
  let ?c = "zero_uchannelt\<lparr>c_name := ''#tea'', c_users := [zero_uchannelusert\<lparr>cu_nick := ''zed'', cu_mode := ''@''\<rparr>]\<rparr>"
  have "channel_wf 0 ?c"
    by (simp add: channel_wf_def chanuser_wf_def zero_uchannelt_def zero_uchannelusert_def)
  moreover have z: "u_innames zero_usert = 0" "u_parent zero_usert = 0" "u_nick zero_usert = []"
    by (simp_all add: zero_usert_def)
  ultimately show ?thesis using sendnames_complete [of 0 ?c ?u zero_usert]
    by (auto simp: z name_item_def)
qed

text \<open>
  The array of 20 bytes for the modes of a channel has no guard for its terminator: a server with
  20 parameterless channel modes can make a client's mode line write one byte behind it.
\<close>

lemma addchannelmode_overflow:
  "addchannelmode makesalt ''+abcdefghijklmnopqrst'' []
     (zero_uchannelt\<lparr>c_chanmodes := ''Z,Z,Z,abcdefghijklmnopqrst''\<rparr>) ([], []) = None"
  by code_simp

end
