(* ===== verification/Memory.thy ===== *)
theory Memory
  imports Uchannel
begin

text \<open>
  The node tables of src/p_memory.c, which hold the users, the new peers and the links, and the
  routines of src/p_peer.c, src/p_link.c and src/p_userfile.c that search them.

  A table has a heap of objects: the address of an object is its index, and a cell that was freed
  is \<open>None\<close>. A node is a number and a pointer, null while the node has no object. \<open>t_last\<close> and
  \<open>t_lastp\<close> are the cache of the last answer (\<open>_lastuser\<close> and \<open>_lastu\<close>), \<open>t_this\<close> is the node
  of the last search (\<open>thisuser\<close>), \<open>t_create\<close> is the flag \<open>U_CREATE\<close>. An access to a null
  pointer or to a freed object gives \<open>None\<close>.
\<close>

section \<open>Tables\<close>

record 'a table =
  t_heap :: "'a option list"
  t_nodes :: "(int \<times> nat option) list"
  t_dummy :: "nat option"
  t_null :: "nat option"
  t_last :: int
  t_lastp :: "nat option"
  t_this :: "nat option"
  t_create :: bool

text \<open>The tables after the start of the program: a root node with number 0 and no object.\<close>

definition start_table :: "'a table" where
  "start_table = \<lparr>t_heap = [], t_nodes = [(0, None)], t_dummy = None, t_null = None,
     t_last = -1, t_lastp = None, t_this = None, t_create = False\<rparr>"

definition content :: "'a table \<Rightarrow> nat \<Rightarrow> 'a option" where
  "content t p = (if p < length (t_heap t) then t_heap t ! p else None)"

definition assign :: "nat \<Rightarrow> 'a \<Rightarrow> 'a table \<Rightarrow> 'a table option" where
  "assign p v t = (if content t p = None then None else Some (t\<lparr>t_heap := (t_heap t)[p := Some v]\<rparr>))"

definition pmalloc :: "'a \<Rightarrow> 'a table \<Rightarrow> nat \<times> 'a table" where
  "pmalloc z t = (length (t_heap t), t\<lparr>t_heap := t_heap t @ [Some z]\<rparr>)"

definition alloc_dummy :: "'a \<Rightarrow> 'a table \<Rightarrow> 'a table" where
  "alloc_dummy z t =
     (if t_dummy t = None then case pmalloc z t of (p, t') \<Rightarrow> t'\<lparr>t_dummy := Some p\<rparr> else t)"

definition alloc_null :: "'a \<Rightarrow> 'a table \<Rightarrow> 'a table" where
  "alloc_null z t =
     (if t_null t = None then case pmalloc z t of (p, t') \<Rightarrow> t'\<lparr>t_null := Some p\<rparr> else t)"

fun find_node :: "int \<Rightarrow> (int \<times> nat option) list \<Rightarrow> nat option" where
  "find_node n [] = None"
| "find_node n (th # rest) = (if fst th = n then Some 0 else map_option Suc (find_node n rest))"

text \<open>The walk along the nodes, which the three lookups share.\<close>

definition visit :: "'a \<Rightarrow> int \<Rightarrow> 'a table \<Rightarrow> (nat \<times> 'a table) option" where
  "visit z n t =
     (case find_node n (t_nodes t) of
        Some i \<Rightarrow>
          (case snd (t_nodes t ! i) of
             Some p \<Rightarrow> Some (p, t\<lparr>t_this := Some i, t_lastp := Some p\<rparr>)
           | None \<Rightarrow>
               (case pmalloc z t of (p, t') \<Rightarrow>
                  Some (p, t'\<lparr>t_nodes := (t_nodes t)[i := (n, Some p)], t_this := Some i, t_lastp := Some p\<rparr>)))
      | None \<Rightarrow>
          if t_create t
          then (if t_nodes t = [] then None
                else case pmalloc z t of (p, t') \<Rightarrow>
                  Some (p, t'\<lparr>t_create := False, t_nodes := t_nodes t @ [(n, Some p)],
                    t_this := Some (length (t_nodes t)), t_lastp := Some p\<rparr>))
          else (case t_dummy t of
                  None \<Rightarrow> None
                | Some d \<Rightarrow> Some (d, t\<lparr>t_this := None, t_lastp := Some d\<rparr>)))"

definition fetch :: "'a \<Rightarrow> int \<Rightarrow> 'a table \<Rightarrow> (nat \<times> 'a table) option" where
  "fetch z n t =
     (if t_last t = n \<and> \<not> t_create t then map_option (\<lambda>p. (p, t)) (t_lastp t)
      else visit z n (alloc_dummy z (t\<lparr>t_last := n\<rparr>)))"

definition newpeer :: "int \<Rightarrow> newpeert table \<Rightarrow> (nat \<times> newpeert table) option" where
  "newpeer = fetch zero_newpeert"

definition datalink :: "int \<Rightarrow> datalinkt table \<Rightarrow> (nat \<times> datalinkt table) option" where
  "datalink = fetch zero_datalinkt"

definition MAX_USER :: int where
  "MAX_USER = 100"

definition user_nr :: "int \<Rightarrow> int" where
  "user_nr usern = (if usern > 10000 then usern - 10000 else usern)"

definition user :: "int \<Rightarrow> usert table \<Rightarrow> (nat \<times> usert table) option" where
  "user n t =
     (let usern = user_nr n in
      if usern = t_last t \<and> \<not> t_create t then map_option (\<lambda>p. (p, t)) (t_lastp t)
      else
        let t = alloc_null zero_usert (alloc_dummy zero_usert (t\<lparr>t_last := usern\<rparr>));
            t = (if t_nodes t = [] then t\<lparr>t_nodes := [(0, None)]\<rparr> else t)
        in if usern = 0 \<or> usern > MAX_USER
           then map_option (\<lambda>p. (p, t\<lparr>t_this := None, t_lastp := Some p\<rparr>)) (t_null t)
           else visit zero_usert usern t)"

section \<open>Clearing an object\<close>

text \<open>Freeing the object of the node of the last search.\<close>

definition free_this :: "'a table \<Rightarrow> 'a table" where
  "free_this t =
     (case t_this t of
        None \<Rightarrow> t
      | Some i \<Rightarrow>
          (case snd (t_nodes t ! i) of
             None \<Rightarrow> t
           | Some p \<Rightarrow> t\<lparr>t_heap := (t_heap t)[p := None], t_nodes := (t_nodes t)[i := (fst (t_nodes t ! i), None)]\<rparr>))"

definition clear_node :: "'a \<Rightarrow> int \<Rightarrow> 'a table \<Rightarrow> 'a table option" where
  "clear_node z n t =
     do {
       (p, t) \<leftarrow> fetch z n t;
       t \<leftarrow> assign p z t;
       Some (free_this (t\<lparr>t_last := -1\<rparr>))
     }"

definition clearpeer :: "int \<Rightarrow> newpeert table \<Rightarrow> newpeert table option" where
  "clearpeer = clear_node zero_newpeert"

definition clearlink :: "int \<Rightarrow> datalinkt table \<Rightarrow> datalinkt table option" where
  "clearlink = clear_node zero_datalinkt"

text \<open>
  The calls with which \<open>clearuser\<close> reaches the scripts, the sockets and the files. Every list of
  the user is emptied entry by entry.
\<close>

datatype clear_effect = ClearScript int | KillSocket int | CloseLog

function clear_strings :: "stringarray \<Rightarrow> stringarray" where
  "clear_strings th = (if th = [] then [] else clear_strings (removestring 0 th))"
  by auto
termination
proof (relation "measure length", goal_cases)
  case (2 th)
  then show ?case by (cases th) (simp_all add: removestring_drop)
qed simp

definition STD_CONN :: int where
  "STD_CONN = 8"

text \<open>Only the first DCC of the user is closed.\<close>

definition close_dcc :: "linknodes \<Rightarrow> clear_effect list" where
  "close_dcc dcc =
     (case dcc of
        (uid, Some link) # rest \<Rightarrow> if l_outstate link = STD_CONN then [KillSocket (l_outsock link)] else []
      | _ \<Rightarrow> [])"

definition empty_user :: "usert \<Rightarrow> usert" where
  "empty_user u =
     removeallchannelsfromuser (u\<lparr>u_ignores := clear_strings (u_ignores u), u_bans := clear_strings (u_bans u),
       u_ops := clear_strings (u_ops u), u_aops := clear_strings (u_aops u),
       u_askops := clear_strings (u_askops u), u_logs := clear_strings (u_logs u),
       u_keys := clear_strings (u_keys u), u_encrypt := clear_strings (u_encrypt u), u_script := None\<rparr>)"

definition clearuser :: "int \<Rightarrow> usert table \<Rightarrow> (clear_effect list \<times> usert table) option" where
  "clearuser usern t =
     do {
       (p, t) \<leftarrow> user usern (t\<lparr>t_last := -1\<rparr>);
       u \<leftarrow> content t p;
       t \<leftarrow> assign p (empty_user u) t;
       let eff = [ClearScript usern] @ close_dcc (u_dcc u) @ (if u_trafficlog u then [CloseLog] else []);
       t \<leftarrow> assign p zero_usert t;
       Some (eff, (free_this t)\<lparr>t_this := None\<rparr>)
     }"

section \<open>Searching the tables\<close>

definition STD_NOUSE :: int where
  "STD_NOUSE = 0"

definition STD_NOCON :: int where
  "STD_NOCON = 1"

text \<open>The loops over the nodes follow the list of node numbers, which the lookups do not change.\<close>

fun peerhost_loop :: "string \<Rightarrow> nat \<Rightarrow> int list \<Rightarrow> newpeert table \<Rightarrow> (int \<times> newpeert table) option" where
  "peerhost_loop hostname cnt [] t = Some (0, t)"
| "peerhost_loop hostname cnt (apeer # rest) t =
     do {
       (p, t) \<leftarrow> newpeer apeer t;
       peer \<leftarrow> content t p;
       if p_state peer > STD_NOUSE \<and> strmcmp (p_host peer) hostname
       then (if cnt + 1 > 2 then Some (-1, t) else peerhost_loop hostname (cnt + 1) rest t)
       else peerhost_loop hostname cnt rest t
     }"

definition checkpeerhostname :: "string \<Rightarrow> newpeert table \<Rightarrow> (int \<times> newpeert table) option" where
  "checkpeerhostname hostname t = peerhost_loop hostname 0 (map fst (t_nodes t)) t"

fun newpeer_loop :: "int list \<Rightarrow> newpeert table \<Rightarrow> (int \<times> newpeert table) option" where
  "newpeer_loop [] t = Some (-1, t)"
| "newpeer_loop (apeer # rest) t =
     do {
       (p, t) \<leftarrow> newpeer apeer t;
       peer \<leftarrow> content t p;
       if p_state peer = STD_NOUSE
       then do { t \<leftarrow> clearpeer apeer t; Some (apeer, t) }
       else newpeer_loop rest t
     }"

definition getnewpeer :: "newpeert table \<Rightarrow> (int \<times> newpeert table) option" where
  "getnewpeer t = newpeer_loop (map int [1..<255]) (t\<lparr>t_create := True\<rparr>)"

definition MAXCONN :: nat where
  "MAXCONN = 200"

fun linkname_loop :: "string \<Rightarrow> int list \<Rightarrow> datalinkt table \<Rightarrow> (int \<times> datalinkt table) option" where
  "linkname_loop namelink [] t = Some (0, t)"
| "linkname_loop namelink (i # rest) t =
     do {
       (p, t) \<leftarrow> datalink i t;
       link \<leftarrow> content t p;
       if length (l_name link) = length namelink \<and> strstr (l_name link) namelink \<noteq> None
       then Some (i, t) else linkname_loop namelink rest t
     }"

definition getlinkbyname :: "string \<Rightarrow> datalinkt table \<Rightarrow> (int \<times> datalinkt table) option" where
  "getlinkbyname namelink t = linkname_loop namelink (map fst (t_nodes t)) t"

fun newlink_loop :: "int list \<Rightarrow> datalinkt table \<Rightarrow> (int \<times> datalinkt table) option" where
  "newlink_loop [] t = Some (0, t)"
| "newlink_loop (i # rest) t =
     do {
       (p, t) \<leftarrow> datalink i t;
       link \<leftarrow> content t p;
       if l_type link = 0 then Some (i, t) else newlink_loop rest t
     }"

definition getnewlink :: "datalinkt table \<Rightarrow> (int \<times> datalinkt table) option" where
  "getnewlink t = newlink_loop (map int [1..<MAXCONN + 1]) (t\<lparr>t_create := True\<rparr>)"

fun checkuser_loop :: "string \<Rightarrow> int list \<Rightarrow> usert table \<Rightarrow> (int \<times> usert table) option" where
  "checkuser_loop nick [] t = Some (0, t)"
| "checkuser_loop nick (uind # rest) t =
     do {
       (p, t) \<leftarrow> user uind t;
       u \<leftarrow> content t p;
       if length (u_login u) = length nick \<and> strstr (u_login u) nick \<noteq> None
       then Some (if u_parent u \<noteq> 0 then u_parent u else uind, t)
       else checkuser_loop nick rest t
     }"

definition checkuser :: "string \<Rightarrow> usert table \<Rightarrow> (int \<times> usert table) option" where
  "checkuser nick t = checkuser_loop nick (map fst (t_nodes t)) t"

section \<open>The tables are maps\<close>

interpretation fn: keyed_list find_node fst
  by unfold_locales auto

definition points :: "'a table \<Rightarrow> nat \<Rightarrow> nat \<Rightarrow> bool" where
  "points t i p \<longleftrightarrow> i < length (t_nodes t) \<and> snd (t_nodes t ! i) = Some p"

definition special :: "'a table \<Rightarrow> nat set" where
  "special t = {p. t_dummy t = Some p \<or> t_null t = Some p}"

text \<open>Every object a node or a special pointer names is allocated, and no two of them share one.\<close>

definition heap_ok :: "'a table \<Rightarrow> bool" where
  "heap_ok t \<longleftrightarrow>
     t_nodes t \<noteq> [] \<and> distinct (map fst (t_nodes t)) \<and>
     (\<forall>p \<in> special t. content t p \<noteq> None) \<and>
     (\<forall>i p. points t i p \<longrightarrow> content t p \<noteq> None \<and> p \<notin> special t) \<and>
     (\<forall>i j p. points t i p \<and> points t j p \<longrightarrow> i = j)"

text \<open>The cache holds what a search would find.\<close>

definition cache_ok :: "'a table \<Rightarrow> bool" where
  "cache_ok t \<longleftrightarrow> t_last t = -1 \<or>
     (case find_node (t_last t) (t_nodes t) of
        Some i \<Rightarrow> t_this t = Some i \<and> (\<exists>p. t_lastp t = Some p \<and> points t i p)
      | None \<Rightarrow> t_this t = None \<and> t_lastp t = t_dummy t \<and> t_dummy t \<noteq> None)"

definition table_ok :: "'a table \<Rightarrow> bool" where
  "table_ok t \<longleftrightarrow> heap_ok t \<and> cache_ok t"

text \<open>The object of a number: a node without an object stands for a fresh one.\<close>

definition view :: "'a \<Rightarrow> 'a table \<Rightarrow> int \<Rightarrow> 'a option" where
  "view z t n =
     (case find_node n (t_nodes t) of
        None \<Rightarrow> None
      | Some i \<Rightarrow> (case snd (t_nodes t ! i) of None \<Rightarrow> Some z | Some p \<Rightarrow> content t p))"

text \<open>Two tables with the same nodes and the same objects.\<close>

lemma content_simps [simp]:
  "content (t\<lparr>t_nodes := ns\<rparr>) = content t"
  "content (t\<lparr>t_dummy := d\<rparr>) = content t"
  "content (t\<lparr>t_null := d\<rparr>) = content t"
  "content (t\<lparr>t_last := n\<rparr>) = content t"
  "content (t\<lparr>t_lastp := q\<rparr>) = content t"
  "content (t\<lparr>t_this := q\<rparr>) = content t"
  "content (t\<lparr>t_create := b\<rparr>) = content t"
  by (simp_all add: content_def fun_eq_iff)

lemma content_append [simp]: "content (t\<lparr>t_heap := t_heap t @ [Some z]\<rparr>) p =
    (if p = length (t_heap t) then Some z else content t p)"
  by (auto simp: content_def nth_append)

lemma content_update: "content (t\<lparr>t_heap := (t_heap t)[p := v]\<rparr>) q =
    (if q = p \<and> p < length (t_heap t) then v else content t q)"
  by (auto simp: content_def)

lemma content_bound: "content t p \<noteq> None \<Longrightarrow> p < length (t_heap t)"
  by (auto simp: content_def split: if_splits)

lemma fresh_not_used: "heap_ok t \<Longrightarrow> \<not> points t i (length (t_heap t)) \<and> length (t_heap t) \<notin> special t"
  using content_bound by (fastforce simp: heap_ok_def)

text \<open>What a search leaves: the object of the number, and no other object touched.\<close>

definition found :: "'a \<Rightarrow> int \<Rightarrow> 'a table \<Rightarrow> nat \<Rightarrow> 'a table \<Rightarrow> bool" where
  "found z n t p t' \<longleftrightarrow>
     table_ok t' \<and> t_last t' = n \<and> t_lastp t' = Some p \<and>
     (case view z t n of
        Some v \<Rightarrow> content t' p = Some v \<and> view z t' = view z t \<and> t_create t' = t_create t
      | None \<Rightarrow>
          if t_create t then content t' p = Some z \<and> view z t' = (view z t)(n \<mapsto> z) \<and> \<not> t_create t'
          else t_dummy t' = Some p \<and> view z t' = view z t \<and> \<not> t_create t')"

lemma find_nodeD: "find_node n (t_nodes t) = Some i \<Longrightarrow> i < length (t_nodes t) \<and> fst (t_nodes t ! i) = n"
  using fn.lookup_SomeD by blast

lemma view_heap_append:
  assumes "heap_ok t"
  shows "view z (t\<lparr>t_heap := t_heap t @ [Some x]\<rparr>) = view z t"
proof
  fix m
  show "view z (t\<lparr>t_heap := t_heap t @ [Some x]\<rparr>) m = view z t m"
  proof (cases "find_node m (t_nodes t)")
    case (Some i)
    then have "points t i q" if "snd (t_nodes t ! i) = Some q" for q
      using that find_nodeD by (auto simp: points_def)
    then show ?thesis using Some fresh_not_used [OF assms] by (auto simp: view_def split: option.splits)
  qed (simp add: view_def)
qed

text \<open>A new object for one of the special pointers.\<close>

lemma alloc_special:
  assumes ok: "heap_ok t"
    and t': "t' = t\<lparr>t_heap := t_heap t @ [Some z], t_dummy := d, t_null := e\<rparr>"
    and sp: "special t' \<subseteq> insert (length (t_heap t)) (special t)"
  shows "heap_ok t'" "view z t' = view z t"
proof -
  have fr: "\<not> points t i (length (t_heap t))" for i using fresh_not_used [OF ok] by blast
  have "points t' i p = points t i p" for i p by (simp add: points_def t')
  moreover have "content t' p = (if p = length (t_heap t) then Some z else content t p)" for p by (simp add: t')
  ultimately show "heap_ok t'" using ok sp fr unfolding heap_ok_def by (auto simp: t')
  have "view z t' = view z (t\<lparr>t_heap := t_heap t @ [Some z]\<rparr>)" by (simp add: view_def t' fun_eq_iff split: option.split)
  then show "view z t' = view z t" using view_heap_append [OF ok] by simp
qed

lemma alloc_dummy_ok:
  assumes "heap_ok t"
  shows "heap_ok (alloc_dummy z t)" "view z (alloc_dummy z t) = view z t" "t_nodes (alloc_dummy z t) = t_nodes t"
    "t_create (alloc_dummy z t) = t_create t" "t_last (alloc_dummy z t) = t_last t" "t_dummy (alloc_dummy z t) \<noteq> None"
proof -
  let ?t = "t\<lparr>t_heap := t_heap t @ [Some z], t_dummy := Some (length (t_heap t)), t_null := t_null t\<rparr>"
  have "special ?t \<subseteq> insert (length (t_heap t)) (special t)" by (auto simp: special_def)
  note alloc_special [OF assms refl this]
  then show "heap_ok (alloc_dummy z t)" "view z (alloc_dummy z t) = view z t"
    using assms by (auto simp: alloc_dummy_def pmalloc_def)
qed (simp_all add: alloc_dummy_def pmalloc_def)

lemma alloc_null_ok:
  assumes "heap_ok t"
  shows "heap_ok (alloc_null z t)" "view z (alloc_null z t) = view z t" "t_nodes (alloc_null z t) = t_nodes t"
    "t_create (alloc_null z t) = t_create t" "t_last (alloc_null z t) = t_last t"
    "t_dummy (alloc_null z t) = t_dummy t" "t_null (alloc_null z t) \<noteq> None"
proof -
  let ?t = "t\<lparr>t_heap := t_heap t @ [Some z], t_dummy := t_dummy t, t_null := Some (length (t_heap t))\<rparr>"
  have "special ?t \<subseteq> insert (length (t_heap t)) (special t)" by (auto simp: special_def)
  note alloc_special [OF assms refl this]
  then show "heap_ok (alloc_null z t)" "view z (alloc_null z t) = view z t"
    using assms by (auto simp: alloc_null_def pmalloc_def)
qed (simp_all add: alloc_null_def pmalloc_def)

lemma table_frame [simp]:
  "heap_ok (t\<lparr>t_last := n\<rparr>) = heap_ok t" "heap_ok (t\<lparr>t_lastp := q\<rparr>) = heap_ok t"
  "heap_ok (t\<lparr>t_this := q\<rparr>) = heap_ok t" "heap_ok (t\<lparr>t_create := b\<rparr>) = heap_ok t"
  "view z (t\<lparr>t_last := n\<rparr>) = view z t" "view z (t\<lparr>t_lastp := q\<rparr>) = view z t"
  "view z (t\<lparr>t_this := q\<rparr>) = view z t" "view z (t\<lparr>t_create := b\<rparr>) = view z t"
  by (simp_all add: heap_ok_def points_def special_def view_def fun_eq_iff split: option.split)

text \<open>A new object is hung into one node.\<close>

lemma attach_ok:
  assumes "heap_ok t" "i < length ns" "distinct (map fst ns)"
    and "\<And>j q. j < length ns \<and> snd (ns ! j) = Some q \<longleftrightarrow> (if j = i then q = length (t_heap t) else points t j q)"
  shows "heap_ok (t\<lparr>t_heap := t_heap t @ [Some z], t_nodes := ns\<rparr>)"
proof -
  let ?t = "t\<lparr>t_heap := t_heap t @ [Some z], t_nodes := ns\<rparr>"
  have "points ?t j q \<longleftrightarrow> (if j = i then q = length (t_heap t) else points t j q)" for j q
    using assms(4) by (simp add: points_def)
  moreover have "special ?t = special t" by (simp add: special_def)
  moreover have "ns \<noteq> []" using assms(2) by auto
  ultimately show ?thesis
    using assms(1,3) fresh_not_used [OF assms(1)] by (fastforce simp: heap_ok_def)
qed

lemma find_node_nth:
  "heap_ok t \<Longrightarrow> i < length (t_nodes t) \<Longrightarrow> find_node (fst (t_nodes t ! i)) (t_nodes t) = Some i"
  by (simp add: heap_ok_def fn.lookup_nth)

lemma view_attach_existing:
  assumes "heap_ok t" "find_node n (t_nodes t) = Some i" "snd (t_nodes t ! i) = None"
  shows "view z (t\<lparr>t_heap := t_heap t @ [Some z], t_nodes := (t_nodes t)[i := (n, Some (length (t_heap t)))]\<rparr>) = view z t"
proof
  fix m
  let ?ns = "(t_nodes t)[i := (n, Some (length (t_heap t)))]"
  have i: "i < length (t_nodes t)" "fst (t_nodes t ! i) = n" using find_nodeD [OF assms(2)] by auto
  have fnd: "find_node m ?ns = find_node m (t_nodes t)" by (rule fn.lookup_update) (simp_all add: i)
  have pts: "points t j q" if "find_node m (t_nodes t) = Some j" "snd (t_nodes t ! j) = Some q" for j q
    using that find_nodeD by (auto simp: points_def)
  show "view z (t\<lparr>t_heap := t_heap t @ [Some z], t_nodes := ?ns\<rparr>) m = view z t m"
    using i assms(3) fresh_not_used [OF assms(1)] pts
    by (auto simp: view_def fnd nth_list_update split: option.splits)
qed

lemma view_attach_new:
  assumes "heap_ok t" "find_node n (t_nodes t) = None"
  shows "view z (t\<lparr>t_heap := t_heap t @ [Some z], t_nodes := t_nodes t @ [(n, Some (length (t_heap t)))]\<rparr>) = (view z t)(n \<mapsto> z)"
proof
  fix m
  let ?ns = "t_nodes t @ [(n, Some (length (t_heap t)))]"
  have "points t j q" if "find_node m (t_nodes t) = Some j" "snd (t_nodes t ! j) = Some q" for j q
    using that find_nodeD by (auto simp: points_def)
  moreover have "j < length (t_nodes t)" if "find_node m (t_nodes t) = Some j" for j using that find_nodeD by blast
  ultimately show "view z (t\<lparr>t_heap := t_heap t @ [Some z], t_nodes := ?ns\<rparr>) m = ((view z t)(n \<mapsto> z)) m"
    using assms(2) fresh_not_used [OF assms(1)]
    by (auto simp: view_def fn.lookup_snoc nth_append split: option.splits)
qed

lemma visit_found:
  assumes ok: "heap_ok t" and d: "t_dummy t \<noteq> None" and l: "t_last t = n"
  shows "\<exists>p t'. visit z n t = Some (p, t') \<and> found z n t p t'"
proof (cases "find_node n (t_nodes t)")
  case (Some i)
  note i = find_nodeD [OF Some]
  show ?thesis
  proof (cases "snd (t_nodes t ! i)")
    case (Some p)
    then have "points t i p" using i by (simp add: points_def)
    then have "content t p \<noteq> None" using ok by (auto simp: heap_ok_def)
    moreover have "cache_ok (t\<lparr>t_this := Some i, t_lastp := Some p\<rparr>)"
      using \<open>find_node n (t_nodes t) = Some i\<close> \<open>points t i p\<close> l by (simp add: cache_ok_def points_def)
    ultimately show ?thesis
      using \<open>find_node n (t_nodes t) = Some i\<close> Some ok l
      by (auto simp: visit_def found_def table_ok_def view_def)
  next
    case None
    let ?N = "length (t_heap t)"
    let ?t = "t\<lparr>t_heap := t_heap t @ [Some z], t_nodes := (t_nodes t)[i := (n, Some ?N)]\<rparr>"
    let ?u = "?t\<lparr>t_this := Some i, t_lastp := Some ?N\<rparr>"
    have "map fst ((t_nodes t)[i := (n, Some ?N)]) = map fst (t_nodes t)"
      using i by (simp add: map_update list_update_same_conv)
    then have hok: "heap_ok ?t"
      using ok i None by (intro attach_ok [of t i]) (auto simp: heap_ok_def points_def nth_list_update)
    have "find_node n ((t_nodes t)[i := (n, Some ?N)]) = Some i"
      using fn.lookup_update [of i "t_nodes t" "(n, Some ?N)" n] i \<open>find_node n (t_nodes t) = Some i\<close> by simp
    then have "cache_ok ?u" using i l by (simp add: cache_ok_def points_def)
    moreover have "view z t n = Some z" using \<open>find_node n (t_nodes t) = Some i\<close> None by (simp add: view_def)
    moreover have "visit z n t = Some (?N, ?u)"
      using \<open>find_node n (t_nodes t) = Some i\<close> None by (simp add: visit_def pmalloc_def)
    moreover have "view z ?t = view z t" using view_attach_existing [OF ok _ None] \<open>find_node n (t_nodes t) = Some i\<close> by blast
    ultimately show ?thesis using hok l by (auto simp: found_def table_ok_def)
  qed
next
  case None
  then have v: "view z t n = None" by (simp add: view_def)
  show ?thesis
  proof (cases "t_create t")
    case True
    let ?N = "length (t_heap t)" and ?k = "length (t_nodes t)"
    let ?t = "t\<lparr>t_heap := t_heap t @ [Some z], t_nodes := t_nodes t @ [(n, Some ?N)]\<rparr>"
    let ?u = "?t\<lparr>t_create := False, t_this := Some ?k, t_lastp := Some ?N\<rparr>"
    have "n \<notin> fst ` set (t_nodes t)" using None fn.lookup_None by blast
    then have hok: "heap_ok ?t"
      using ok by (intro attach_ok [of t ?k]) (auto simp: heap_ok_def points_def nth_append)
    have "find_node n (t_nodes ?u) = Some ?k" using None by (simp add: fn.lookup_snoc)
    then have "cache_ok ?u" using l by (simp add: cache_ok_def points_def)
    moreover have "visit z n t = Some (?N, ?u)"
      using None True ok by (simp add: visit_def pmalloc_def heap_ok_def)
    ultimately show ?thesis using hok l v True view_attach_new [OF ok None, of z]
      by (auto simp: found_def table_ok_def)
  next
    case False
    then show ?thesis using None ok d l v
      by (auto simp: visit_def found_def table_ok_def cache_ok_def)
  qed
qed

lemma found_cached:
  assumes "table_ok t" "t_last t = n" "n \<noteq> -1" "\<not> t_create t"
  shows "\<exists>p. t_lastp t = Some p \<and> found z n t p t"
proof (cases "find_node n (t_nodes t)")
  case None
  then show ?thesis using assms by (auto simp: table_ok_def cache_ok_def found_def view_def)
next
  case (Some i)
  then obtain p where "t_lastp t = Some p" "points t i p" using assms by (auto simp: table_ok_def cache_ok_def)
  moreover from this have "content t p \<noteq> None" using assms(1) by (auto simp: table_ok_def heap_ok_def)
  ultimately show ?thesis using Some assms by (auto simp: found_def view_def points_def)
qed

lemma fetch_found:
  assumes ok: "table_ok t" and n: "n \<noteq> -1"
  shows "\<exists>p t'. fetch z n t = Some (p, t') \<and> found z n t p t'"
proof (cases "t_last t = n \<and> \<not> t_create t")
  case True
  then show ?thesis using found_cached [OF ok] n by (auto simp: fetch_def)
next
  case False
  let ?s = "t\<lparr>t_last := n\<rparr>"
  have s: "heap_ok ?s" using ok by (simp add: table_ok_def)
  note a = alloc_dummy_ok [OF s, of z]
  obtain p t' where p: "visit z n (alloc_dummy z ?s) = Some (p, t')" "found z n (alloc_dummy z ?s) p t'"
    using visit_found [OF a(1) a(6), of n z] a(5) by auto
  then have "found z n t p t'" unfolding found_def a(2,4) by (simp split: option.splits)
  moreover have "fetch z n t = Some (p, t')" using False p(1) by (auto simp: fetch_def)
  ultimately show ?thesis by blast
qed

text \<open>Writing through the pointer that a search returned changes the object of its number only.\<close>

lemma assign_frame:
  assumes "heap_ok t" "content t p \<noteq> None"
  shows "heap_ok (t\<lparr>t_heap := (t_heap t)[p := Some v]\<rparr>)"
  using assms by (auto simp: heap_ok_def points_def special_def content_update dest: content_bound)

lemma view_assign:
  assumes ok: "heap_ok t" and i: "find_node n (t_nodes t) = Some i" "points t i p"
  shows "view z (t\<lparr>t_heap := (t_heap t)[p := Some v]\<rparr>) = (view z t)(n \<mapsto> v)"
proof
  fix m
  have p: "content t p \<noteq> None" using ok i(2) by (auto simp: heap_ok_def)
  show "view z (t\<lparr>t_heap := (t_heap t)[p := Some v]\<rparr>) m = ((view z t)(n \<mapsto> v)) m"
  proof (cases "find_node m (t_nodes t)")
    case None
    then show ?thesis using i(1) by (auto simp: view_def)
  next
    case (Some j)
    show ?thesis
    proof (cases "m = n")
      case True
      then show ?thesis using i p by (simp add: view_def content_update points_def content_bound)
    next
      case False
      have "snd (t_nodes t ! j) \<noteq> Some p"
      proof
        assume "snd (t_nodes t ! j) = Some p"
        then have "points t j p" using find_nodeD [OF Some] by (simp add: points_def)
        then have "j = i" using ok i(2) unfolding heap_ok_def by blast
        then show False using False find_nodeD [OF Some] find_nodeD [OF i(1)] by simp
      qed
      then show ?thesis using Some False by (simp add: view_def content_update split: option.split)
    qed
  qed
qed

lemma found_points:
  assumes f: "found z n t p t'" and n: "n \<noteq> -1"
  shows "heap_ok t'" "content t' p \<noteq> None"
    "view z t' n = None \<Longrightarrow> t_this t' = None \<and> t_dummy t' = Some p"
    "view z t' n \<noteq> None \<Longrightarrow> \<exists>i. find_node n (t_nodes t') = Some i \<and> points t' i p \<and> t_this t' = Some i"
proof -
  show ok: "heap_ok t'" using f by (simp add: found_def table_ok_def)
  have c: "cache_ok t'" "t_last t' = n" "t_lastp t' = Some p" using f by (simp_all add: found_def table_ok_def)
  show none: "t_this t' = None \<and> t_dummy t' = Some p" if v: "view z t' n = None"
  proof (cases "find_node n (t_nodes t')")
    case None
    then show ?thesis using c n by (auto simp: cache_ok_def)
  next
    case (Some i)
    then have "points t' i p" using c n by (auto simp: cache_ok_def)
    then have "content t' p \<noteq> None" "snd (t_nodes t' ! i) = Some p"
      using ok by (auto simp: heap_ok_def points_def)
    then show ?thesis using v Some by (simp add: view_def)
  qed
  show some: "view z t' n \<noteq> None \<Longrightarrow> \<exists>i. find_node n (t_nodes t') = Some i \<and> points t' i p \<and> t_this t' = Some i"
    using c n by (auto simp: cache_ok_def view_def split: option.splits)
  show "content t' p \<noteq> None"
  proof (cases "view z t' n")
    case None
    then show ?thesis using none ok by (auto simp: heap_ok_def special_def)
  qed (use some ok in \<open>auto simp: heap_ok_def\<close>)
qed

lemma found_assign:
  assumes f: "found z n t p t'" and n: "n \<noteq> -1"
  shows "\<exists>t''. assign p v t' = Some t'' \<and> table_ok t'' \<and> t_create t'' = t_create t' \<and>
    view z t'' = (if view z t' n = None then view z t' else (view z t')(n \<mapsto> v))"
proof -
  note fp = found_points [OF f n]
  let ?t = "t'\<lparr>t_heap := (t_heap t')[p := Some v]\<rparr>"
  have hok: "heap_ok ?t" by (rule assign_frame [OF fp(1,2)])
  have "cache_ok t'" using f unfolding found_def table_ok_def by blast
  then have "cache_ok ?t" by (simp add: cache_ok_def points_def split: option.splits)
  moreover have "view z ?t = (if view z t' n = None then view z t' else (view z t')(n \<mapsto> v))"
  proof (cases "view z t' n = None")
    case True
    have "\<not> points t' i p" for i using fp(1) fp(3) [OF True] by (auto simp: heap_ok_def special_def)
    then have np: "find_node m (t_nodes t') = Some j \<Longrightarrow> snd (t_nodes t' ! j) \<noteq> Some p" for m j
      using find_nodeD [of m t' j] by (simp add: points_def)
    have "view z ?t m = view z t' m" for m
      using np by (auto simp: view_def content_update split: option.split)
    then show ?thesis using True by auto
  next
    case False
    then show ?thesis using fp(4) view_assign [OF fp(1)] by auto
  qed
  ultimately show ?thesis using hok fp(2) by (auto simp: assign_def table_ok_def)
qed

text \<open>Freeing the object of the node of the last search.\<close>

lemma free_this_ok:
  assumes ok: "heap_ok t" and l: "t_last t = -1"
    and node: "\<And>i. t_this t = Some i \<Longrightarrow> \<exists>p. points t i p \<and> content t p = Some z"
  shows "table_ok (free_this t) \<and> view z (free_this t) = view z t"
proof -
  show ?thesis
  proof (cases "t_this t")
    case None
    then show ?thesis
      using ok l by (simp_all add: free_this_def table_ok_def cache_ok_def)
  next
    case (Some i)
    then obtain p where p: "points t i p" "content t p = Some z" using node by blast
    then have i: "i < length (t_nodes t)" "snd (t_nodes t ! i) = Some p" by (simp_all add: points_def)
    let ?ns = "(t_nodes t)[i := (fst (t_nodes t ! i), None)]"
    let ?t = "t\<lparr>t_heap := (t_heap t)[p := None], t_nodes := ?ns\<rparr>"
    have ft: "free_this t = ?t" using Some i by (simp add: free_this_def)
    have pts: "points ?t j q \<longleftrightarrow> j \<noteq> i \<and> points t j q" for j q
      using i by (auto simp: points_def nth_list_update)
    have c: "content ?t q = (if q = p then None else content t q)" for q
      using p(2) content_bound [of t p] by (simp add: content_update)
    have "map fst ?ns = map fst (t_nodes t)" using i by (simp add: map_update list_update_same_conv)
    moreover have inj: "points t j q \<Longrightarrow> points t k q \<Longrightarrow> j = k" for j k q
      using ok unfolding heap_ok_def by blast
    ultimately have "heap_ok ?t"
      using ok p(1) i unfolding heap_ok_def pts c by (auto simp: special_def dest: inj)
    then have "table_ok (free_this t)" using l by (simp add: ft table_ok_def cache_ok_def)
    moreover have "view z ?t m = view z t m" for m
    proof (cases "find_node m (t_nodes t)")
      case None
      moreover have "find_node m ?ns = find_node m (t_nodes t)" by (rule fn.lookup_update) (simp_all add: i)
      ultimately show ?thesis by (simp add: view_def)
    next
      case (Some j)
      have "find_node m ?ns = find_node m (t_nodes t)" by (rule fn.lookup_update) (simp_all add: i)
      moreover have "q \<noteq> p" if "j \<noteq> i" "snd (t_nodes t ! j) = Some q" for q
        using that p(1) ok find_nodeD [OF Some] by (auto simp: heap_ok_def points_def)
      ultimately show ?thesis
        using Some i p(2) c find_nodeD [OF Some] by (auto simp: view_def nth_list_update split: option.splits)
    qed
    ultimately show ?thesis by (auto simp: ft)
  qed
qed

lemma clear_node_view:
  assumes ok: "table_ok t" and n: "n \<noteq> -1"
  shows "\<exists>t'. clear_node z n t = Some t' \<and> table_ok t' \<and>
    view z t' = (if view z t n = None \<and> \<not> t_create t then view z t else (view z t)(n \<mapsto> z))"
proof -
  obtain p t1 where f: "fetch z n t = Some (p, t1)" "found z n t p t1" using fetch_found [OF ok n] by blast
  obtain t2 where a: "assign p z t1 = Some t2" "table_ok t2"
      "view z t2 = (if view z t1 n = None then view z t1 else (view z t1)(n \<mapsto> z))"
    using found_assign [OF f(2) n] by blast
  have t2: "t2 = t1\<lparr>t_heap := (t_heap t1)[p := Some z]\<rparr>" "content t2 p = Some z"
    using a(1) content_bound [of t1 p] by (auto simp: assign_def content_update split: if_splits)
  have "\<exists>q. points t2 i q \<and> content t2 q = Some z" if "t_this t2 = Some i" for i
  proof -
    have "view z t1 n \<noteq> None" using found_points(3) [OF f(2) n] that t2(1) by auto
    then have "points t1 i p" using found_points(4) [OF f(2) n] that t2(1) by auto
    then show ?thesis using t2 by (auto simp: points_def)
  qed
  then have fr: "table_ok (free_this (t2\<lparr>t_last := -1\<rparr>)) \<and> view z (free_this (t2\<lparr>t_last := -1\<rparr>)) = view z t2"
    using a(2) free_this_ok [of "t2\<lparr>t_last := -1\<rparr>" z] by (simp add: table_ok_def points_def)
  have "view z t2 = (if view z t n = None \<and> \<not> t_create t then view z t else (view z t)(n \<mapsto> z))"
    using f(2) unfolding a(3) found_def by (auto split: option.splits if_splits)
  then show ?thesis using f(1) a(1) fr by (simp add: clear_node_def)
qed

lemma fetch_law:
  assumes "table_ok t" "n \<noteq> -1"
  shows "\<exists>p t'. fetch z n t = Some (p, t') \<and> table_ok t' \<and> content t' p \<noteq> None \<and>
      (case view z t n of
         Some v \<Rightarrow> content t' p = Some v \<and> view z t' = view z t \<and> t_create t' = t_create t
       | None \<Rightarrow> if t_create t then content t' p = Some z \<and> view z t' = (view z t)(n \<mapsto> z) else view z t' = view z t)"
proof -
  obtain p t' where f: "fetch z n t = Some (p, t')" "found z n t p t'" using fetch_found [OF assms] by blast
  then show ?thesis using found_points(2) [OF f(2) assms(2)] by (auto simp: found_def split: option.splits if_splits)
qed

section \<open>The contract of a table of objects\<close>

text \<open>
  What the callers of \<open>newpeer\<close> and \<open>datalink\<close> rely on: the answer is always an allocated object;
  it is the object of the number when there is one, a fresh one when one was asked for, and every
  other object is untouched. Clearing a number leaves a fresh object.
\<close>

locale object_table =
  fixes get :: "int \<Rightarrow> 't \<Rightarrow> (nat \<times> 't) option"
    and clear :: "int \<Rightarrow> 't \<Rightarrow> 't option"
    and obj :: "'t \<Rightarrow> nat \<Rightarrow> 'a option"
    and abs :: "'t \<Rightarrow> int \<Rightarrow> 'a option"
    and creating :: "'t \<Rightarrow> bool"
    and ok :: "'t \<Rightarrow> bool"
    and z :: 'a
  assumes get_law: "ok t \<Longrightarrow> n \<noteq> -1 \<Longrightarrow> \<exists>p t'. get n t = Some (p, t') \<and> ok t' \<and> obj t' p \<noteq> None \<and>
      (case abs t n of
         Some v \<Rightarrow> obj t' p = Some v \<and> abs t' = abs t \<and> creating t' = creating t
       | None \<Rightarrow> if creating t then obj t' p = Some z \<and> abs t' = (abs t)(n \<mapsto> z) else abs t' = abs t)"
    and clear_law: "ok t \<Longrightarrow> n \<noteq> -1 \<Longrightarrow> \<exists>t'. clear n t = Some t' \<and> ok t' \<and>
      abs t' = (if abs t n = None \<and> \<not> creating t then abs t else (abs t)(n \<mapsto> z))"

text \<open>A search for the first number whose object passes a test.\<close>

fun scan :: "(int \<Rightarrow> 't \<Rightarrow> (nat \<times> 't) option) \<Rightarrow> ('t \<Rightarrow> nat \<Rightarrow> 'a option) \<Rightarrow> ('a \<Rightarrow> bool) \<Rightarrow> int list \<Rightarrow> 't \<Rightarrow> (int option \<times> 't) option" where
  "scan get obj P [] t = Some (None, t)"
| "scan get obj P (n # ns) t =
     do {
       (p, t) \<leftarrow> get n t;
       v \<leftarrow> obj t p;
       if P v then Some (Some n, t) else scan get obj P ns t
     }"

context object_table
begin

text \<open>With creation switched on and a fresh object that passes, the search takes the first number that is free or passes.\<close>

lemma scan_first:
  assumes "P z"
  shows "ok t \<Longrightarrow> creating t \<Longrightarrow> -1 \<notin> set ns \<Longrightarrow>
    \<exists>r t'. scan get obj P ns t = Some (r, t') \<and> ok t' \<and>
      (case r of
         None \<Rightarrow> (\<forall>n \<in> set ns. \<exists>v. abs t n = Some v \<and> \<not> P v) \<and> abs t' = abs t
       | Some n \<Rightarrow> n \<in> set ns \<and> (\<forall>v. abs t n = Some v \<longrightarrow> P v) \<and>
           (\<forall>m \<in> set (takeWhile (\<lambda>m. m \<noteq> n) ns). \<exists>v. abs t m = Some v \<and> \<not> P v) \<and>
           abs t' = (if abs t n = None then (abs t)(n \<mapsto> z) else abs t))"
proof (induction ns arbitrary: t)
  case (Cons n ns)
  obtain p t1 where g: "get n t = Some (p, t1)" "ok t1" "obj t1 p \<noteq> None"
      "case abs t n of
         Some v \<Rightarrow> obj t1 p = Some v \<and> abs t1 = abs t \<and> creating t1 = creating t
       | None \<Rightarrow> if creating t then obj t1 p = Some z \<and> abs t1 = (abs t)(n \<mapsto> z) else abs t1 = abs t"
    using get_law [of t n] Cons.prems by auto
  show ?case
  proof (cases "\<exists>v. abs t n = Some v \<and> \<not> P v")
    case True
    then obtain v where v: "abs t n = Some v" "\<not> P v" by blast
    with g have s: "scan get obj P (n # ns) t = scan get obj P ns t1" "abs t1 = abs t" "creating t1"
      using Cons.prems(2) by auto
    then obtain r t' where r: "scan get obj P ns t1 = Some (r, t')" "ok t'"
        "case r of
           None \<Rightarrow> (\<forall>n \<in> set ns. \<exists>v. abs t1 n = Some v \<and> \<not> P v) \<and> abs t' = abs t1
         | Some n \<Rightarrow> n \<in> set ns \<and> (\<forall>v. abs t1 n = Some v \<longrightarrow> P v) \<and>
             (\<forall>m \<in> set (takeWhile (\<lambda>m. m \<noteq> n) ns). \<exists>v. abs t1 m = Some v \<and> \<not> P v) \<and>
             abs t' = (if abs t1 n = None then (abs t1)(n \<mapsto> z) else abs t1)"
      using Cons.IH [OF g(2) s(3)] Cons.prems(3) by auto
    show ?thesis using r v s(1) unfolding s(2) by (auto split: option.splits)
  next
    case False
    then have "\<exists>v. obj t1 p = Some v \<and> P v" "abs t1 = (if abs t n = None then (abs t)(n \<mapsto> z) else abs t)"
      using g(4) Cons.prems(2) assms by (auto split: option.splits)
    then show ?thesis using g(1,2) False by auto
  qed
qed simp

end

interpretation peers: object_table newpeer clearpeer content "view zero_newpeert" t_create table_ok zero_newpeert
proof unfold_locales
  fix t :: "newpeert table" and n :: int
  assume a: "table_ok t" "n \<noteq> -1"
  show "\<exists>p t'. newpeer n t = Some (p, t') \<and> table_ok t' \<and> content t' p \<noteq> None \<and>
      (case view zero_newpeert t n of
         Some v \<Rightarrow> content t' p = Some v \<and> view zero_newpeert t' = view zero_newpeert t \<and> t_create t' = t_create t
       | None \<Rightarrow> if t_create t then content t' p = Some zero_newpeert \<and> view zero_newpeert t' = (view zero_newpeert t)(n \<mapsto> zero_newpeert)
           else view zero_newpeert t' = view zero_newpeert t)"
    unfolding newpeer_def by (rule fetch_law [OF a])
  show "\<exists>t'. clearpeer n t = Some t' \<and> table_ok t' \<and> view zero_newpeert t' =
      (if view zero_newpeert t n = None \<and> \<not> t_create t then view zero_newpeert t else (view zero_newpeert t)(n \<mapsto> zero_newpeert))"
    unfolding clearpeer_def by (rule clear_node_view [OF a])
qed

interpretation links: object_table datalink clearlink content "view zero_datalinkt" t_create table_ok zero_datalinkt
proof unfold_locales
  fix t :: "datalinkt table" and n :: int
  assume a: "table_ok t" "n \<noteq> -1"
  show "\<exists>p t'. datalink n t = Some (p, t') \<and> table_ok t' \<and> content t' p \<noteq> None \<and>
      (case view zero_datalinkt t n of
         Some v \<Rightarrow> content t' p = Some v \<and> view zero_datalinkt t' = view zero_datalinkt t \<and> t_create t' = t_create t
       | None \<Rightarrow> if t_create t then content t' p = Some zero_datalinkt \<and> view zero_datalinkt t' = (view zero_datalinkt t)(n \<mapsto> zero_datalinkt)
           else view zero_datalinkt t' = view zero_datalinkt t)"
    unfolding datalink_def by (rule fetch_law [OF a])
  show "\<exists>t'. clearlink n t = Some t' \<and> table_ok t' \<and> view zero_datalinkt t' =
      (if view zero_datalinkt t n = None \<and> \<not> t_create t then view zero_datalinkt t else (view zero_datalinkt t)(n \<mapsto> zero_datalinkt))"
    unfolding clearlink_def by (rule clear_node_view [OF a])
qed

section \<open>Peers and links in use\<close>

lemma start_table_ok [simp]: "table_ok start_table"
  by (simp add: table_ok_def heap_ok_def cache_ok_def start_table_def special_def points_def)

text \<open>What the program does with the table of peers: look up, write, clear, and ask for a new peer.\<close>

inductive peer_step :: "newpeert table \<Rightarrow> newpeert table \<Rightarrow> bool" where
  look: "n \<noteq> -1 \<Longrightarrow> newpeer n t = Some (p, t') \<Longrightarrow> peer_step t t'"
| change: "n \<noteq> -1 \<Longrightarrow> newpeer n t = Some (p, t1) \<Longrightarrow> assign p v t1 = Some t' \<Longrightarrow> peer_step t t'"
| clear: "n \<noteq> -1 \<Longrightarrow> clearpeer n t = Some t' \<Longrightarrow> peer_step t t'"
| want: "peer_step t (t\<lparr>t_create := True\<rparr>)"

lemma peer_step_ok: "peer_step t t' \<Longrightarrow> table_ok t \<Longrightarrow> table_ok t'"
proof (induction rule: peer_step.induct)
  case (look n t p t')
  then show ?case using peers.get_law [of t n] by auto
next
  case (change n t p t1 v t')
  then have "found zero_newpeert n t p t1" using fetch_found [of t n zero_newpeert] by (auto simp: newpeer_def)
  then show ?case using found_assign [of zero_newpeert n t p t1 v] change by auto
next
  case (clear n t t')
  then show ?case using peers.clear_law [of t n] by auto
next
  case (want t)
  then show ?case by (simp add: table_ok_def cache_ok_def points_def split: option.splits)
qed

text \<open>
  (C22) Looking up a peer never gives a null pointer or a freed object, whatever was looked up,
  changed or cleared before: the answer is an allocated object, and it is the object of the
  number whenever the number has one.
\<close>

theorem newpeer_never_dangling:
  assumes "peer_step\<^sup>*\<^sup>* start_table t" "n \<noteq> -1"
  shows "\<exists>p t' v. newpeer n t = Some (p, t') \<and> content t' p = Some v \<and>
    (\<forall>w. view zero_newpeert t n = Some w \<longrightarrow> v = w)"
proof -
  have "table_ok t" using assms(1)
    by (induction rule: rtranclp_induct) (auto intro: peer_step_ok)
  then show ?thesis using peers.get_law [OF _ assms(2), of t] by (fastforce split: option.splits)
qed

theorem newpeer_never_dangling_witness:
  "\<exists>t1 p t' v. clearpeer 3 (start_table\<lparr>t_create := True\<rparr>) = Some t1 \<and>
     newpeer 3 t1 = Some (p, t') \<and> content t' p = Some v \<and> v = zero_newpeert"
proof -
  obtain t1 where t1: "clearpeer 3 (start_table\<lparr>t_create := True\<rparr>) = Some t1" "view zero_newpeert t1 3 = Some zero_newpeert"
  proof -
    have "table_ok ((start_table :: newpeert table)\<lparr>t_create := True\<rparr>)" by (rule peer_step_ok [OF want start_table_ok])
    then show ?thesis using peers.clear_law [of "start_table\<lparr>t_create := True\<rparr>" 3] that by auto
  qed
  have "peer_step start_table (start_table\<lparr>t_create := True\<rparr>)" by (rule want)
  moreover have "peer_step (start_table\<lparr>t_create := True\<rparr>) t1" by (rule peer_step.clear [OF _ t1(1)]) simp
  ultimately have "peer_step\<^sup>*\<^sup>* start_table t1" by simp
  from newpeer_never_dangling [OF this, of 3] show ?thesis using t1 by auto
qed

lemma set_map_int: "set (map int [a..<b]) = {int a..<int b}"
  by (simp add: image_int_atLeastLessThan)

lemma takeWhile_map_int:
  assumes "a \<le> n" "n < b"
  shows "set (takeWhile (\<lambda>m. m \<noteq> int n) (map int [a..<b])) = {int a..<int n}"
proof -
  have "[a..<b] = [a..<n] @ n # [Suc n..<b]"
    using assms upt_add_eq_append [of a n "b - n"] by (simp add: upt_conv_Cons)
  then show ?thesis by (simp add: takeWhile_append image_int_atLeastLessThan)
qed

lemma newpeer_loop_scan:
  "newpeer_loop ns t =
     (case scan newpeer content (\<lambda>v. p_state v = STD_NOUSE) ns t of
        None \<Rightarrow> None
      | Some (None, t) \<Rightarrow> Some (-1, t)
      | Some (Some n, t) \<Rightarrow> map_option (\<lambda>t. (n, t)) (clearpeer n t))"
  by (induction ns arbitrary: t) (auto split: Option.bind_splits option.splits)

text \<open>
  A new peer gets the first number from 1 to 254 that has no object or one not in use, and
  a fresh object; no other peer is touched. The answer is -1 exactly when all 254 are in use.
\<close>

theorem getnewpeer_unused:
  assumes "table_ok t"
  shows "\<exists>n t'. getnewpeer t = Some (n, t') \<and> table_ok t' \<and>
    (if n = -1
     then (\<forall>m \<in> {1..254}. \<exists>v. view zero_newpeert t m = Some v \<and> p_state v \<noteq> STD_NOUSE) \<and>
       view zero_newpeert t' = view zero_newpeert t
     else n \<in> {1..254} \<and> (\<forall>v. view zero_newpeert t n = Some v \<longrightarrow> p_state v = STD_NOUSE) \<and>
       (\<forall>m \<in> {1..<n}. \<exists>v. view zero_newpeert t m = Some v \<and> p_state v \<noteq> STD_NOUSE) \<and>
       view zero_newpeert t' = (view zero_newpeert t)(n \<mapsto> zero_newpeert))"
proof -
  let ?P = "\<lambda>v. p_state v = STD_NOUSE" and ?ns = "map int [1..<255]" and ?s = "t\<lparr>t_create := True\<rparr>"
  have ok: "table_ok ?s" using peer_step_ok [OF want assms] .
  have ns: "set ?ns = {1..<255}" using set_map_int [of 1 255] by simp
  obtain r t1 where r: "scan newpeer content ?P ?ns ?s = Some (r, t1)" "table_ok t1"
      "case r of
         None \<Rightarrow> (\<forall>n \<in> set ?ns. \<exists>v. view zero_newpeert ?s n = Some v \<and> \<not> ?P v) \<and> view zero_newpeert t1 = view zero_newpeert ?s
       | Some n \<Rightarrow> n \<in> set ?ns \<and> (\<forall>v. view zero_newpeert ?s n = Some v \<longrightarrow> ?P v) \<and>
           (\<forall>m \<in> set (takeWhile (\<lambda>m. m \<noteq> n) ?ns). \<exists>v. view zero_newpeert ?s m = Some v \<and> \<not> ?P v) \<and>
           view zero_newpeert t1 = (if view zero_newpeert ?s n = None then (view zero_newpeert ?s)(n \<mapsto> zero_newpeert) else view zero_newpeert ?s)"
    using peers.scan_first [of ?P ?s ?ns] ok unfolding ns by (auto simp: zero_newpeert_def STD_NOUSE_def)
  show ?thesis
  proof (cases r)
    case None
    then have "getnewpeer t = Some (-1, t1)" using r(1) unfolding getnewpeer_def newpeer_loop_scan by simp
    then show ?thesis using None r(2,3) unfolding ns by auto
  next
    case (Some n)
    then have n: "n \<in> {1..<255}" "\<forall>v. view zero_newpeert t n = Some v \<longrightarrow> ?P v"
        "view zero_newpeert t1 n \<noteq> None" "(view zero_newpeert t1)(n \<mapsto> zero_newpeert) = (view zero_newpeert t)(n \<mapsto> zero_newpeert)"
      using r(3) unfolding ns by (auto split: if_splits)
    have "set (takeWhile (\<lambda>m. m \<noteq> n) ?ns) = {1..<n}"
    proof -
      have "1 \<le> nat n" "nat n < 255" "int (nat n) = n" using n(1) by auto
      then show ?thesis using takeWhile_map_int [of 1 "nat n" 255] by simp
    qed
    then have less: "\<forall>m \<in> {1..<n}. \<exists>v. view zero_newpeert t m = Some v \<and> p_state v \<noteq> STD_NOUSE"
      using r(3) Some by simp
    obtain t2 where t2: "clearpeer n t1 = Some t2" "table_ok t2"
        "view zero_newpeert t2 = (view zero_newpeert t1)(n \<mapsto> zero_newpeert)"
      using peers.clear_law [OF r(2), of n] n(1,3) by auto
    have "getnewpeer t = Some (n, t2)"
      using r(1) Some t2(1) unfolding getnewpeer_def newpeer_loop_scan by simp
    then show ?thesis using t2(2,3) n less by (intro exI [of _ n] exI [of _ t2]) auto
  qed
qed

theorem getnewpeer_unused_witness:
  "\<exists>t'. getnewpeer start_table = Some (1, t') \<and> view zero_newpeert t' 1 = Some zero_newpeert"
proof -
  have v: "view zero_newpeert start_table m = (if m = 0 then Some zero_newpeert else None)" for m
    by (simp add: view_def start_table_def)
  obtain n t' where g: "getnewpeer start_table = Some (n, t')"
      "if n = -1
       then (\<forall>m \<in> {1..254}. \<exists>v. view zero_newpeert start_table m = Some v \<and> p_state v \<noteq> STD_NOUSE) \<and>
         view zero_newpeert t' = view zero_newpeert start_table
       else n \<in> {1..254} \<and> (\<forall>v. view zero_newpeert start_table n = Some v \<longrightarrow> p_state v = STD_NOUSE) \<and>
         (\<forall>m \<in> {1..<n}. \<exists>v. view zero_newpeert start_table m = Some v \<and> p_state v \<noteq> STD_NOUSE) \<and>
         view zero_newpeert t' = (view zero_newpeert start_table)(n \<mapsto> zero_newpeert)"
    using getnewpeer_unused [OF start_table_ok] by blast
  have none: "\<not> (\<exists>v. view zero_newpeert start_table 1 = Some v \<and> p_state v \<noteq> STD_NOUSE)" by (simp add: v)
  then have "n \<noteq> -1" using g(2) by force
  moreover from this none have "1 \<notin> {1..<n}" using g(2) by metis
  ultimately have "n = 1" using g(2) by auto
  then show ?thesis using g by auto
qed

section \<open>The table of users\<close>

text \<open>The search for the number of a user, when the cache does not answer.\<close>

lemma user_search:
  assumes ok: "heap_ok t" and n: "0 < n" "n \<le> MAX_USER" and miss: "t_last t \<noteq> n \<or> t_create t"
  shows "\<exists>p t'. user n t = Some (p, t') \<and> found zero_usert n t p t'"
proof -
  let ?s = "t\<lparr>t_last := n\<rparr>"
  have s: "heap_ok ?s" using ok by simp
  note a = alloc_dummy_ok [OF s, of zero_usert]
  note b = alloc_null_ok [OF a(1), of zero_usert]
  let ?u = "alloc_null zero_usert (alloc_dummy zero_usert ?s)"
  have "t_nodes ?u \<noteq> []" using ok by (simp add: a(3) b(3) heap_ok_def)
  moreover have "user_nr n = n" using n by (simp add: user_nr_def MAX_USER_def)
  ultimately have eq: "user n t = visit zero_usert n ?u" using n miss by (auto simp: user_def Let_def)
  have "t_last ?u = n" by (simp add: a(5) b(5))
  then obtain p t' where p: "visit zero_usert n ?u = Some (p, t')" "found zero_usert n ?u p t'"
    using visit_found [OF b(1), of n zero_usert] a(6) b(6) by auto
  have "view zero_usert ?u = view zero_usert t" "t_create ?u = t_create t" using a(2,4) b(2,4) by simp_all
  then have "found zero_usert n t p t'" using p(2) unfolding found_def by (simp split: option.splits)
  then show ?thesis using eq p(1) by auto
qed

text \<open>
  (C40) Clearing a user leaves a dangling pointer: unlike the peers and the links, the cache still
  answers for the number of the user, with the address of the freed structure, until another user
  is looked up or a new one is asked for.
\<close>

theorem clearuser_dangling:
  assumes "heap_ok t" "0 < n" "n \<le> MAX_USER" "view zero_usert t n \<noteq> None" "\<not> t_create t"
  shows "\<exists>eff t' p. clearuser n t = Some (eff, t') \<and> user n t' = Some (p, t') \<and> content t' p = None"
proof -
  let ?s = "t\<lparr>t_last := -1\<rparr>"
  have n: "n \<noteq> -1" "user_nr n = n" using assms(2,3) by (simp_all add: user_nr_def MAX_USER_def)
  obtain p t1 where f: "user n ?s = Some (p, t1)" "found zero_usert n ?s p t1"
    using user_search [of ?s n] assms n(1) by auto
  obtain v where v: "content t1 p = Some v" using found_points(2) [OF f(2) n(1)] by blast
  have "view zero_usert t1 n \<noteq> None" "\<not> t_create t1"
    using f(2) assms(4,5) by (auto simp: found_def split: option.splits)
  then obtain i where i: "points t1 i p" "t_this t1 = Some i" using found_points(4) [OF f(2) n(1)] by blast
  let ?t2 = "t1\<lparr>t_heap := (t_heap t1)[p := Some zero_usert]\<rparr>"
  let ?t3 = "(free_this ?t2)\<lparr>t_this := None\<rparr>"
  have b: "p < length (t_heap t1)" using v content_bound by force
  have "content t1 p \<noteq> None" "content (t1\<lparr>t_heap := (t_heap t1)[p := Some (empty_user v)]\<rparr>) p \<noteq> None"
    using v b by (simp_all add: content_update)
  then have "clearuser n t = Some ([ClearScript n] @ close_dcc (u_dcc v) @ (if u_trafficlog v then [CloseLog] else []), ?t3)"
    using f(1) v by (simp add: clearuser_def assign_def)
  moreover have t3: "content ?t3 p = None" "t_last ?t3 = n" "t_lastp ?t3 = Some p" "\<not> t_create ?t3"
    using i f(2) b \<open>\<not> t_create t1\<close> by (auto simp: free_this_def points_def found_def content_def)
  moreover have "user n ?t3 = Some (p, ?t3)" using t3 n(2) by (simp add: user_def)
  ultimately show ?thesis by blast
qed

theorem clearuser_dangling_witness:
  "\<exists>eff t' p. clearuser 1 (start_table\<lparr>t_nodes := [(0, None), (1, None)]\<rparr>) = Some (eff, t') \<and>
     user 1 t' = Some (p, t') \<and> content t' p = None"
proof (rule clearuser_dangling)
  show "heap_ok (start_table\<lparr>t_nodes := [(0, None), (1, None)]\<rparr>)"
    by (auto simp: heap_ok_def start_table_def special_def points_def less_Suc_eq)
  show "view zero_usert (start_table\<lparr>t_nodes := [(0, None), (1, None)]\<rparr>) 1 \<noteq> None"
    by (simp add: view_def start_table_def)
qed (simp_all add: MAX_USER_def start_table_def)

end
