(* ===== verification/Dcc.thy ===== *)
theory Dcc
  imports Memory
begin

text \<open>
  The DCC entries of a user, src/p_dcc.c: adding one, and loading those the configuration holds.
  \<open>None\<close> is an access to a null pointer or a write outside an array.
\<close>

section \<open>Adding an entry\<close>

definition LI_DCC :: int where
  "LI_DCC = 4"

text \<open>The first node without a link, or a new node at the end.\<close>

fun place_dcc :: "int \<Rightarrow> datalinkt \<Rightarrow> linknodes \<Rightarrow> linknodes option" where
  "place_dcc usern l [] = None"
| "place_dcc usern l ((uid, link) # rest) =
     (case link of
        None \<Rightarrow> Some ((usern, Some l) # rest)
      | Some k \<Rightarrow>
          if rest = [] then Some [(uid, Some k), (usern, Some l)]
          else map_option (\<lambda>ns. (uid, Some k) # ns) (place_dcc usern l rest))"

definition new_dcc :: "string \<Rightarrow> int \<Rightarrow> string \<Rightarrow> string \<Rightarrow> string \<Rightarrow> datalinkt" where
  "new_dcc host port luser pass name =
     zero_datalinkt\<lparr>l_port := port, l_type := LI_DCC, l_delayed := 1, l_user := strmncpy luser 64,
       l_name := strmncpy name 64, l_pass := strmncpy pass 64, l_host := strmncpy host 64\<rparr>"

text \<open>Every string is copied with the size of the user name, 64, and the password has 20 bytes.\<close>

definition adddcc ::
  "salt \<Rightarrow> int \<Rightarrow> string \<Rightarrow> int \<Rightarrow> string \<Rightarrow> string \<Rightarrow> string \<Rightarrow> bool \<Rightarrow> usert \<Rightarrow> store \<Rightarrow> (usert \<times> store) option" where
  "adddcc sl usern host port luser pass name noini u s =
     do {
       let afile = snpf 30 (''USER'' @ decimal_int usern @ ''.DCC'');
       let link = new_dcc host port luser pass name;
       dcc \<leftarrow> place_dcc usern link (u_dcc u);
       if length (l_pass link) \<ge> 20 then None
       else if noini then Some (u\<lparr>u_dcc := dcc\<rparr>, s)
       else do {
         ppt \<leftarrow> cryptit sl (strmncpy pass 400);
         let buf = snpf 400 (l_name link @ '' '' @ l_user link @ '' '' @ ppt);
         let buf2 = snpf 400 (l_host link @ '':'' @ decimal_int (l_port link) @ [LF]);
         (th, c) \<leftarrow> writelist buf buf2 afile [] (fst s);
         Some (u\<lparr>u_dcc := dcc\<rparr>, (c, snd s))
       }
     }"

section \<open>Loading the entries\<close>

definition split_at :: "char \<Rightarrow> string \<Rightarrow> (string \<times> string) option" where
  "split_at c s = map_option (\<lambda>i. (take i s, drop (i + 1) s)) (strchr s c)"

text \<open>The last separator, which the loop over \<open>spt\<close> looks for.\<close>

fun split_last :: "char \<Rightarrow> string \<Rightarrow> (string \<times> string) option" where
  "split_last c [] = None"
| "split_last c (x # xs) =
     (case split_last c xs of
        Some (a, b) \<Rightarrow> Some (x # a, b)
      | None \<Rightarrow> if x = c then Some ([], xs) else None)"

text \<open>The name, the user, the password, the host and the port of an entry.\<close>

definition dcc_fields :: "string \<Rightarrow> (string \<times> string \<times> string \<times> string \<times> int) option" where
  "dcc_fields entry =
     do {
       (npt, r1) \<leftarrow> split_at (CHR '' '') entry;
       (lpt, r2) \<leftarrow> split_at (CHR '' '') r1;
       (ppt, r3) \<leftarrow> split_at (CHR '';'') r2;
       (hpt, spt) \<leftarrow> split_last (CHR '':'') r3;
       Some (npt, lpt, ppt, hpt, atoi spt)
     }"

definition load_dcc :: "salt \<Rightarrow> int \<Rightarrow> store \<Rightarrow> nat \<Rightarrow> usert option \<Rightarrow> usert option" where
  "load_dcc sl usern s cnt uo =
     do {
       u \<leftarrow> uo;
       let (rc, value) = getini ''DCC'' (snpf 30 (''ENTRY'' @ decimal_int (int cnt))) (snpf 30 (''USER'' @ decimal_int usern)) (fst s);
       case (if rc = 0 then dcc_fields value else None) of
         None \<Rightarrow> Some u
       | Some (npt, lpt, ppt, hpt, port) \<Rightarrow>
           do {
             pass \<leftarrow> decryptit sl ppt;
             (u, s') \<leftarrow> adddcc sl usern hpt port lpt pass npt True u s;
             Some u
           }
     }"

definition loaddccs :: "salt \<Rightarrow> int \<Rightarrow> store \<Rightarrow> usert \<Rightarrow> usert option" where
  "loaddccs sl usern s u = fold (load_dcc sl usern s) [0..<20] (Some u)"

text \<open>A password of 20 characters or more is written behind its array.\<close>

lemma adddcc_overflow:
  assumes "20 \<le> length pass"
  shows "adddcc sl usern host port luser pass name noini u s = None"
  using assms by (simp add: adddcc_def new_dcc_def strmncpy_def Let_def split: Option.bind_split)

end
