(* ===== verification/Blowfish.thy ===== *)
theory Blowfish
  imports Blowfish_Tables BlockCipher
begin

text \<open>
  The block cipher of src/p_blowfish.c and the string encryption built on it. The arrays
  \<open>bf_P\<close> and \<open>bf_S\<close> are the fields of a state record; words are 32 bits wide and wrap.
  A key is shorter than \<open>2^15\<close> bytes, the range of \<open>short keybytes\<close>.
  Byte 0 of \<open>union aword\<close> is the most significant byte, and the buffers are read and written
  least significant byte first (the build without \<open>BIGENDIAN\<close>).

  The four macros \<open>S0\<close> to \<open>S3\<close> all select \<open>bf_S[0]\<close> and \<open>byte0\<close>; they are modelled as they
  are written.
\<close>

unbundle bit_operations_syntax

type_synonym word32 = "32 word"

record bf_state =
  bf_P :: "word32 list"
  bf_S :: "word32 list list"

section \<open>Words and bytes\<close>

definition byte0 :: "word32 \<Rightarrow> nat" where
  "byte0 x = unat (drop_bit 24 x)"

definition aword :: "byte \<Rightarrow> byte \<Rightarrow> byte \<Rightarrow> byte \<Rightarrow> word32" where
  "aword b0 b1 b2 b3 =
     push_bit 24 (ucast b0) OR push_bit 16 (ucast b1) OR push_bit 8 (ucast b2) OR ucast b3"

text \<open>\<open>memcpy\<close> between four bytes and a word on a little-endian machine.\<close>

definition word_le :: "byte list \<Rightarrow> word32" where
  "word_le bs = aword (bs ! 3) (bs ! 2) (bs ! 1) (bs ! 0)"

definition bytes_le :: "word32 \<Rightarrow> byte list" where
  "bytes_le w = [ucast w, ucast (drop_bit 8 w), ucast (drop_bit 16 w), ucast (drop_bit 24 w)]"

section \<open>The cipher\<close>

definition S0 :: "bf_state \<Rightarrow> word32 \<Rightarrow> word32" where
  "S0 st x = bf_S st ! 0 ! byte0 x"

definition S1 :: "bf_state \<Rightarrow> word32 \<Rightarrow> word32" where
  "S1 st x = bf_S st ! 0 ! byte0 x"

definition S2 :: "bf_state \<Rightarrow> word32 \<Rightarrow> word32" where
  "S2 st x = bf_S st ! 0 ! byte0 x"

definition S3 :: "bf_state \<Rightarrow> word32 \<Rightarrow> word32" where
  "S3 st x = bf_S st ! 0 ! byte0 x"

definition bf_F :: "bf_state \<Rightarrow> word32 \<Rightarrow> word32" where
  "bf_F st x = ((S0 st x + S1 st x) XOR S2 st x) + S3 st x"

definition ROUND :: "bf_state \<Rightarrow> word32 \<Rightarrow> word32 \<Rightarrow> nat \<Rightarrow> word32" where
  "ROUND st a b n = a XOR (bf_F st b XOR bf_P st ! n)"

text \<open>Two rounds, \<open>ROUND (Xr, Xl, i); ROUND (Xl, Xr, j)\<close>, on the pair \<open>(Xl, Xr)\<close>.\<close>

definition ROUND2 :: "bf_state \<Rightarrow> nat \<times> nat \<Rightarrow> word32 \<times> word32 \<Rightarrow> word32 \<times> word32" where
  "ROUND2 st ij x =
     (let Xr = ROUND st (snd x) (fst x) (fst ij);
          Xl = ROUND st (fst x) Xr (snd ij)
      in (Xl, Xr))"

definition Blowfish_encipher :: "bf_state \<Rightarrow> word32 \<times> word32 \<Rightarrow> word32 \<times> word32" where
  "Blowfish_encipher st x =
     (case fold (ROUND2 st)
             [(1, 2), (3, 4), (5, 6), (7, 8), (9, 10), (11, 12), (13, 14), (15, 16)]
             (fst x XOR bf_P st ! 0, snd x)
      of (Xl, Xr) \<Rightarrow> (Xr XOR bf_P st ! 17, Xl))"

definition Blowfish_decipher :: "bf_state \<Rightarrow> word32 \<times> word32 \<Rightarrow> word32 \<times> word32" where
  "Blowfish_decipher st x =
     (case fold (ROUND2 st)
             [(16, 15), (14, 13), (12, 11), (10, 9), (8, 7), (6, 5), (4, 3), (2, 1)]
             (fst x XOR bf_P st ! 17, snd x)
      of (Xl, Xr) \<Rightarrow> (Xr XOR bf_P st ! 0, Xl))"

section \<open>Key setup\<close>

text \<open>\<open>key[j]\<close> for \<open>j < keybytes\<close>; the caller's buffer has at least that many bytes.\<close>

definition key_word :: "byte list \<Rightarrow> nat \<Rightarrow> nat \<Rightarrow> word32" where
  "key_word key keybytes j =
     aword (key ! j) (key ! ((j + 1) mod keybytes)) (key ! ((j + 2) mod keybytes))
       (key ! ((j + 3) mod keybytes))"

definition mix_key :: "byte list \<Rightarrow> nat \<Rightarrow> word32 list \<Rightarrow> word32 list" where
  "mix_key key keybytes P =
     fst (fold (\<lambda>i (P, j). (P[i := P ! i XOR key_word key keybytes j], (j + 4) mod keybytes))
            [0..<18] (P, 0))"

definition fill_P :: "nat \<Rightarrow> bf_state \<times> word32 \<times> word32 \<Rightarrow> bf_state \<times> word32 \<times> word32" where
  "fill_P i s =
     (case s of (st, d) \<Rightarrow>
        let d' = Blowfish_encipher st d
        in (st\<lparr>bf_P := (bf_P st)[2 * i := fst d', 2 * i + 1 := snd d']\<rparr>, d'))"

definition fill_S :: "nat \<times> nat \<Rightarrow> bf_state \<times> word32 \<times> word32 \<Rightarrow> bf_state \<times> word32 \<times> word32" where
  "fill_S ij s =
     (case (ij, s) of ((i, j), (st, d)) \<Rightarrow>
        let d' = Blowfish_encipher st d
        in (st\<lparr>bf_S := (bf_S st)[i := (bf_S st ! i)[2 * j := fst d', 2 * j + 1 := snd d']]\<rparr>, d'))"

definition InitializeBlowfish :: "byte list \<Rightarrow> nat \<Rightarrow> bf_state" where
  "InitializeBlowfish key keybytes0 =
     (let keybytes = (if keybytes0 > 56 then 56 else keybytes0);
          st0 = \<lparr>bf_P = mix_key key keybytes initbf_P, bf_S = initbf_S\<rparr>;
          s1 = fold fill_P [0..<9] (st0, 0, 0);
          s2 = fold fill_S (List.product [0..<4] [0..<128]) s1
      in fst s2)"

section \<open>String encryption\<close>

definition blow_encb :: "bf_state \<Rightarrow> byte list \<Rightarrow> byte list" where
  "blow_encb st b =
     (case Blowfish_encipher st (word_le (take 4 b), word_le (take 4 (drop 4 b)))
      of (left, right) \<Rightarrow> bytes_le right @ bytes_le left)"

definition blow_decb :: "bf_state \<Rightarrow> byte list \<Rightarrow> byte list" where
  "blow_decb st b =
     (case Blowfish_decipher st (word_le (take 4 (drop 4 b)), word_le (take 4 b))
      of (left, right) \<Rightarrow> bytes_le left @ bytes_le right)"

text \<open>
  \<open>while (*p)\<close>: \<open>p\<close> is the rest of the text, behind which the copy holds eight zero bytes.
\<close>

function blow_enc_loop :: "bf_state \<Rightarrow> string \<Rightarrow> string option" where
  "blow_enc_loop st p =
     (if at p 0 = NUL then Some []
      else let rim = blow_encb st (map byte_of (take 8 (p @ replicate 8 NUL))) in
        case (hashstring (take 4 rim), hashstring (drop 4 rim)) of
          (Some a, Some b) \<Rightarrow> map_option (\<lambda>t. a @ b @ t) (blow_enc_loop st (drop 8 p))
        | _ \<Rightarrow> None)"
  by pat_completeness auto
termination
  by (relation "measure (\<lambda>(st, p). length p)") (auto simp: at_def split: if_splits)

declare blow_enc_loop.simps [simp del]

definition BLOWencrypt :: "bf_state \<Rightarrow> string \<Rightarrow> string option" where
  "BLOWencrypt st str = blow_enc_loop st str"

function blow_dec_loop :: "bf_state \<Rightarrow> nat \<Rightarrow> byte list \<Rightarrow> byte list" where
  "blow_dec_loop st ln p =
     (if ln = 0 then []
      else blow_decb st (take 8 p) @ blow_dec_loop st (ln - 8) (drop 8 p))"
  by pat_completeness auto
termination
  by (relation "measure (\<lambda>(st, ln, p). ln)") auto

declare blow_dec_loop.simps [simp del]

definition BLOWdecrypt :: "bf_state \<Rightarrow> bool \<Rightarrow> string \<Rightarrow> string \<times> bool" where
  "BLOWdecrypt st wrong0 str =
     (case unhashstring wrong0 str of
        (s, wrong) \<Rightarrow>
          if wrong then ([], wrong)
          else (cstr (map char_of_byte (blow_dec_loop st (length str div 2) s)), wrong))"

text \<open>The key is padded with blanks into a 65-byte buffer (messages 1 and 2 of the language file).\<close>

definition blow_keybytes :: "string \<Rightarrow> nat" where
  "blow_keybytes key = ((length key + 4) div 4) * 4"

definition BLOW_stringencrypt :: "string \<Rightarrow> string \<Rightarrow> string option" where
  "BLOW_stringencrypt input key =
     (let ek = snpf 65 (key @ replicate 61 (CHR '' '')) in
      BLOWencrypt (InitializeBlowfish (map byte_of ek) (blow_keybytes key)) input)"

definition BLOW_stringdecrypt :: "bool \<Rightarrow> string \<Rightarrow> string \<Rightarrow> string \<times> bool" where
  "BLOW_stringdecrypt wrong input key =
     (let ek = snpf 65 (key @ replicate 60 (CHR '' '')) in
      BLOWdecrypt (InitializeBlowfish (map byte_of ek) (blow_keybytes key)) wrong input)"

section \<open>The cipher: correctness\<close>

lemma bit_byte_ge: "8 \<le> n \<Longrightarrow> \<not> bit (b :: byte) n"
  using bit_imp_le_length [of b n] by auto

lemma bit_aword:
  assumes "n < 32"
  shows "bit (aword b0 b1 b2 b3) n \<longleftrightarrow>
    (if n < 8 then bit b3 n else if n < 16 then bit b2 (n - 8)
     else if n < 24 then bit b1 (n - 16) else bit b0 (n - 24))"
proof -
  consider "n < 8" | "8 \<le> n" "n < 16" | "16 \<le> n" "n < 24" | "24 \<le> n" by linarith
  then show ?thesis
    using assms
    by cases (auto simp: aword_def bit_or_iff bit_push_bit_iff bit_unsigned_iff bit_byte_ge)
qed

lemma length_4E:
  assumes "length bs = 4"
  obtains a b c d where "bs = [a, b, c, d]"
  using assms by (cases bs; cases "tl bs"; cases "tl (tl bs)"; cases "tl (tl (tl bs))") auto

lemma word_le_bytes_le [simp]: "word_le (bytes_le w) = w"
proof (rule bit_word_eqI)
  fix n assume "n < LENGTH(32)"
  then have n: "n < 32" by simp
  consider "n < 8" | "8 \<le> n" "n < 16" | "16 \<le> n" "n < 24" | "24 \<le> n" by linarith
  then show "bit (word_le (bytes_le w)) n \<longleftrightarrow> bit w n"
    using n by cases (auto simp: word_le_def bytes_le_def bit_aword bit_unsigned_iff bit_drop_bit_eq)
qed

lemma length_bytes_le [simp]: "length (bytes_le w) = 4"
  by (simp add: bytes_le_def)

lemma bytes_le_word_le [simp]:
  assumes "length bs = 4"
  shows "bytes_le (word_le bs) = bs"
proof -
  obtain a b c d where bs: "bs = [a, b, c, d]" using assms by (rule length_4E)
  have "ucast (drop_bit k (aword d c b a)) = (if k = 0 then a else if k = 8 then b else if k = 16 then c else d)"
    if "k \<in> {0, 8, 16, 24}" for k :: nat
    by (rule bit_word_eqI) (use that in \<open>auto simp: bit_unsigned_iff bit_drop_bit_eq bit_aword\<close>)
  from this [of 0] this [of 8] this [of 16] this [of 24] show ?thesis
    by (simp add: bs bytes_le_def word_le_def)
qed

lemma ROUND2_inverse [simp]: "ROUND2 st (j, i) (prod.swap (ROUND2 st (i, j) x)) = prod.swap x"
  by (cases x) (simp add: ROUND2_def ROUND_def Let_def xor.assoc xor.left_commute)

text \<open>Running the rounds backwards on the swapped halves undoes them.\<close>

lemma fold_ROUND2_inverse:
  "fold (ROUND2 st) (map prod.swap (rev ijs)) (prod.swap (fold (ROUND2 st) ijs x)) = prod.swap x"
proof (induction ijs arbitrary: x)
  case (Cons ij ijs)
  then show ?case by (cases ij) simp
qed simp

abbreviation bf_rounds :: "(nat \<times> nat) list" where
  "bf_rounds \<equiv> [(1, 2), (3, 4), (5, 6), (7, 8), (9, 10), (11, 12), (13, 14), (15, 16)]"

lemma rounds_swap:
  assumes "fold (ROUND2 st) ijs x = (Xl, Xr)"
  shows "fold (ROUND2 st) (map prod.swap (rev ijs)) (Xr, Xl) = prod.swap x"
  using fold_ROUND2_inverse [of st ijs x] assms by simp

lemma decipher_encipher: "Blowfish_decipher st (Blowfish_encipher st x) = x"
proof -
  let ?x0 = "(fst x XOR bf_P st ! 0, snd x)"
  obtain Xl Xr where y: "fold (ROUND2 st) bf_rounds ?x0 = (Xl, Xr)" by fastforce
  from rounds_swap [OF this] show ?thesis
    unfolding Blowfish_decipher_def Blowfish_encipher_def y
    by (simp add: xor.assoc del: fold_simps)
qed

lemma encipher_decipher: "Blowfish_encipher st (Blowfish_decipher st x) = x"
proof -
  let ?x0 = "(fst x XOR bf_P st ! 17, snd x)"
  obtain Xl Xr where y: "fold (ROUND2 st) (map prod.swap (rev bf_rounds)) ?x0 = (Xl, Xr)" by fastforce
  from rounds_swap [OF this] show ?thesis
    using y unfolding Blowfish_decipher_def Blowfish_encipher_def
    by (simp add: xor.assoc del: fold_simps)
qed

text \<open>
  For every content of the subkey array and the boxes, enciphering and deciphering are
  inverse permutations of the 64-bit blocks.
\<close>

theorem Blowfish_cipher_inverse:
  "Blowfish_decipher st (Blowfish_encipher st x) = x \<and>
   Blowfish_encipher st (Blowfish_decipher st x) = x"
  by (simp add: decipher_encipher encipher_decipher)

section \<open>Blocks and strings: correctness\<close>

lemma blow_decb_encb:
  assumes "length b = 8"
  shows "blow_decb st (blow_encb st b) = b"
proof -
  have d: "take 4 (drop 4 b) = drop 4 b" using assms by simp
  let ?l = "word_le (take 4 b)" and ?r = "word_le (drop 4 b)"
  obtain l r where lr: "Blowfish_encipher st (?l, ?r) = (l, r)" by fastforce
  then have "Blowfish_decipher st (l, r) = (?l, ?r)"
    using decipher_encipher [of st "(?l, ?r)"] by simp
  then show ?thesis
    using assms unfolding blow_decb_def blow_encb_def d lr by simp
qed

lemma length_blow_encb: "length (blow_encb st b) = 8"
  by (simp add: blow_encb_def split: prod.splits)

interpretation bf: block_cipher "blow_encb st" "blow_decb st" for st
  by unfold_locales (simp_all add: length_blow_encb blow_decb_encb)

lemma hashstring_append:
  "hashstring (a @ b) =
     (case (hashstring a, hashstring b) of (Some x, Some y) \<Rightarrow> Some (x @ y) | _ \<Rightarrow> None)"
  by (induction a) (auto split: option.splits)

lemma zero_pad_short:
  assumes "p \<noteq> []" and "length p \<le> 8"
  shows "zero_pad (map byte_of p) = map byte_of (take 8 (p @ replicate 8 NUL))"
proof -
  have n: "byte_of NUL = 0" by simp
  show ?thesis
  proof (cases "length p = 8")
    case False
    then have "length p < 8" using assms by simp
    then show ?thesis using assms by (simp add: zero_pad_def map_replicate_const n min_def)
  qed (simp add: zero_pad_def)
qed

lemma zero_pad_step: "8 \<le> length p \<Longrightarrow> zero_pad p = take 8 p @ zero_pad (drop 8 p)"
  by (simp add: zero_pad_def) (metis append_take_drop_id append_assoc le_add_diff_inverse mod_add_self1)

lemma zero_pad_Nil [simp]: "zero_pad [] = []"
  by (simp add: zero_pad_def)

text \<open>The encryption loop enciphers the zero-padded text block by block and encodes the result.\<close>

lemma blow_enc_loop_eq:
  "no_nul p \<Longrightarrow> blow_enc_loop st p = hashstring (map_blocks (blow_encb st) (zero_pad (map byte_of p)))"
proof (induction st p rule: blow_enc_loop.induct)
  case (1 st p)
  show ?case
  proof (cases "p = []")
    case True
    then show ?thesis by (simp add: blow_enc_loop.simps at_def)
  next
    case False
    then have "at p 0 \<noteq> NUL" using "1.prems" by (cases p) (auto simp: at_def)
    define b where "b = map byte_of (take 8 (p @ replicate 8 NUL))"
    let ?c = "blow_encb st b" and ?rest = "map_blocks (blow_encb st) (zero_pad (map byte_of (drop 8 p)))"
    have pad: "zero_pad (map byte_of p) = b @ zero_pad (map byte_of (drop 8 p))"
    proof (cases "8 \<le> length p")
      case True
      then show ?thesis by (simp add: b_def zero_pad_step drop_map take_map)
    next
      case short: False
      then show ?thesis using zero_pad_short [OF False] by (simp add: b_def)
    qed
    obtain x y where xy: "hashstring (take 4 ?c) = Some x" "hashstring (drop 4 ?c) = Some y"
      using hashstring_total by blast
    then have c: "hashstring ?c = Some (x @ y)"
      using hashstring_append [of "take 4 ?c" "drop 4 ?c"] by simp
    have rest: "blow_enc_loop st (drop 8 p) = hashstring ?rest"
      using "1.IH" [OF \<open>at p 0 \<noteq> NUL\<close> refl refl xy [unfolded b_def]] "1.prems" by simp
    obtain z where z: "hashstring ?rest = Some z" using hashstring_total by blast
    have "length b = 8" by (simp add: b_def)
    then show ?thesis
      using \<open>at p 0 \<noteq> NUL\<close> xy c rest z
      unfolding blow_enc_loop.simps [of st p] pad Let_def b_def [symmetric]
      by (simp add: map_blocks_append hashstring_append)
  qed
qed

lemma blow_dec_loop_eq:
  "8 dvd length bs \<Longrightarrow> blow_dec_loop st (length bs) (bs @ t) = map_blocks (blow_decb st) bs"
proof (induction bs rule: blocks_induct)
  case (Block b bs)
  then show ?case by (subst blow_dec_loop.simps) (simp add: map_blocks_append)
qed (simp add: blow_dec_loop.simps)


lemma BLOWdecrypt_encrypt:
  assumes "no_nul s"
  shows "\<exists>t. BLOWencrypt st s = Some t \<and> fst (BLOWdecrypt st wrong t) = s"
proof -
  let ?pad = "zero_pad (map byte_of s)"
  let ?c = "map_blocks (blow_encb st) ?pad"
  obtain t where t: "hashstring ?c = Some t" "length t = 2 * length ?c"
    using hashstring_total by blast
  have len: "length ?c = length ?pad" by (simp add: bf.length_map_encb)
  then have dvd: "8 dvd length ?c" by simp
  have enc: "BLOWencrypt st s = Some t"
    using assms t by (simp add: BLOWencrypt_def blow_enc_loop_eq)
  show ?thesis
  proof (cases "s = []")
    case True
    then have "t = []" using t by simp
    with True enc show ?thesis
      by (auto simp: BLOWdecrypt_def blow_dec_loop.simps [of st 0] split: prod.splits)
  next
    case False
    then have "?c \<noteq> []" using len by (auto simp: zero_pad_def)
    then have u: "unhashstring wrong t = (?c @ replicate 11 0, False)"
      using unhashstring_hashstring t(1) by blast
    have "blow_dec_loop st (length ?c) (?c @ replicate 11 0) = ?pad"
      by (simp add: blow_dec_loop_eq [OF dvd] bf.map_decb_map_encb)
    then have "fst (BLOWdecrypt st wrong t) = cstr (map char_of_byte ?pad)"
      using t(2) u by (simp add: BLOWdecrypt_def)
    then show ?thesis using enc cstr_zero_pad [OF assms, of 0] by simp
  qed
qed

lemma BLOWencrypt_length:
  assumes "no_nul s" "BLOWencrypt st s = Some t"
  shows "length t \<le> 2 * (length s + 7)"
proof -
  let ?c = "map_blocks (blow_encb st) (zero_pad (map byte_of s))"
  have "hashstring ?c = Some t" using assms by (simp add: BLOWencrypt_def blow_enc_loop_eq)
  moreover have "length ?c \<le> length s + 7" by (simp add: bf.length_map_encb, simp add: zero_pad_def)
  ultimately show ?thesis using hashstring_total [of ?c] by auto
qed

section \<open>Key setup: correctness\<close>

text \<open>Only the bytes in front of \<open>keybytes\<close> reach the key schedule.\<close>

lemma mix_key_cong:
  assumes "0 < n" and "\<And>j. j < n \<Longrightarrow> key ! j = key' ! j"
  shows "mix_key key n P = mix_key key' n P"
proof -
  let ?f = "\<lambda>k i (P, j). (P[i := P ! i XOR key_word k n j], (j + 4) mod n)"
  have kw: "j < n \<Longrightarrow> key_word key n j = key_word key' n j" for j
    using assms by (simp add: key_word_def)
  have "j < n \<Longrightarrow> fold (?f key) is (P, j) = fold (?f key') is (P, j)" for "is" P j
    using assms(1) kw by (induction "is" arbitrary: P j) auto
  from this [of 0] show ?thesis using assms(1) by (simp add: mix_key_def)
qed

lemma InitializeBlowfish_cong:
  assumes "0 < n" and "\<And>j. j < min n 56 \<Longrightarrow> key ! j = key' ! j"
  shows "InitializeBlowfish key n = InitializeBlowfish key' n"
proof -
  have "mix_key key (if n > 56 then 56 else n) initbf_P =
      mix_key key' (if n > 56 then 56 else n) initbf_P"
    using assms by (intro mix_key_cong) (auto split: if_splits)
  then show ?thesis by (simp add: InitializeBlowfish_def)
qed

definition bf_ok :: "bf_state \<Rightarrow> bool" where
  "bf_ok st \<longleftrightarrow> length (bf_P st) = 18 \<and> length (bf_S st) = 4 \<and> (\<forall>s \<in> set (bf_S st). length s = 256)"

lemma bf_ok_fill_P: "bf_ok (fst s) \<Longrightarrow> bf_ok (fst (fill_P i s))"
  by (cases s) (simp add: bf_ok_def fill_P_def Let_def)

lemma bf_ok_fill_S: "bf_ok (fst s) \<Longrightarrow> fst ij < 4 \<Longrightarrow> bf_ok (fst (fill_S ij s))"
  by (auto simp: bf_ok_def fill_S_def Let_def dest!: set_update_subset_insert [THEN subsetD]
      split: prod.splits)

lemma length_mix_key: "length (mix_key key n P) = length P"
proof -
  let ?f = "\<lambda>i (P, j). (P[i := P ! i XOR key_word key n j], (j + 4) mod n)"
  have "length (fst (fold ?f is (P, j))) = length P" for "is" P j
    by (induction "is" arbitrary: P j) auto
  then show ?thesis by (simp add: mix_key_def)
qed

lemma fold_invariant:
  assumes "\<And>x s. x \<in> set xs \<Longrightarrow> I s \<Longrightarrow> I (f x s)"
  shows "I s \<Longrightarrow> I (fold f xs s)"
  using assms by (induction xs arbitrary: s) auto

lemma byte0_less: "byte0 x < 256"
proof -
  have "unat (drop_bit 24 x) = drop_bit 24 (unat x)" by (rule unat_drop_bit_eq)
  also have "\<dots> = unat x div 2 ^ 24" by (rule drop_bit_eq_div)
  finally have "unat (drop_bit 24 x) = unat x div 2 ^ 24" .
  moreover have "unat x < 2 ^ 32" using unsigned_less [of x, where 'a = nat] by simp
  ultimately show ?thesis unfolding byte0_def by (simp add: less_mult_imp_div_less)
qed

text \<open>
  Key setup leaves the cipher with its 18 subkeys and four boxes of 256 words, whatever
  the key, so every table access of the cipher is inside its array.
\<close>

theorem InitializeBlowfish_ok:
  "bf_ok (InitializeBlowfish key n) \<and>
   byte0 x < length (bf_S (InitializeBlowfish key n) ! 0)"
proof -
  let ?st0 = "\<lparr>bf_P = mix_key key (if n > 56 then 56 else n) initbf_P, bf_S = initbf_S\<rparr>"
  have "bf_ok (fst (fold fill_P [0..<9] (?st0, 0, 0)))"
  proof (rule fold_invariant)
    show "bf_ok (fst (?st0, 0 :: word32, 0 :: word32))"
      by (simp add: bf_ok_def length_mix_key length_initbf_P length_initbf_S length_initbf_S_rows)
  qed (rule bf_ok_fill_P)
  then have "bf_ok (fst (fold fill_S (List.product [0..<4] [0..<128]) (fold fill_P [0..<9] (?st0, 0, 0))))"
  proof (rule fold_invariant [rotated])
    fix ij s assume "ij \<in> set (List.product [0..<4] [0..<128 :: nat])"
    then have "fst ij < (4 :: nat)" by (auto simp del: upt_rec_numeral)
    then show "bf_ok (fst s) \<Longrightarrow> bf_ok (fst (fill_S ij s))" by (rule bf_ok_fill_S [rotated])
  qed
  then have "bf_ok (InitializeBlowfish key n)"
    by (simp only: InitializeBlowfish_def Let_def)
  moreover from this have "length (bf_S (InitializeBlowfish key n) ! 0) = 256"
    by (auto simp: bf_ok_def)
  ultimately show ?thesis by (simp add: byte0_less)
qed

lemma BLOW_string_back:
  assumes "no_nul s"
  shows "\<exists>t. BLOW_stringencrypt s key = Some t \<and> length t \<le> 2 * (length s + 7) \<and>
    (\<forall>wrong. fst (BLOW_stringdecrypt wrong t key) = s)"
proof -
  let ?ek = "\<lambda>n. map byte_of (snpf 65 (key @ replicate n (CHR '' '')))"
  have "j < 56 \<Longrightarrow> ?ek 61 ! j = ?ek 60 ! j" for j
  proof (cases "j < length key")
    case False
    assume "j < 56"
    with False have "j - length key < min (64 - length key) 61"
      "j - length key < min (64 - length key) 60" by linarith+
    with False show ?thesis by (simp add: snpf_def nth_append)
  qed (simp add: snpf_def nth_append)
  then have "InitializeBlowfish (?ek 61) (blow_keybytes key) =
      InitializeBlowfish (?ek 60) (blow_keybytes key)"
    by (intro InitializeBlowfish_cong) (auto simp: blow_keybytes_def)
  then show ?thesis
    using BLOWdecrypt_encrypt [OF assms, of "InitializeBlowfish (?ek 60) (blow_keybytes key)"]
      BLOWencrypt_length [OF assms, of "InitializeBlowfish (?ek 60) (blow_keybytes key)"]
    by (simp add: BLOW_stringencrypt_def BLOW_stringdecrypt_def Let_def) (metis option.inject)
qed

text \<open>
  (C31) String encryption with a key is undone by string decryption with the same key: every
  C string of any length is encrypted, and decrypting the printable result gives the string
  back, although the two functions pad the key with a different number of blanks.
\<close>

theorem BLOW_stringdecrypt_encrypt:
  assumes "no_nul s"
  shows "\<exists>t. BLOW_stringencrypt s key = Some t \<and> fst (BLOW_stringdecrypt wrong t key) = s"
  using BLOW_string_back [OF assms] by blast

theorem BLOW_stringdecrypt_encrypt_witness:
  "\<exists>t. BLOW_stringencrypt ''PRIVMSG #psybnc :hello'' ''k3y'' = Some t \<and>
     fst (BLOW_stringdecrypt True t ''k3y'') = ''PRIVMSG #psybnc :hello''"
  by (rule BLOW_stringdecrypt_encrypt) simp

text \<open>
  The four box macros select the same box with the same byte, so the round function sees
  only the most significant byte of its argument: words that agree there have the same image.
  (Blowfish itself selects one box per byte.)
\<close>

theorem bf_F_one_byte:
  assumes "byte0 x = byte0 y"
  shows "bf_F st x = bf_F st y"
  using assms by (simp add: bf_F_def S0_def S1_def S2_def S3_def)

theorem bf_F_one_byte_witness:
  "bf_F (InitializeBlowfish [1, 2, 3, 4] 4) 0x12000000 = bf_F (InitializeBlowfish [1, 2, 3, 4] 4) 0x12ABCDEF"
  by (rule bf_F_one_byte) (simp add: byte0_def)

end
