(* ===== verification/Userfile.thy ===== *)
theory Userfile
  imports Dcc Blowfish
begin

text \<open>
  Users and links in the configuration, src/p_userfile.c. A user is saved entry by entry, an empty
  text erasing its entry, and loaded entry by entry with a default for each that is missing.

  The calls that reach sockets, log and scripts are returned as a list; the answers of the operating
  system (whether the traffic log can be opened) and the random password are arguments.
\<close>

section \<open>Saving a user\<close>

text \<open>Numbers are printed into a buffer of 8 bytes.\<close>

definition iset :: "int \<Rightarrow> string" where
  "iset n = snpf 8 (decimal_int n)"

text \<open>The key for the passwords; its buffer has 100 bytes.\<close>

definition pass_salt :: "salt \<Rightarrow> string option" where
  "pass_salt sl = (if length (slt1 sl @ slt2 sl) < 100 then Some (slt1 sl @ slt2 sl) else None)"

definition store_set :: "string \<Rightarrow> string \<Rightarrow> string \<times> string \<Rightarrow> store option \<Rightarrow> store option" where
  "store_set section fname kv so = do { s \<leftarrow> so; store_write section (fst kv) fname (Some (snd kv)) s }"

definition user_entries :: "usert \<Rightarrow> (string \<times> string) list" where
  "user_entries u =
     [(''NICK'', u_nick u), (''LOGIN'', u_login u), (''USER'', u_user u), (''PASS'', u_pass u),
      (''VHOST'', u_vhost u), (''PROXY'', u_proxy u), (''AWAY'', u_away u), (''LEAVEMSG'', u_leavemsg u),
      (''AWAYNICK'', u_awaynick u), (''NETWORK'', u_network u), (''RIGHTS'', iset (u_rights u)),
      (''VLINK'', iset (u_vlink u)), (''PPORT'', iset (u_pport u)), (''PARENT'', iset (u_parent u)),
      (''QUITTED'', iset (u_quitted u)), (''DCCENABLED'', iset (u_dccenabled u)),
      (''AUTOGETDCC'', iset (u_autogetdcc u)), (''AIDLE'', iset (u_antiidle u)),
      (''LEAVEQUIT'', iset (u_leavequit u)), (''AUTOREJOIN'', iset (u_autorejoin u)),
      (''SYSMSG'', iset (u_sysmsg u)), (''LASTLOG'', iset (u_lastlog u)), (''LASTWHOIS'', [])]"

definition crypt_pass :: "salt \<Rightarrow> usert \<Rightarrow> usert option" where
  "crypt_pass sl u =
     (if at (u_pass u) 0 \<noteq> CHR ''=''
      then do {
        buf \<leftarrow> pass_salt sl;
        pt \<leftarrow> BLOW_stringencrypt buf (u_pass u);
        Some (u\<lparr>u_pass := snpf 20 (''='' @ pt)\<rparr>)
      }
      else Some u)"

definition writeuser :: "salt \<Rightarrow> int \<Rightarrow> usert \<Rightarrow> store \<Rightarrow> (usert \<times> store) option" where
  "writeuser sl usern u s =
     do {
       let fname = snpf 20 (''USER'' @ decimal_int usern);
       u' \<leftarrow> crypt_pass sl u;
       s' \<leftarrow> fold (store_set ''USER'' fname) (user_entries u') (Some s);
       Some (u', flush_store s')
     }"

section \<open>Loading a user\<close>

definition load_str :: "conf \<Rightarrow> string \<Rightarrow> string \<Rightarrow> string" where
  "load_str c fname param = snd (getini ''USER'' param fname c)"

definition load_int :: "conf \<Rightarrow> string \<Rightarrow> string \<Rightarrow> int \<Rightarrow> int" where
  "load_int c fname param dflt =
     (case getini ''USER'' param fname c of (rc, value) \<Rightarrow> if rc \<noteq> 0 then dflt else atoi value)"

definition load_nick :: "conf \<Rightarrow> string \<Rightarrow> int \<Rightarrow> string" where
  "load_nick c fname usernum =
     (case getini ''USER'' ''NICK'' fname c of
        (rc, value) \<Rightarrow> if rc \<noteq> 0 then snpf 200 (''psy'' @ decimal_int usernum) else value)"

datatype load_effect =
    LogNoPass string
  | LogWarning string
  | WriteSock int string
  | KillSock int
  | KillGroup int
  | ClearUser "clear_effect list"
  | LoadScript int

text \<open>A password that is not yet encrypted is encrypted and written back.\<close>

definition load_pass :: "salt \<Rightarrow> string \<Rightarrow> string \<Rightarrow> string \<Rightarrow> store \<Rightarrow> (load_effect list \<times> string \<times> store) option" where
  "load_pass sl rnd login fname s =
     do {
       let (rc, value) = getini ''USER'' ''PASS'' fname (fst s);
       let eff = (if rc \<noteq> 0 then [LogNoPass login] else []);
       let value = (if rc \<noteq> 0 then strmncpy rnd 200 else value);
       buf \<leftarrow> pass_salt sl;
       if at value 0 = CHR ''='' then Some (eff, strmncpy value 20, s)
       else do {
         value \<leftarrow> (if at value 0 = CHR ''+'' then map_option (\<lambda>v. strmncpy v 200) (decryptit sl value) else Some value);
         pt \<leftarrow> BLOW_stringencrypt buf value;
         let value = snpf 200 (''='' @ pt);
         s' \<leftarrow> store_write ''USER'' ''PASS'' fname (Some value) s;
         Some (eff, strmncpy value 20, flush_store s')
       }
     }"

text \<open>The entries up to the channels, the channels, and the entries behind them.\<close>

definition load_texts :: "conf \<Rightarrow> string \<Rightarrow> usert \<Rightarrow> usert" where
  "load_texts c fname u =
     u\<lparr>u_vhost := strmncpy (load_str c fname ''VHOST'') 255, u_proxy := strmncpy (load_str c fname ''PROXY'') 255,
       u_away := strmncpy (load_str c fname ''AWAY'') 64, u_awaynick := strmncpy (load_str c fname ''AWAYNICK'') 16,
       u_leavemsg := strmncpy (load_str c fname ''LEAVEMSG'') 64\<rparr>"

definition load_chans :: "salt \<Rightarrow> string \<Rightarrow> int \<Rightarrow> usert \<Rightarrow> store \<Rightarrow> (usert \<times> store) option" where
  "load_chans sl fname usernum u s =
     (case getini ''USER'' ''LASTWHOIS'' fname (fst s) of
        (rc, value) \<Rightarrow>
          if rc = 0 then convertlastwhois usernum value (u\<lparr>u_channels := []\<rparr>) s
          else map_option (\<lambda>u. (u, s)) (loadchannels sl usernum s (u\<lparr>u_channels := []\<rparr>)))"

definition RI_USER :: int where
  "RI_USER = 0"

definition load_numbers :: "conf \<Rightarrow> string \<Rightarrow> usert \<Rightarrow> usert" where
  "load_numbers c fname u =
     u\<lparr>u_network := strmncpy (load_str c fname ''NETWORK'') 10,
       u_rights := load_int c fname ''RIGHTS'' RI_USER, u_quitted := load_int c fname ''QUITTED'' 0,
       u_vlink := load_int c fname ''VLINK'' 0, u_pport := load_int c fname ''PPORT'' 0,
       u_autogetdcc := load_int c fname ''AUTOGETDCC'' 0, u_dccenabled := load_int c fname ''DCCENABLED'' 1,
       u_antiidle := load_int c fname ''AIDLE'' 1, u_leavequit := load_int c fname ''LEAVEQUIT'' 0,
       u_autorejoin := load_int c fname ''AUTOREJOIN'' 0, u_sysmsg := load_int c fname ''SYSMSG'' 1,
       u_lastlog := load_int c fname ''LASTLOG'' 0\<rparr>"

definition load_states :: "usert \<Rightarrow> usert" where
  "load_states u =
     u\<lparr>u_instate := (if u_instate u = STD_NOUSE then STD_NOCON else u_instate u),
       u_outstate := (if u_outstate u = STD_NOUSE then STD_NOCON else u_outstate u)\<rparr>"

definition load_dccs :: "salt \<Rightarrow> int \<Rightarrow> store \<Rightarrow> usert \<Rightarrow> usert option" where
  "load_dccs sl usernum s u =
     (if u_dcc u = [] then loaddccs sl usernum s (u\<lparr>u_dcc := [(0, None)]\<rparr>) else Some u)"

definition load_list :: "int \<Rightarrow> string \<Rightarrow> conf \<Rightarrow> stringarray \<Rightarrow> stringarray" where
  "load_list usernum name c th =
     (if th = [] then loadlist (snpf 100 (''USER'' @ decimal_int usernum @ ''.'' @ name)) th c else th)"

definition load_lists :: "int \<Rightarrow> conf \<Rightarrow> usert \<Rightarrow> usert" where
  "load_lists usernum c u =
     u\<lparr>u_bans := load_list usernum ''BAN'' c (u_bans u), u_ops := load_list usernum ''OP'' c (u_ops u),
       u_aops := load_list usernum ''AOP'' c (u_aops u), u_askops := load_list usernum ''ASK'' c (u_askops u),
       u_logs := load_list usernum ''LGI'' c (u_logs u), u_ignores := load_list usernum ''IGN'' c (u_ignores u),
       u_encrypt := load_list usernum ''ENC'' c (u_encrypt u)\<rparr>"

text \<open>The entries of the user whose login the configuration has.\<close>

definition load_entries ::
  "salt \<Rightarrow> string \<Rightarrow> bool \<Rightarrow> int \<Rightarrow> string \<Rightarrow> usert \<Rightarrow> store \<Rightarrow> (load_effect list \<times> usert \<times> store) option" where
  "load_entries sl rnd logopen usernum fname u s =
     do {
       let c = fst s;
       let u = u\<lparr>u_login := strmncpy (load_str c fname ''LOGIN'') 64, u_parent := load_int c fname ''PARENT'' 0,
                u_user := strmncpy (load_str c fname ''USER'') 64,
                u_nick := strmncpy (load_nick c fname usernum) 64,
                u_wantnick := strmncpy (load_nick c fname usernum) 64\<rparr>;
       (eff, pass, s) \<leftarrow> load_pass sl rnd (u_login u) fname s;
       let u = load_texts (fst s) fname (u\<lparr>u_pass := pass\<rparr>);
       (u, s) \<leftarrow> load_chans sl fname usernum u s;
       let u = load_states (load_numbers (fst s) fname u);
       u \<leftarrow> load_dccs sl usernum s u;
       Some (eff @ [LoadScript usernum], (load_lists usernum (fst s) u)\<lparr>u_trafficlog := logopen\<rparr>, s)
     }"

text \<open>A user whose login is gone: its connections are closed and its structure is cleared.\<close>

definition unload_user :: "int \<Rightarrow> usert \<Rightarrow> load_effect list \<times> usert" where
  "unload_user usernum u =
     (let (e1, u1) = (if u_outstate u > 1
            then ([WriteSock (u_outsock u) (''QUIT :simon says: rehashing'' @ [LF]), KillSock (u_outsock u)],
                  u\<lparr>u_server := [], u_outstate := 0, u_outsock := 0\<rparr>)
            else ([], u));
          (e2, u2) = (if u_instate u1 > 1 \<and> u_parent u1 = 0
            then ([WriteSock (u_insock u1) ('':-psyBNC!psyBNC@psyBNC.dk PRIVMSG '' @ u_nick u1 @ '' :rehashing'' @ [LF]),
                   KillGroup usernum],
                  u1\<lparr>u_host := [], u_instate := 0, u_insock := 0\<rparr>)
            else ([], u1))
      in (e1 @ e2, u2))"

definition loaduser ::
  "salt \<Rightarrow> string \<Rightarrow> bool \<Rightarrow> int \<Rightarrow> usert table \<Rightarrow> store \<Rightarrow> (int \<times> load_effect list \<times> usert table \<times> store) option" where
  "loaduser sl rnd logopen usernum t s =
     (let fname = snpf 100 (''USER'' @ decimal_int usernum) in
      if fst (getini ''USER'' ''LOGIN'' fname (fst s)) \<noteq> 0
      then do {
        (p, t) \<leftarrow> user usernum t;
        u \<leftarrow> content t p;
        let (eff, u') = unload_user usernum u;
        t \<leftarrow> assign p u' t;
        (ceff, t) \<leftarrow> clearuser usernum t;
        Some (-1, eff @ [ClearUser ceff], t, s)
      }
      else do {
        (p, t) \<leftarrow> user usernum (t\<lparr>t_create := True\<rparr>);
        u \<leftarrow> content t p;
        (eff, u', s) \<leftarrow> load_entries sl rnd logopen usernum fname u s;
        t \<leftarrow> assign p u' t;
        Some (0, eff, t, s)
      })"

section \<open>Links\<close>

definition link_entries :: "datalinkt \<Rightarrow> string \<Rightarrow> (string \<times> string) list" where
  "link_entries l pass =
     [(''TYPE'', iset (l_type l)), (''PORT'', iset (l_port l)), (''NAME'', l_name l), (''IAM'', l_iam l),
      (''HOST'', l_host l), (''PASS'', pass), (''ALLOWRELAY'', iset (l_allowrelay l))]"

definition link_section :: "int \<Rightarrow> string" where
  "link_section linkn = snpf 20 (''LINK'' @ decimal_int linkn)"

definition writelink :: "salt \<Rightarrow> int \<Rightarrow> datalinkt \<Rightarrow> store \<Rightarrow> store option" where
  "writelink sl linkn l s =
     do {
       pass \<leftarrow> cryptit sl (l_pass l);
       s' \<leftarrow> fold (store_set (link_section linkn) ''LINKS'') (link_entries l pass) (Some s);
       Some (flush_store s')
     }"

definition eraselinkini :: "int \<Rightarrow> store \<Rightarrow> store option" where
  "eraselinkini linkn s =
     do {
       s' \<leftarrow> fold (store_set (link_section linkn) ''LINKS'')
              [(''TYPE'', []), (''PORT'', []), (''NAME'', []), (''IAM'', []), (''HOST'', []), (''PASS'', []), (''ALLOWRELAY'', [])]
              (Some s);
       Some (flush_store s')
     }"

definition LI_RELAY :: int where
  "LI_RELAY = 3"

definition link_str :: "conf \<Rightarrow> int \<Rightarrow> string \<Rightarrow> string" where
  "link_str c linkn param = snd (getini (link_section linkn) param ''LINKS'' c)"

definition link_int :: "conf \<Rightarrow> int \<Rightarrow> string \<Rightarrow> int" where
  "link_int c linkn param =
     (case getini (link_section linkn) param ''LINKS'' c of (rc, value) \<Rightarrow> if rc \<noteq> 0 then 0 else atoi value)"

definition link_fields :: "salt \<Rightarrow> int \<Rightarrow> conf \<Rightarrow> datalinkt \<Rightarrow> datalinkt option" where
  "link_fields sl linkn c l =
     do {
       pass \<leftarrow> decryptit sl (link_str c linkn ''PASS'');
       Some (l\<lparr>l_type := link_int c linkn ''TYPE'', l_host := strmncpy (link_str c linkn ''HOST'') 400,
         l_port := link_int c linkn ''PORT'', l_allowrelay := link_int c linkn ''ALLOWRELAY'',
         l_pass := strmncpy pass 20, l_name := strmncpy (link_str c linkn ''NAME'') 64,
         l_iam := strmncpy (link_str c linkn ''IAM'') 64, l_instate := STD_NOCON, l_outstate := STD_NOCON,
         l_delayed := 1\<rparr>)
     }"

definition loadlink ::
  "salt \<Rightarrow> int \<Rightarrow> datalinkt table \<Rightarrow> store \<Rightarrow> (load_effect list \<times> datalinkt table) option" where
  "loadlink sl linkn t s =
     do {
       (p, t) \<leftarrow> datalink linkn t;
       l \<leftarrow> content t p;
       if l_type l = LI_RELAY then Some ([], t)
       else do {
         let peer = l_host l @ '' ('' @ decimal_int (l_port l) @ '') closing'' @ [LF];
         let eff = (if l_outstate l = STD_CONN then [LogWarning (''LINK: -> '' @ peer), KillSock (l_outsock l)] else []) @
                   (if l_instate l = STD_CONN then [LogWarning (''LINK: <- '' @ peer), KillSock (l_insock l)] else []);
         t \<leftarrow> clearlink linkn t;
         if fst (getini (link_section linkn) ''TYPE'' ''LINKS'' (fst s)) \<noteq> 0 then Some (eff, t)
         else do {
           (p, t) \<leftarrow> datalink linkn (t\<lparr>t_create := True\<rparr>);
           l \<leftarrow> content t p;
           l' \<leftarrow> link_fields sl linkn (fst s) l;
           t \<leftarrow> assign p l' t;
           Some (eff, t)
         }
       }
     }"

fun loadlinks_loop :: "salt \<Rightarrow> int list \<Rightarrow> datalinkt table \<Rightarrow> store \<Rightarrow> (load_effect list \<times> datalinkt table) option" where
  "loadlinks_loop sl [] t s = Some ([], t)"
| "loadlinks_loop sl (i # rest) t s =
     do {
       (e1, t) \<leftarrow> loadlink sl i t s;
       (e2, t) \<leftarrow> loadlinks_loop sl rest t s;
       Some (e1 @ e2, t)
     }"

definition loadlinks :: "salt \<Rightarrow> datalinkt table \<Rightarrow> store \<Rightarrow> (load_effect list \<times> datalinkt table) option" where
  "loadlinks sl t s = loadlinks_loop sl (map int [1..<MAXCONN + 1]) t s"

section \<open>A sequence of entries\<close>

text \<open>Writing the entries one by one is setting the keys of the store one by one.\<close>

lemma store_set_None: "fold (store_set section fname) kvs None = None"
  by (induction kvs) (simp_all add: store_set_def)

lemma writeini_empty: "writeini section p fname (Some []) c = writeini section p fname None c"
  by (simp add: writeini_def)

lemma store_set_all:
  "fold (store_set section fname) kvs (Some (c, f)) =
     map_option (\<lambda>c'. (c', f)) (set_all conf_put conf_del (map (\<lambda>kv. ((fname, section, fst kv), snd kv)) kvs) c)"
proof (induction kvs arbitrary: c)
  case (Cons kv kvs)
  have "store_set section fname kv (Some (c, f)) =
      map_option (\<lambda>c'. (c', f)) (if snd kv = [] then conf_del (fname, section, fst kv) c else conf_put (fname, section, fst kv) (snd kv) c)"
    by (simp add: store_set_def store_write_def conf_put_def conf_del_def writeini_empty)
  then show ?case using Cons.IH
    by (auto simp: store_set_None split: option.splits)
qed simp

text \<open>The names of the entries of one section.\<close>

definition param_ok :: "string \<Rightarrow> string \<Rightarrow> string \<Rightarrow> bool" where
  "param_ok fname section p \<longleftrightarrow> key_ok (fname, section, p)"

lemma key_name_inject: "key_name (d, s, p) = key_name (d, s, q) \<longleftrightarrow> p = q"
  by (simp add: key_name_def key_text_def)

lemma saved_entries:
  assumes "single_keys c" "c \<noteq> []" "val_ok (snd kv)" "snd kv \<noteq> []"
    and "\<forall>e \<in> set (kv # kvs). key_ok (fname, section, fst e) \<and> (snd e = [] \<or> val_ok (snd e))"
    and "distinct (map fst (kv # kvs))"
  shows "\<exists>c'. fold (store_set section fname) (kv # kvs) (Some (c, f)) = Some (c', f) \<and> c' \<noteq> [] \<and> single_keys c' \<and>
    (\<forall>e \<in> set (kv # kvs). conf_get (fname, section, fst e) c' = (if snd e = [] then None else Some (snd e))) \<and>
    (\<forall>k. key_ok k \<longrightarrow> (\<forall>e \<in> set (kv # kvs). key_name k \<noteq> key_name (fname, section, fst e)) \<longrightarrow> conf_get k c' = conf_get k c)"
proof -
  let ?m = "\<lambda>kv. ((fname, section, fst kv), snd kv)"
  have "distinct (map (key_name \<circ> fst) (?m kv # map ?m kvs))"
    using assms(6) by (simp add: comp_def key_name_inject distinct_map inj_on_def image_iff)
  then obtain c' where c': "set_all conf_put conf_del (?m kv # map ?m kvs) c = Some c'" "single_keys c'" "c' \<noteq> []"
      "\<forall>e \<in> set (?m kv # map ?m kvs). conf_get (fst e) c' = (if snd e = [] then None else Some (snd e))"
      "\<forall>k. key_ok k \<longrightarrow> key_name k \<notin> (key_name \<circ> fst) ` set (?m kv # map ?m kvs) \<longrightarrow> conf_get k c' = conf_get k c"
    using eini.set_all_first [of c "?m kv" "map ?m kvs"] assms(1-5) by auto
  then have "fold (store_set section fname) (kv # kvs) (Some (c, f)) = Some (c', f)"
    unfolding store_set_all list.map by simp
  moreover have "conf_get k c' = conf_get k c"
    if "key_ok k" "\<forall>e \<in> set (kv # kvs). key_name k \<noteq> key_name (fname, section, fst e)" for k
    using c'(5) [rule_format, of k] that by (auto simp: image_iff)
  ultimately show ?thesis using c'(2-4) by (intro exI [of _ c']) auto
qed

lemma load_str_get: "load_str c fname p = (case conf_get (fname, ''USER'', p) c of None \<Rightarrow> [] | Some v \<Rightarrow> v)"
  by (auto simp: load_str_def conf_get_def getini_def getini_loop_value_of split: option.splits)

lemma load_int_get: "load_int c fname p dflt = (case conf_get (fname, ''USER'', p) c of None \<Rightarrow> dflt | Some v \<Rightarrow> atoi v)"
  by (auto simp: load_int_def conf_get_def getini_def getini_loop_value_of split: option.splits)

section \<open>A saved user is loaded again\<close>

text \<open>The fields that are saved.\<close>

definition saved_part :: "usert \<Rightarrow> usert" where
  "saved_part u = zero_usert\<lparr>
     u_nick := u_nick u, u_login := u_login u, u_user := u_user u, u_pass := u_pass u, u_vhost := u_vhost u,
     u_proxy := u_proxy u, u_away := u_away u, u_leavemsg := u_leavemsg u, u_awaynick := u_awaynick u,
     u_network := u_network u, u_rights := u_rights u, u_vlink := u_vlink u, u_pport := u_pport u,
     u_parent := u_parent u, u_quitted := u_quitted u, u_dccenabled := u_dccenabled u,
     u_autogetdcc := u_autogetdcc u, u_antiidle := u_antiidle u, u_leavequit := u_leavequit u,
     u_autorejoin := u_autorejoin u, u_sysmsg := u_sysmsg u, u_lastlog := u_lastlog u\<rparr>"

text \<open>
  What is left of a number of the user when it went through the 8 bytes it is printed into, and of all of them.
\<close>

definition kept :: "int \<Rightarrow> int" where
  "kept n = atoi (iset n)"

definition cut_numbers :: "usert \<Rightarrow> usert" where
  "cut_numbers u = u\<lparr>
     u_rights := kept (u_rights u), u_vlink := kept (u_vlink u), u_pport := kept (u_pport u), u_parent := kept (u_parent u),
     u_quitted := kept (u_quitted u), u_dccenabled := kept (u_dccenabled u), u_autogetdcc := kept (u_autogetdcc u),
     u_antiidle := kept (u_antiidle u), u_leavequit := kept (u_leavequit u), u_autorejoin := kept (u_autorejoin u),
     u_sysmsg := kept (u_sysmsg u), u_lastlog := kept (u_lastlog u)\<rparr>"

text \<open>Numbers of at most 7 characters are kept.\<close>

definition num_ok :: "int \<Rightarrow> bool" where
  "num_ok n \<longleftrightarrow> length (decimal_int n) \<le> 7"

text \<open>The strings fit their arrays and one line of the configuration, and the password is encrypted.\<close>

definition user_ok :: "usert \<Rightarrow> bool" where
  "user_ok u \<longleftrightarrow>
     u_nick u \<noteq> [] \<and> u_login u \<noteq> [] \<and> at (u_pass u) 0 = CHR ''='' \<and>
     length (u_nick u) < 64 \<and> length (u_login u) < 64 \<and> length (u_user u) < 64 \<and> length (u_pass u) < 20 \<and>
     length (u_vhost u) < 200 \<and> length (u_proxy u) < 200 \<and> length (u_away u) < 64 \<and> length (u_leavemsg u) < 64 \<and>
     length (u_awaynick u) < 16 \<and> length (u_network u) < 10"

lemma iset_text: "val_ok (iset n) \<and> iset n \<noteq> []"
  by (auto simp: iset_def snpf_def val_ok_def decimal_int_def decimal_not_Nil)

lemma iset_ok:
  assumes "num_ok n"
  shows "val_ok (iset n) \<and> iset n \<noteq> [] \<and> atoi (iset n) = n"
proof -
  have "iset n = decimal_int n" using assms by (simp add: num_ok_def iset_def)
  then show ?thesis using iset_text [of n] by (simp add: atoi_decimal_int)
qed

lemma kept_small: "num_ok n \<Longrightarrow> kept n = n"
  by (simp add: kept_def iset_ok)

lemma kept_cut: "list_all num_ok [u_rights u, u_vlink u, u_pport u, u_parent u, u_quitted u, u_dccenabled u, u_autogetdcc u,
    u_antiidle u, u_leavequit u, u_autorejoin u, u_sysmsg u, u_lastlog u] \<Longrightarrow> cut_numbers u = u"
  by (simp add: cut_numbers_def kept_small)

text \<open>Loading channels, DCCs and lists leaves these fields alone.\<close>

lemma saved_part_frame [simp]:
  "saved_part (u\<lparr>u_channels := x1\<rparr>) = saved_part u" "saved_part (u\<lparr>u_dcc := x2\<rparr>) = saved_part u"
  "saved_part (u\<lparr>u_trafficlog := x3\<rparr>) = saved_part u" "saved_part (u\<lparr>u_bans := x4\<rparr>) = saved_part u"
  "saved_part (u\<lparr>u_ops := x4\<rparr>) = saved_part u" "saved_part (u\<lparr>u_aops := x4\<rparr>) = saved_part u"
  "saved_part (u\<lparr>u_askops := x4\<rparr>) = saved_part u" "saved_part (u\<lparr>u_logs := x4\<rparr>) = saved_part u"
  "saved_part (u\<lparr>u_ignores := x4\<rparr>) = saved_part u" "saved_part (u\<lparr>u_encrypt := x4\<rparr>) = saved_part u"
  "saved_part (u\<lparr>u_instate := n\<rparr>) = saved_part u" "saved_part (u\<lparr>u_outstate := n\<rparr>) = saved_part u"
  by (simp_all add: saved_part_def)

lemma addchanneltouser_saved_part:
  "addchanneltouser usern ch nw u s = Some (i, v, s') \<Longrightarrow> saved_part v = saved_part u"
  by (auto simp: addchanneltouser_def Let_def split: option.splits if_splits prod.splits Option.bind_splits)

lemma fold_option_frame:
  assumes "\<And>i u v. f i (Some u) = Some v \<Longrightarrow> g v = g u" "\<And>i. f i None = None"
  shows "fold f is (Some u) = Some v \<Longrightarrow> g v = g u"
proof (induction "is" arbitrary: u)
  case (Cons i "is")
  have "fold f is None = None" for "is" by (induction "is") (simp_all add: assms(2))
  then obtain w where "f i (Some u) = Some w" "fold f is (Some w) = Some v"
    using Cons.prems by (cases "f i (Some u)") auto
  then show ?case using Cons.IH assms(1) by metis
qed simp

lemma loadchannels_saved_part:
  assumes "loadchannels sl usern s u = Some u'"
  shows "saved_part u' = saved_part u"
proof -
  have one: "load_channel sl usern s i (Some u) = Some v \<Longrightarrow> saved_part v = saved_part u" for i u v
    by (auto simp: load_channel_def Let_def split: if_splits prod.splits Option.bind_splits
        dest!: addchanneltouser_saved_part)
  have none: "load_channel sl usern s i None = None" for i by (simp add: load_channel_def)
  show ?thesis by (rule fold_option_frame [where g = saved_part, OF one none assms [unfolded loadchannels_def]])
qed

lemma loaddccs_saved_part:
  assumes "loaddccs sl usern s u = Some u'"
  shows "saved_part u' = saved_part u"
proof -
  have one: "load_dcc sl usern s i (Some u) = Some v \<Longrightarrow> saved_part v = saved_part u" for i u v
    by (auto simp: load_dcc_def adddcc_def Let_def split: if_splits prod.splits Option.bind_splits option.splits)
  have none: "load_dcc sl usern s i None = None" for i by (simp add: load_dcc_def)
  show ?thesis by (rule fold_option_frame [where g = saved_part, OF one none assms [unfolded loaddccs_def]])
qed

lemma user_name:
  assumes "0 < usern" "usern \<le> 100"
  shows "decimal_int usern = decimal (nat usern)" "length (decimal_int usern) \<le> 3"
    "CHR ''='' \<notin> set (decimal_int usern)"
  using assms length_decimal_100 [of "nat usern"] decimal_digits [of "nat usern"]
  by (auto simp: decimal_int_def isdigit_def code_def)

lemma user_entries_ok:
  assumes "user_ok u"
  shows "\<forall>e \<in> set (user_entries u). snd e = [] \<or> val_ok (snd e)" "distinct (map fst (user_entries u))"
    "\<forall>e \<in> set (user_entries u). CHR ''='' \<notin> set (fst e) \<and> length (fst e) \<le> 10"
proof -
  show "\<forall>e \<in> set (user_entries u). snd e = [] \<or> val_ok (snd e)"
    using assms iset_text by (simp add: user_entries_def user_ok_def val_ok_def)
  show "distinct (map fst (user_entries u))" by (simp add: user_entries_def)
  show "\<forall>e \<in> set (user_entries u). CHR ''='' \<notin> set (fst e) \<and> length (fst e) \<le> 10" by (simp add: user_entries_def)
qed

text \<open>What the entries of the configuration have to say about a user for the loader to find it.\<close>

definition holds_user :: "conf \<Rightarrow> string \<Rightarrow> usert \<Rightarrow> bool" where
  "holds_user c fname u \<longleftrightarrow>
     (\<forall>e \<in> set (user_entries u). conf_get (fname, ''USER'', fst e) c = (if snd e = [] then None else Some (snd e)))"

lemma holds_userD:
  assumes "holds_user c fname u" "(p, v) \<in> set (user_entries u)"
  shows "load_str c fname p = v" "v \<noteq> [] \<Longrightarrow> load_int c fname p d = atoi v"
  using assms by (force simp: holds_user_def load_str_get load_int_get)+

lemma load_str_user:
  assumes "holds_user c fname u"
  shows "load_str c fname ''LOGIN'' = u_login u" "load_str c fname ''USER'' = u_user u"
    "load_str c fname ''VHOST'' = u_vhost u" "load_str c fname ''PROXY'' = u_proxy u"
    "load_str c fname ''AWAY'' = u_away u" "load_str c fname ''AWAYNICK'' = u_awaynick u"
    "load_str c fname ''LEAVEMSG'' = u_leavemsg u" "load_str c fname ''NETWORK'' = u_network u"
    "load_str c fname ''NICK'' = u_nick u" "load_str c fname ''PASS'' = u_pass u"
  by (rule holds_userD(1) [OF assms], simp add: user_entries_def)+

lemma load_int_user:
  assumes "holds_user c fname u"
  shows "load_int c fname ''RIGHTS'' d = kept (u_rights u)" "load_int c fname ''VLINK'' d = kept (u_vlink u)"
    "load_int c fname ''PPORT'' d = kept (u_pport u)" "load_int c fname ''PARENT'' d = kept (u_parent u)"
    "load_int c fname ''QUITTED'' d = kept (u_quitted u)" "load_int c fname ''DCCENABLED'' d = kept (u_dccenabled u)"
    "load_int c fname ''AUTOGETDCC'' d = kept (u_autogetdcc u)" "load_int c fname ''AIDLE'' d = kept (u_antiidle u)"
    "load_int c fname ''LEAVEQUIT'' d = kept (u_leavequit u)" "load_int c fname ''AUTOREJOIN'' d = kept (u_autorejoin u)"
    "load_int c fname ''SYSMSG'' d = kept (u_sysmsg u)" "load_int c fname ''LASTLOG'' d = kept (u_lastlog u)"
proof -
  have int: "load_int c fname p d = kept n" if "(p, iset n) \<in> set (user_entries u)" for p n
    using holds_userD(2) [OF assms that] iset_text [of n] by (simp add: kept_def)
  show "load_int c fname ''RIGHTS'' d = kept (u_rights u)" "load_int c fname ''VLINK'' d = kept (u_vlink u)"
    "load_int c fname ''PPORT'' d = kept (u_pport u)" "load_int c fname ''PARENT'' d = kept (u_parent u)"
    "load_int c fname ''QUITTED'' d = kept (u_quitted u)" "load_int c fname ''DCCENABLED'' d = kept (u_dccenabled u)"
    "load_int c fname ''AUTOGETDCC'' d = kept (u_autogetdcc u)" "load_int c fname ''AIDLE'' d = kept (u_antiidle u)"
    "load_int c fname ''LEAVEQUIT'' d = kept (u_leavequit u)" "load_int c fname ''AUTOREJOIN'' d = kept (u_autorejoin u)"
    "load_int c fname ''SYSMSG'' d = kept (u_sysmsg u)" "load_int c fname ''LASTLOG'' d = kept (u_lastlog u)"
    by (rule int, simp add: user_entries_def)+
qed

lemma getini_conf_get:
  "getini s p d c = (case conf_get (d, s, p) c of None \<Rightarrow> (-2, []) | Some v \<Rightarrow> (0, v))"
  by (simp add: conf_get_def getini_def getini_loop_value_of split: option.splits)

text \<open>
  The keys of the saved channels and the passwords of the saved bots can be decrypted, and the
  passwords fit their array.
\<close>

lemma entry_text: "m < 1000 \<Longrightarrow> snpf 30 (''ENTRY'' @ decimal_int (int m)) = ''ENTRY'' @ decimal m"
  "m < 1000 \<Longrightarrow> snpf 30 (''KEY'' @ decimal_int (int m)) = ''KEY'' @ decimal m"
  using length_decimal_100 [of m] by (simp_all add: decimal_int_def)

definition key_readable :: "salt \<Rightarrow> string \<Rightarrow> bool" where
  "key_readable sl v \<longleftrightarrow> (at v 0 = CHR ''+'' \<longrightarrow> decryptit sl v \<noteq> None)"

definition dcc_readable :: "salt \<Rightarrow> string \<Rightarrow> bool" where
  "dcc_readable sl v \<longleftrightarrow>
     (case dcc_fields v of
        None \<Rightarrow> True
      | Some (npt, lpt, ppt, hpt, port) \<Rightarrow> (case decryptit sl ppt of None \<Rightarrow> False | Some p \<Rightarrow> length p < 20))"

definition readable :: "(string \<Rightarrow> bool) \<Rightarrow> string option \<Rightarrow> bool" where
  "readable P v \<longleftrightarrow> (case v of None \<Rightarrow> True | Some t \<Rightarrow> P t)"

definition stored_ok :: "salt \<Rightarrow> string \<Rightarrow> conf \<Rightarrow> bool" where
  "stored_ok sl fname c \<longleftrightarrow>
     list_all (\<lambda>m. readable (key_readable sl) (conf_get (fname, ''CHANNELS'', ''KEY'' @ decimal m) c)) [0..<40] \<and>
     list_all (\<lambda>m. readable (dcc_readable sl) (conf_get (fname, ''DCC'', ''ENTRY'' @ decimal m) c)) [0..<20]"

lemma fold_option_total: "(\<And>i u. i \<in> set is \<Longrightarrow> P u \<Longrightarrow> \<exists>v. f i (Some u) = Some v \<and> P v) \<Longrightarrow> P u \<Longrightarrow> \<exists>v. fold f is (Some u) = Some v"
proof (induction "is" arbitrary: u)
  case (Cons i "is")
  obtain v where "f i (Some u) = Some v" "P v" using Cons.prems(1) [of i u] Cons.prems(2) by auto
  then show ?case using Cons.IH [of v] Cons.prems(1) by simp
qed simp

lemma loadchannels_total:
  assumes "0 < usern" "usern \<le> 100" "stored_ok sl (''USER'' @ decimal_int usern) (fst s)"
  shows "\<exists>v. loadchannels sl usern s u = Some v"
proof -
  have f: "snpf 30 (''USER'' @ decimal_int usern) = ''USER'' @ decimal_int usern"
    using user_name(2) [OF assms(1,2)] by simp
  have "\<exists>v. load_channel sl usern s m (Some u) = Some v" if "m < 40" for m u
  proof -
    have k: "readable (key_readable sl) (conf_get (''USER'' @ decimal_int usern, ''CHANNELS'', ''KEY'' @ decimal m) (fst s))"
      using that assms(3) by (simp add: stored_ok_def list_all_iff)
    have a: "(addchanneltouser usern ch True u s = None) = False" for ch
      by (auto simp: addchanneltouser_def Let_def split: option.split)
    show ?thesis
      using that k by (auto simp: a load_channel_def f [simplified] Let_def entry_text [simplified] getini_conf_get readable_def key_readable_def
          split: option.splits Option.bind_splits)
  qed
  then show ?thesis unfolding loadchannels_def by (intro fold_option_total [where P = "\<lambda>_. True"]) auto
qed

lemma place_dcc_total: "ns \<noteq> [] \<Longrightarrow> \<exists>ms. place_dcc usern l ns = Some ms \<and> ms \<noteq> []"
  by (induction usern l ns rule: place_dcc.induct) (auto split: option.splits)

lemma loaddccs_total:
  assumes "0 < usern" "usern \<le> 100" "stored_ok sl (''USER'' @ decimal_int usern) (fst s)" "u_dcc u \<noteq> []"
  shows "\<exists>v. loaddccs sl usern s u = Some v"
proof -
  have f: "snpf 30 (''USER'' @ decimal_int usern) = ''USER'' @ decimal_int usern"
    using user_name(2) [OF assms(1,2)] by simp
  have "\<exists>v. load_dcc sl usern s m (Some u) = Some v \<and> u_dcc v \<noteq> []" if "m < 20" "u_dcc u \<noteq> []" for m u
  proof -
    have k: "readable (dcc_readable sl) (conf_get (''USER'' @ decimal_int usern, ''DCC'', ''ENTRY'' @ decimal m) (fst s))"
      using that(1) assms(3) by (simp add: stored_ok_def list_all_iff)
    have a: "\<exists>w t. adddcc sl usern host port luser pass name True u s = Some (w, t) \<and> u_dcc w \<noteq> []" if "length pass < 20" for host port luser pass name
    proof -
      obtain ms where "place_dcc usern (new_dcc host port luser pass name) (u_dcc u) = Some ms" "ms \<noteq> []"
        using place_dcc_total \<open>u_dcc u \<noteq> []\<close> by blast
      then show ?thesis using that by (simp add: adddcc_def new_dcc_def strmncpy_def Let_def)
    qed
    note defs = load_dcc_def f [simplified] Let_def entry_text [simplified] getini_conf_get
    show ?thesis
    proof (cases "conf_get (''USER'' @ decimal_int usern, ''DCC'', ''ENTRY'' @ decimal m) (fst s)")
      case (Some v)
      show ?thesis
      proof (cases "dcc_fields v")
        case fields: (Some y)
        obtain npt lpt ppt hpt port where y: "y = (npt, lpt, ppt, hpt, port)" by (cases y)
        obtain pw where pw: "decryptit sl ppt = Some pw" "length pw < 20"
          using k Some fields y by (auto simp: readable_def dcc_readable_def split: option.splits)
        obtain w t where "adddcc sl usern hpt port lpt pw npt True u s = Some (w, t)" "u_dcc w \<noteq> []" using a [OF pw(2)] by blast
        then show ?thesis using that Some fields y pw(1) by (simp add: defs)
      qed (use that Some in \<open>simp add: defs\<close>)
    qed (use that in \<open>simp add: defs\<close>)
  qed
  then show ?thesis unfolding loaddccs_def using assms(4) by (intro fold_option_total [where P = "\<lambda>u. u_dcc u \<noteq> []"]) auto
qed

lemma load_entries_saved:
  assumes h: "holds_user (fst s) fname u" and ok: "user_ok u" and salt: "pass_salt sl = Some key"
    and chans: "\<And>v. \<exists>w. loadchannels sl usern s v = Some w" and dccs: "\<And>v. u_dcc v \<noteq> [] \<Longrightarrow> \<exists>w. loaddccs sl usern s v = Some w"
  shows "\<exists>eff w. load_entries sl rnd lo usern fname v s = Some (eff, w, s) \<and> saved_part w = cut_numbers (saved_part u)"
proof -
  note str = load_str_user [OF h] and int = load_int_user [OF h]
  have lw: "conf_get (fname, ''USER'', ''LASTWHOIS'') (fst s) = None"
    and nk: "conf_get (fname, ''USER'', ''NICK'') (fst s) = Some (u_nick u)"
    and pw: "conf_get (fname, ''USER'', ''PASS'') (fst s) = Some (u_pass u)"
    using h ok by (auto simp: holds_user_def user_entries_def user_ok_def at_def)
  have nick: "load_nick (fst s) fname usern = u_nick u" using nk by (simp add: load_nick_def getini_conf_get)
  have pass: "load_pass sl rnd l fname s = Some ([], u_pass u, s)" for l
    using pw salt ok by (simp add: load_pass_def getini_conf_get user_ok_def)
  have ch: "\<exists>y. load_chans sl fname usern x s = Some (y, s) \<and> saved_part y = saved_part x" for x
  proof -
    obtain y where y: "loadchannels sl usern s (x\<lparr>u_channels := []\<rparr>) = Some y" using chans by blast
    then show ?thesis using lw loadchannels_saved_part [OF y]
      by (simp add: load_chans_def getini_conf_get saved_part_def)
  qed
  have dc: "\<exists>y. load_dccs sl usern s x = Some y \<and> saved_part y = saved_part x" for x
  proof (cases "u_dcc x = []")
    case True
    obtain y where y: "loaddccs sl usern s (x\<lparr>u_dcc := [(0, None)]\<rparr>) = Some y" using dccs by fastforce
    then show ?thesis using True loaddccs_saved_part [OF y] by (simp add: load_dccs_def saved_part_def)
  qed (simp add: load_dccs_def)
  define x where "x = load_texts (fst s) fname
      (v\<lparr>u_login := u_login u, u_parent := kept (u_parent u), u_user := u_user u, u_nick := u_nick u, u_wantnick := u_nick u, u_pass := u_pass u\<rparr>)"
  obtain y where y: "load_chans sl fname usern x s = Some (y, s)" "saved_part y = saved_part x" using ch by blast
  obtain z where z: "load_dccs sl usern s (load_states (load_numbers (fst s) fname y)) = Some z"
      "saved_part z = saved_part (load_states (load_numbers (fst s) fname y))" using dc by blast
  have "load_entries sl rnd lo usern fname v s =
      Some ([LoadScript usern], (load_lists usern (fst s) z)\<lparr>u_trafficlog := lo\<rparr>, s)"
    using ok y(1) z(1) by (simp add: load_entries_def pass str int nick x_def user_ok_def Let_def)
  moreover have "saved_part z = cut_numbers (saved_part u)"
  proof -
    have sx: "saved_part x = cut_numbers (saved_part u) \<lparr>u_rights := u_rights v, u_vlink := u_vlink v, u_pport := u_pport v,
        u_quitted := u_quitted v, u_dccenabled := u_dccenabled v, u_autogetdcc := u_autogetdcc v, u_antiidle := u_antiidle v,
        u_leavequit := u_leavequit v, u_autorejoin := u_autorejoin v, u_sysmsg := u_sysmsg v, u_lastlog := u_lastlog v,
        u_network := u_network v\<rparr>"
      using ok by (simp add: x_def saved_part_def cut_numbers_def load_texts_def str user_ok_def)
    have "saved_part (load_numbers (fst s) fname y) = load_numbers (fst s) fname (saved_part y)"
      by (simp add: saved_part_def load_numbers_def)
    then have "saved_part z = load_numbers (fst s) fname (saved_part x)"
      using z(2) y(2) by (simp add: load_states_def)
    then show ?thesis using ok unfolding sx by (simp add: load_numbers_def int str user_ok_def cut_numbers_def saved_part_def)
  qed
  ultimately show ?thesis by (simp add: load_lists_def)
qed

lemma user_key_ok:
  assumes "0 < usern" "usern \<le> 100" "CHR ''='' \<notin> set sect \<union> set p" "length sect \<le> 10" "length p \<le> 10"
  shows "key_ok (''USER'' @ decimal_int usern, sect, p)"
  using assms user_name [OF assms(1,2)] by (simp add: key_ok_def key_text_def)

lemma other_section: "sect \<noteq> sect' \<Longrightarrow> CHR ''.'' \<notin> set sect \<union> set sect' \<Longrightarrow> key_name (d, sect, p) \<noteq> key_name (d, sect', q)"
  using append_eq_append_conv2 [of sect "CHR ''.'' # p @ ''=''" sect' "CHR ''.'' # q @ ''=''"]
  by (auto simp: key_name_def key_text_def Cons_eq_append_conv append_eq_Cons_conv)

lemma stored_ok_kept:
  assumes "stored_ok sl (''USER'' @ decimal_int usern) c" "0 < usern" "usern \<le> 100"
    and kept: "\<And>k. key_ok k \<Longrightarrow> \<forall>e \<in> set kvs. key_name k \<noteq> key_name (''USER'' @ decimal_int usern, ''USER'', fst e) \<Longrightarrow>
      conf_get k c' = conf_get k c"
  shows "stored_ok sl (''USER'' @ decimal_int usern) c'"
proof -
  have same: "conf_get (''USER'' @ decimal_int usern, sect, p @ decimal m) c' = conf_get (''USER'' @ decimal_int usern, sect, p @ decimal m) c"
    if "m < 100" "sect = ''CHANNELS'' \<or> sect = ''DCC''" "p = ''ENTRY'' \<or> p = ''KEY''" for sect p m
  proof (rule kept)
    show "key_ok (''USER'' @ decimal_int usern, sect, p @ decimal m)"
      using assms(2,3) that decimal_digits [of m] length_decimal_100 [of m]
      by (intro user_key_ok) (auto simp: isdigit_def code_def)
    have "key_name (''USER'' @ decimal_int usern, sect, q) \<noteq> key_name (''USER'' @ decimal_int usern, ''USER'', t)" for q t
      using that(2) by (intro other_section) auto
    then show "\<forall>e \<in> set kvs. key_name (''USER'' @ decimal_int usern, sect, p @ decimal m) \<noteq> key_name (''USER'' @ decimal_int usern, ''USER'', fst e)"
      by blast
  qed
  have "conf_get (''USER'' @ decimal_int usern, ''CHANNELS'', ''KEY'' @ decimal m) c' = conf_get (''USER'' @ decimal_int usern, ''CHANNELS'', ''KEY'' @ decimal m) c"
    "conf_get (''USER'' @ decimal_int usern, ''DCC'', ''ENTRY'' @ decimal m) c' = conf_get (''USER'' @ decimal_int usern, ''DCC'', ''ENTRY'' @ decimal m) c"
    if "m < 40" for m
    using same [of m "''CHANNELS''" "''KEY''"] same [of m "''DCC''" "''ENTRY''"] that by simp_all
  then show ?thesis using assms(1) unfolding stored_ok_def list_all_iff by simp
qed

lemma writeuser_saved:
  assumes "user_ok u" "0 < usern" "usern \<le> 100" "single_keys c" "c \<noteq> []"
    and "stored_ok key (''USER'' @ decimal_int usern) c"
  shows "\<exists>c'. writeuser sl usern u (c, f) = Some (u, c', flush_lines c') \<and> holds_user c' (''USER'' @ decimal_int usern) u \<and>
    stored_ok key (''USER'' @ decimal_int usern) c'"
proof -
  let ?f = "''USER'' @ decimal_int usern"
  note ok = user_entries_ok [OF assms(1)]
  have key: "key_ok (?f, ''USER'', fst e)" if "e \<in> set (user_entries u)" for e
    using ok(3) that assms(2,3) by (intro user_key_ok) auto
  have kvs: "user_entries u = (''NICK'', u_nick u) # tl (user_entries u)" by (simp add: user_entries_def)
  have nick: "val_ok (u_nick u)" using assms(1) by (simp add: user_ok_def val_ok_def)
  have "\<forall>e \<in> set (user_entries u). key_ok (?f, ''USER'', fst e) \<and> (snd e = [] \<or> val_ok (snd e))" using key ok(1) by blast
  then obtain c' where c': "fold (store_set ''USER'' ?f) (user_entries u) (Some (c, f)) = Some (c', f)"
      "\<forall>e \<in> set (user_entries u). conf_get (?f, ''USER'', fst e) c' = (if snd e = [] then None else Some (snd e))"
      "\<forall>k. key_ok k \<longrightarrow> (\<forall>e \<in> set (user_entries u). key_name k \<noteq> key_name (?f, ''USER'', fst e)) \<longrightarrow> conf_get k c' = conf_get k c"
    using saved_entries [OF assms(4,5), of "(''NICK'', u_nick u)" "tl (user_entries u)" ?f "''USER''" f] nick ok(2)
    unfolding kvs [symmetric] by (auto simp: val_ok_def)
  have "crypt_pass sl u = Some u" using assms(1) by (simp add: crypt_pass_def user_ok_def)
  moreover have "snpf 20 ?f = ?f" using user_name(2) [OF assms(2,3)] by simp
  ultimately have w: "writeuser sl usern u (c, f) = Some (u, c', flush_lines c')"
    using c'(1) by (simp add: writeuser_def flush_store_def)
  have kept: "\<And>k. key_ok k \<Longrightarrow> \<forall>e \<in> set (user_entries u). key_name k \<noteq> key_name (?f, ''USER'', fst e) \<Longrightarrow>
      conf_get k c' = conf_get k c" using c'(3) by blast
  have "stored_ok key ?f c'" by (rule stored_ok_kept [OF assms(6,2,3) kept])
  then show ?thesis using c'(2) w unfolding holds_user_def by blast
qed


text \<open>A user with a channel and a bot, and a time stamp that does not fit.\<close>

definition sample_user :: usert where
  "sample_user = zero_usert\<lparr>u_nick := ''jane'', u_login := ''jane'', u_pass := ''=abc'', u_rights := 1, u_lastlog := 1234567890\<rparr>"

definition sample_conf :: conf where
  "sample_conf = [Some ''PSYBNC.SYSTEM.ME=home'', Some ''USER7.CHANNELS.ENTRY0=#tea'', Some ''USER7.CHANNELS.KEY0=milk'',
     Some ''USER7.DCC.ENTRY0=bot jane =pw;host:80'']"

text \<open>Lines with different texts in front of their first equal sign have different keys.\<close>

definition line_key :: "string option \<Rightarrow> string" where
  "line_key e = (case e of None \<Rightarrow> [] | Some t \<Rightarrow> takeWhile (\<lambda>c. c \<noteq> CHR ''='') t)"

lemma starts_line_key:
  assumes "key_ok k" "starts (key_name k) e"
  shows "e \<noteq> None \<and> key_name k = line_key e @ ''=''"
proof -
  obtain d s q where k: "k = (d, s, q)" by (cases k)
  obtain t where t: "e = Some t" "prefix (key_name k) t" using assms(2) by (auto simp: starts_def split: option.splits)
  obtain w where w: "key_name k = w @ ''=''" "CHR ''='' \<notin> set w" using assms(1) by (auto simp: k key_name_def key_text_def key_ok_def)
  obtain v where "t = w @ CHR ''='' # v" using t(2) w(1) by (auto simp: prefix_def)
  moreover have "takeWhile (\<lambda>c. c \<noteq> CHR ''='') (w @ CHR ''='' # v) = w" using w(2) by (simp add: takeWhile_append)
  ultimately show ?thesis using t(1) w(1) by (simp add: line_key_def)
qed

lemma single_keysI:
  assumes "distinct (map line_key c)"
  shows "single_keys c"
  unfolding single_keys_def
proof (intro allI impI)
  fix k assume k: "key_ok k"
  have "key_count (key_name k) c \<le> length (filter (\<lambda>x. x @ ''='' = key_name k) (map line_key c))"
    using starts_line_key [OF k] by (induction c) (fastforce)+
  also have "\<dots> \<le> 1"
  proof -
    have "length (filter (\<lambda>x. x @ ''='' = key_name k) xs) \<le> 1" if "distinct xs" for xs
      using that by (induction xs) (auto simp: filter_empty_conv dest!: sym [of "_ @ ''=''" "key_name k"])
    then show ?thesis using assms by blast
  qed
  finally show "key_count (key_name k) c \<le> 1" .
qed


section \<open>A saved link is loaded again\<close>

definition link_ok :: "datalinkt \<Rightarrow> bool" where
  "link_ok l \<longleftrightarrow>
     list_all num_ok [l_type l, l_port l, l_allowrelay l] \<and> length (l_name l) < 64 \<and> length (l_iam l) < 64 \<and>
     length (l_host l) < 200 \<and> length (l_pass l) < 20 \<and> no_nul (l_pass l) \<and> at (l_pass l) 0 \<noteq> CHR ''+''"

text \<open>What loading makes of a link: its connections are down.\<close>

definition loaded_link :: "datalinkt \<Rightarrow> datalinkt" where
  "loaded_link l = zero_datalinkt\<lparr>l_type := l_type l, l_host := l_host l, l_port := l_port l, l_allowrelay := l_allowrelay l,
     l_pass := l_pass l, l_name := l_name l, l_iam := l_iam l, l_instate := STD_NOCON, l_outstate := STD_NOCON, l_delayed := 1\<rparr>"

text \<open>The entry of the number is not a dynamic link, which loading leaves alone.\<close>

definition not_relay :: "int \<Rightarrow> datalinkt table \<Rightarrow> bool" where
  "not_relay n t \<longleftrightarrow> (case datalink n t of None \<Rightarrow> True | Some (p, t') \<Rightarrow> map_option l_type (content t' p) \<noteq> Some LI_RELAY)"

lemma link_section_name:
  assumes "0 < n" "n \<le> int MAXCONN"
  shows "link_section n = ''LINK'' @ decimal_int n" "length (decimal_int n) \<le> 3" "CHR ''='' \<notin> set (decimal_int n)"
proof -
  have "nat n < 1000" using assms by (simp add: MAXCONN_def)
  then show "length (decimal_int n) \<le> 3" "CHR ''='' \<notin> set (decimal_int n)" 
    using assms(1) length_decimal_100 [of "nat n"] decimal_digits [of "nat n"] by (auto simp: decimal_int_def isdigit_def code_def)
  then show "link_section n = ''LINK'' @ decimal_int n" by (simp add: link_section_def)
qed

lemma writelink_saved:
  assumes "link_ok l" "0 < n" "n \<le> int MAXCONN" "single_keys c" "c \<noteq> []" "salt_ok sl"
  shows "\<exists>c' pw. writelink sl n l (c, fl) = Some (c', flush_lines c') \<and> decryptit sl pw = Some (l_pass l) \<and>
    (\<forall>e \<in> set (link_entries l pw). conf_get (''LINKS'', link_section n, fst e) c' = (if snd e = [] then None else Some (snd e)))"
proof -
  obtain t where t: "cryptit sl (l_pass l) = Some (CHR ''+'' # t)" "length t = 2 * length (l_pass l)"
      "decryptit sl (CHR ''+'' # t) = Some (l_pass l)"
    using cryptit_back [OF assms(6), of "l_pass l"] assms(1) by (auto simp: link_ok_def)
  let ?pw = "CHR ''+'' # t"
  note name = link_section_name [OF assms(2,3)]
  have num: "val_ok (iset (l_type l))" "val_ok (iset (l_port l))" "val_ok (iset (l_allowrelay l))"
    using assms(1) iset_ok by (simp_all add: link_ok_def)
  have "\<forall>e \<in> set (link_entries l ?pw). snd e = [] \<or> val_ok (snd e)"
    using assms(1) num t(2) by (simp add: link_entries_def link_ok_def val_ok_def)
  moreover have "\<forall>e \<in> set (link_entries l ?pw). key_ok (''LINKS'', link_section n, fst e)"
    using name by (simp add: link_entries_def key_ok_def key_text_def)
  moreover have kvs: "link_entries l ?pw = (''TYPE'', iset (l_type l)) # tl (link_entries l ?pw)" by (simp add: link_entries_def)
  moreover have "distinct (map fst (link_entries l ?pw))" by (simp add: link_entries_def)
  ultimately obtain c' where c': "fold (store_set (link_section n) ''LINKS'') (link_entries l ?pw) (Some (c, fl)) = Some (c', fl)"
      "\<forall>e \<in> set (link_entries l ?pw). conf_get (''LINKS'', link_section n, fst e) c' = (if snd e = [] then None else Some (snd e))"
    using saved_entries [OF assms(4,5), of "(''TYPE'', iset (l_type l))" "tl (link_entries l ?pw)" "''LINKS''" "link_section n" fl] num(1)
    unfolding kvs [symmetric] by (auto simp: val_ok_def)
  then show ?thesis using t(1,3) by (intro exI [of _ c'] exI [of _ ?pw]) (simp add: writelink_def flush_store_def)
qed

lemma link_fields_saved:
  assumes "\<forall>e \<in> set (link_entries l pw). conf_get (''LINKS'', link_section n, fst e) c = (if snd e = [] then None else Some (snd e))"
    and "link_ok l" "decryptit sl pw = Some (l_pass l)" 
  shows "link_fields sl n c zero_datalinkt = Some (loaded_link l)"
proof -
  have str: "link_str c n p = v" if "(p, v) \<in> set (link_entries l pw)" for p v
    using assms(1) that by (auto simp: link_str_def getini_conf_get)
  have int: "link_int c n p = v" if "(p, iset v) \<in> set (link_entries l pw)" "num_ok v" for p v
    using assms(1) that(1) iset_ok [OF that(2)] by (auto simp: link_int_def getini_conf_get)
  have "link_int c n ''TYPE'' = l_type l" "link_int c n ''PORT'' = l_port l" "link_int c n ''ALLOWRELAY'' = l_allowrelay l"
    using assms(2) by (auto intro!: int simp: link_entries_def link_ok_def)
  moreover have "link_str c n ''PASS'' = pw" "link_str c n ''HOST'' = l_host l" "link_str c n ''NAME'' = l_name l" "link_str c n ''IAM'' = l_iam l"
    by (auto intro!: str simp: link_entries_def)
  ultimately show ?thesis using assms(2,3) by (simp add: link_fields_def loaded_link_def link_ok_def)
qed

lemma fresh_link:
  assumes "table_ok t" "n \<noteq> -1"
  obtains t1 p t2 where "clearlink n t = Some t1" "datalink n (t1\<lparr>t_create := True\<rparr>) = Some (p, t2)"
    "content t2 p = Some zero_datalinkt" "\<And>l. \<exists>t3. assign p l t2 = Some t3 \<and> table_ok t3 \<and> view zero_datalinkt t3 = (view zero_datalinkt t2)(n \<mapsto> l)"
    "view zero_datalinkt t2 = (view zero_datalinkt t)(n \<mapsto> zero_datalinkt)"
proof -
  obtain t1 where t1: "clearlink n t = Some t1" "table_ok t1"
      "view zero_datalinkt t1 = (if view zero_datalinkt t n = None \<and> \<not> t_create t then view zero_datalinkt t else (view zero_datalinkt t)(n \<mapsto> zero_datalinkt))"
    using links.clear_law [OF assms] by blast
  have ok: "table_ok (t1\<lparr>t_create := True\<rparr>)"
    using t1(2) by (simp add: table_ok_def cache_ok_def points_def split: option.splits)
  obtain p t2 where t2: "datalink n (t1\<lparr>t_create := True\<rparr>) = Some (p, t2)" "found zero_datalinkt n (t1\<lparr>t_create := True\<rparr>) p t2"
    using fetch_found [OF ok assms(2)] unfolding datalink_def by blast
  have c: "content t2 p = Some zero_datalinkt" "view zero_datalinkt t2 = (view zero_datalinkt t)(n \<mapsto> zero_datalinkt)"
    using t2(2) t1(3) by (auto simp: found_def split: option.splits if_splits)
  have "\<exists>t3. assign p l t2 = Some t3 \<and> table_ok t3 \<and> view zero_datalinkt t3 = (view zero_datalinkt t2)(n \<mapsto> l)" for l
    using found_assign [OF t2(2) assms(2), of l] c(2) by auto
  then show ?thesis using that [OF t1(1) t2(1) c(1)] c(2) by blast
qed

text \<open>
  A link that was saved is loaded again: whatever the table of links held, the link has the type,
  names, address and permission it was saved with and the password decrypted from the configuration,
  it is not connected, and no other link of the table changes.
\<close>

theorem loadlink_writelink:
  assumes "link_ok l" "0 < n" "n \<le> int MAXCONN" "single_keys c" "c \<noteq> []" "salt_ok sl" "table_ok t" "not_relay n t"
    and "view zero_datalinkt t n \<noteq> None \<or> \<not> t_create t"
  shows "\<exists>c' eff t'. writelink sl n l (c, fl) = Some (c', flush_lines c') \<and>
    loadlink sl n t (c', flush_lines c') = Some (eff, t') \<and> table_ok t' \<and>
    view zero_datalinkt t' = (view zero_datalinkt t)(n \<mapsto> loaded_link l)"
proof -
  have nn: "n \<noteq> -1" using assms(2) by simp
  obtain c' pw where c': "writelink sl n l (c, fl) = Some (c', flush_lines c')" "decryptit sl pw = Some (l_pass l)"
      "\<forall>e \<in> set (link_entries l pw). conf_get (''LINKS'', link_section n, fst e) c' = (if snd e = [] then None else Some (snd e))"
    using writelink_saved [OF assms(1-6)] by blast
  let ?s = "(c', flush_lines c')"
  have type: "fst (getini (link_section n) ''TYPE'' ''LINKS'' c') = 0"
    using c'(3) assms(1) iset_ok by (auto simp: link_entries_def getini_conf_get link_ok_def)
  obtain p0 t0 l0 where t0: "datalink n t = Some (p0, t0)" "table_ok t0" "content t0 p0 = Some l0"
      "view zero_datalinkt t0 = view zero_datalinkt t" "l_type l0 \<noteq> LI_RELAY"
    using links.get_law [OF assms(7) nn] assms(8,9) by (fastforce simp: not_relay_def split: option.splits if_splits)
  obtain t1 p t2 where f: "clearlink n t0 = Some t1" "datalink n (t1\<lparr>t_create := True\<rparr>) = Some (p, t2)"
      "content t2 p = Some zero_datalinkt" "\<And>l. \<exists>t3. assign p l t2 = Some t3 \<and> table_ok t3 \<and> view zero_datalinkt t3 = (view zero_datalinkt t2)(n \<mapsto> l)"
      "view zero_datalinkt t2 = (view zero_datalinkt t0)(n \<mapsto> zero_datalinkt)"
    using fresh_link [OF t0(2) nn] by metis
  obtain t3 where t3: "assign p (loaded_link l) t2 = Some t3" "table_ok t3" "view zero_datalinkt t3 = (view zero_datalinkt t2)(n \<mapsto> loaded_link l)"
    using f(4) by blast
  have "\<exists>eff. loadlink sl n t ?s = Some (eff, t3)"
    using t0(1,3,5) f(1-3) t3(1) type link_fields_saved [OF c'(3) assms(1) c'(2)] by (simp add: loadlink_def Let_def)
  then show ?thesis using c'(1) t3(2,3) f(5) t0(4) by auto
qed

definition sample_link :: datalinkt where
  "sample_link = zero_datalinkt\<lparr>l_type := 1, l_name := ''hub'', l_iam := ''leaf'', l_host := ''example.org'', l_port := 80, l_pass := ''secret''\<rparr>"

theorem loadlink_writelink_witness:
  "\<exists>c' eff t'. writelink makesalt 3 sample_link ([Some ''PSYBNC.SYSTEM.ME=home''], []) = Some (c', flush_lines c') \<and>
     loadlink makesalt 3 start_table (c', flush_lines c') = Some (eff, t') \<and> table_ok t' \<and>
     view zero_datalinkt t' = (view zero_datalinkt start_table)(3 \<mapsto> loaded_link sample_link)"
proof (rule loadlink_writelink)
  have d: "decimal_int 0 = ''0''" "decimal_int 1 = ''1''" "decimal_int 80 = ''80''" by code_simp+
  show "link_ok sample_link" by (simp add: link_ok_def sample_link_def zero_datalinkt_def num_ok_def d at_def)
  show "single_keys [Some ''PSYBNC.SYSTEM.ME=home'']" by (simp add: single_keys_def)
  show "not_relay 3 start_table"
    by (simp add: not_relay_def datalink_def fetch_def visit_def start_table_def alloc_dummy_def pmalloc_def content_def
        zero_datalinkt_def LI_RELAY_def)
  show "view zero_datalinkt start_table 3 \<noteq> None \<or> \<not> t_create (start_table :: datalinkt table)" by (simp add: start_table_def)
qed (simp_all add: makesalt_ok MAXCONN_def)

end
