(* ===== verification/Parse.thy ===== *)
theory Parse
  imports Types
begin

text \<open>
  The parser of src/p_parse.c, which takes the line in \<open>ircbuf\<close> apart into the globals the
  command handlers read. The globals are the fields of a record, with the sizes they have in
  src/p_data.h: 300, 64, 32, 200, 64, 800 and 6000 bytes. A pointer into \<open>secbuf\<close> is an offset; a
  zero byte written into the buffer is a list update, and \<open>cstr\<close> reads the string at an offset.
\<close>

record irc_state =
  ircfrom :: string
  ircnick :: string
  ircident :: string
  irchost :: string
  irccommand :: string
  ircto :: string
  irccontent :: string
  ircserver :: bool

definition empty_irc :: irc_state where
  "empty_irc = \<lparr>ircfrom = [], ircnick = [], ircident = [], irchost = [], irccommand = [],
     ircto = [], irccontent = [], ircserver = False\<rparr>"

section \<open>Splitting the line\<close>

definition cut_eol :: "string \<Rightarrow> string" where
  "cut_eol s =
     (case strchr s CR of
        Some i \<Rightarrow> take i s
      | None \<Rightarrow> (case strchr s LF of Some i \<Rightarrow> take i s | None \<Rightarrow> s))"

text \<open>
  The target and the content of a server message. \<open>rtrim\<close> works in place: when the zero byte
  lies in front of the target, the target runs on into the content and is trimmed with it.
\<close>

definition server_target :: "string \<Rightarrow> irc_state \<Rightarrow> irc_state" where
  "server_target secbuf st =
     (let p1 = (if at secbuf 0 = CHR '':'' then 1 else 0) in
      case strchr secbuf (CHR '' '') of
        None \<Rightarrow> st\<lparr>ircto := strmncpy (rtrim (drop p1 secbuf)) 800\<rparr>
      | Some k \<Rightarrow>
          let stleng = k - p1;
              to = rtrim (cstr (drop p1 (secbuf[stleng := NUL])));
              p2 = (if stleng < p1 then drop (k + 1 - p1) to else drop (k + 1) secbuf);
              p2 = (if at p2 0 = CHR '':'' then tl p2
                    else case strchr p2 (CHR '':'') of Some m \<Rightarrow> drop (m + 1) p2 | None \<Rightarrow> p2)
          in st\<lparr>ircto := strmncpy to 800, irccontent := strmncpy p2 6000\<rparr>)"

definition parse_server :: "string \<Rightarrow> irc_state \<Rightarrow> irc_state" where
  "parse_server secbuf st =
     (let st = st\<lparr>ircserver := True\<rparr> in
      case strchr secbuf (CHR '' '') of
        None \<Rightarrow> st
      | Some i \<Rightarrow>
          let st = st\<lparr>ircfrom := strmncpy (tl (take i secbuf)) 300\<rparr>;
              secbuf = strmncpy (drop (i + 1) secbuf) 8191
          in case strchr secbuf (CHR '' '') of
               None \<Rightarrow> st
             | Some j \<Rightarrow>
                 server_target (strmncpy (drop (j + 1) secbuf) 8191)
                   (st\<lparr>irccommand := strmncpy (take j secbuf) 64\<rparr>))"

text \<open>The part of a client's line behind the command.\<close>

definition client_rest :: "string \<Rightarrow> irc_state \<Rightarrow> irc_state" where
  "client_rest secbuf st =
     (if at secbuf 0 = CHR 0x22
      then let p1 = tl secbuf in
        (case strchr p1 (CHR 0x22) of
           None \<Rightarrow> st\<lparr>irccontent := strmncpy p1 6000\<rparr>
         | Some j \<Rightarrow>
             let p2 = drop (j + 1) p1 in
             st\<lparr>ircto := strmncpy (rtrim (take j p1)) 800,
                irccontent := strmncpy (case strchr p2 (CHR '':'') of
                                          Some m \<Rightarrow> drop (m + 1) p2 | None \<Rightarrow> p2) 6000\<rparr>)
      else
        (case strchr secbuf (CHR '':'') of
           None \<Rightarrow> st\<lparr>irccontent := strmncpy secbuf 6000\<rparr>
         | Some j \<Rightarrow>
             st\<lparr>ircto := strmncpy (rtrim (take j secbuf)) 800,
                irccontent := strmncpy (drop (j + 1) secbuf) 6000\<rparr>))"

definition parse_client :: "string \<Rightarrow> irc_state \<Rightarrow> irc_state" where
  "parse_client secbuf st =
     (case strchr secbuf (CHR '' '') of
        None \<Rightarrow> st\<lparr>irccommand := strmncpy secbuf 64\<rparr>
      | Some i \<Rightarrow>
          client_rest (strmncpy (drop (i + 1) secbuf) 8191)
            (st\<lparr>irccommand := strmncpy (take i secbuf) 64\<rparr>))"

definition generalparse :: "string \<Rightarrow> irc_state" where
  "generalparse ircbuf =
     (let secbuf = cut_eol (strmncpy ircbuf 8191) in
      if at secbuf 0 = CHR '':'' then parse_server secbuf empty_irc
      else parse_client secbuf empty_irc)"

section \<open>The sender\<close>

definition parse_nick :: "irc_state \<Rightarrow> irc_state" where
  "parse_nick st =
     (case strchr (ircfrom st) (CHR ''!'') of
        None \<Rightarrow> st
      | Some i \<Rightarrow>
          let stlen = min (i + 1) 64;
              p2 = drop (i + 1) (ircfrom st);
              st = st\<lparr>ircnick := strmncpy (ircfrom st) stlen\<rparr>
          in case strchr p2 (CHR ''@'') of
               None \<Rightarrow> st
             | Some j \<Rightarrow> st\<lparr>ircident := strmncpy (take j p2) 32\<rparr>)"

definition parse_host :: "irc_state \<Rightarrow> irc_state" where
  "parse_host st =
     (case strchr (ircfrom st) (CHR ''@'') of
        None \<Rightarrow> st
      | Some i \<Rightarrow>
          let stlen = min (length (ircfrom st) - i) 200
          in st\<lparr>irchost := strmncpy (drop (i + 1) (ircfrom st)) stlen\<rparr>)"

definition parse :: "string \<Rightarrow> irc_state" where
  "parse ircbuf =
     (let st = generalparse ircbuf;
          st = (if length (ircfrom st) > 0 then parse_host (parse_nick st) else st)
      in st\<lparr>irccommand := ucase (irccommand st)\<rparr>)"

definition ifcommand :: "string option \<Rightarrow> irc_state \<Rightarrow> bool" where
  "ifcommand cmd st =
     (if irccommand st = [] then False
      else case cmd of None \<Rightarrow> False | Some c \<Rightarrow> strmcmp c (irccommand st))"

section \<open>Every field fits its buffer\<close>

definition irc_bounded :: "irc_state \<Rightarrow> bool" where
  "irc_bounded st \<longleftrightarrow>
     length (ircfrom st) < 300 \<and> length (ircnick st) < 64 \<and> length (ircident st) < 32 \<and>
     length (irchost st) < 200 \<and> length (irccommand st) < 64 \<and> length (ircto st) < 800 \<and>
     length (irccontent st) < 6000"

lemma bounded_server_target: "irc_bounded st \<Longrightarrow> irc_bounded (server_target b st)"
  by (auto simp: irc_bounded_def server_target_def Let_def length_strmncpy split: option.splits)

lemma bounded_generalparse: "irc_bounded (generalparse b)"
proof -
  have s: "irc_bounded (parse_server b' empty_irc)" for b'
    unfolding parse_server_def Let_def option.split [of irc_bounded]
    by (intro conjI allI impI bounded_server_target)
      (simp_all add: irc_bounded_def empty_irc_def length_strmncpy)
  have c: "irc_bounded (parse_client b' empty_irc)" for b'
    by (auto simp: parse_client_def client_rest_def Let_def irc_bounded_def empty_irc_def length_strmncpy
        split: option.splits)
  show ?thesis using s c by (simp add: generalparse_def Let_def)
qed

lemma bounded_parse_nick: "irc_bounded st \<Longrightarrow> irc_bounded (parse_nick st)"
  by (auto simp: parse_nick_def Let_def irc_bounded_def strmncpy_def split: option.splits)

lemma bounded_parse_host: "irc_bounded st \<Longrightarrow> irc_bounded (parse_host st)"
  by (auto simp: parse_host_def Let_def irc_bounded_def strmncpy_def split: option.splits)

text \<open>
  (C26) Whatever line arrives, every field the parser fills is shorter than the global buffer it
  is stored in.
\<close>

theorem parse_bounded: "irc_bounded (parse ircbuf)"
proof -
  have "irc_bounded (if length (ircfrom st) > 0 then parse_host (parse_nick st) else st)"
    if "irc_bounded st" for st
    using that by (simp add: bounded_parse_nick bounded_parse_host)
  then have "irc_bounded (let st = generalparse ircbuf in
      if length (ircfrom st) > 0 then parse_host (parse_nick st) else st)"
    using bounded_generalparse by (simp add: Let_def)
  then show ?thesis by (simp add: parse_def Let_def irc_bounded_def)
qed

section \<open>Well-formed messages\<close>

text \<open>Texts without line ends, and words, which also have no blanks.\<close>

definition text_ok :: "string \<Rightarrow> bool" where
  "text_ok s \<longleftrightarrow> set s \<inter> {NUL, CR, LF} = {}"

definition word_ok :: "string \<Rightarrow> bool" where
  "word_ok s \<longleftrightarrow> set s \<inter> {NUL, CR, LF, CHR '' ''} = {}"

lemma ok_simps [simp]:
  "text_ok []" "text_ok (x # xs) \<longleftrightarrow> x \<notin> {NUL, CR, LF} \<and> text_ok xs"
  "text_ok (a @ b) \<longleftrightarrow> text_ok a \<and> text_ok b"
  "word_ok (a @ b) \<longleftrightarrow> word_ok a \<and> word_ok b"
  by (auto simp: text_ok_def word_ok_def)

lemma word_text: "word_ok s \<Longrightarrow> text_ok s"
  by (auto simp: text_ok_def word_ok_def)

lemma word_blank: "word_ok s \<Longrightarrow> CHR '' '' \<notin> set s"
  by (auto simp: word_ok_def)

lemma word_last: "word_ok s \<Longrightarrow> s = [] \<or> last s \<noteq> CHR '' ''"
  using word_blank [of s] by (metis last_in_set)

lemma cut_eol_crlf [simp]: "text_ok s \<Longrightarrow> cut_eol (s @ CR # r) = s"
  by (auto simp: cut_eol_def text_ok_def)

lemma strchr_mid [simp]:
  "c \<noteq> NUL \<Longrightarrow> c \<notin> set a \<Longrightarrow> strchr (a @ c # b) c = Some (length a)"
  by (rule strchr_split)

lemma rtrim_word: "word_ok s \<Longrightarrow> length s < 800 \<Longrightarrow> rtrim s = s"
  using word_last [of s] by (intro rtrim_id) auto

lemma no_nul_text: "text_ok s \<Longrightarrow> no_nul s"
  by (auto simp: text_ok_def no_nul_def)

lemma server_target_plain:
  assumes "word_ok to" "to \<noteq> []" "hd to \<noteq> CHR '':''" "length to < 800" "length txt < 6000"
  shows "server_target (to @ '' :'' @ txt) st = st\<lparr>ircto := to, irccontent := txt\<rparr>"
proof -
  let ?b = "to @ '' :'' @ txt"
  have p1: "at ?b 0 \<noteq> CHR '':''" using assms(2,3) by (cases to) (auto simp: at_def)
  have sp: "strchr ?b (CHR '' '') = Some (length to)" using word_blank [OF assms(1)] by simp
  have "?b[length to := NUL] = to @ NUL # CHR '':'' # txt" by (simp add: list_update_append)
  then have to: "cstr (?b[length to := NUL]) = to"
    using assms(1) by (simp add: no_nul_text word_text)
  have rest: "drop (length to + 1) ?b = CHR '':'' # txt" by simp
  have p1': "(if at ?b 0 = CHR '':'' then 1 else 0) = (0 :: nat)" using p1 by simp
  have rt: "rtrim to = to" using assms(1,4) by (rule rtrim_word)
  show ?thesis
    unfolding server_target_def Let_def p1' sp option.case diff_zero drop_0 to rest rt
    using assms(4,5) by (simp add: at_def)
qed

lemma parse_server_plain:
  assumes "CHR '' '' \<notin> set from" "length from < 300" "CHR '' '' \<notin> set cmd" "length cmd < 64"
    and "length rest < 7500"
  shows "parse_server (CHR '':'' # from @ CHR '' '' # cmd @ CHR '' '' # rest) st =
    server_target rest (st\<lparr>ircserver := True, ircfrom := from, irccommand := cmd\<rparr>)"
proof -
  have "strchr ((CHR '':'' # from) @ CHR '' '' # cmd @ CHR '' '' # rest) (CHR '' '') = Some (Suc (length from))"
    using assms(1) by (subst strchr_split) auto
  moreover have "strchr (cmd @ CHR '' '' # rest) (CHR '' '') = Some (length cmd)"
    using assms(3) by simp
  ultimately show ?thesis using assms by (simp add: parse_server_def Let_def)
qed

lemma parse_nick_plain:
  assumes "ircfrom st = nick @ CHR ''!'' # ident @ CHR ''@'' # host"
    and "CHR ''!'' \<notin> set nick" "length nick < 64" "CHR ''@'' \<notin> set ident" "length ident < 32"
  shows "parse_nick st = st\<lparr>ircnick := nick, ircident := ident\<rparr>"
  using assms by (simp add: parse_nick_def Let_def) (simp add: strmncpy_def)

lemma parse_host_plain:
  assumes "ircfrom st = nick @ CHR ''!'' # ident @ CHR ''@'' # host"
    and "CHR ''@'' \<notin> set nick" "CHR ''@'' \<notin> set ident" "length host < 200"
  shows "parse_host st = st\<lparr>irchost := host\<rparr>"
proof -
  have "strchr ((nick @ CHR ''!'' # ident) @ CHR ''@'' # host) (CHR ''@'') = Some (length (nick @ CHR ''!'' # ident))"
    using assms(2,3) by (subst strchr_split) auto
  then show ?thesis using assms(1,4) by (simp add: parse_host_def Let_def strmncpy_def)
qed

definition server_line :: "string \<Rightarrow> string \<Rightarrow> string \<Rightarrow> string \<Rightarrow> string \<Rightarrow> string \<Rightarrow> string" where
  "server_line nick ident host cmd to txt =
     '':'' @ nick @ ''!'' @ ident @ ''@'' @ host @ '' '' @ cmd @ '' '' @ to @ '' :'' @ txt @ [CR, LF]"

text \<open>
  (C27) A server message of the usual form, with parts that fit their buffers, is taken apart
  into exactly its parts; the command is upper-cased.
\<close>

theorem parse_server_line:
  assumes "word_ok nick" "CHR ''!'' \<notin> set nick" "CHR ''@'' \<notin> set nick" "length nick < 64"
    and "word_ok ident" "CHR ''@'' \<notin> set ident" "length ident < 32"
    and "word_ok host" "length host < 200"
    and "word_ok cmd" "length cmd < 64"
    and "word_ok to" "to \<noteq> []" "hd to \<noteq> CHR '':''" "length to < 800"
    and "text_ok txt" "length txt < 6000"
  shows "parse (server_line nick ident host cmd to txt) =
    \<lparr>ircfrom = nick @ ''!'' @ ident @ ''@'' @ host, ircnick = nick, ircident = ident, irchost = host,
     irccommand = ucase cmd, ircto = to, irccontent = txt, ircserver = True\<rparr>"
proof -
  let ?from = "nick @ CHR ''!'' # ident @ CHR ''@'' # host"
  let ?l2 = "to @ '' :'' @ txt"
  let ?l0 = "CHR '':'' # ?from @ CHR '' '' # cmd @ CHR '' '' # ?l2"
  have line: "server_line nick ident host cmd to txt = ?l0 @ [CR, LF]" by (simp add: server_line_def)
  have "length (?l0 @ [CR, LF]) < 8191" using assms by simp
  then have "strmncpy (?l0 @ [CR, LF]) 8191 = ?l0 @ CR # [LF]" by (rule strmncpy_fits)
  moreover have "text_ok ?l0" using assms by (simp add: word_text)
  ultimately have l0: "cut_eol (strmncpy (?l0 @ [CR, LF]) 8191) = ?l0" by (simp only: cut_eol_crlf)
  have "at ?l0 0 = CHR '':''" by (simp add: at_def)
  then have "generalparse (?l0 @ [CR, LF]) = parse_server ?l0 empty_irc"
    unfolding generalparse_def l0 Let_def by simp
  also have "\<dots> = server_target ?l2 (empty_irc\<lparr>ircserver := True, ircfrom := ?from, irccommand := cmd\<rparr>)"
    using assms by (intro parse_server_plain) (auto dest: word_blank)
  also have "\<dots> = empty_irc\<lparr>ircserver := True, ircfrom := ?from, irccommand := cmd, ircto := to, irccontent := txt\<rparr>"
    (is "_ = ?st") using assms(12-15,17) by (rule server_target_plain)
  finally have g: "generalparse (?l0 @ [CR, LF]) = ?st" .
  have "parse_host (parse_nick ?st) = ?st\<lparr>ircnick := nick, ircident := ident, irchost := host\<rparr>"
    using assms parse_nick_plain [of ?st nick ident host]
      parse_host_plain [of "?st\<lparr>ircnick := nick, ircident := ident\<rparr>" nick ident host] by simp
  then show ?thesis
    unfolding line parse_def g Let_def by (simp add: empty_irc_def)
qed

theorem parse_server_line_witness:
  "parse (server_line ''bob'' ''~b'' ''host.net'' ''privmsg'' ''#chan'' ''hello there'') =
    \<lparr>ircfrom = ''bob!~b@host.net'', ircnick = ''bob'', ircident = ''~b'', irchost = ''host.net'',
     irccommand = ''PRIVMSG'', ircto = ''#chan'', irccontent = ''hello there'', ircserver = True\<rparr>"
proof -
  have u: "ucase ''privmsg'' = ''PRIVMSG''" by code_simp
  show ?thesis
    using parse_server_line [of "''bob''" "''~b''" "''host.net''" "''privmsg''" "''#chan''" "''hello there''"]
    by (simp add: word_ok_def u del: ucase_Cons ucase_Nil)
qed

lemma rtrim_blank: "word_ok s \<Longrightarrow> s \<noteq> [] \<Longrightarrow> length s < 799 \<Longrightarrow> rtrim (s @ '' '') = s"
proof -
  assume a: "word_ok s" "s \<noteq> []" "length s < 799"
  then have "last s \<noteq> CHR '' ''" using word_last by blast
  then obtain t x where s: "s = t @ [x]" "x \<noteq> CHR '' ''" using a(2) by (cases s rule: rev_cases) auto
  then show ?thesis using a(3) by (simp add: rtrim_def at_def Let_def)
qed

text \<open>
  (C28) A client's line \<open>COMMAND target :text\<close> is taken apart the same way, and the sender fields
  stay empty.
\<close>

theorem parse_client_line:
  assumes "word_ok cmd" "cmd \<noteq> []" "hd cmd \<noteq> CHR '':''" "length cmd < 64"
    and "word_ok to" "to \<noteq> []" "CHR '':'' \<notin> set to" "hd to \<noteq> CHR 0x22" "length to < 799"
    and "text_ok txt" "length txt < 6000"
  shows "parse (cmd @ '' '' @ to @ '' :'' @ txt @ [CR, LF]) =
    empty_irc\<lparr>irccommand := ucase cmd, ircto := to, irccontent := txt\<rparr>"
proof -
  let ?l1 = "(to @ '' '') @ CHR '':'' # txt"
  let ?l0 = "cmd @ CHR '' '' # ?l1"
  have line: "cmd @ '' '' @ to @ '' :'' @ txt @ [CR, LF] = ?l0 @ [CR, LF]" by simp
  have "length (?l0 @ [CR, LF]) < 8191" using assms by simp
  then have "strmncpy (?l0 @ [CR, LF]) 8191 = ?l0 @ CR # [LF]" by (rule strmncpy_fits)
  moreover have "text_ok ?l0" using assms by (simp add: word_text)
  ultimately have l0: "cut_eol (strmncpy (?l0 @ [CR, LF]) 8191) = ?l0" by (simp only: cut_eol_crlf)
  have "at ?l0 0 \<noteq> CHR '':''" using assms(2,3) by (cases cmd) (auto simp: at_def)
  then have "generalparse (?l0 @ [CR, LF]) = parse_client ?l0 empty_irc"
    unfolding generalparse_def l0 Let_def by simp
  also have "\<dots> = client_rest ?l1 (empty_irc\<lparr>irccommand := cmd\<rparr>)"
    using assms word_blank [OF assms(1)] by (simp add: parse_client_def)
  also have "\<dots> = empty_irc\<lparr>irccommand := cmd, ircto := to, irccontent := txt\<rparr>"
  proof -
    have "at ?l1 0 \<noteq> CHR 0x22" using assms(6,8) by (cases to) (auto simp: at_def)
    moreover have "strchr ?l1 (CHR '':'') = Some (length (to @ '' ''))"
      using assms(7) by (intro strchr_split) auto
    ultimately show ?thesis
      unfolding client_rest_def using assms(5,6,9,11) rtrim_blank [OF assms(5,6,9)] by simp
  qed
  finally have g: "generalparse (?l0 @ [CR, LF]) = empty_irc\<lparr>irccommand := cmd, ircto := to, irccontent := txt\<rparr>" .
  show ?thesis unfolding line parse_def g Let_def by (simp add: empty_irc_def)
qed

theorem parse_client_line_witness:
  "parse (''jump'' @ '' '' @ ''#c'' @ '' :'' @ ''3'' @ [CR, LF]) =
    empty_irc\<lparr>irccommand := ucase ''jump'', ircto := ''#c'', irccontent := ''3''\<rparr>"
  by (rule parse_client_line) (simp_all add: word_ok_def)

text \<open>
  A target that is written with a leading colon in front of further text loses its last
  character: the length counts from behind the colon, the terminating zero from the colon.
\<close>

theorem server_target_colon_cut:
  assumes "word_ok (to @ [x])" and "length to < 700" and "to \<noteq> []"
  shows "ircto (server_target (CHR '':'' # (to @ [x]) @ CHR '' '' # txt) st) = to"
proof -
  let ?b = "CHR '':'' # (to @ [x]) @ CHR '' '' # txt"
  have "strchr ((CHR '':'' # to @ [x]) @ CHR '' '' # txt) (CHR '' '') = Some (length (CHR '':'' # to @ [x]))"
    using word_blank [OF assms(1)] by (intro strchr_split) auto
  then have sp: "strchr ?b (CHR '' '') = Some (length to + 2)" by simp
  have "?b[length to + 2 - 1 := NUL] = CHR '':'' # to @ NUL # CHR '' '' # txt"
    by (simp add: list_update_append)
  moreover have "word_ok to" using assms(1) by simp
  ultimately have "rtrim (cstr (drop 1 (?b[length to + 2 - 1 := NUL]))) = to"
    using assms(2) by (simp add: no_nul_text word_text rtrim_word)
  then show ?thesis
    using assms(2) unfolding server_target_def Let_def sp by (simp add: at_def)
qed

theorem server_target_colon_cut_witness:
  "ircto (server_target ('':#chan more'') empty_irc) = ''#cha''"
  using server_target_colon_cut [of "''#cha''" "CHR ''n''" "''more''" empty_irc] by (simp add: word_ok_def)

end
