(* ===== verification/Bouncer.thy ===== *)
theory Bouncer
  imports Memory Idea Parse
begin

text \<open>
  The state the handlers work on. \<open>users\<close> is what the table of src/p_memory.c stands for: the
  structures of the users by number, in the order of the nodes, with the two structures that
  \<open>user\<close> answers with for numbers that no user can have and for users that do not exist. The
  operations \<open>getu\<close> and \<open>putu\<close> read and write through the pointer that \<open>user\<close> returns; the theorem
  \<open>user_refines\<close> shows that the table, with its nodes, heap and cache, implements them.
\<close>

section \<open>Users by number\<close>

record users =
  us_nodes :: "(int \<times> usert) list"
  us_dummy :: usert
  us_null :: usert

text \<open>The structure a number stands for: one of the two special ones, or that of a node.\<close>

datatype ucell = NullCell | DummyCell | NodeCell int

definition ucell :: "users \<Rightarrow> int \<Rightarrow> ucell" where
  "ucell U n =
     (let n = user_nr n in
      if n = 0 \<or> n > MAX_USER then NullCell
      else if n \<in> set (map fst (us_nodes U)) then NodeCell n else DummyCell)"

definition getu :: "users \<Rightarrow> int \<Rightarrow> usert" where
  "getu U n =
     (case ucell U n of
        NullCell \<Rightarrow> us_null U
      | DummyCell \<Rightarrow> us_dummy U
      | NodeCell i \<Rightarrow> the (map_of (us_nodes U) i))"

definition putu :: "int \<Rightarrow> usert \<Rightarrow> users \<Rightarrow> users" where
  "putu n u U =
     (case ucell U n of
        NullCell \<Rightarrow> U\<lparr>us_null := u\<rparr>
      | DummyCell \<Rightarrow> U\<lparr>us_dummy := u\<rparr>
      | NodeCell i \<Rightarrow> U\<lparr>us_nodes := map (\<lambda>(k, v). (k, if k = i then u else v)) (us_nodes U)\<rparr>)"

definition newu :: "int \<Rightarrow> users \<Rightarrow> users" where
  "newu n U = (if ucell U n = DummyCell then U\<lparr>us_nodes := us_nodes U @ [(user_nr n, zero_usert)]\<rparr> else U)"

definition uids :: "users \<Rightarrow> int list" where
  "uids U = map fst (us_nodes U)"

text \<open>Reading after writing: only the structure of the same number changes.\<close>

lemma fst_upd [simp]: "map fst (map (\<lambda>(k, v). (k, if k = i then u else v)) xs) = map fst xs"
  by (induction xs) auto

lemma fst_upd_comp [simp]: "fst \<circ> (\<lambda>(k, v). (k, if k = i then u else v)) = fst"
  by (auto simp: fun_eq_iff)

lemma map_of_upd: "map_of (map (\<lambda>(k, v). (k, if k = i then u else v)) xs) j = (if j = i \<and> i \<in> fst ` set xs then Some u else map_of xs j)"
  by (induction xs) (auto simp: split_beta split: if_splits)

lemma ucell_putu [simp]: "ucell (putu n u U) m = ucell U m"
  unfolding putu_def by (cases "ucell U n") (simp_all add: ucell_def Let_def)

lemma uids_putu [simp]: "uids (putu n u U) = uids U"
  unfolding putu_def by (cases "ucell U n") (simp_all add: uids_def)

lemma ucell_NodeD: "ucell U n = NodeCell i \<Longrightarrow> i \<in> fst ` set (us_nodes U)"
  by (auto simp: ucell_def Let_def split: if_splits)

text \<open>The contract the handlers rely on, and what follows from it.\<close>

locale cell_store =
  fixes get :: "'s \<Rightarrow> int \<Rightarrow> 'v"
    and put :: "int \<Rightarrow> 'v \<Rightarrow> 's \<Rightarrow> 's"
    and cell :: "'s \<Rightarrow> int \<Rightarrow> 'c"
  assumes get_put: "get (put n v s) m = (if cell s m = cell s n then v else get s m)"
    and cell_put: "cell (put n v s) m = cell s m"
begin

definition modify :: "int \<Rightarrow> ('v \<Rightarrow> 'v) \<Rightarrow> 's \<Rightarrow> 's" where
  "modify n f s = put n (f (get s n)) s"

lemma get_modify_same: "get (modify n f s) n = f (get s n)"
  by (simp add: modify_def get_put)

lemma get_modify_other: "cell s m \<noteq> cell s n \<Longrightarrow> get (modify n f s) m = get s m"
  by (simp add: modify_def get_put)

text \<open>A field that the change keeps is kept in every structure.\<close>

lemma modify_frame:
  assumes "\<And>v. g (f v) = g v" and same: "cell s m = cell s n \<Longrightarrow> get s m = get s n"
  shows "g (get (modify n f s) m) = g (get s m)"
  using assms by (cases "cell s m = cell s n") (simp_all add: modify_def get_put)

end

interpretation us: cell_store getu putu ucell
proof unfold_locales
  fix n m :: int and u :: usert and U :: users
  show "getu (putu n u U) m = (if ucell U m = ucell U n then u else getu U m)"
  proof (cases "ucell U n")
    case (NodeCell i)
    then show ?thesis using ucell_NodeD [OF NodeCell]
      by (cases "ucell U m") (simp_all add: getu_def, simp_all add: putu_def map_of_upd)
  qed (cases "ucell U m"; simp add: getu_def; simp add: putu_def)+
qed simp

lemma getu_cell: "ucell U m = ucell U n \<Longrightarrow> getu U m = getu U n"
  by (simp add: getu_def)

definition modu :: "int \<Rightarrow> (usert \<Rightarrow> usert) \<Rightarrow> users \<Rightarrow> users" where
  "modu n f U = putu n (f (getu U n)) U"

lemma modu_modify: "modu = us.modify"
  by (simp add: fun_eq_iff modu_def us.modify_def)

lemmas getu_modu_same = us.get_modify_same [folded modu_modify]
  and getu_modu_other = us.get_modify_other [folded modu_modify]
  and getu_putu = us.get_put

lemma ucell_modu [simp]: "ucell (modu n f U) m = ucell U m"
  by (simp add: modu_def)

lemma uids_modu [simp]: "uids (modu n f U) = uids U"
  by (simp add: modu_def)

lemma getu_modu_frame:
  assumes "\<And>u. g (f u) = g u"
  shows "g (getu (modu n f U) m) = g (getu U m)"
  unfolding modu_modify by (rule us.modify_frame [where f = f and g = g, OF assms getu_cell])

section \<open>The table implements it\<close>

definition deref :: "usert table \<Rightarrow> nat option \<Rightarrow> usert" where
  "deref t po = (case po of None \<Rightarrow> zero_usert | Some p \<Rightarrow> (case content t p of None \<Rightarrow> zero_usert | Some u \<Rightarrow> u))"

definition abs_users :: "usert table \<Rightarrow> users" where
  "abs_users t =
     \<lparr>us_nodes = map (\<lambda>(n, po). (n, deref t po)) (t_nodes t), us_dummy = deref t (t_dummy t), us_null = deref t (t_null t)\<rparr>"

text \<open>The pointer that the table has for a number.\<close>

definition ptr_of :: "usert table \<Rightarrow> int \<Rightarrow> nat option" where
  "ptr_of t n =
     (if n = 0 \<or> n > MAX_USER then t_null t
      else case find_node n (t_nodes t) of None \<Rightarrow> t_dummy t | Some i \<Rightarrow> snd (t_nodes t ! i))"

definition users_ok :: "usert table \<Rightarrow> bool" where
  "users_ok t \<longleftrightarrow>
     heap_ok t \<and> (t_dummy t = None \<or> t_dummy t \<noteq> t_null t) \<and>
     (t_last t = -1 \<or> (t_lastp t \<noteq> None \<and> t_lastp t = ptr_of t (t_last t)))"

lemma pointer_bound:
  assumes "heap_ok t"
  shows "t_dummy t = Some p \<Longrightarrow> content t p \<noteq> None" "t_null t = Some p \<Longrightarrow> content t p \<noteq> None"
    "(n, Some p) \<in> set (t_nodes t) \<Longrightarrow> content t p \<noteq> None"
proof -
  show "t_dummy t = Some p \<Longrightarrow> content t p \<noteq> None" "t_null t = Some p \<Longrightarrow> content t p \<noteq> None"
    using assms by (auto simp: heap_ok_def special_def)
  assume "(n, Some p) \<in> set (t_nodes t)"
  then obtain i where "points t i p" unfolding points_def in_set_conv_nth by fastforce
  then show "content t p \<noteq> None" using assms by (auto simp: heap_ok_def)
qed

lemma deref_frame [simp]:
  "deref (t\<lparr>t_nodes := a\<rparr>) = deref t" "deref (t\<lparr>t_dummy := b\<rparr>) = deref t" "deref (t\<lparr>t_null := b\<rparr>) = deref t"
  "deref (t\<lparr>t_last := c\<rparr>) = deref t" "deref (t\<lparr>t_lastp := b\<rparr>) = deref t" "deref (t\<lparr>t_this := b\<rparr>) = deref t"
  "deref (t\<lparr>t_create := d\<rparr>) = deref t"
  by (auto simp: fun_eq_iff deref_def split: option.split)

lemma deref_fresh [simp]: "deref (t\<lparr>t_heap := t_heap t @ [Some z]\<rparr>) (Some (length (t_heap t))) = z"
  by (simp add: deref_def)

lemma deref_None [simp]: "deref t None = zero_usert"
  by (simp add: deref_def)

lemma deref_append:
  assumes "po = None \<or> (\<exists>p. po = Some p \<and> content t p \<noteq> None)"
  shows "deref (t\<lparr>t_heap := t_heap t @ [Some z]\<rparr>) po = deref t po"
  using assms content_bound [of t] by (auto simp: deref_def split: option.splits)

text \<open>Allocating an object changes nothing that is visible.\<close>

lemma abs_users_append:
  assumes "heap_ok t"
  shows "abs_users (t\<lparr>t_heap := t_heap t @ [Some z]\<rparr>) = abs_users t"
proof -
  have "deref (t\<lparr>t_heap := t_heap t @ [Some z]\<rparr>) po = deref t po"
    if "po = t_dummy t \<or> po = t_null t \<or> (\<exists>n. (n, po) \<in> set (t_nodes t))" for po
    using that pointer_bound [OF assms] by (intro deref_append) (metis not_None_eq)
  then show ?thesis by (auto simp: abs_users_def)
qed

lemma abs_users_frame [simp]:
  "abs_users (t\<lparr>t_last := n\<rparr>) = abs_users t" "abs_users (t\<lparr>t_lastp := q\<rparr>) = abs_users t"
  "abs_users (t\<lparr>t_this := q\<rparr>) = abs_users t" "abs_users (t\<lparr>t_create := b\<rparr>) = abs_users t"
  by (simp_all add: abs_users_def)

lemma abs_users_alloc:
  assumes "heap_ok t"
  shows "abs_users (alloc_dummy zero_usert t) = abs_users t" "abs_users (alloc_null zero_usert t) = abs_users t"
  using abs_users_append [OF assms, of zero_usert] by (auto simp: abs_users_def alloc_dummy_def alloc_null_def pmalloc_def)

lemma fst_abs_users: "map fst (us_nodes (abs_users t)) = map fst (t_nodes t)"
  by (simp add: abs_users_def comp_def split_beta)

lemma abs_users_sel:
  "us_null (abs_users t) = deref t (t_null t)" "us_dummy (abs_users t) = deref t (t_dummy t)"
  by (simp_all add: abs_users_def)

lemma ucell_abs:
  assumes "user_nr n = n"
  shows "ucell (abs_users t) n =
    (if n = 0 \<or> n > MAX_USER then NullCell else if find_node n (t_nodes t) = None then DummyCell else NodeCell n)"
  using assms by (auto simp: ucell_def fst_abs_users fn.lookup_None)

lemma abs_visit:
  assumes ok: "heap_ok t" and d: "t_dummy t \<noteq> None" and l: "t_last t = n" and n: "user_nr n = n" "n \<noteq> 0" "n \<le> MAX_USER"
  shows "\<exists>p t'. visit zero_usert n t = Some (p, t') \<and> heap_ok t' \<and> t_last t' = n \<and> t_lastp t' = Some p \<and> ptr_of t' n = Some p \<and>
    t_dummy t' = t_dummy t \<and> t_null t' = t_null t \<and> abs_users t' = (if t_create t then newu n (abs_users t) else abs_users t)"
proof -
  obtain p t' where v: "visit zero_usert n t = Some (p, t')" "found zero_usert n t p t'" using visit_found [OF ok d l] by blast
  have base: "heap_ok t'" "t_last t' = n" "t_lastp t' = Some p" using v(2) by (auto simp: found_def table_ok_def)
  have sp: "t_dummy t' = t_dummy t" "t_null t' = t_null t"
    using v(1) by (auto simp: visit_def pmalloc_def split: option.splits if_splits)
  have "ptr_of t' n = Some p \<and> abs_users t' = (if t_create t then newu n (abs_users t) else abs_users t)"
  proof (cases "find_node n (t_nodes t)")
    case (Some i)
    note i = find_nodeD [OF Some]
    have cell: "newu n (abs_users t) = abs_users t" using n Some by (simp add: newu_def ucell_abs)
    show ?thesis
    proof (cases "snd (t_nodes t ! i)")
      case (Some q)
      then show ?thesis using v(1) \<open>find_node n (t_nodes t) = Some i\<close> n cell by (auto simp: visit_def ptr_of_def)
    next
      case None
      let ?u = "t\<lparr>t_heap := t_heap t @ [Some zero_usert]\<rparr>"
      have upd: "find_node n ((t_nodes t)[i := (n, Some p)]) = Some i"
        using fn.lookup_update [of i "t_nodes t" "(n, Some p)" n] i \<open>find_node n (t_nodes t) = Some i\<close> by simp
      have p: "p = length (t_heap t)"
        and t': "t' = ?u\<lparr>t_nodes := (t_nodes t)[i := (n, Some p)], t_this := Some i, t_lastp := Some p\<rparr>"
        using v(1) \<open>find_node n (t_nodes t) = Some i\<close> None by (auto simp: visit_def pmalloc_def)
      have "map (\<lambda>(n, po). (n, deref ?u po)) ((t_nodes t)[i := (n, Some p)]) = map (\<lambda>(n, po). (n, deref ?u po)) (t_nodes t)"
        using i None p by (intro nth_equalityI) (auto simp: nth_list_update split_beta)
      then have "abs_users t' = abs_users ?u" by (simp add: abs_users_def t')
      then show ?thesis using upd i n cell abs_users_append [OF ok] by (simp add: t' ptr_of_def)
    qed
  next
    case None
    have cell: "newu n (abs_users t) = (abs_users t)\<lparr>us_nodes := us_nodes (abs_users t) @ [(n, zero_usert)]\<rparr>"
      using n None by (simp add: newu_def ucell_abs)
    show ?thesis
    proof (cases "t_create t")
      case True
      let ?u = "t\<lparr>t_heap := t_heap t @ [Some zero_usert]\<rparr>"
      have "t_nodes t \<noteq> []" using ok by (simp add: heap_ok_def)
      then have p: "p = length (t_heap t)" and t': "t' = ?u\<lparr>t_create := False, t_nodes := t_nodes t @ [(n, Some p)],
          t_this := Some (length (t_nodes t)), t_lastp := Some p\<rparr>"
        using v(1) None True by (auto simp: visit_def pmalloc_def)
      have "abs_users t' = (abs_users ?u)\<lparr>us_nodes := us_nodes (abs_users ?u) @ [(n, zero_usert)]\<rparr>"
        by (simp add: abs_users_def t' p)
      moreover have "ptr_of t' n = Some p" using n None by (simp add: ptr_of_def t' fn.lookup_snoc)
      ultimately show ?thesis using True cell abs_users_append [OF ok, of zero_usert] by simp
    next
      case False
      then show ?thesis using v(1) None d n by (auto simp: visit_def ptr_of_def)
    qed
  qed
  then show ?thesis using v(1) base sp by blast
qed

lemma deref_assign:
  assumes "content t p \<noteq> None"
  shows "deref (t\<lparr>t_heap := (t_heap t)[p := Some u]\<rparr>) po = (if po = Some p then u else deref t po)"
  using assms content_bound [OF assms] by (auto simp: deref_def content_update split: option.split)

lemma node_pointer:
  assumes "heap_ok t" "(k, po) \<in> set (t_nodes t)"
  shows "find_node n (t_nodes t) = Some i \<Longrightarrow> snd (t_nodes t ! i) = Some p \<Longrightarrow> po = Some p \<longleftrightarrow> k = n"
    and "p \<in> special t \<Longrightarrow> po \<noteq> Some p"
proof -
  obtain j where j: "j < length (t_nodes t)" "t_nodes t ! j = (k, po)" using assms(2) by (auto simp: in_set_conv_nth)
  show "p \<in> special t \<Longrightarrow> po \<noteq> Some p" using assms(1) j unfolding heap_ok_def points_def by (metis snd_conv)
  assume a: "find_node n (t_nodes t) = Some i" "snd (t_nodes t ! i) = Some p"
  have i: "i < length (t_nodes t)" "fst (t_nodes t ! i) = n" using find_nodeD [OF a(1)] by auto
  have "j = i" if "po = Some p" using assms(1) that a(2) i j unfolding heap_ok_def points_def by fastforce
  moreover have "j = i" if "k = n" using find_node_nth [OF assms(1) j(1)] a(1) that j(2) by simp
  ultimately show "po = Some p \<longleftrightarrow> k = n" using i j a(2) by (metis fst_conv snd_conv)
qed

lemma abs_assign:
  assumes ok: "heap_ok t" and dn: "t_dummy t = None \<or> t_dummy t \<noteq> t_null t"
    and n: "user_nr n = n" and p: "ptr_of t n = Some p" "content t p \<noteq> None"
  shows "abs_users (t\<lparr>t_heap := (t_heap t)[p := Some u]\<rparr>) = putu n u (abs_users t)"
proof -
  consider (null) "n = 0 \<or> n > MAX_USER" "t_null t = Some p"
    | (dummy) "\<not> (n = 0 \<or> n > MAX_USER)" "find_node n (t_nodes t) = None" "t_dummy t = Some p"
    | (node) i where "\<not> (n = 0 \<or> n > MAX_USER)" "find_node n (t_nodes t) = Some i" "snd (t_nodes t ! i) = Some p"
    using p(1) by (auto simp: ptr_of_def split: if_splits option.splits)
  then show ?thesis
  proof cases
    case null
    then have "po \<noteq> Some p" if "(k, po) \<in> set (t_nodes t)" for k po using node_pointer(2) [OF ok that] by (simp add: special_def)
    moreover have "ucell (abs_users t) n = NullCell" using null n by (simp add: ucell_abs)
    ultimately show ?thesis using null dn by (auto simp: putu_def) (auto simp: abs_users_def deref_assign [OF p(2)])
  next
    case dummy
    then have "po \<noteq> Some p" if "(k, po) \<in> set (t_nodes t)" for k po using node_pointer(2) [OF ok that] by (simp add: special_def)
    moreover have "ucell (abs_users t) n = DummyCell" using dummy n by (simp add: ucell_abs)
    ultimately show ?thesis using dummy dn by (auto simp: putu_def) (auto simp: abs_users_def deref_assign [OF p(2)])
  next
    case (node i)
    then have "points t i p" using find_nodeD [OF node(2)] by (simp add: points_def)
    then have "t_dummy t \<noteq> Some p" "t_null t \<noteq> Some p" using ok by (auto simp: heap_ok_def special_def)
    moreover have "ucell (abs_users t) n = NodeCell n" using node n by (simp add: ucell_abs)
    ultimately show ?thesis using node_pointer(1) [OF ok _ node(2,3)]
      by (auto simp: putu_def) (auto simp: abs_users_def deref_assign [OF p(2)])
  qed
qed

lemma getu_abs:
  assumes ok: "heap_ok t" and n: "user_nr n = n" and p: "ptr_of t n = Some p" "content t p = Some u"
  shows "getu (abs_users t) n = u"
proof (cases "ucell (abs_users t) n")
  case (NodeCell k)
  then have c: "\<not> (n = 0 \<or> n > MAX_USER)" "k = n" and "find_node n (t_nodes t) \<noteq> None"
    using n by (auto simp: ucell_abs split: if_splits)
  then obtain i where i: "find_node n (t_nodes t) = Some i" "snd (t_nodes t ! i) = Some p"
    using p(1) by (auto simp: ptr_of_def)
  have "t_nodes t ! i \<in> set (t_nodes t)" "t_nodes t ! i = (n, Some p)"
    using find_nodeD [OF i(1)] i(2) by (auto simp: prod_eq_iff)
  then have "(n, u) \<in> set (us_nodes (abs_users t))" using p(2) by (force simp: abs_users_def deref_def)
  moreover have "distinct (map fst (us_nodes (abs_users t)))" using ok by (simp add: fst_abs_users heap_ok_def)
  ultimately have "map_of (us_nodes (abs_users t)) n = Some u" by simp
  then show ?thesis using NodeCell c by (simp add: getu_def)
qed (use n p in \<open>auto simp: ucell_abs getu_def abs_users_sel ptr_of_def deref_def split: if_splits\<close>)

lemma ptr_of_frame [simp]:
  "ptr_of (t\<lparr>t_heap := h\<rparr>) = ptr_of t" "ptr_of (t\<lparr>t_lastp := q\<rparr>) = ptr_of t" "ptr_of (t\<lparr>t_this := q\<rparr>) = ptr_of t"
  by (simp_all add: fun_eq_iff ptr_of_def split: option.split)

lemma ptr_content:
  assumes "heap_ok t" "ptr_of t n = Some p"
  shows "content t p \<noteq> None"
proof (cases "n = 0 \<or> n > MAX_USER")
  case False
  show ?thesis
  proof (cases "find_node n (t_nodes t)")
    case (Some i)
    then have "points t i p" using False assms(2) find_nodeD [OF Some] by (simp add: ptr_of_def points_def)
    then show ?thesis using assms(1) unfolding heap_ok_def by blast
  qed (use False assms pointer_bound [OF assms(1)] in \<open>simp add: ptr_of_def\<close>)
qed (use assms pointer_bound [OF assms(1)] in \<open>auto simp: ptr_of_def\<close>)

lemma user_lookup:
  assumes ok: "users_ok t" and n: "user_nr n = n" "n \<noteq> -1"
  shows "\<exists>p t'. user n t = Some (p, t') \<and> users_ok t' \<and> ptr_of t' n = Some p \<and>
    abs_users t' = (if t_create t then newu n (abs_users t) else abs_users t)"
proof (cases "t_last t = n \<and> \<not> t_create t")
  case True
  then obtain p where "t_lastp t = Some p" "ptr_of t n = Some p" using ok n by (fastforce simp: users_ok_def)
  then show ?thesis using True ok n by (simp add: user_def)
next
  case False
  let ?s = "t\<lparr>t_last := n\<rparr>"
  have s: "heap_ok ?s" using ok by (simp add: users_ok_def)
  note a = alloc_dummy_ok [OF s, of zero_usert]
  note b = alloc_null_ok [OF a(1), of zero_usert]
  let ?u = "alloc_null zero_usert (alloc_dummy zero_usert ?s)"
  have nodes: "t_nodes ?u \<noteq> []" using ok by (simp add: a(3) b(3) users_ok_def heap_ok_def)
  have abs: "abs_users ?u = abs_users t" using abs_users_alloc(2) [OF a(1)] abs_users_alloc(1) [OF s] by simp
  have dn: "t_dummy ?u \<noteq> t_null ?u"
  proof -
    have "q < length (t_heap t)" if "t_dummy t = Some q \<or> t_null t = Some q" for q
      using that pointer_bound(1,2) [OF s, of q] content_bound [of t q] by auto
    then have "t_dummy t \<noteq> Some (length (t_heap t))" "t_null t \<noteq> Some (length (t_heap t))" by blast+
    then show ?thesis using ok
      by (cases "t_dummy t"; cases "t_null t") (simp_all add: alloc_null_def alloc_dummy_def pmalloc_def users_ok_def)
  qed
  have last: "t_last ?u = n" "t_create ?u = t_create t" "t_dummy ?u \<noteq> None" using a(4-6) b(4-6) by auto
  show ?thesis
  proof (cases "n = 0 \<or> n > MAX_USER")
    case True
    obtain p where p: "t_null ?u = Some p" using b(7) by blast
    have "user n t = Some (p, ?u\<lparr>t_this := None, t_lastp := Some p\<rparr>)"
      using True False n nodes p by (auto simp: user_def Let_def)
    moreover have "newu n (abs_users t) = abs_users t" using True n by (simp add: newu_def ucell_abs)
    ultimately show ?thesis using True b(1) dn last abs p by (auto simp: users_ok_def ptr_of_def)
  next
    case valid: False
    then have v: "user n t = visit zero_usert n ?u" using False n nodes by (auto simp: user_def Let_def)
    obtain p t' where "visit zero_usert n ?u = Some (p, t')" "heap_ok t'" "t_last t' = n" "t_lastp t' = Some p" "ptr_of t' n = Some p"
        "t_dummy t' = t_dummy ?u" "t_null t' = t_null ?u" "abs_users t' = (if t_create ?u then newu n (abs_users ?u) else abs_users ?u)"
      using abs_visit [OF b(1) last(3,1) n(1)] valid by auto
    then show ?thesis using v dn last(2) abs by (auto simp: users_ok_def)
  qed
qed

text \<open>
  (C18) The table of users implements users by number: \<open>user\<close>, with its cache, the nodes and the
  allocations it makes, answers with a pointer to the structure of the number, adds a cleared
  structure when a new user was asked for and changes no other, and a write through the pointer
  changes the structure of that number alone.
\<close>

theorem user_refines:
  assumes "users_ok t" "user_nr n = n" "n \<noteq> -1"
  shows "\<exists>p t'. user n t = Some (p, t') \<and> users_ok t' \<and>
    abs_users t' = (if t_create t then newu n (abs_users t) else abs_users t) \<and>
    content t' p = Some (getu (abs_users t') n) \<and>
    (\<forall>u. \<exists>t''. assign p u t' = Some t'' \<and> users_ok t'' \<and> abs_users t'' = putu n u (abs_users t'))"
proof -
  obtain p t' where u: "user n t = Some (p, t')" "users_ok t'" "ptr_of t' n = Some p"
      "abs_users t' = (if t_create t then newu n (abs_users t) else abs_users t)"
    using user_lookup [OF assms] by blast
  have hok: "heap_ok t'" "t_dummy t' = None \<or> t_dummy t' \<noteq> t_null t'" using u(2) by (auto simp: users_ok_def)
  obtain v where v: "content t' p = Some v" using ptr_content [OF hok(1) u(3)] by blast
  then have get: "getu (abs_users t') n = v" using getu_abs [OF hok(1) assms(2) u(3)] by blast
  have "\<exists>t''. assign p u t' = Some t'' \<and> users_ok t'' \<and> abs_users t'' = putu n u (abs_users t')" for u
  proof -
    let ?t = "t'\<lparr>t_heap := (t_heap t')[p := Some u]\<rparr>"
    have "users_ok ?t" using u(2) assign_frame [OF hok(1), of p u] v by (simp add: users_ok_def)
    moreover have "abs_users ?t = putu n u (abs_users t')" using abs_assign [OF hok assms(2) u(3)] v by simp
    ultimately show ?thesis using v by (simp add: assign_def)
  qed
  then show ?thesis using u v get by blast
qed

theorem user_refines_witness:
  "\<exists>p t'. user 3 (start_table\<lparr>t_create := True\<rparr>) = Some (p, t') \<and> users_ok t' \<and>
    abs_users t' = newu 3 (abs_users start_table) \<and>
    content t' p = Some (getu (abs_users t') 3) \<and>
    (\<forall>u. \<exists>t''. assign p u t' = Some t'' \<and> users_ok t'' \<and> abs_users t'' = putu 3 u (abs_users t'))"
proof -
  have "users_ok (start_table\<lparr>t_create := True\<rparr>)"
    using start_table_ok [where 'a = usert] by (simp add: users_ok_def table_ok_def, simp add: start_table_def)
  then show ?thesis using user_refines [of "start_table\<lparr>t_create := True\<rparr>" 3] by (simp add: user_nr_def)
qed

section \<open>The state of the bouncer\<close>

text \<open>What is done with a socket: a line for its queue, one that goes out at
  once or after a delay, the end, a connection to a host and port, perhaps from a host of one's own, a line
  for the other sockets of the same group, a line for every linked bouncer, bytes without the end of a line, or a new
  socket that listens at an address and port. Events for the scripts of a user are kept in the same order.\<close>

datatype sockop = Write int string | Urgent int string | Delayed int string int | Kill int | Event int string
  | Connect int string int "string option" | Others int string | Broadcast string | Stream int string | Listen int string int

text \<open>
  The users, the line that is worked on (\<open>ircbuf\<close>, zero behind its end), its parts, the sender that
  \<open>addtoken\<close> keeps in \<open>netircfrom\<close>, the three globals in which \<open>checkstrings\<close> leaves the entry it
  found, the error flag of the ciphers and the keys of IDEA, the hosts that may connect, the configuration in memory with its file, the other files by name, and what was done with
  sockets so far, oldest first.
\<close>

record bnc =
  b_users :: users
  b_buf :: string
  b_irc :: irc_state
  b_netfrom :: string
  b_ehost :: string
  b_eparm :: string
  b_echan :: string
  b_wrong :: bool
  b_idea :: idea_state
  b_hostallows :: stringarray
  b_store :: store
  b_files :: "string \<Rightarrow> string option"
  b_sent :: "sockop list"

definition bout :: "sockop \<Rightarrow> bnc \<Rightarrow> bnc" where
  "bout out b = b\<lparr>b_sent := b_sent b @ [out]\<rparr>"

definition bwrite :: "int \<Rightarrow> string \<Rightarrow> bnc \<Rightarrow> bnc" where
  "bwrite sock data = bout (Write sock data)"

definition bprint :: "int \<Rightarrow> string \<Rightarrow> bnc \<Rightarrow> bnc" where
  "bprint sock text b = bwrite sock (snpf 8192 text) b"

definition bparse :: "bnc \<Rightarrow> bnc" where
  "bparse b = b\<lparr>b_irc := parse (b_buf b)\<rparr>"

abbreviation buser :: "bnc \<Rightarrow> int \<Rightarrow> usert" where
  "buser b n \<equiv> getu (b_users b) n"

definition bmod :: "int \<Rightarrow> (usert \<Rightarrow> usert) \<Rightarrow> bnc \<Rightarrow> bnc" where
  "bmod n f b = b\<lparr>b_users := modu n f (b_users b)\<rparr>"

definition RI_ADMIN :: int where
  "RI_ADMIN = 1"

text \<open>The user a client is logged in as: the parent of the user of a network.\<close>

definition owner :: "int \<Rightarrow> bnc \<Rightarrow> int" where
  "owner usern b = (if u_parent (buser b usern) \<noteq> 0 then u_parent (buser b usern) else usern)"

text \<open>The start of a message of the bouncer to a client.\<close>

definition psybnc_msg :: "string \<Rightarrow> string" where
  "psybnc_msg nick = '':-psyBNC!psyBNC@psyBNC.dk PRIVMSG '' @ nick @ '' :''"

text \<open>
  What is given from outside: the secret of \<open>salt.h\<close>, the time, its text and its parts (years since
  1900, months from 0), a random number, the byte the key
  generation of IDEA takes from the clock, the files that can be opened for writing, the sockets that
  exist with their ends (host and port of the other side, address and port of this one), the name of
  the main log, the home directory, the process number, the number of the socket that is created next, the source
  port of the first socket, the links by number, the text of the last error, the name of the bouncer,
  the number and the source address of the socket whose line is handled, another socket of its group, and the client
  sockets of a user.
\<close>

record env =
  e_salt :: salt
  e_time :: int
  e_ctime :: string
  e_tm :: "int \<times> int \<times> int \<times> int \<times> int \<times> int"
  e_rand :: int
  e_delta :: byte
  e_canopen :: "string \<Rightarrow> bool"
  e_peer :: "int \<Rightarrow> (string \<times> int \<times> string \<times> int) option"
  e_logfile :: string
  e_home :: "string option"
  e_pid :: int
  e_newsock :: int
  e_firstport :: int
  e_link :: "int \<Rightarrow> datalinkt"
  e_strerror :: string
  e_me :: string
  e_cursock :: int
  e_source :: string
  e_other :: "int option"
  e_group :: "int \<Rightarrow> int list"

definition file_write :: "env \<Rightarrow> string \<Rightarrow> string \<Rightarrow> bnc \<Rightarrow> bnc" where
  "file_write e name text b = (if e_canopen e name then b\<lparr>b_files := (b_files b)(name \<mapsto> text)\<rparr> else b)"

definition file_text :: "bnc \<Rightarrow> string \<Rightarrow> string" where
  "file_text b name = (case b_files b name of None \<Rightarrow> [] | Some text \<Rightarrow> text)"

definition file_append :: "env \<Rightarrow> string \<Rightarrow> string \<Rightarrow> bnc \<Rightarrow> bnc" where
  "file_append e name text b = file_write e name (file_text b name @ text) b"

definition file_remove :: "string \<Rightarrow> bnc \<Rightarrow> bnc" where
  "file_remove name b = b\<lparr>b_files := (b_files b)(name := None)\<rparr>"

definition file_rename :: "string \<Rightarrow> string \<Rightarrow> bnc \<Rightarrow> bnc" where
  "file_rename old new b =
     (case b_files b old of
        None \<Rightarrow> b
      | Some text \<Rightarrow> b\<lparr>b_files := (b_files b)(old := None, new \<mapsto> text)\<rparr>)"

end
