(* ===== verification/Network.thy ===== *)
theory Network
  imports Bouncer
begin

text \<open>
  Networks, src/p_network.c. A user can have further users as networks of its own. The client sees
  the channels and nicks of a network with a token, \<open>#net~#channel\<close> and \<open>net~nick\<close>;
  \<open>checknetwork\<close> takes the token out of a line of the client and says which user it means, \<open>addtoken\<close>
  puts the token into a line of the server.

  Pointers into a buffer are offsets. \<open>ircbuf\<close> is cleared before a line is put into it, so the bytes
  behind its end read as zero. \<open>None\<close> is a read in front of a buffer.
\<close>

section \<open>Lines of the client\<close>

fun token_start :: "string \<Rightarrow> nat \<Rightarrow> nat" where
  "token_start s 0 = 0"
| "token_start s (Suc i) = (if s ! Suc i = CHR '' '' \<or> s ! Suc i = CHR '':'' then Suc i else token_start s i)"

text \<open>The tilde that ends a token; one that stands behind a flag of a user is skipped once.\<close>

definition token_end :: "string \<Rightarrow> nat \<Rightarrow> nat option" where
  "token_end s j =
     (if s ! (j - 1) = CHR ''*'' \<or> s ! (j - 1) = CHR ''!''
      then map_option (\<lambda>k. j + 1 + k) (strchr (drop (j + 1) s) (CHR ''~'')) else Some j)"

definition find_network :: "int \<Rightarrow> string \<Rightarrow> users \<Rightarrow> int option" where
  "find_network usern name U = find (\<lambda>i. u_parent (getu U i) = usern \<and> strmcmp (u_network (getu U i)) name) (uids U)"

definition inherit_socket :: "int \<Rightarrow> int \<Rightarrow> bnc \<Rightarrow> bnc" where
  "inherit_socket i usern b =
     (if i < 10000
      then let b = bmod i (\<lambda>u. u\<lparr>u_insock := u_insock (buser b usern)\<rparr>) b
           in bmod i (\<lambda>u. u\<lparr>u_instate := u_instate (buser b usern)\<rparr>) b
      else b)"

text \<open>The line with the token from \<open>k\<close> to \<open>j\<close>.\<close>

definition use_token :: "int \<Rightarrow> string \<Rightarrow> nat \<Rightarrow> nat \<Rightarrow> bnc \<Rightarrow> int \<times> bnc" where
  "use_token usern tmp k j b =
     (let name = take (j - (k + 1)) (drop (k + 1) tmp);
          name = (if at name 0 = CHR ''#'' then tl name else name)
      in case find_network usern name (b_users b) of
           Some i \<Rightarrow> (i, inherit_socket i usern (b\<lparr>b_buf := snpf 8192 (take k tmp @ '' '' @ drop (j + 1) tmp)\<rparr>))
         | None \<Rightarrow> (usern, (bprint (u_insock (buser b usern)) (name @ '' - Unknown Network'' @ [LF]) b)\<lparr>b_buf := []\<rparr>))"

definition checknetwork :: "int \<Rightarrow> bnc \<Rightarrow> (int \<times> bnc) option" where
  "checknetwork usern b =
     (let tmp = strmncpy (b_buf b) 8192 in
      case strchr tmp (CHR ''~'') of
        None \<Rightarrow> Some (usern, b)
      | Some j0 \<Rightarrow>
          if j0 = 0 then None
          else (case token_end tmp j0 of
            None \<Rightarrow> Some (usern, b)
          | Some j \<Rightarrow>
              if (case strchr (drop 1 tmp) (CHR '':'') of Some c \<Rightarrow> j > c + 1 | None \<Rightarrow> False) \<and> strstr tmp ''NICK '' \<noteq> Some 0
              then Some (usern, b)
              else let k = token_start tmp j in
                if k = 0 then Some (usern, b) else Some (use_token usern tmp k j b)))"

section \<open>The nick of the parent\<close>

definition rename_source :: "string \<Rightarrow> string \<Rightarrow> string \<Rightarrow> string" where
  "rename_source nick pnick buf =
     (let nicktmp = snpf 70 ('':'' @ nick @ ''!'') in
      if strstr buf nicktmp = Some 0
      then strmncpy (snpf 8192 ('':'' @ pnick @ ''!'' @ drop (length nicktmp) buf)) 8192 else buf)"

function rename_nick :: "string \<Rightarrow> string \<Rightarrow> nat option \<Rightarrow> nat \<Rightarrow> string \<Rightarrow> string" where
  "rename_nick nick pnick pt2 pt buf =
     (let nicktmp = snpf 70 ('' '' @ nick @ '' '') in
      case strstr (drop (pt + 1) buf) nicktmp of
        None \<Rightarrow> buf
      | Some k \<Rightarrow>
          let p = pt + 1 + k in
          if (case pt2 of Some c \<Rightarrow> p > c | None \<Rightarrow> False) then buf
          else rename_nick nick pnick pt2 p
                 (strmncpy (snpf 8192 (take p buf @ '' '' @ pnick @ '' '' @ drop (p + length nicktmp) buf)) 8192))"
  by pat_completeness auto
termination
proof (relation "measure (\<lambda>(nick, pnick, pt2, pt, buf). max (length buf) 8192 - pt)", goal_cases)
  case (2 nick pnick pt2 pt buf nicktmp k p)
  have "nicktmp \<noteq> []" using 2(1) by (simp add: snpf_def)
  then have "drop p buf \<noteq> []" using strstr_SomeD [OF 2(2)] 2(3) by (auto simp: prefix_def add.commute)
  then have "p \<le> length buf" by simp
  moreover have "length (strmncpy x 8192) < 8192" for x by (simp add: strmncpy_def)
  ultimately show ?case using 2(3) by (simp add: max_def less_imp_le) linarith
qed simp

definition parentnick :: "int \<Rightarrow> bnc \<Rightarrow> bnc" where
  "parentnick usern b =
     (let u = buser b usern; uparent = u_parent u in
      if uparent = 0 then b
      else if strmncasecmp (u_nick u) (u_nick (buser b uparent)) then b
      else
        let b = (if at (b_buf b) 0 = CHR '':''
                 then let b = (if u_nick (buser b uparent) = [] \<and> u_wantnick (buser b uparent) \<noteq> []
                               then bmod uparent (\<lambda>p. p\<lparr>u_nick := strmncpy (u_wantnick p) 64\<rparr>) b else b)
                      in b\<lparr>b_buf := rename_source (u_nick (buser b usern)) (u_nick (buser b uparent)) (b_buf b)\<rparr>
                 else b)
        in if b_buf b = [] then b
           else b\<lparr>b_buf := rename_nick (u_nick (buser b usern)) (u_nick (buser b uparent))
                     (map_option (\<lambda>k. k + 1) (strchr (drop 1 (b_buf b)) (CHR '':''))) 0 (b_buf b)\<rparr>)"

section \<open>Lines of the server\<close>

text \<open>The routines of the table \<open>thash\<close>: \<open>usern\<close> is the user of the network, \<open>netname\<close> its name and \<open>myparentnick\<close> the nick of its parent.\<close>

type_synonym nethandler = "int \<Rightarrow> string \<Rightarrow> string \<Rightarrow> bnc \<Rightarrow> bnc"

abbreviation nick_is :: "bnc \<Rightarrow> int \<Rightarrow> string \<Rightarrow> bool" where
  "nick_is b usern name \<equiv> strmncasecmp (u_nick (buser b usern)) name"

definition setbuf :: "string \<Rightarrow> bnc \<Rightarrow> bnc" where
  "setbuf text b = b\<lparr>b_buf := snpf 8192 text\<rparr>"

definition netnick :: nethandler where
  "netnick usern netname myparentnick b =
     (if \<not> nick_is b usern (ircto (b_irc b)) \<and> \<not> strmncasecmp myparentnick (ircto (b_irc b))
      then setbuf ('':'' @ b_netfrom b @ '' NICK :'' @ netname @ ''~'' @ ircto (b_irc b)) b
      else b\<lparr>b_buf := []\<rparr>)"

definition netjoin :: nethandler where
  "netjoin usern netname myparentnick b =
     setbuf ('':'' @ b_netfrom b @ '' JOIN :#'' @ netname @ ''~'' @ ircto (b_irc b)) b"

definition netpart :: nethandler where
  "netpart usern netname myparentnick b =
     setbuf ('':'' @ b_netfrom b @ '' PART #'' @ netname @ ''~'' @ ircto (b_irc b) @ '' :'' @ irccontent (b_irc b)) b"

definition nettopic :: nethandler where
  "nettopic usern netname myparentnick b =
     setbuf ('':'' @ b_netfrom b @ '' TOPIC #'' @ netname @ ''~'' @ ircto (b_irc b) @ '' :'' @ irccontent (b_irc b)) b"

definition netquit :: nethandler where
  "netquit usern netname myparentnick b = (if nick_is b usern (ircnick (b_irc b)) then b\<lparr>b_buf := []\<rparr> else b)"

definition netprivmsg :: nethandler where
  "netprivmsg usern netname myparentnick b =
     (if strchr ''#!+&'' (at (ircto (b_irc b)) 0) \<noteq> None
      then setbuf ('':'' @ b_netfrom b @ '' '' @ irccommand (b_irc b) @ '' #'' @ netname @ ''~'' @ ircto (b_irc b) @ '' :'' @
             irccontent (b_irc b)) b
      else b)"

definition netkick :: nethandler where
  "netkick usern netname myparentnick b =
     (case strstr (b_buf b) '' KICK '' of
        None \<Rightarrow> b
      | Some i \<Rightarrow>
          let kchan = drop (i + 6) (b_buf b) in
          case strchr kchan (CHR '' '') of
            None \<Rightarrow> b
          | Some n \<Rightarrow>
              let knick = drop (n + 1) kchan; kchan = take n kchan in
              case strchr knick (CHR '' '') of
                None \<Rightarrow> b\<lparr>b_buf := take (i + 6 + n) (b_buf b)\<rparr>
              | Some e \<Rightarrow>
                  let knick = take e knick in
                  setbuf ('':'' @ b_netfrom b @ '' KICK #'' @ netname @ ''~'' @ kchan @ '' '' @
                    (if nick_is b usern knick then knick else netname @ ''~'' @ knick) @ '' :'' @ irccontent (b_irc b)) b)"

definition net_prefixchars :: "string \<Rightarrow> usert \<Rightarrow> string" where
  "net_prefixchars netname u = (if strmcmp netname ''int'' then ''@+'' else u_prefixchars u)"

text \<open>The next blank behind an offset.\<close>

definition next_blank :: "string \<Rightarrow> nat \<Rightarrow> nat option" where
  "next_blank buf i = map_option (\<lambda>k. i + 1 + k) (strchr (drop (i + 1) buf) (CHR '' ''))"

fun nth_blank :: "nat \<Rightarrow> string \<Rightarrow> nat \<Rightarrow> nat option" where
  "nth_blank 0 buf i = Some i"
| "nth_blank (Suc n) buf i = (case next_blank buf i of None \<Rightarrow> None | Some j \<Rightarrow> nth_blank n buf j)"

text \<open>
  One word of a list and what is behind its blank. A word that starts with a mode prefix is read
  behind it; an empty word passes the test for a prefix, and the pointer moves on to what follows.
\<close>

definition split_prefix :: "string \<Rightarrow> string \<Rightarrow> string option \<Rightarrow> string \<times> string" where
  "split_prefix prefixchars word rest =
     (if word = [] then ([], case rest of None \<Rightarrow> [] | Some r \<Rightarrow> r)
      else if strchr prefixchars (hd word) \<noteq> None then ([hd word], tl word)
      else ([], word))"

definition net_word :: "int \<Rightarrow> string \<Rightarrow> string \<Rightarrow> bnc \<Rightarrow> string \<Rightarrow> string option \<Rightarrow> string" where
  "net_word usern netname myparentnick b word rest =
     (let (flg, pt) = split_prefix (net_prefixchars netname (buser b usern)) word rest;
          l = (if rest = None then [] else '' '')
      in if strmncasecmp pt (u_nick (buser b usern)) then flg @ myparentnick @ l
         else if rest = None then pt
         else flg @ netname @ ''~'' @ pt @ l)"

function netnames_loop :: "int \<Rightarrow> string \<Rightarrow> string \<Rightarrow> string \<Rightarrow> string \<Rightarrow> string \<Rightarrow> bnc \<Rightarrow> string \<times> bnc" where
  "netnames_loop usern netname myparentnick nameline pt tmp b =
     (let (word, rest) = (case strchr pt (CHR '' '') of None \<Rightarrow> (pt, None) | Some i \<Rightarrow> (take i pt, Some (drop (i + 1) pt)));
          tmp = snpf 8192 (tmp @ net_word usern netname myparentnick b word rest);
          (tmp, b) = (if length tmp > 500 then (nameline, bwrite (u_insock (buser b usern)) tmp b) else (tmp, b))
      in case rest of None \<Rightarrow> (tmp, b) | Some pt \<Rightarrow> netnames_loop usern netname myparentnick nameline pt tmp b)"
  by pat_completeness auto
termination
proof (relation "measure (\<lambda>(usern, netname, myparentnick, nameline, pt, tmp, b). length pt)", goal_cases)
  case (2 usern netname myparentnick nameline pt tmp b x word rest tmp' y tmp'' b' pt')
  then obtain i where "strchr pt (CHR '' '') = Some i" "pt' = drop (i + 1) pt" by (auto split: option.splits)
  then show ?case using find_char_SomeD [of "CHR '' ''" pt i] by (auto simp: strchr_def split: if_splits)
qed simp

definition netnames :: nethandler where
  "netnames usern netname myparentnick b =
     (let b = (case nth_blank 4 (b_buf b) 0 of
                 None \<Rightarrow> b
               | Some i \<Rightarrow> setbuf (take i (b_buf b) @ '' #'' @ netname @ ''~'' @ drop (i + 1) (b_buf b)) b)
      in case strstr (drop 1 (b_buf b)) '' :'' of
           None \<Rightarrow> b
         | Some k \<Rightarrow>
             let nameline = take (k + 3) (b_buf b);
                 (tmp, b) = netnames_loop usern netname myparentnick nameline (drop (k + 3) (b_buf b)) nameline b
             in b\<lparr>b_buf := tmp\<rparr>)"

definition net_channel :: "string \<Rightarrow> string \<Rightarrow> string \<times> string \<Rightarrow> string" where
  "net_channel netname acc fp =
     (case fp of (flg, pt) \<Rightarrow>
        if length acc + length netname + 6 + length pt < 8192 \<and> at pt 0 \<noteq> CHR '' '' \<and> pt \<noteq> []
        then acc @ flg @ ''#'' @ netname @ ''~'' @ pt @ '' '' else acc)"

function whoischannels_loop :: "string \<Rightarrow> string \<Rightarrow> string \<Rightarrow> string \<Rightarrow> string" where
  "whoischannels_loop prefixchars netname pt acc =
     (let (word, rest) = (case strchr pt (CHR '' '') of None \<Rightarrow> (pt, None) | Some i \<Rightarrow> (take i pt, Some (drop (i + 1) pt)));
          acc = net_channel netname acc (split_prefix prefixchars word rest)
      in case rest of None \<Rightarrow> acc | Some pt \<Rightarrow> whoischannels_loop prefixchars netname pt acc)"
  by pat_completeness auto
termination
proof (relation "measure (\<lambda>(prefixchars, netname, pt, acc). length pt)", goal_cases)
  case (2 prefixchars netname pt acc x word rest acc' pt')
  then obtain i where "strchr pt (CHR '' '') = Some i" "pt' = drop (i + 1) pt" by (auto split: option.splits)
  then show ?case using find_char_SomeD [of "CHR '' ''" pt i] by (auto simp: strchr_def split: if_splits)
qed simp

text \<open>The numeric replies: the nick behind the number becomes that of the parent, what follows it gets the token.\<close>

definition default_rest :: "string \<Rightarrow> string \<Rightarrow> string \<Rightarrow> string \<Rightarrow> string \<Rightarrow> string" where
  "default_rest chantypes netname myparentnick checknick pt =
     (if strchr chantypes (at pt 0) \<noteq> None then '' #'' @ netname @ ''~'' @ pt
      else if at pt 0 = CHR '':'' then '' '' @ pt
      else let checkcmd = snpf 200 (checknick @ '' '') in
        if strstr pt checkcmd = Some 0 then '' '' @ myparentnick @ '' '' @ drop (length checkcmd) pt
        else '' '' @ netname @ ''~'' @ pt)"

definition netdefault :: nethandler where
  "netdefault usern netname myparentnick b =
     (let chantypes = (if strmcmp netname ''int'' then ''#'' else u_chantypes (buser b usern));
          cmd = irccommand (b_irc b);
          nick = u_nick (buser b usern);
          find_nick = (\<lambda>n. strstr (b_buf b) (snpf 200 ('' '' @ cmd @ '' '' @ n)));
          found = (case find_nick nick of
                     Some i \<Rightarrow> Some (i, length nick, strmncpy nick 64)
                   | None \<Rightarrow> map_option (\<lambda>i. (i, length myparentnick, strmncpy myparentnick 64)) (find_nick myparentnick))
      in if atoi cmd = 0 then b
         else case found of
           None \<Rightarrow> b
         | Some (i, nlen, checknick) \<Rightarrow>
             let p = i + length cmd + 1 in
             setbuf (take p (b_buf b) @ '' '' @ myparentnick @
               default_rest chantypes netname myparentnick checknick (drop (p + nlen + 2) (b_buf b))) b)"

definition netwhoischannels :: nethandler where
  "netwhoischannels usern netname myparentnick b =
     (let content = irccontent (b_irc b) in
      netdefault usern netname myparentnick
        (case strstr (b_buf b) (snpf 8192 ('' :'' @ content)) of
           None \<Rightarrow> b
         | Some i \<Rightarrow>
             let acc = whoischannels_loop (net_prefixchars netname (buser b usern)) netname content []
             in setbuf (take i (b_buf b) @ '' :'' @ acc)
                  (b\<lparr>b_irc := (b_irc b)\<lparr>irccontent := (case strchr content (CHR '' '') of None \<Rightarrow> content | Some k \<Rightarrow> take k content)\<rparr>\<rparr>)))"

definition netwho :: nethandler where
  "netwho usern netname myparentnick b =
     (case nth_blank 7 (b_buf b) 0 of
        None \<Rightarrow> b
      | Some i \<Rightarrow>
          let pt = drop (i + 1) (b_buf b) in
          case strchr pt (CHR '' '') of
            None \<Rightarrow> b\<lparr>b_buf := take i (b_buf b)\<rparr>
          | Some n \<Rightarrow>
              let nick = take n pt; pt2 = drop (n + 1) pt in
              netdefault usern netname myparentnick
                (setbuf (take i (b_buf b) @ '' '' @ (if nick_is b usern nick then myparentnick else netname @ ''~'' @ nick) @
                   '' '' @ pt2) b))"

definition netinvite :: nethandler where
  "netinvite usern netname myparentnick b =
     (let content = irccontent (b_irc b) in
      case strstr (b_buf b) (snpf 8192 ('' :'' @ content)) of
        None \<Rightarrow> b
      | Some i \<Rightarrow> setbuf (take i (b_buf b) @ '' :#'' @ netname @ ''~'' @ content) b)"

definition netisonuserhost :: nethandler where
  "netisonuserhost usern netname myparentnick b =
     (let content = irccontent (b_irc b); ne = snpf 200 (u_nick (buser b usern) @ ''='');
          head = '':'' @ b_netfrom b @ '' '' @ irccommand (b_irc b) @ '' '' @ myparentnick @ '' :''
      in if content = [] then b
         else if strstr content ne = Some 0 then setbuf (head @ content) b
         else setbuf (head @ netname @ ''~'' @ content) b)"

section \<open>Modes\<close>

text \<open>
  Whether a mode has a parameter, and whether the parameter gets the token. The pointer that counts
  the commas has run back to the start of \<open>chanmodes\<close> when the second is asked.
\<close>

definition net_mode_param :: "string \<Rightarrow> string \<Rightarrow> bool \<Rightarrow> char \<Rightarrow> bool \<times> bool" where
  "net_mode_param chanmodes prefixmodes neg c =
     (if strchr prefixmodes c \<noteq> None then (True, True)
      else case strchr chanmodes c of
        None \<Rightarrow> (False, False)
      | Some e \<Rightarrow>
          let aftercomma = length (filter (\<lambda>i. chanmodes ! i = CHR '','') [1..<e + 1]);
              hasparam = (aftercomma < 2 \<or> aftercomma = 2 \<and> \<not> neg)
          in (hasparam, hasparam \<and> chanmodes ! 0 \<noteq> CHR ''l'' \<and> chanmodes ! 0 \<noteq> CHR ''k''))"

definition cut_line_end :: "string \<Rightarrow> string" where
  "cut_line_end s = (case strchr s CR of Some i \<Rightarrow> take i s | None \<Rightarrow> (case strchr s LF of Some i \<Rightarrow> take i s | None \<Rightarrow> s))"

definition net_param :: "string \<Rightarrow> string \<Rightarrow> string \<Rightarrow> bool \<Rightarrow> string \<Rightarrow> string \<Rightarrow> string" where
  "net_param nick netname myparentnick nmode params param =
     (if param = [] then params
      else if nmode
      then (if length params + length netname + 1 + length param + 2 < 8192
            then let param = cut_line_end param in
              if \<not> strmncasecmp param nick \<and> \<not> strmncasecmp param myparentnick
              then params @ netname @ ''~'' @ param @ '' ''
              else if length params + length myparentnick + 1 < 8192 then params @ myparentnick @ '' '' else params
            else params)
      else if length params + 1 + length param + 1 < 8192 then params @ param @ '' '' else params)"

fun netmode_loop ::
  "string \<Rightarrow> string \<Rightarrow> string \<Rightarrow> string \<Rightarrow> string \<Rightarrow> bool \<Rightarrow> string \<Rightarrow> string option \<Rightarrow> string \<Rightarrow> string" where
  "netmode_loop chanmodes prefixmodes nick netname myparentnick neg [] inparams params = params"
| "netmode_loop chanmodes prefixmodes nick netname myparentnick neg (c # cs) inparams params =
     (let neg = (if c = CHR ''-'' then True else if c = CHR ''+'' then False else neg);
          (hasparam, nmode) = net_mode_param chanmodes prefixmodes neg c
      in case inparams of
           None \<Rightarrow> netmode_loop chanmodes prefixmodes nick netname myparentnick neg cs None params
         | Some ps \<Rightarrow>
             if hasparam \<and> ps \<noteq> []
             then let (param, rest) = (case strchr ps (CHR '' '') of None \<Rightarrow> (ps, None) | Some i \<Rightarrow> (take i ps, Some (drop (i + 1) ps)))
                  in netmode_loop chanmodes prefixmodes nick netname myparentnick neg cs rest
                       (net_param nick netname myparentnick nmode params param)
             else netmode_loop chanmodes prefixmodes nick netname myparentnick neg cs (Some ps) params)"

definition netmode :: nethandler where
  "netmode usern netname myparentnick b =
     (let u = buser b usern; isint = strmcmp netname ''int'';
          chanmodes = (if isint then ''b,k,l,imnps'' else u_chanmodes u);
          prefixmodes = (if isint then ''ov'' else u_prefixmodes u);
          chantypes = (if isint then ''#'' else u_chantypes u)
      in case strstr (b_buf b) '' MODE '' of
           None \<Rightarrow> b
         | Some i \<Rightarrow>
             let pt = drop (i + 6) (b_buf b) in
             if strchr chantypes (at pt 0) = None then b
             else case strchr pt (CHR '' '') of
               None \<Rightarrow> b
             | Some n \<Rightarrow>
                 let dest = snpf 512 (''#'' @ netname @ ''~'' @ take n pt);
                     inmodes = drop (n + 1) pt;
                     head = '':'' @ b_netfrom b @ '' MODE '' @ dest @ '' ''
                 in case strchr inmodes (CHR '' '') of
                      None \<Rightarrow> setbuf (head @ inmodes) b
                    | Some m \<Rightarrow>
                        let pmode = take m inmodes;
                            params = netmode_loop chanmodes prefixmodes (u_nick u) netname myparentnick False pmode
                              (Some (drop (m + 1) inmodes)) []
                        in setbuf (head @ pmode @ '' '' @ params) b)"

section \<open>Adding the token\<close>

definition thash :: "(string \<times> nethandler) list" where
  "thash =
     [(''MODE'', netmode), (''KICK'', netkick), (''PRIVMSG'', netprivmsg), (''NICK'', netnick), (''JOIN'', netjoin),
      (''PART'', netpart), (''TOPIC'', nettopic), (''NOTICE'', netprivmsg), (''QUIT'', netquit), (''INVITE'', netinvite),
      (''353'', netnames), (''319'', netwhoischannels), (''352'', netwho), (''302'', netisonuserhost),
      (''303'', netisonuserhost), (''*'', netdefault)]"

fun thash_loop :: "(string \<times> nethandler) list \<Rightarrow> irc_state \<Rightarrow> nethandler" where
  "thash_loop [] irc usern netname myparentnick b = b"
| "thash_loop ((command, handler) # rest) irc usern netname myparentnick b =
     (if at command 0 = CHR ''*'' \<or> ifcommand (Some command) irc then handler usern netname myparentnick b
      else thash_loop rest irc usern netname myparentnick b)"

text \<open>The sender of the line: the nick of the user of the network is shown as that of its parent, any other with the token.\<close>

definition token_source :: "int \<Rightarrow> string \<Rightarrow> string \<Rightarrow> bnc \<Rightarrow> bnc" where
  "token_source usern netname myparentnick b =
     (let irc = b_irc b in
      if at (b_buf b) 0 = CHR '':'' \<and> strchr (ircfrom irc) (CHR ''@'') \<noteq> None \<and> \<not> strmncasecmp myparentnick (ircnick irc)
      then (case strchr (b_buf b) (CHR '' '') of
              None \<Rightarrow> b
            | Some i \<Rightarrow>
                let from = (if nick_is b usern (ircnick irc)
                      then (case strchr (ircfrom irc) (CHR ''!'') of
                              Some k \<Rightarrow> snpf 200 (myparentnick @ drop k (ircfrom irc))
                            | None \<Rightarrow> strmncpy (ircfrom irc) 200)
                      else snpf 200 (netname @ ''~'' @ ircfrom irc))
                in setbuf ('':'' @ from @ '' '' @ drop (i + 1) (b_buf b)) (b\<lparr>b_netfrom := from\<rparr>))
      else b\<lparr>b_netfrom := strmncpy (ircfrom irc) 200\<rparr>)"

definition addtoken :: "int \<Rightarrow> bnc \<Rightarrow> bnc" where
  "addtoken usern b =
     (let netname = strmncpy (u_network (buser b usern)) 20;
          myparentnick = strmncpy (u_nick (buser b (u_parent (buser b usern)))) 64;
          b = token_source usern netname myparentnick (parentnick usern b)
      in thash_loop thash (b_irc b) usern netname myparentnick b)"

definition checkusernetwork :: "int \<Rightarrow> bnc \<Rightarrow> int" where
  "checkusernetwork usern b =
     (case find_network usern (irccontent (b_irc b)) (b_users b) of None \<Rightarrow> 0 | Some i \<Rightarrow> i)"

section \<open>Taking the token out\<close>

lemma token_start_at:
  assumes "c = CHR '' '' \<or> c = CHR '':''" "a \<noteq> []" "CHR '' '' \<notin> set w" "CHR '':'' \<notin> set w" "m \<le> length w"
  shows "token_start (a @ c # w @ r) (length a + m) = length a"
  using assms(5)
proof (induction m)
  case 0
  then show ?case using assms(1,2) by (cases "length a") (auto simp: nth_append)
next
  case (Suc m)
  have "(a @ c # w @ r) ! Suc (length a + m) = w ! m" "w ! m \<in> set w" using Suc.prems by (simp_all add: nth_append)
  then have "(a @ c # w @ r) ! Suc (length a + m) \<noteq> CHR '' ''" "(a @ c # w @ r) ! Suc (length a + m) \<noteq> CHR '':''"
    using assms(3,4) by metis+
  then show ?case using Suc by simp
qed

lemma strchr_beyond:
  assumes "strchr (drop 1 s) c = Some i" "c \<notin> set (take n s)" "c \<noteq> NUL" "s \<noteq> []"
  shows "n \<le> i + 1"
proof (rule ccontr)
  assume "\<not> n \<le> i + 1"
  moreover have "i < length (drop 1 s)" "drop 1 s ! i = c" using assms(1,3) find_char_SomeD by (fastforce simp: strchr_def)+
  ultimately have "take n s ! (i + 1) = c" "i + 1 < length (take n s)" by simp_all
  then show False using assms(2) nth_mem by metis
qed

text \<open>A word that can be the name of a network in a line.\<close>

definition token_word :: "string \<Rightarrow> bool" where
  "token_word s \<longleftrightarrow> set s \<inter> {CHR '' '', CHR '':'', CHR ''~'', CHR ''*'', CHR ''!''} = {}"

lemma checknetwork_use:
  assumes "strmncpy (b_buf b) 8192 = tmp" "strchr tmp (CHR ''~'') = Some j" "j \<noteq> 0" "token_end tmp j = Some j"
    and "\<And>c. strchr (drop 1 tmp) (CHR '':'') = Some c \<Longrightarrow> \<not> j > c + 1" "token_start tmp j = k" "k \<noteq> 0"
  shows "checknetwork usern b = Some (use_token usern tmp k j b)"
  using assms by (auto simp: checknetwork_def Let_def split: option.split)

lemma checknetwork_token:
  assumes net: "find_network usern net (b_users b) = Some i" "token_word net" and cmd: "cmd \<noteq> []" "token_word cmd"
    and buf: "b_buf b = cmd @ '' #'' @ net @ ''~'' @ rest" "length (b_buf b) < 8192"
  shows "checknetwork usern b = Some (i, inherit_socket i usern (b\<lparr>b_buf := cmd @ '' '' @ rest\<rparr>))"
proof -
  let ?h = "cmd @ CHR '' '' # CHR ''#'' # net"
  let ?tmp = "?h @ CHR ''~'' # rest" and ?j = "length cmd + length net + 2"
  have tmp: "b_buf b = ?tmp" "strmncpy (b_buf b) 8192 = ?tmp" using buf by simp_all
  have "CHR ''~'' \<notin> set ?h" using net(2) cmd(2) by (auto simp: token_word_def)
  then have j: "strchr ?tmp (CHR ''~'') = Some ?j" using strchr_split [of "CHR ''~''" ?h rest] by simp
  have "?j - 1 < length ?h" "last ?h = ?h ! (?j - 1)" by (simp_all add: last_conv_nth)
  then have "?tmp ! (?j - 1) = last ?h" by (simp only: nth_append if_True)
  moreover have "last ?h \<in> insert (CHR ''#'') (set net)" by auto
  ultimately have e: "token_end ?tmp ?j = Some ?j" using net(2) by (auto simp: token_end_def token_word_def)
  have "take (?j + 1) ?tmp = ?h @ ''~''" by (simp add: numeral_3_eq_3)
  then have "CHR '':'' \<notin> set (take (?j + 1) ?tmp)" using net(2) cmd(2) unfolding token_word_def by auto
  then have colon: "\<not> ?j > c + 1" if "strchr (drop 1 ?tmp) (CHR '':'') = Some c" for c
    using strchr_beyond [OF that] by fastforce
  have k: "token_start ?tmp ?j = length cmd"
    using token_start_at [of "CHR '' ''" cmd "CHR ''#'' # net @ ''~''" "length net + 2" rest] cmd net(2)
    by (auto simp: token_word_def)
  have "take (?j - (length cmd + 1)) (drop (length cmd + 1) ?tmp) = CHR ''#'' # net" by simp
  moreover have "snpf 8192 (cmd @ '' '' @ rest) = cmd @ '' '' @ rest" using buf by simp
  ultimately have use: "use_token usern ?tmp (length cmd) ?j b = (i, inherit_socket i usern (b\<lparr>b_buf := cmd @ '' '' @ rest\<rparr>))"
    using net(1) by (simp add: use_token_def at_def numeral_3_eq_3)
  have "checknetwork usern b = Some (use_token usern ?tmp (length cmd) ?j b)"
    by (rule checknetwork_use [OF tmp(2) j _ e colon k]) (use cmd(1) in simp_all)
  then show ?thesis using use by simp
qed

section \<open>The token and back\<close>

text \<open>What \<open>parentnick\<close> and the sender do to the line, they leave its parts alone.\<close>

lemma b_irc_frame [simp]:
  "b_irc (parentnick usern b) = b_irc b" "b_irc (token_source usern netname pnick b) = b_irc b"
  "b_irc (bmod n f b) = b_irc b" "b_irc (inherit_socket i usern b) = b_irc b"
  by (auto simp: parentnick_def token_source_def bmod_def inherit_socket_def setbuf_def Let_def split: option.split)

lemma b_buf_frame [simp]: "b_buf (bmod n f b) = b_buf b" "b_buf (inherit_socket i usern b) = b_buf b"
  by (simp_all add: bmod_def inherit_socket_def Let_def)

lemma addtoken_handler:
  "addtoken usern b =
     (let netname = strmncpy (u_network (buser b usern)) 20; pnick = strmncpy (u_nick (buser b (u_parent (buser b usern)))) 64
      in thash_loop thash (b_irc b) usern netname pnick (token_source usern netname pnick (parentnick usern b)))"
  by (simp add: addtoken_def Let_def)

definition channel_line :: "string \<Rightarrow> bool" where
  "channel_line cmd \<longleftrightarrow> cmd \<in> {''PRIVMSG'', ''NOTICE'', ''PART'', ''TOPIC''}"

lemma addtoken_channel:
  assumes "channel_line (irccommand (b_irc b))" "at (ircto (b_irc b)) 0 = CHR ''#''"
    and "length (b_netfrom (addtoken usern b)) + length (u_network (buser b usern)) + length (ircto (b_irc b)) + length (irccontent (b_irc b)) < 8100"
    and "length (u_network (buser b usern)) < 20"
  shows "b_buf (addtoken usern b) = '':'' @ b_netfrom (addtoken usern b) @ '' '' @ irccommand (b_irc b) @ '' #'' @
    u_network (buser b usern) @ ''~'' @ ircto (b_irc b) @ '' :'' @ irccontent (b_irc b)"
proof -
  let ?net = "strmncpy (u_network (buser b usern)) 20" and ?pn = "strmncpy (u_nick (buser b (u_parent (buser b usern)))) 64"
  define t where "t = token_source usern ?net ?pn (parentnick usern b)"
  have t: "b_irc t = b_irc b" by (simp add: t_def)
  have "addtoken usern b = setbuf ('':'' @ b_netfrom t @ '' '' @ irccommand (b_irc b) @ '' #'' @ ?net @ ''~'' @ ircto (b_irc b) @ '' :'' @
      irccontent (b_irc b)) t"
  proof -
    have eq: "addtoken usern b = thash_loop thash (b_irc b) usern ?net ?pn t" unfolding addtoken_handler Let_def t_def ..
    have at0: "at (c # s) 0 = c" for c s by (simp add: at_def)
    have hash: "strchr ''#!+&'' (CHR ''#'') \<noteq> None" by (simp add: strchr_def)
    consider "irccommand (b_irc b) = ''PRIVMSG''" | "irccommand (b_irc b) = ''NOTICE''" | "irccommand (b_irc b) = ''PART''"
      | "irccommand (b_irc b) = ''TOPIC''" using assms(1) by (auto simp: channel_line_def)
    then show ?thesis
      unfolding eq by cases (use assms(2) hash in \<open>simp_all add: thash_def ifcommand_def netprivmsg_def netpart_def nettopic_def t at0\<close>)
  qed
  moreover from this have "b_netfrom (addtoken usern b) = b_netfrom t" by (simp add: setbuf_def)
  moreover have "length (irccommand (b_irc b)) \<le> 7" using assms(1) by (auto simp: channel_line_def)
  ultimately show ?thesis using assms(3,4) by (simp add: setbuf_def)
qed

text \<open>
  (C19) The token names the network: when a message of a channel on a network of a user is handed to
  the client, its target is the channel with the token, and whatever command the client sends with
  that target goes to the user of that network, with the channel as its server knows it.
\<close>

theorem addtoken_checknetwork:
  assumes "find_network usern (u_network (buser b i)) (b_users b) = Some i" "token_word (u_network (buser b i))"
    and "length (u_network (buser b i)) < 20"
    and "channel_line (irccommand (b_irc b))" "at (ircto (b_irc b)) 0 = CHR ''#''"
    and "length (b_netfrom (addtoken i b)) + length (u_network (buser b i)) + length (ircto (b_irc b)) + length (irccontent (b_irc b)) < 8100"
    and "cmd \<noteq> []" "token_word cmd"
    and "length (cmd @ '' #'' @ u_network (buser b i) @ ''~'' @ ircto (b_irc b) @ rest) < 8192"
  shows "b_buf (addtoken i b) = '':'' @ b_netfrom (addtoken i b) @ '' '' @ irccommand (b_irc b) @
      '' #'' @ u_network (buser b i) @ ''~'' @ ircto (b_irc b) @ '' :'' @ irccontent (b_irc b) \<and>
    (\<exists>b'. checknetwork usern (b\<lparr>b_buf := cmd @ '' #'' @ u_network (buser b i) @ ''~'' @ ircto (b_irc b) @ rest\<rparr>) = Some (i, b') \<and>
       b_buf b' = cmd @ '' '' @ ircto (b_irc b) @ rest)"
proof
  let ?b = "b\<lparr>b_buf := cmd @ '' #'' @ u_network (buser b i) @ ''~'' @ ircto (b_irc b) @ rest\<rparr>"
  have "checknetwork usern ?b = Some (i, inherit_socket i usern (?b\<lparr>b_buf := cmd @ '' '' @ (ircto (b_irc b) @ rest)\<rparr>))"
    using assms by (intro checknetwork_token [where net = "u_network (buser b i)"]) simp_all
  then show "\<exists>b'. checknetwork usern ?b = Some (i, b') \<and> b_buf b' = cmd @ '' '' @ ircto (b_irc b) @ rest" by auto
qed (rule addtoken_channel [OF assms(4,5,6,3)])

definition sample_bnc :: bnc where
  "sample_bnc =
     \<lparr>b_users = \<lparr>us_nodes = [(0, zero_usert), (1, zero_usert\<lparr>u_nick := ''jane'', u_insock := 5, u_instate := 3\<rparr>),
        (2, zero_usert\<lparr>u_nick := ''jane'', u_parent := 1, u_network := ''net''\<rparr>)], us_dummy = zero_usert, us_null = zero_usert\<rparr>,
      b_buf = '':bob!b@host PRIVMSG #chat :hello'', b_irc = empty_irc\<lparr>ircfrom := ''bob!b@host'', ircnick := ''bob'',
        irccommand := ''PRIVMSG'', ircto := ''#chat'', irccontent := ''hello'', ircserver := True\<rparr>,
      b_netfrom = [], b_ehost = [], b_eparm = [], b_echan = [], b_wrong = False,
      b_idea = \<lparr>IDEAUserKey = [], IDEAEncryptionKey = [], IDEADecryptionKey = []\<rparr>, b_hostallows = [], b_store = ([None], []), b_files = (\<lambda>_. None), b_sent = []\<rparr>"

theorem addtoken_checknetwork_witness:
  "b_buf (addtoken 2 sample_bnc) = '':net~bob!b@host PRIVMSG #net~#chat :hello'' \<and>
   (\<exists>b'. checknetwork 1 (sample_bnc\<lparr>b_buf := ''MODE #net~#chat +i''\<rparr>) = Some (2, b') \<and> b_buf b' = ''MODE #chat +i'')"
proof -
  have u: "buser sample_bnc 2 = zero_usert\<lparr>u_nick := ''jane'', u_parent := 1, u_network := ''net''\<rparr>"
      "buser sample_bnc 1 = zero_usert\<lparr>u_nick := ''jane'', u_insock := 5, u_instate := 3\<rparr>"
    by (simp_all add: sample_bnc_def getu_def ucell_def user_nr_def MAX_USER_def)
  have uid: "uids (b_users sample_bnc) = [0, 1, 2]" "u_parent (buser sample_bnc 0) = 0"
    by (simp_all add: sample_bnc_def uids_def getu_def ucell_def user_nr_def zero_usert_def)
  have n: "u_network (buser sample_bnc 2) = ''net''" "u_nick (buser sample_bnc 2) = ''jane''" "u_parent (buser sample_bnc 2) = 1"
      "u_nick (buser sample_bnc 1) = ''jane''" "u_parent (buser sample_bnc 1) = 0"
    using u by (simp_all add: zero_usert_def)
  then have w: "find_network 1 ''net'' (b_users sample_bnc) = Some 2" using uid by (simp add: find_network_def)
  have i: "irccommand (b_irc sample_bnc) = ''PRIVMSG''" "ircto (b_irc sample_bnc) = ''#chat''" "irccontent (b_irc sample_bnc) = ''hello''"
      "ircfrom (b_irc sample_bnc) = ''bob!b@host''" "ircnick (b_irc sample_bnc) = ''bob''"
      "b_buf sample_bnc = '':bob!b@host PRIVMSG #chat :hello''"
    by (simp_all add: sample_bnc_def)
  have p: "parentnick 2 sample_bnc = sample_bnc" using n by (simp add: parentnick_def)
  have "token_source 2 ''net'' ''jane'' sample_bnc =
      setbuf '':net~bob!b@host PRIVMSG #chat :hello'' (sample_bnc\<lparr>b_netfrom := ''net~bob!b@host''\<rparr>)"
    using n i by (simp add: token_source_def at_def strchr_def toupper_def code_def)
  then have f: "b_netfrom (addtoken 2 sample_bnc) = ''net~bob!b@host''"
    using i n p by (simp add: addtoken_handler thash_def ifcommand_def netprivmsg_def setbuf_def at_def strchr_def)
  show ?thesis
    using addtoken_checknetwork [of 1 sample_bnc 2 "''MODE''" "'' +i''"]
    by (simp add: n w i f token_word_def channel_line_def at_def)
qed

text \<open>
  The last name of a list of names that does not end in a blank keeps neither token nor mode, and a
  channel key is given the token of the network.
\<close>

lemma net_word_last: "word \<noteq> [] \<Longrightarrow> strchr (net_prefixchars netname (buser b usern)) (hd word) \<noteq> None \<Longrightarrow>
    \<not> strmncasecmp (tl word) (u_nick (buser b usern)) \<Longrightarrow> net_word usern netname pnick b word None = tl word"
  by (simp add: net_word_def split_prefix_def)

lemma net_key_token: "net_mode_param ''b,k,l,imnps'' ''ov'' False (CHR ''k'') = (True, True)"
  by code_simp

end
