(* ===== verification/Dispatch.thy ===== *)
theory Dispatch
  imports Network
begin

text \<open>
  The command tables and the dispatchers of src/p_hash.c. The texts of the tables are those of
  lang/english.lng; the entries are the ones that the build configuration compiles in.

  The handlers of the tables are an argument, a function from the name of a handler to what it
  does: its return value and the state it leaves, or \<open>None\<close> when it leaves its memory. So are the parts of the script engine and of the
  traffic log that the dispatchers call, the sockets that exist, and the help files.
\<close>

section \<open>Tables\<close>

datatype hasht = Hasht (h_command: string) (h_handler: string) (h_comment: string) (h_helpfile: string) (h_proceed: int) (h_adminonly: int)

type_synonym handlers = "string \<Rightarrow> int \<Rightarrow> bnc \<Rightarrow> (int \<times> bnc) option"

definition inboundhash :: "hasht list" where
  "inboundhash =
     [Hasht ''PRIVMSG'' ''cmdprivmsg'' '''' '''' 2 0,
      Hasht ''PING'' ''cmdping'' '''' '''' 0 0,
      Hasht ''QUIT'' ''cmdquit'' '''' '''' 0 0,
      Hasht ''WHO'' ''cmdwho'' '''' '''' 1 0,
      Hasht ''USER'' ''cmduser'' '''' '''' 0 0,
      Hasht ''NICK'' ''cmdnick'' '''' '''' 1 0,
      Hasht ''BWHO'' ''cmdbwho'' ''Lists all Users on the Bouncer'' ''help/BWHO.TXT'' 0 1,
      Hasht ''PASSWORD'' ''cmdpassword'' ''Sets your or another Users Password(Admin)'' ''help/PASSWORD.TXT'' 0 0,
      Hasht ''BVHOST'' ''cmdvhost'' ''Sets your vhost to connect thru'' ''help/BVHOST.TXT'' 0 0,
      Hasht ''SETUSERNAME'' ''cmdsetusername'' ''Sets your User Name *DEPRECATED. PLEASE USE /SETREALNAME*'' ''help/SETUSERNAME.TXT'' 0 0,
      Hasht ''SETREALNAME'' ''cmdsetusername'' ''Sets your real name/full name that shows up in a /WHOIS <nick>'' ''help/SETREALNAME.TXT'' 0 0,
      Hasht ''SETAWAY'' ''cmdsetaway'' ''Sets your away-Text when you leave'' ''help/SETAWAY.TXT'' 0 0,
      Hasht ''SETLEAVEMSG'' ''cmdsetleavemsg'' ''Sets your Leave-MSG when you leave'' ''help/SETLEAVEMSG.TXT'' 0 0,
      Hasht ''LEAVEQUIT'' ''cmdleavequit'' ''If set to 1, parts all channels on quit'' ''help/LEAVEQUIT'' 0 0,
      Hasht ''SETAWAYNICK'' ''cmdsetawaynick'' ''Sets your nick when you are offline'' ''help/SETAWAYNICK.TXT'' 0 0,
      Hasht ''JUMP'' ''cmdjump'' ''Jumps to the next IRC-Server'' ''help/JUMP.TXT'' 0 0,
      Hasht ''BRAW'' ''cmdbraw'' ''Sends a raw command to a client'' ''help/BRAW.TXT'' 0 1,
      Hasht ''BQUIT'' ''cmdbquit'' ''Quits your current Server Connection'' ''help/BQUIT.TXT'' 0 0,
      Hasht ''BCONNECT'' ''cmdbconnect'' ''Reconnects a bquitted Connection'' ''help/BCONNECT.TXT'' 0 0,
      Hasht ''AIDLE'' ''cmdaidle'' ''Enables/Disables Antiidle'' ''help/AIDLE.TXT'' 0 0,
      Hasht ''AUTOREJOIN'' ''cmdautorejoin'' ''Enables/Disables Auto-Rejoin'' ''help/AUTOREJOIN.TXT'' 0 0,
      Hasht ''ADDSERVER'' ''cmdaddserver'' ''Adds an IRC-Server to your Serverlist'' ''help/ADDSERVER.TXT'' 0 0,
      Hasht ''DELSERVER'' ''cmddelserver'' ''Deletes an IRC-Server by number'' ''help/DELSERVER.TXT'' 0 0,
      Hasht ''LISTSERVERS'' ''cmdlistservers'' ''Lists all IRC-Servers added'' ''help/LISTSERVERS.TXT'' 0 0,
      Hasht ''ADDNETWORK'' ''cmdaddnetwork'' ''Adds a seperate Network to your client'' ''help/ADDNETWORK.TXT'' 0 0,
      Hasht ''DELNETWORK'' ''cmddelnetwork'' ''Deletes a Network from your client'' ''help/DELNETWORK.TXT'' 0 0,
      Hasht ''SWITCHNET'' ''cmdswitchnet'' ''Switches to a given Network'' ''help/SWITCHNET.TXT'' 0 0,
      Hasht ''BVHOSTN'' ''cmdbvhostn'' ''Sets the vhost for a user on a specific network.'' ''help/BVHOSTN.TXT'' 0 1,
      Hasht ''BQUITN'' ''cmdbquitn'' ''Disconnects a user from a specific network.'' ''help/BQUITN.TXT'' 0 1,
      Hasht ''BCONNECTN'' ''cmdbconnectn'' ''Connects a user to a specific network.'' ''help/BCONNECTN.TXT'' 0 1,
      Hasht ''ADDOP'' ''cmdaddop'' ''Adds a User who may get Op from you'' ''help/ADDOP.TXT'' 0 0,
      Hasht ''DELOP'' ''cmddelop'' ''Deletes an added User who got Op'' ''help/DELOP.TXT'' 0 0,
      Hasht ''LISTOPS'' ''cmdlistops'' ''Lists all added Ops'' ''help/LISTOPS.TXT'' 0 0,
      Hasht ''ADDAUTOOP'' ''cmdaddautoop'' ''Adds a User who gets Auto-Op from you'' ''help/ADDAUTOOP.TXT'' 0 0,
      Hasht ''DELAUTOOP'' ''cmddelautoop'' ''Deletes an added User who got Op'' ''help/DELAUTOOP.TXT'' 0 0,
      Hasht ''LISTAUTOOPS'' ''cmdlistautoops'' ''Lists all added Auto-Ops'' ''help/LISTAUTOOPS.TXT'' 0 0,
      Hasht ''ADDBAN'' ''cmdaddban'' ''Adds a ban (global or to a channel)'' ''help/ADDBAN.TXT'' 0 0,
      Hasht ''DELBAN'' ''cmddelban'' ''Deletes a ban by Number'' ''help/DELBAN.TXT'' 0 0,
      Hasht ''LISTBANS'' ''cmdlistbans'' ''Lists all bans'' ''help/LISTBANS.TXT'' 0 0,
      Hasht ''ADDASK'' ''cmdaddask'' ''Adds a host/bot to ask Op from'' ''help/ADDASK.TXT'' 0 0,
      Hasht ''DELASK'' ''cmddelask'' ''Deletes a host/bot to ask Op by Number'' ''help/DELASK.TXT'' 0 0,
      Hasht ''LISTASK'' ''cmdlistask'' ''Lists the hosts/bots to ask Op from'' ''help/LISTASK.TXT'' 0 0,
      Hasht ''ADDIGNORE'' ''cmdaddignore'' ''Adds a hostmask/contentfilter to the ignores'' ''help/ADDIGNORE.TXT'' 0 0,
      Hasht ''DELIGNORE'' ''cmddelignore'' ''Deletes a hostmask/contentfilter from the ignores'' ''help/DELIGNORE.TXT'' 0 0,
      Hasht ''LISTIGNORES'' ''cmdlistignores'' ''Lists the currently added ignores'' ''help/LISTIGNORES.TXT'' 0 0,
      Hasht ''ADDDCC'' ''cmdadddcc'' ''Adds a DCC-Connection to a bot'' ''help/ADDDCC.TXT'' 0 0,
      Hasht ''LISTDCC'' ''cmdlistdcc'' ''Lists all added DCC-Connectionc'' ''help/LISTDCC.TXT'' 0 0,
      Hasht ''DELDCC'' ''cmddeldcc'' ''Deletes a DCC-Connection by number'' ''help/DELDCC.TXT'' 0 0,
      Hasht ''DCCCHAT'' ''cmddccchat'' ''Offers a DCC Chat to a given IRC User'' ''help/DCCCHAT.TXT'' 0 0,
      Hasht ''DCCANSWER'' ''cmddccanswer'' ''Answers to a DCC Chat-Request'' ''help/DCCANSWER.TXT'' 0 0,
      Hasht ''DCCENABLE'' ''cmddccenable'' ''Enables/Disables DCC thru psybnc'' ''help/DCCENABLE.TXT'' 0 0,
      Hasht ''DCCSEND'' ''cmddccsend'' ''Sends a file to a given IRC User'' ''help/DCCSEND.TXT'' 0 0,
      Hasht ''DCCGET'' ''cmddccget'' ''Gets a DCC Send File from an IRC User'' ''help/DCCGET.TXT'' 0 0,
      Hasht ''DCCSENDME'' ''cmddccsendme'' ''Sends the bouncer User a File'' ''help/DCCSENDME.TXT'' 0 0,
      Hasht ''AUTOGETDCC'' ''cmdautogetdcc'' ''always get offered Files'' ''help/AUTOGETDCC.TXT'' 0 0,
      Hasht ''DCCCANCEL'' ''cmddcccancel'' ''Cancels a dccchat or a transfer'' ''help/DCCCANCEL.TXT'' 0 0,
      Hasht ''PLAYPRIVATELOG'' ''playprivatelog'' ''Plays your Message Log'' ''help/PLAYPRIVATELOG.TXT'' 0 0,
      Hasht ''ERASEPRIVATELOG'' ''eraseprivatelog'' ''Erases your Message Log'' ''help/ERASEPRIVATELOG.TXT'' 0 0,
      Hasht ''ADDLOG'' ''cmdaddlog'' ''Adds a Log source / filter'' ''help/ADDLOG.TXT'' 0 0,
      Hasht ''DELLOG'' ''cmddellog'' ''Deletes a Log source by number'' ''help/DELLOG.TXT'' 0 0,
      Hasht ''LISTLOGS'' ''cmdlistlogs'' ''Lists all added Log sources/filters'' ''help/LISTLOGS.TXT'' 0 0,
      Hasht ''PLAYTRAFFICLOG'' ''playtrafficlog'' ''Plays the Traffic Log'' ''help/PLAYTRAFFICLOG.TXT'' 0 0,
      Hasht ''ERASETRAFFICLOG'' ''erasetrafficlog'' ''Erases the Traffic Log'' ''help/ERASETRAFFICLOG.TXT'' 0 0,
      Hasht ''ENCRYPT'' ''cmdencrypt'' ''Encrypts talk to a given channel/user'' ''help/ENCRYPT.TXT'' 0 0,
      Hasht ''DELENCRYPT'' ''cmddelencrypt'' ''Deletes an encryption entry by number'' ''help/DELENCRYPT.TXT'' 0 0,
      Hasht ''LISTENCRYPT'' ''cmdlistencrypt'' ''Shows a List of encrypted talks'' ''help/LISTENCRYPT.TXT'' 0 0,
      Hasht ''BREHASH'' ''cmdrehash'' ''Rehashes the proxy and resets all Connections'' ''help/REHASH.TXT'' 0 1,
      Hasht ''MADMIN'' ''cmdadmin'' ''Gives a User an Admin flag'' ''help/MADMIN.TXT'' 0 1,
      Hasht ''UNADMIN'' ''cmdunadmin'' ''Removes the Admin flag from a User'' ''help/UNADMIN.TXT'' 0 1,
      Hasht ''BKILL'' ''cmdbkill'' ''Kills a User from the proxy'' ''help/BKILL.TXT'' 0 1,
      Hasht ''SOCKSTAT'' ''cmdsockstat'' ''Shows/Logs the current Connections'' ''help/SOCKSTAT.TXT'' 0 1,
      Hasht ''KILLSOCKET'' ''cmdkillsock'' ''Kills a specific socket'' ''help/KILLSOCKET.TXT'' 0 1,
      Hasht ''FIXLISTENER'' ''cmdfixlistener'' ''Attempts to fix a broken listener socket'' ''help/FIXLISTENER.TXT'' 0 1,
      Hasht ''ADDUSER'' ''cmdadduser'' ''Adds a new User to the Bouncer'' ''help/ADDUSER.TXT'' 0 1,
      Hasht ''DELUSER'' ''cmddeluser'' ''Deletes a User from the Bouncer'' ''help/DELUSER.TXT'' 0 1,
      Hasht ''PLAYMAINLOG'' ''playmainlog'' ''Plays the Connection Log'' ''help/PLAYMAINLOG.TXT'' 0 1,
      Hasht ''ERASEMAINLOG'' ''erasemainlog'' ''Erases the Connection Log'' ''help/ERASEMAINLOG.TXT'' 0 1,
      Hasht ''ADDALLOW'' ''cmdaddallow'' ''Adds a host allow to connect'' ''help/ADDALLOW.TXT'' 0 1,
      Hasht ''DELALLOW'' ''cmddelallow'' ''Deletes a host allow'' ''help/DELALLOW.TXT'' 0 1,
      Hasht ''LISTALLOW'' ''cmdlistallow'' ''Lists the host allows on your proxy'' ''help/LISTALLOW.TXT'' 0 1,
      Hasht ''SRELOAD'' ''cmdreloadscript'' ''Reloads the Script for the User'' ''help/SRELOAD.TXT'' 0 0,
      Hasht ''LISTTASKS'' ''cmdlisttasks'' ''Lists the current running tasks'' ''help/LISTTASKS.TXT'' 0 0,
      Hasht ''SETLANG'' ''cmdsetlang'' ''Sets the language  (global)'' ''help/SETLANG.TXT'' 0 1,
      Hasht ''BHELP'' ''printhelp'' ''Lists this help or help on a topic'' ''help/BHELP.TXT'' 0 0,
      Hasht ''BDONE'' ''cmdbdone'' (''Just returns the string '' @ [CHR 0x27] @ ''Done'' @ [CHR 0x27] @ '' and optional text if specified'') ''help/BDONE.TXT'' 0 0,
      Hasht ''SETCONNECTDELAY'' ''cmdsetconnectdelay'' ''Changes the connection delay (in seconds) of IRC-clients'' ''help/SETCONNECTDELAY.TXT'' 0 1]"

definition outboundhash :: "hasht list" where
  "outboundhash =
     [Hasht ''ERROR'' ''msgERROR'' '''' '''' 0 0,
      Hasht ''001'' ''msg001'' '''' '''' 1 0,
      Hasht ''002'' ''msg002to005'' '''' '''' 1 0,
      Hasht ''003'' ''msg002to005'' '''' '''' 1 0,
      Hasht ''004'' ''msg002to005'' '''' '''' 1 0,
      Hasht ''005'' ''msg002to005'' '''' '''' 1 0,
      Hasht ''251'' ''msg251to255265to266'' '''' '''' 1 0,
      Hasht ''252'' ''msg251to255265to266'' '''' '''' 1 0,
      Hasht ''253'' ''msg251to255265to266'' '''' '''' 1 0,
      Hasht ''254'' ''msg251to255265to266'' '''' '''' 1 0,
      Hasht ''255'' ''msg251to255265to266'' '''' '''' 1 0,
      Hasht ''265'' ''msg251to255265to266'' '''' '''' 1 0,
      Hasht ''266'' ''msg251to255265to266'' '''' '''' 1 0,
      Hasht ''372'' ''msg372to375'' '''' '''' 2 0,
      Hasht ''375'' ''msg372to375'' '''' '''' 2 0,
      Hasht ''376'' ''msg376'' '''' '''' 0 0,
      Hasht ''352'' ''msg352'' '''' '''' 2 0,
      Hasht ''353'' ''msg353'' '''' '''' 1 0,
      Hasht ''315'' ''msg315'' '''' '''' 2 0,
      Hasht ''324'' ''msg324'' '''' '''' 1 0,
      Hasht ''332'' ''msg332'' '''' '''' 1 0,
      Hasht ''366'' ''msg366'' '''' '''' 1 0,
      Hasht ''432'' ''msg432to437'' '''' '''' 2 0,
      Hasht ''433'' ''msg432to437'' '''' '''' 2 0,
      Hasht ''437'' ''msg432to437'' '''' '''' 2 0,
      Hasht ''PING'' ''pong'' '''' '''' 0 0,
      Hasht ''NICK'' ''gotnick'' '''' '''' 1 0,
      Hasht ''JOIN'' ''gotjoin'' '''' '''' 1 0,
      Hasht ''PART'' ''gotpart'' '''' '''' 1 0,
      Hasht ''QUIT'' ''gotquit'' '''' '''' 1 0,
      Hasht ''KICK'' ''gotkick'' '''' '''' 1 0,
      Hasht ''MODE'' ''gotmode'' '''' '''' 1 0,
      Hasht ''TOPIC'' ''gottopic'' '''' '''' 1 0,
      Hasht ''PRIVMSG'' ''msgprivmsg'' '''' '''' 2 0,
      Hasht ''NOTICE'' ''msgprivmsg'' '''' '''' 2 0]"

section \<open>Lines of the client\<close>

lemma token_start_less: "0 < j \<Longrightarrow> s ! j \<noteq> CHR '' '' \<Longrightarrow> s ! j \<noteq> CHR '':'' \<Longrightarrow> token_start s j < j"
proof (induction s j rule: token_start.induct)
  case (2 s i)
  have "token_start s i \<le> i" by (induction i) auto
  then show ?case using 2 by simp
qed simp

lemma token_end_SomeD:
  assumes "strchr s (CHR ''~'') = Some j0" "token_end s j0 = Some j" "j0 \<noteq> 0"
  shows "0 < j \<and> j < length s \<and> s ! j = CHR ''~''"
proof -
  have *: "i < length r \<and> r ! i = CHR ''~''" if "strchr r (CHR ''~'') = Some i" for r i
    using that find_char_SomeD by (fastforce simp: strchr_def)
  show ?thesis using assms *[OF assms(1)] by (auto simp: token_end_def split: if_splits dest!: *)
qed

lemma checknetwork_cases:
  assumes "checknetwork usern b = Some (i, b')"
  obtains "i = usern" "b' = b"
  | k j where "(i, b') = use_token usern (strmncpy (b_buf b) 8192) k j b" "0 < k" "k < j" "j < length (strmncpy (b_buf b) 8192)"
proof -
  let ?tmp = "strmncpy (b_buf b) 8192"
  show ?thesis
  proof (cases "i = usern \<and> b' = b")
    case False
    then obtain j0 j where j: "strchr ?tmp (CHR ''~'') = Some j0" "j0 \<noteq> 0" "token_end ?tmp j0 = Some j"
        "(i, b') = use_token usern ?tmp (token_start ?tmp j) j b" "0 < token_start ?tmp j"
      using assms by (auto simp: checknetwork_def Let_def split: option.splits if_splits)
    then have "0 < j" "j < length ?tmp" "?tmp ! j = CHR ''~''" using token_end_SomeD by blast+
    then show ?thesis using that(2) [OF j(4,5)] token_start_less [of j ?tmp] by simp
  qed (use that(1) in blast)
qed

lemma checknetwork_shorter:
  assumes "checknetwork usern b = Some (i, b')" "i \<noteq> usern"
  shows "length (b_buf b') < length (b_buf b)"
  using assms(1)
proof (cases rule: checknetwork_cases)
  case (2 k j)
  let ?tmp = "strmncpy (b_buf b) 8192"
  have eq: "b_buf b' = snpf 8192 (take k ?tmp @ '' '' @ drop (j + 1) ?tmp)"
    using 2(1) assms(2) by (auto simp: use_token_def Let_def split: option.splits)
  have le: "length (snpf 8192 s) \<le> length s" for s by (simp add: snpf_def)
  have "length (b_buf b') \<le> length (take k ?tmp @ '' '' @ drop (j + 1) ?tmp)" unfolding eq by (rule le)
  also have "\<dots> < length ?tmp" using 2(3,4) by simp
  also have "\<dots> \<le> length (b_buf b)" by (simp add: strmncpy_def)
  finally show ?thesis .
qed (use assms(2) in blast)

text \<open>Further tokens are taken out until none is left.\<close>

function filter_tokens :: "int \<Rightarrow> bnc \<Rightarrow> bnc option" where
  "filter_tokens ausern b =
     (case checknetwork ausern b of
        None \<Rightarrow> None
      | Some (i, b') \<Rightarrow> if i = ausern then Some b' else filter_tokens ausern b')"
  by pat_completeness auto
termination
  by (relation "measure (\<lambda>(n, b). length (b_buf b))") (auto intro: checknetwork_shorter)

declare filter_tokens.simps [simp del]

definition admins_only :: "int \<Rightarrow> bnc \<Rightarrow> bnc" where
  "admins_only ausern b =
     bprint (u_insock (buser b ausern))
       ('':-psyBNC!psyBNC@psyBNC.dk PRIVMSG '' @ u_nick (buser b ausern) @ '' :Only admins may use that command.'' @ [CR, LF]) b"

text \<open>The entry that fits runs and the search ends; the flag says that the dispatcher returns at once.\<close>

fun inbound_loop :: "handlers \<Rightarrow> int \<Rightarrow> int \<Rightarrow> hasht list \<Rightarrow> bnc \<Rightarrow> (bool \<times> bnc) option" where
  "inbound_loop run ausern usern [] b = Some (False, b)"
| "inbound_loop run ausern usern (h # hs) b =
     (if ifcommand (Some (h_command h)) (b_irc b)
      then if h_adminonly h = 1 \<and> u_rights (buser b usern) \<noteq> RI_ADMIN then Some (True, admins_only ausern b)
        else map_option (\<lambda>(rc, b). ((if h_proceed h = 2 then rc else h_proceed h) = 0, b)) (run (h_handler h) usern b)
      else inbound_loop run ausern usern hs b)"

text \<open>What both dispatchers do once the user of the network is known.\<close>

definition inbound ::
  "handlers \<Rightarrow> (int \<Rightarrow> bnc \<Rightarrow> int \<times> bnc) \<Rightarrow> (bnc \<Rightarrow> bnc) \<Rightarrow> int \<Rightarrow> int \<Rightarrow> bnc \<Rightarrow> bnc option" where
  "inbound run executealias set_socket ausern usern b =
     do {
       let (ca, b) = (if usern \<le> 1000 then executealias usern (bparse (set_socket b)) else (0, b));
       (stop, b) \<leftarrow> (if usern \<le> 1000 \<and> ca = 0 then inbound_loop run ausern usern inboundhash b else Some (False, b));
       Some (if \<not> stop \<and> u_outstate (buser b usern) > STD_NOCON \<and> ca = 0
             then bwrite (u_outsock (buser b usern)) (b_buf b) b else b)
     }"

definition fakeinbound ::
  "handlers \<Rightarrow> (int \<Rightarrow> bnc \<Rightarrow> int \<times> bnc) \<Rightarrow> int \<Rightarrow> bnc \<Rightarrow> bnc option" where
  "fakeinbound run executealias iusern b =
     do {
       let ausern = owner iusern b;
       (usern, b) \<leftarrow> checknetwork ausern b;
       b \<leftarrow> filter_tokens ausern b;
       inbound run executealias (\<lambda>b. b) ausern usern b
     }"

definition userinbound ::
  "handlers \<Rightarrow> (int \<Rightarrow> bnc \<Rightarrow> int \<times> bnc) \<Rightarrow> bool \<Rightarrow> int \<Rightarrow> int \<Rightarrow> bnc \<Rightarrow> bnc option" where
  "userinbound run executealias SCRSOCK currentsocket iusern b =
     do {
       let ausern = owner iusern b;
       (usern, b) \<leftarrow> checknetwork ausern b;
       b \<leftarrow> filter_tokens ausern b;
       inbound run executealias
         (if SCRSOCK then (\<lambda>b. b) else bmod usern (\<lambda>u. u\<lparr>u_insock := currentsocket\<rparr>)) ausern usern b
     }"

section \<open>Lines of the server\<close>

fun outbound_loop :: "handlers \<Rightarrow> int \<Rightarrow> hasht list \<Rightarrow> bnc \<Rightarrow> (bool \<times> bnc) option" where
  "outbound_loop run usern [] b = Some (False, b)"
| "outbound_loop run usern (h # hs) b =
     (if ifcommand (Some (h_command h)) (b_irc b)
      then map_option (\<lambda>(rc, b). ((if h_proceed h = 2 then rc else h_proceed h) = 0, b)) (run (h_handler h) usern b)
      else outbound_loop run usern hs b)"

text \<open>A user of a network takes over the socket of its parent, and every 200th line is answered with a pong.\<close>

definition outbound_start :: "int \<Rightarrow> bnc \<Rightarrow> bnc" where
  "outbound_start usern b =
     (let b = (if u_parent (buser b usern) \<noteq> 0
               then let b = bmod usern (\<lambda>u. u\<lparr>u_insock := u_insock (buser b (u_parent u))\<rparr>) b
                    in bmod usern (\<lambda>u. u\<lparr>u_instate := u_instate (buser b (u_parent u))\<rparr>) b
               else b);
          b = (if u_autopongreply (buser b usern) = 0
               then bmod usern (\<lambda>u. u\<lparr>u_autopongreply := 200\<rparr>)
                      (bprint (u_outsock (buser b usern)) (''PONG :'' @ u_server (buser b usern) @ [CR, LF]) b)
               else b)
      in bparse (bmod usern (\<lambda>u. u\<lparr>u_autopongreply := u_autopongreply u - 1\<rparr>) b))"

text \<open>Handing the line on to the client, or to the log when no client is there.\<close>

definition outbound_end ::
  "(int \<Rightarrow> bool) \<Rightarrow> (int \<Rightarrow> bnc \<Rightarrow> bnc) \<Rightarrow> (int \<Rightarrow> bnc \<Rightarrow> bnc) \<Rightarrow> int \<Rightarrow> bnc \<Rightarrow> bnc" where
  "outbound_end open_socket checklogging serverevent usern b =
     (let b = (if u_parent (buser b usern) \<noteq> 0 \<or> usern > 10000 then addtoken usern b else b);
          b = (if b_buf b = [] then b
               else if u_instate (buser b usern) = STD_CONN \<and> open_socket (u_insock (buser b usern))
               then bwrite (u_insock (buser b usern)) (b_buf b) b
               else checklogging usern b)
      in if usern \<le> 10000 \<and> b_buf b \<noteq> []
         then let b = bparse b in if ifcommand (Some ''MODE'') (b_irc b) then b else serverevent usern b
         else b)"

definition useroutbound ::
  "handlers \<Rightarrow> (int \<Rightarrow> bool) \<Rightarrow> (int \<Rightarrow> bnc \<Rightarrow> bnc) \<Rightarrow> (int \<Rightarrow> bnc \<Rightarrow> bnc) \<Rightarrow> int \<Rightarrow> bnc \<Rightarrow> bnc option" where
  "useroutbound run open_socket checklogging serverevent usern b =
     map_option (\<lambda>(stop, b). if stop then b else outbound_end open_socket checklogging serverevent usern b)
       (if usern \<le> 10000 then outbound_loop run usern outboundhash (outbound_start usern b) else Some (False, b))"

section \<open>Help\<close>

definition help_head :: "bnc \<Rightarrow> int \<Rightarrow> string" where
  "help_head b usern = '':-psyBNC!psyBNC@psyBNC.dk PRIVMSG '' @ u_nick (buser b usern) @ '' :''"

definition help_line :: "int \<Rightarrow> hasht \<Rightarrow> bnc \<Rightarrow> bnc" where
  "help_line usern h b =
     (if h_comment h = [] then b
      else bprint (u_insock (buser b usern))
        (help_head b usern @ ''BHELP '' @ (if h_adminonly h = 1 then ''*'' else '' '') @ '' '' @
         h_command h @ replicate (15 - length (h_command h)) (CHR '' '') @ '' - '' @ h_comment h @ [LF]) b)"

function help_text :: "int \<Rightarrow> string \<Rightarrow> bnc \<Rightarrow> bnc" where
  "help_text usern text b =
     (if text = [] then b
      else let bufx = fgets 200 text
           in help_text usern (drop (length bufx) text)
                (bprint (u_insock (buser b usern)) (help_head b usern @ bufx @ [LF]) b))"
  by pat_completeness auto
termination
  by (relation "measure (\<lambda>(usern, text, b). length text)") (auto simp: fgets_not_Nil)

declare help_text.simps [simp del]

fun help_topic :: "(string \<Rightarrow> string option) \<Rightarrow> int \<Rightarrow> hasht list \<Rightarrow> bnc \<Rightarrow> bnc" where
  "help_topic files usern [] b =
     bprint (u_insock (buser b usern)) (help_head b usern @ ''No Help found for: '' @ irccommand (b_irc b) @ [LF]) b"
| "help_topic files usern (h # hs) b =
     (if ifcommand (Some (h_command h)) (b_irc b) \<and> h_helpfile h \<noteq> []
      then (case files (h_helpfile h) of
              None \<Rightarrow> bprint (u_insock (buser b usern)) (help_head b usern @ ''Helpfile '' @ h_helpfile h @ '' not available.'' @ [LF]) b
            | Some text \<Rightarrow> help_text usern text b)
      else help_topic files usern hs b)"

definition userhelp :: "(int \<Rightarrow> bnc \<Rightarrow> bnc) \<Rightarrow> (string \<Rightarrow> string option) \<Rightarrow> int \<Rightarrow> string option \<Rightarrow> bnc \<Rightarrow> bnc" where
  "userhelp aliasbhelp files usern cmd b =
     (case cmd of
        None \<Rightarrow>
          let b = fold (help_line usern) inboundhash b in
          aliasbhelp usern (bprint (u_insock (buser b usern)) (help_head b usern @ ''BHELP Use /QUOTE bhelp <command> for details.'' @ [LF]) b)
      | Some c \<Rightarrow>
          let b = b\<lparr>b_irc := (b_irc b)\<lparr>irccommand := ucase (strmncpy c 64)\<rparr>\<rparr>;
              b = bprint (u_insock (buser b usern)) (help_head b usern @ ''Help for: '' @ irccommand (b_irc b) @ [LF]) b
          in help_topic files usern inboundhash b)"

section \<open>Only admins reach the commands of admins\<close>

text \<open>Finding the network does not touch the rights of anybody.\<close>

lemma rights_frame [simp]:
  "u_rights (buser (bmod n (\<lambda>u. u\<lparr>u_insock := x u\<rparr>) b) m) = u_rights (buser b m)"
  "u_rights (buser (bmod n (\<lambda>u. u\<lparr>u_instate := x u\<rparr>) b) m) = u_rights (buser b m)"
  "u_rights (buser (b\<lparr>b_buf := s\<rparr>) m) = u_rights (buser b m)"
  "u_rights (buser (inherit_socket i usern b) m) = u_rights (buser b m)"
  "u_rights (buser (bparse b) m) = u_rights (buser b m)"
proof -
  show 1: "u_rights (buser (bmod n (\<lambda>u. u\<lparr>u_insock := x u\<rparr>) b) m) = u_rights (buser b m)"
    and 2: "u_rights (buser (bmod n (\<lambda>u. u\<lparr>u_instate := x u\<rparr>) b) m) = u_rights (buser b m)" for n x b
    unfolding bmod_def by (simp_all add: getu_modu_frame [where g = u_rights])
  show "u_rights (buser (inherit_socket i usern b) m) = u_rights (buser b m)"
    by (simp add: inherit_socket_def 1 2 Let_def)
qed (simp_all add: bparse_def)

lemma checknetwork_rights:
  assumes "checknetwork usern b = Some (i, b')"
  shows "u_rights (buser b' m) = u_rights (buser b m)"
  using assms
  by (cases rule: checknetwork_cases) (auto simp: use_token_def Let_def bprint_def bwrite_def bout_def split: option.splits)

lemma filter_tokens_rights: "filter_tokens n b = Some b' \<Longrightarrow> u_rights (buser b' m) = u_rights (buser b m)"
proof (induction n b rule: filter_tokens.induct)
  case (1 n b)
  obtain i b1 where c: "checknetwork n b = Some (i, b1)" using 1(2) by (subst (asm) filter_tokens.simps) (auto split: option.splits)
  then have "filter_tokens n b = (if i = n then Some b1 else filter_tokens n b1)" by (subst filter_tokens.simps) simp
  then show ?case using 1 c checknetwork_rights [OF c] by (auto split: if_splits)
qed

text \<open>A handler that the table gives to admins alone.\<close>

definition admin_handler :: "string \<Rightarrow> bool" where
  "admin_handler name \<longleftrightarrow> list_all (\<lambda>h. h_handler h = name \<longrightarrow> h_adminonly h = 1) inboundhash"

lemma inbound_loop_agree:
  assumes "\<And>h. h \<in> set hs \<Longrightarrow> h_adminonly h \<noteq> 1 \<Longrightarrow> run (h_handler h) = run' (h_handler h)"
    and "u_rights (buser b usern) \<noteq> RI_ADMIN"
  shows "inbound_loop run ausern usern hs b = inbound_loop run' ausern usern hs b"
  using assms by (induction hs) (simp_all add: split_beta)

lemma inbound_agree:
  assumes "\<And>name. \<not> admin_handler name \<Longrightarrow> run name = run' name"
    and "\<And>n b. u_rights (buser (snd (alias n b)) n) = u_rights (buser b n)"
    and "\<And>b. u_rights (buser (set_socket b) usern) = u_rights (buser b usern)"
    and "u_rights (buser b usern) \<noteq> RI_ADMIN"
  shows "inbound run alias set_socket ausern usern b = inbound run' alias set_socket ausern usern b"
proof -
  have "run (h_handler h) = run' (h_handler h)" if "h \<in> set inboundhash" "h_adminonly h \<noteq> 1" for h
    using that assms(1) by (auto simp: admin_handler_def list_all_iff)
  then have "inbound_loop run ausern usern inboundhash (snd (alias usern (bparse (set_socket b)))) =
      inbound_loop run' ausern usern inboundhash (snd (alias usern (bparse (set_socket b))))"
    using assms(2-4) by (intro inbound_loop_agree) simp_all
  then show ?thesis by (cases "alias usern (bparse (set_socket b))") (simp add: inbound_def cong: if_cong)
qed

text \<open>
  (C1) Nobody but an admin reaches the commands of admins: when the user a line of a client is for
  (the user itself or the network its token names) is not an admin, the outcome does not depend on
  what the handlers of admin commands do, whatever the line is. Aliases of scripts may run in
  between as long as they leave the rights of the user alone.
\<close>

theorem userinbound_admin_only:
  assumes "\<And>name. \<not> admin_handler name \<Longrightarrow> run name = run' name"
    and "\<And>n b. u_rights (buser (snd (alias n b)) n) = u_rights (buser b n)"
    and "\<And>usern b'. checknetwork (owner iusern b) b = Some (usern, b') \<Longrightarrow> u_rights (buser b usern) \<noteq> RI_ADMIN"
  shows "userinbound run alias scr sock iusern b = userinbound run' alias scr sock iusern b \<and>
    fakeinbound run alias iusern b = fakeinbound run' alias iusern b"
proof -
  have "inbound run alias ss (owner iusern b) usern b2 = inbound run' alias ss (owner iusern b) usern b2"
    if "checknetwork (owner iusern b) b = Some (usern, b1)" "filter_tokens (owner iusern b) b1 = Some b2"
      "\<And>b. u_rights (buser (ss b) usern) = u_rights (buser b usern)" for ss usern b1 b2
    using assms(3) [OF that(1)] checknetwork_rights [OF that(1)] filter_tokens_rights [OF that(2)]
    by (intro inbound_agree assms(1,2) that(3)) simp_all
  then show ?thesis
    by (auto simp: userinbound_def fakeinbound_def Let_def split: Option.bind_split)
qed

theorem userinbound_admin_only_witness:
  "userinbound (\<lambda>name n b. Some (0, if name = ''cmdadmin'' then b\<lparr>b_buf := ''done''\<rparr> else b)) (\<lambda>n b. (0, b)) False 9 1
       (sample_bnc\<lparr>b_buf := ''MADMIN :jane''\<rparr>) =
     userinbound (\<lambda>name n b. Some (0, b)) (\<lambda>n b. (0, b)) False 9 1 (sample_bnc\<lparr>b_buf := ''MADMIN :jane''\<rparr>) \<and>
   fakeinbound (\<lambda>name n b. Some (0, if name = ''cmdadmin'' then b\<lparr>b_buf := ''done''\<rparr> else b)) (\<lambda>n b. (0, b)) 1
       (sample_bnc\<lparr>b_buf := ''MADMIN :jane''\<rparr>) =
     fakeinbound (\<lambda>name n b. Some (0, b)) (\<lambda>n b. (0, b)) 1 (sample_bnc\<lparr>b_buf := ''MADMIN :jane''\<rparr>)"
proof (rule userinbound_admin_only)
  have "admin_handler ''cmdadmin''" by (simp add: admin_handler_def inboundhash_def)
  then show "(\<lambda>n b. Some (0, if name = ''cmdadmin'' then b\<lparr>b_buf := ''done''\<rparr> else b)) = (\<lambda>n b. Some (0, b))" if "\<not> admin_handler name" for name
    using that by (auto simp: fun_eq_iff)
  fix usern b'
  assume "checknetwork (owner 1 (sample_bnc\<lparr>b_buf := ''MADMIN :jane''\<rparr>)) (sample_bnc\<lparr>b_buf := ''MADMIN :jane''\<rparr>) = Some (usern, b')"
  then have "usern = owner 1 (sample_bnc\<lparr>b_buf := ''MADMIN :jane''\<rparr>)" by (auto simp: checknetwork_def strchr_def Let_def)
  also have "\<dots> = 1" by (simp add: owner_def sample_bnc_def getu_def ucell_def user_nr_def MAX_USER_def zero_usert_def)
  finally show "u_rights (buser (sample_bnc\<lparr>b_buf := ''MADMIN :jane''\<rparr>) usern) \<noteq> RI_ADMIN"
    by (simp add: RI_ADMIN_def sample_bnc_def getu_def ucell_def user_nr_def MAX_USER_def zero_usert_def)
qed simp

section \<open>The dispatchers return\<close>

lemma checknetwork_returns:
  assumes "at (b_buf b) 0 \<noteq> CHR ''~''"
  shows "\<exists>i b'. checknetwork n b = Some (i, b') \<and> at (b_buf b') 0 \<noteq> CHR ''~''"
proof -
  let ?tmp = "strmncpy (b_buf b) 8192"
  have "at ?tmp 0 \<noteq> CHR ''~''" using assms by (auto simp: strmncpy_def at_def)
  moreover have "at s 0 = CHR ''~''" if "strchr s (CHR ''~'') = Some 0" for s
    using that find_char_SomeD [of "CHR ''~''" s 0] by (auto simp: strchr_def at_def)
  ultimately have first: "strchr ?tmp (CHR ''~'') \<noteq> Some 0" by blast
  then obtain i b' where c: "checknetwork n b = Some (i, b')"
    by (fastforce simp: checknetwork_def Let_def split: option.splits if_splits)
  then have "at (b_buf b') 0 \<noteq> CHR ''~''"
  proof (cases rule: checknetwork_cases)
    case (2 k j)
    have "b_buf b' = [] \<or> b_buf b' = snpf 8192 (take k ?tmp @ '' '' @ drop (j + 1) ?tmp)"
      using 2(1) by (auto simp: use_token_def Let_def split: option.splits)
    moreover have "at (snpf 8192 (take k ?tmp @ r)) 0 = at ?tmp 0" for r
      using 2(2-4) by (cases ?tmp; cases k) (auto simp: snpf_def at_def)
    moreover have "at [] 0 \<noteq> CHR ''~''" by (simp add: at_def)
    ultimately show ?thesis using \<open>at ?tmp 0 \<noteq> CHR ''~''\<close> by auto
  qed (use assms in simp)
  with c show ?thesis by blast
qed

lemma filter_tokens_returns: "at (b_buf b) 0 \<noteq> CHR ''~'' \<Longrightarrow> \<exists>b'. filter_tokens n b = Some b'"
proof (induction n b rule: filter_tokens.induct)
  case (1 n b)
  obtain i b' where c: "checknetwork n b = Some (i, b')" "at (b_buf b') 0 \<noteq> CHR ''~''" using checknetwork_returns [OF 1(2)] by blast
  then have "filter_tokens n b = (if i = n then Some b' else filter_tokens n b')" by (subst filter_tokens.simps) simp
  then show ?case using 1(1) [OF c(1) refl] c(2) by auto
qed

lemma inbound_loop_returns:
  assumes "\<And>name n b. run name n b \<noteq> None"
  shows "inbound_loop run ausern usern hs b \<noteq> None"
  using assms by (induction hs) (simp_all del: not_None_eq)

lemma inbound_returns:
  assumes "\<And>name n b. run name n b \<noteq> None"
  shows "\<exists>b'. inbound run alias set_socket ausern usern b = Some b'"
proof -
  obtain ca b1 where a: "(if usern \<le> 1000 then alias usern (bparse (set_socket b)) else (0, b)) = (ca, b1)" by fastforce
  obtain r where "inbound_loop run ausern usern inboundhash b1 = Some r"
    using inbound_loop_returns [of run ausern usern inboundhash b1, OF assms] by blast
  then show ?thesis using a by (cases r) (simp add: inbound_def)
qed

text \<open>
  (C34) The dispatchers return on every line that does not start with a tilde: the loop that takes
  further network tokens out of the line ends, since each token makes the line shorter, and no read
  is in front of the buffer. Only a handler can keep them from returning.
\<close>

theorem userinbound_returns:
  assumes "at (b_buf b) 0 \<noteq> CHR ''~''" "\<And>name n b. run name n b \<noteq> None"
  shows "(\<exists>b'. userinbound run alias scr sock iusern b = Some b') \<and> (\<exists>b'. fakeinbound run alias iusern b = Some b')"
proof -
  obtain i b1 where c: "checknetwork (owner iusern b) b = Some (i, b1)" "at (b_buf b1) 0 \<noteq> CHR ''~''"
    using checknetwork_returns [OF assms(1)] by blast
  then obtain b2 where "filter_tokens (owner iusern b) b1 = Some b2" using filter_tokens_returns by blast
  with c show ?thesis using inbound_returns [of run, OF assms(2)] by (simp add: userinbound_def fakeinbound_def)
qed

theorem userinbound_returns_witness:
  "(\<exists>b'. userinbound (\<lambda>name n b. Some (0, b)) (\<lambda>n b. (0, b)) False 9 1 (sample_bnc\<lparr>b_buf := ''JOIN #net~#net~#a''\<rparr>) = Some b') \<and>
   (\<exists>b'. fakeinbound (\<lambda>name n b. Some (0, b)) (\<lambda>n b. (0, b)) 1 (sample_bnc\<lparr>b_buf := ''JOIN #net~#net~#a''\<rparr>) = Some b')"
  by (rule userinbound_returns) (simp_all add: at_def)

section \<open>Every command has one handler\<close>

lemma distinct_commands: "distinct (map h_command inboundhash)"
  unfolding inboundhash_def by (simp only: list.map hasht.sel) simp

lemma commands_not_empty: "\<forall>h \<in> set inboundhash. h_command h \<noteq> []"
  unfolding inboundhash_def by (simp only: list.set ball_simps hasht.sel insert_iff list.distinct simp_thms)

lemma inbound_loop_entry:
  assumes "distinct (map h_command hs)" "h \<in> set hs" "irccommand (b_irc b) = h_command h" "h_command h \<noteq> []"
  shows "inbound_loop run ausern usern hs b = inbound_loop run ausern usern [h] b"
  using assms by (induction hs) (auto simp: ifcommand_def)

text \<open>
  (C35) Every command of the table runs its own handler and no other: the handler sees the state as
  the parser left it, its return value decides about the rest when the entry says so, and a command
  for admins is refused to anybody else with a message to the client.
\<close>

theorem inbound_command:
  assumes "h \<in> set inboundhash" "irccommand (b_irc b) = h_command h"
  shows "inbound_loop run ausern usern inboundhash b =
    (if h_adminonly h = 1 \<and> u_rights (buser b usern) \<noteq> RI_ADMIN then Some (True, admins_only ausern b)
     else case run (h_handler h) usern b of
       None \<Rightarrow> None
     | Some (rc, b') \<Rightarrow> Some (if h_proceed h = 2 then rc = 0 else h_proceed h = 0, b'))"
proof -
  have "h_command h \<noteq> []" using assms(1) commands_not_empty by blast
  moreover from this have "ifcommand (Some (h_command h)) (b_irc b)" using assms(2) by (simp add: ifcommand_def)
  ultimately show ?thesis
    unfolding inbound_loop_entry [OF distinct_commands assms \<open>h_command h \<noteq> []\<close>] by (simp split: option.split)
qed

theorem inbound_command_witness:
  "inbound_loop (\<lambda>name n b. Some (1, b\<lparr>b_buf := name\<rparr>)) 1 1 inboundhash (sample_bnc\<lparr>b_irc := empty_irc\<lparr>irccommand := ''JUMP''\<rparr>\<rparr>) =
     Some (True, sample_bnc\<lparr>b_irc := empty_irc\<lparr>irccommand := ''JUMP''\<rparr>, b_buf := ''cmdjump''\<rparr>)"
proof -
  have "Hasht ''JUMP'' ''cmdjump'' ''Jumps to the next IRC-Server'' ''help/JUMP.TXT'' 0 0 \<in> set inboundhash"
    by (simp add: inboundhash_def)
  from inbound_command [OF this, of "sample_bnc\<lparr>b_irc := empty_irc\<lparr>irccommand := ''JUMP''\<rparr>\<rparr>" "\<lambda>name n b. Some (1, b\<lparr>b_buf := name\<rparr>)"]
  show ?thesis by simp
qed

end
