(* ===== verification/Socket.thy ===== *)
theory Socket
  imports Types "HOL-Library.Monad_Syntax"
begin

text \<open>
  Sockets, src/p_socket.c: the nodes of the socket table, the queue of lines that wait to be written,
  the flood protection towards IRC servers, the buffer that puts received bytes together to lines, and
  what a turn of the socket driver does to them.

  What the operating system does is an argument (the bytes that \<open>recv\<close> delivers) or recorded (the
  bytes handed to \<open>write\<close>, oldest first). \<open>None\<close> is an access outside a buffer.
\<close>

section \<open>Data\<close>

record sendqt =
  q_data :: string
  q_len :: nat
  q_delay :: int

record psockett =
  s_type :: int
  s_flag :: int
  s_nowfds :: int
  s_syssock :: int
  s_sockgroup :: nat
  s_dataflow :: int
  s_datalen :: nat
  s_commbuf :: string
  s_bytesread :: nat
  s_serversocket :: int
  s_serverstoned :: int
  s_serverbytes :: int
  s_bytesin :: nat
  s_bytesout :: nat
  s_param :: int
  s_delay :: int
  s_sendq :: "sendqt list"
  s_entrys :: int

text \<open>Bytes written: lines of the queue, data of a stream, and the pings of the flood protection.\<close>

datatype written = Line string | Data string | Ping

text \<open>The nodes, the flag \<open>urgent\<close>, the pause since the last round, the socket to leave out, and the writes.\<close>

record sockets =
  n_nodes :: "psockett option list"
  n_urgent :: bool
  n_delayinc :: int
  n_notsocket :: int
  n_out :: "(int \<times> written) list"

definition SOC_CONN :: int where
  "SOC_CONN = 2"

definition SD_STREAM :: int where
  "SD_STREAM = 1"

definition MAX_SENDQ :: int where
  "MAX_SENDQ = 1000"

section \<open>Searching the nodes\<close>

fun getpsocketbysock :: "int \<Rightarrow> psockett option list \<Rightarrow> (nat \<times> psockett) option" where
  "getpsocketbysock syssock [] = None"
| "getpsocketbysock syssock (th # rest) =
     (case th of
        Some s \<Rightarrow>
          if s_syssock s = syssock then Some (0, s)
          else map_option (\<lambda>(i, s). (Suc i, s)) (getpsocketbysock syssock rest)
      | None \<Rightarrow> map_option (\<lambda>(i, s). (Suc i, s)) (getpsocketbysock syssock rest))"

fun getpsocketbygroup :: "int \<Rightarrow> nat \<Rightarrow> int \<Rightarrow> psockett option list \<Rightarrow> (nat \<times> psockett) option" where
  "getpsocketbygroup notsocket grp notsock [] = None"
| "getpsocketbygroup notsocket grp notsock (lkm # rest) =
     (case lkm of
        Some s \<Rightarrow>
          if s_sockgroup s = grp \<and> s_syssock s \<noteq> notsock \<and> s_syssock s \<noteq> notsocket then Some (0, s)
          else map_option (\<lambda>(i, s). (Suc i, s)) (getpsocketbygroup notsocket grp notsock rest)
      | None \<Rightarrow> map_option (\<lambda>(i, s). (Suc i, s)) (getpsocketbygroup notsocket grp notsock rest))"

definition put_node :: "nat \<Rightarrow> psockett \<Rightarrow> sockets \<Rightarrow> sockets" where
  "put_node i s n = n\<lparr>n_nodes := (n_nodes n)[i := Some s]\<rparr>"

definition put_out :: "int \<Rightarrow> written \<Rightarrow> sockets \<Rightarrow> sockets" where
  "put_out sock w n = n\<lparr>n_out := n_out n @ [(sock, w)]\<rparr>"

section \<open>Writing a line\<close>

text \<open>A line ends in carriage return and line feed; percent signs come back from the byte 127.\<close>

definition out_line :: "string \<Rightarrow> string option" where
  "out_line data =
     (let buf = strmncpy data 8200 in
      map_option (\<lambda>b. replace b (char_of (127 :: nat)) (CHR ''%''))
        (case strchr buf LF of
           None \<Rightarrow> if length buf + 2 < 8200 then Some (buf @ [CR, LF]) else None
         | Some i \<Rightarrow>
             if i = 0 then None
             else if buf ! (i - 1) = CR then Some buf
             else if i + 2 < 8200 then Some (take i buf @ [CR, LF]) else None))"

text \<open>Writing at once, behind the tests that put a line into the queue.\<close>

definition write_now :: "int \<Rightarrow> nat \<Rightarrow> psockett \<Rightarrow> string \<Rightarrow> sockets \<Rightarrow> sockets option" where
  "write_now sock i s data n =
     (if sock = 0 then Some n
      else if data = [] then Some n
      else do {
        buf \<leftarrow> out_line data;
        let n = (if s_flag s = SOC_CONN then put_out sock (Line buf) n else n);
        Some ((put_node i (s\<lparr>s_bytesout := s_bytesout s + length buf, s_delay := 300\<rparr>) n)\<lparr>n_urgent := False\<rparr>)
      })"

definition stream_now :: "int \<Rightarrow> nat \<Rightarrow> psockett \<Rightarrow> string \<Rightarrow> sockets \<Rightarrow> sockets" where
  "stream_now sock i s data n =
     (let n = (if s_flag s = SOC_CONN then put_out sock (Data data) n else n)
      in (put_node i (s\<lparr>s_bytesout := s_bytesout s + length data\<rparr>) n)\<lparr>n_urgent := False\<rparr>)"

section \<open>The queue\<close>

text \<open>
  Flood protection: a server gets at most 700 bytes before it has to answer a ping; a line that is
  longer than that passes.
\<close>

definition flood_stop :: "psockett \<Rightarrow> string \<Rightarrow> bool" where
  "flood_stop s data \<longleftrightarrow> s_serverbytes s + int (length data) > 700 \<and> length data < 700"

text \<open>The first entry leaves the queue and is written.\<close>

definition send_first :: "int \<Rightarrow> nat \<Rightarrow> psockett \<Rightarrow> sendqt \<Rightarrow> sendqt list \<Rightarrow> sockets \<Rightarrow> sockets option" where
  "send_first socket i s msq rest n =
     (let s = s\<lparr>s_sendq := rest, s_entrys := s_entrys s - 1\<rparr>;
          n = (put_node i s n)\<lparr>n_urgent := True\<rparr>
      in if s_dataflow s = SD_STREAM then Some (stream_now socket i s (take (q_len msq) (q_data msq)) n)
         else write_now socket i s (q_data msq) n)"

definition flushsendq :: "int \<Rightarrow> bool \<Rightarrow> sockets \<Rightarrow> sockets option" where
  "flushsendq socket forced n =
     (case getpsocketbysock socket (n_nodes n) of
        None \<Rightarrow> Some n
      | Some (i, s) \<Rightarrow>
          (case s_sendq s of
             [] \<Rightarrow> Some n
           | msq # rest \<Rightarrow>
               if s_flag s < SOC_CONN then Some n
               else if \<not> forced \<and> q_delay msq > 0
               then Some (put_node i (s\<lparr>s_sendq := msq\<lparr>q_delay := q_delay msq - n_delayinc n\<rparr> # rest\<rparr>) n)
               else if s_serversocket s = 1 \<and> s_flag s = SOC_CONN
               then (if s_serverstoned s > 0 then Some n
                     else if flood_stop s (q_data msq) then Some (put_out socket Ping (put_node i (s\<lparr>s_serverstoned := 20\<rparr>) n))
                     else send_first socket i (s\<lparr>s_serverbytes := s_serverbytes s + int (length (q_data msq))\<rparr>) msq rest n)
               else send_first socket i s msq rest n))"

text \<open>One entry for one node. The queue that is flushed when the node has too many is that of \<open>socket\<close>.\<close>

definition enqueue :: "int \<Rightarrow> sendqt \<Rightarrow> nat \<Rightarrow> sockets \<Rightarrow> sockets option" where
  "enqueue socket q i n =
     (case n_nodes n ! i of
        None \<Rightarrow> None
      | Some s \<Rightarrow>
          do {
            let s = s\<lparr>s_entrys := s_entrys s + 1\<rparr>;
            let n = put_node i s n;
            n \<leftarrow> (if s_entrys s > MAX_SENDQ \<and> s_serverstoned s = 0 then flushsendq socket True n else Some n);
            s \<leftarrow> n_nodes n ! i;
            Some (put_node i (s\<lparr>s_sendq := s_sendq s @ [q]\<rparr>) n)
          })"

fun enqueue_all :: "int \<Rightarrow> sendqt \<Rightarrow> nat list \<Rightarrow> sockets \<Rightarrow> sockets option" where
  "enqueue_all socket q [] n = Some n"
| "enqueue_all socket q (i # is) n = do { n \<leftarrow> enqueue socket q i n; enqueue_all socket q is n }"

text \<open>
  A socket of a group stands for every socket of the group behind the first node. Without a node the
  line would be written at once, which ends at the missing node.
\<close>

lemma getpsocketbygroup_bound: "getpsocketbygroup notsocket g notsock nodes = Some (k, s) \<Longrightarrow> k < length nodes"
  by (induction nodes arbitrary: k) (auto split: option.splits if_splits)

function group_nodes :: "int \<Rightarrow> nat \<Rightarrow> psockett option list \<Rightarrow> nat \<Rightarrow> nat list" where
  "group_nodes notsocket grp nodes lkm =
     (case getpsocketbygroup notsocket grp (-1) (drop (lkm + 1) nodes) of
        None \<Rightarrow> []
      | Some (k, s) \<Rightarrow> (lkm + 1 + k) # group_nodes notsocket grp nodes (lkm + 1 + k))"
  by pat_completeness auto
termination
  by (relation "measure (\<lambda>(notsocket, grp, nodes, lkm). length nodes - lkm)") (auto dest!: getpsocketbygroup_bound)

declare group_nodes.simps [simp del]

definition addq :: "int \<Rightarrow> string \<Rightarrow> nat \<Rightarrow> int \<Rightarrow> sockets \<Rightarrow> sockets option" where
  "addq socket data len sqdelay n =
     (let q = \<lparr>q_data = data, q_len = len, q_delay = sqdelay\<rparr> in
      case getpsocketbysock socket (n_nodes n) of
        None \<Rightarrow> Some (n\<lparr>n_urgent := True\<rparr>)
      | Some (i, s) \<Rightarrow>
          if s_sockgroup s \<noteq> 0 then enqueue_all socket q (group_nodes (n_notsocket n) (s_sockgroup s) (n_nodes n) 0) n
          else enqueue socket q i n)"

definition writesock :: "int \<Rightarrow> string \<Rightarrow> sockets \<Rightarrow> sockets option" where
  "writesock socket data n =
     (case getpsocketbysock socket (n_nodes n) of
        None \<Rightarrow> Some n
      | Some (i, s) \<Rightarrow>
          let n = (if s_flag s < SOC_CONN then n\<lparr>n_urgent := False\<rparr> else n) in
          if \<not> n_urgent n \<and> s_nowfds s \<noteq> 1 then addq socket data (length data + 1) 0 n
          else write_now socket i s data n)"

definition writesock_URGENT :: "int \<Rightarrow> string \<Rightarrow> sockets \<Rightarrow> sockets option" where
  "writesock_URGENT socket data n = writesock socket data (n\<lparr>n_urgent := True\<rparr>)"

definition writesock_DELAY :: "int \<Rightarrow> string \<Rightarrow> int \<Rightarrow> sockets \<Rightarrow> sockets option" where
  "writesock_DELAY socket data delay n = addq socket data (length data + 1) delay n"

definition writesock_STREAM :: "int \<Rightarrow> string \<Rightarrow> sockets \<Rightarrow> sockets option" where
  "writesock_STREAM socket data n =
     (case getpsocketbysock socket (n_nodes n) of
        None \<Rightarrow> Some n
      | Some (i, s) \<Rightarrow>
          if \<not> n_urgent n then addq socket data (length data) 0 n else Some (stream_now socket i s data n))"

definition ssnprintf :: "int \<Rightarrow> string \<Rightarrow> sockets \<Rightarrow> sockets option" where
  "ssnprintf sock text n = writesock sock (snpf 8192 text) n"

section \<open>Receiving\<close>

text \<open>
  What \<open>recv\<close> reports, at most as many bytes as were asked for. The handler of the socket gets a line
  and says whether the socket still exists; \<open>pong\<close> is what the answer to a ping does to the user.
\<close>

datatype received = Got string | Again | Closed int

text \<open>Answers to the pings of the flood protection are not handed on.\<close>

definition pong_line :: "string \<Rightarrow> bool" where
  "pong_line buf = (case strchr buf (CHR '' '') of None \<Rightarrow> False | Some i \<Rightarrow> prefix ''PONG '' (drop (i + 1) buf))"

definition take_pong :: "('w \<Rightarrow> 'w) \<Rightarrow> string \<Rightarrow> psockett \<Rightarrow> 'w \<Rightarrow> string \<times> psockett \<times> 'w" where
  "take_pong pong buf s w =
     (if s_serversocket s = 1 \<and> pong_line buf
      then if s_serverstoned s \<noteq> 0 then ([], s\<lparr>s_serverstoned := 0, s_serverbytes := 0\<rparr>, w) else ([], s, pong w)
      else (buf, s, w))"

text \<open>The complete lines of the buffer, one after the other.\<close>

function recv_loop :: "(string \<Rightarrow> 'w \<Rightarrow> bool \<times> 'w) \<Rightarrow> ('w \<Rightarrow> 'w) \<Rightarrow> psockett \<Rightarrow> 'w \<Rightarrow> bool \<times> psockett \<times> 'w" where
  "recv_loop handler pong s w =
     (case find_char LF (cstr (s_commbuf s)) of
        None \<Rightarrow> (True, s, w)
      | Some i \<Rightarrow>
          let ircbuf = replace (take (i + 1) (s_commbuf s)) (CHR ''%'') (char_of (127 :: nat));
              rest = s\<lparr>s_commbuf := drop (i + 1) (s_commbuf s), s_bytesread := s_bytesread s - (i + 1)\<rparr>;
              (ircbuf, s', w') = take_pong pong ircbuf rest w;
              (alive, w'') = (if length ircbuf > 1 then handler ircbuf w' else (True, w'))
          in if alive then recv_loop handler pong s' w'' else (False, s', w''))"
  by pat_completeness auto
termination
proof (relation "measure (\<lambda>(handler, pong, s, w). length (s_commbuf s))", goal_cases)
  case (2 handler pong s w i ircbuf rest x ircbuf' y s' w' z alive w'')
  have "i < length (cstr (s_commbuf s))" using find_char_SomeD [OF 2(1)] by simp
  also have "\<dots> \<le> length (s_commbuf s)" by (simp add: cstr_def length_takeWhile_le)
  finally have "length (s_commbuf rest) < length (s_commbuf s)" using 2(3) by simp
  moreover have "s_commbuf s' = s_commbuf rest" using 2(4-6) by (auto simp: take_pong_def split: if_splits)
  ultimately show ?case by simp
qed simp

declare recv_loop.simps [simp del]

text \<open>The return value, whether the socket was killed, the socket and the state of the handlers.\<close>

definition receivesock ::
  "(string \<Rightarrow> 'w \<Rightarrow> bool \<times> 'w) \<Rightarrow> ('w \<Rightarrow> 'w) \<Rightarrow> received \<Rightarrow> psockett \<Rightarrow> 'w \<Rightarrow> int \<times> bool \<times> psockett \<times> 'w" where
  "receivesock handler pong got s w =
     (if s_bytesread s \<ge> 8191 then (1, True, s, w)
      else case got of
        Again \<Rightarrow> (1, False, s, w)
      | Closed rc \<Rightarrow> (rc, False, s, w)
      | Got data \<Rightarrow>
          let s = s\<lparr>s_commbuf := s_commbuf s @ data, s_bytesread := s_bytesread s + length data, s_bytesin := s_bytesin s + length data\<rparr> in
          if s_dataflow s = SD_STREAM
          then let ircbuf = take (length data) (s_commbuf s);
                   (alive, w) = handler ircbuf w
               in (int (length data), False, s\<lparr>s_datalen := length data, s_commbuf := [], s_bytesread := 0\<rparr>, w)
          else let (alive, s, w) = recv_loop handler pong s w
               in (if alive then int (length data) else -1, False, s, w))"

fun receive_all :: "(string \<Rightarrow> 'w \<Rightarrow> bool \<times> 'w) \<Rightarrow> ('w \<Rightarrow> 'w) \<Rightarrow> string list \<Rightarrow> psockett \<Rightarrow> 'w \<Rightarrow> psockett \<times> 'w" where
  "receive_all handler pong [] s w = (s, w)"
| "receive_all handler pong (c # cs) s w =
     (let (rc, killed, s, w) = receivesock handler pong (Got c) s w in receive_all handler pong cs s w)"

section \<open>Lines arrive whole\<close>

definition is_line :: "string \<Rightarrow> bool" where
  "is_line l \<longleftrightarrow> (\<exists>x. l = x @ [LF] \<and> LF \<notin> set x)"

definition mask_percent :: "string \<Rightarrow> string" where
  "mask_percent l = replace l (CHR ''%'') (char_of (127 :: nat))"

text \<open>
  What becomes of a list of lines: on the connection to a server an answer to a ping ends the pause of
  the flood protection, or counts for the user when there is none; every other line longer than one
  byte is handled.
\<close>

definition take_line :: "(string \<Rightarrow> 'w \<Rightarrow> bool \<times> 'w) \<Rightarrow> ('w \<Rightarrow> 'w) \<Rightarrow> bool \<Rightarrow> string \<Rightarrow> bool \<times> 'w \<Rightarrow> bool \<times> 'w" where
  "take_line handler pong server l x =
     (case x of (stoned, w) \<Rightarrow>
        if server \<and> pong_line l then (False, if stoned then w else pong w)
        else (stoned, if length l > 1 then snd (handler l w) else w))"

definition deliver :: "(string \<Rightarrow> 'w \<Rightarrow> bool \<times> 'w) \<Rightarrow> ('w \<Rightarrow> 'w) \<Rightarrow> bool \<Rightarrow> string list \<Rightarrow> bool \<times> 'w \<Rightarrow> bool \<times> 'w" where
  "deliver handler pong server ls x = fold (take_line handler pong server) (map mask_percent ls) x"

text \<open>The socket when the pause is over, or was none.\<close>

definition settle :: "bool \<Rightarrow> psockett \<Rightarrow> psockett" where
  "settle stoned s = (if s_serverstoned s \<noteq> 0 \<and> \<not> stoned then s\<lparr>s_serverstoned := 0, s_serverbytes := 0\<rparr> else s)"

lemma settle_simps [simp]:
  "settle (s_serverstoned s \<noteq> 0) s = s" "s_serversocket (settle d s) = s_serversocket s" "s_dataflow (settle d s) = s_dataflow s"
  "settle d (s\<lparr>s_commbuf := x\<rparr>) = settle d s\<lparr>s_commbuf := x\<rparr>" "settle d (s\<lparr>s_bytesread := k\<rparr>) = settle d s\<lparr>s_bytesread := k\<rparr>"
  "settle d (s\<lparr>s_bytesin := k\<rparr>) = settle d s\<lparr>s_bytesin := k\<rparr>"
  by (auto simp: settle_def)

lemma settle_stoned: "s_serverstoned (settle d s) \<noteq> 0 \<longleftrightarrow> s_serverstoned s \<noteq> 0 \<and> d"
  by (simp add: settle_def)

lemma settle_settle: "settle d (settle c s) = settle (c \<and> d) s"
  by (auto simp: settle_def)

lemma take_line_stoned: "fst (take_line handler pong server l (d, w)) \<Longrightarrow> d"
  by (auto simp: take_line_def split: if_splits)

lemma deliver_stoned: "fst (deliver handler pong server ls x) \<Longrightarrow> fst x"
proof (induction ls arbitrary: x)
  case (Cons l ls)
  then show ?case using take_line_stoned [of handler pong server "mask_percent l" "fst x" "snd x"] by (simp add: deliver_def)
qed (simp add: deliver_def)

lemma take_pong_line:
  assumes "\<And>l w. fst (handler l w)"
  shows "(let (buf, s', w') = take_pong pong l s w; (alive, w'') = (if length buf > 1 then handler buf w' else (True, w')) in (alive, s', w'')) =
    (let (d, w') = take_line handler pong (s_serversocket s = 1) l (s_serverstoned s \<noteq> 0, w) in (True, settle d s, w'))"
  using assms by (auto simp: take_pong_def take_line_def settle_def Let_def split_beta prod_eq_iff)

lemma lines_exist: "\<exists>ls rest. s = concat ls @ rest \<and> (\<forall>l \<in> set ls. is_line l) \<and> LF \<notin> set rest"
proof (induction "length s" arbitrary: s rule: less_induct)
  case less
  show ?case
  proof (cases "LF \<in> set s")
    case True
    then obtain x r where s: "s = x @ LF # r" "LF \<notin> set x" by (meson split_list_first)
    have "length r < length s" using s by simp
    then obtain ls rest where "r = concat ls @ rest" "\<forall>l \<in> set ls. is_line l" "LF \<notin> set rest" using less by blast
    then show ?thesis using s by (intro exI [of _ "(x @ [LF]) # ls"] exI [of _ rest]) (auto simp: is_line_def)
  qed (intro exI [of _ "[]"] exI [of _ s], simp)
qed

lemma recv_loop_step:
  assumes alive: "\<And>l w. fst (handler l w)" and i: "find_char LF (cstr (s_commbuf s)) = Some i"
  shows "recv_loop handler pong s w =
    (let (d, w') = take_line handler pong (s_serversocket s = 1) (mask_percent (take (i + 1) (s_commbuf s))) (s_serverstoned s \<noteq> 0, w)
     in recv_loop handler pong (settle d s\<lparr>s_commbuf := drop (i + 1) (s_commbuf s), s_bytesread := s_bytesread s - (i + 1)\<rparr>) w')"
proof -
  let ?l = "mask_percent (take (i + 1) (s_commbuf s))"
  let ?s = "s\<lparr>s_commbuf := drop (i + 1) (s_commbuf s), s_bytesread := s_bytesread s - (i + 1)\<rparr>"
  obtain d w1 where d: "take_line handler pong (s_serversocket s = 1) ?l (s_serverstoned s \<noteq> 0, w) = (d, w1)" by fastforce
  obtain buf s' w' where tp: "take_pong pong ?l ?s w = (buf, s', w')" by (metis prod_cases3)
  have "(if length buf > 1 then handler buf w' else (True, w')) = (True, w1)" "s' = settle d ?s"
    using take_pong_line [of handler pong ?l ?s w, OF alive] d tp
    by (cases "length buf > 1"; simp add: Let_def split_beta prod_eq_iff alive)+
  then show ?thesis using d tp by (subst recv_loop.simps, unfold i) (simp add: mask_percent_def)
qed

lemma recv_loop_lines:
  assumes alive: "\<And>l w. fst (handler l w)"
    and buf: "s_commbuf s = concat ls @ rest" "\<forall>l \<in> set ls. is_line l" "LF \<notin> set rest" "no_nul (s_commbuf s)"
    and cnt: "s_bytesread s = length (s_commbuf s)"
  shows "recv_loop handler pong s w =
    (let (d, w') = deliver handler pong (s_serversocket s = 1) ls (s_serverstoned s \<noteq> 0, w)
     in (True, settle d s\<lparr>s_commbuf := rest, s_bytesread := length rest\<rparr>, w'))"
  using buf cnt
proof (induction ls arbitrary: s w)
  case Nil
  then show ?case by (subst recv_loop.simps) (auto simp: deliver_def find_char_None [THEN iffD2])
next
  case (Cons l ls)
  obtain x where x: "l = x @ [LF]" "LF \<notin> set x" using Cons.prems(2) by (auto simp: is_line_def)
  let ?n = "\<lambda>d. settle d s\<lparr>s_commbuf := concat ls @ rest, s_bytesread := length (concat ls @ rest)\<rparr>"
  have i: "find_char LF (cstr (s_commbuf s)) = Some (length x)" using Cons.prems(1,4) x by simp
  have b: "take (length x + 1) (s_commbuf s) = l" "drop (length x + 1) (s_commbuf s) = concat ls @ rest"
      "s_bytesread s - (length x + 1) = length (concat ls @ rest)"
    using Cons.prems(1,5) x by simp_all
  obtain d w1 where d: "take_line handler pong (s_serversocket s = 1) (mask_percent l) (s_serverstoned s \<noteq> 0, w) = (d, w1)" by fastforce
  have le: "d \<Longrightarrow> s_serverstoned s \<noteq> 0" using take_line_stoned [of handler pong _ "mask_percent l" _ w] d by (metis fst_conv)
  have st: "(s_serverstoned (?n d) \<noteq> 0) = d" using le by (auto simp: settle_stoned)
  have "recv_loop handler pong s w = recv_loop handler pong (?n d) w1"
    unfolding recv_loop_step [OF alive i] b d by simp
  also have "\<dots> = (let (e, w2) = deliver handler pong (s_serversocket s = 1) ls (d, w1)
      in (True, settle e (?n d)\<lparr>s_commbuf := rest, s_bytesread := length rest\<rparr>, w2))"
    using Cons.IH [of "?n d" w1] Cons.prems unfolding st by simp
  also have "\<dots> = (let (e, w2) = deliver handler pong (s_serversocket s = 1) ls (d, w1)
      in (True, settle e s\<lparr>s_commbuf := rest, s_bytesread := length rest\<rparr>, w2))"
  proof -
    have "(d \<and> fst (deliver handler pong (s_serversocket s = 1) ls (d, w1))) = fst (deliver handler pong (s_serversocket s = 1) ls (d, w1))"
      using deliver_stoned [of handler pong "s_serversocket s = 1" ls "(d, w1)"] by auto
    then show ?thesis by (simp add: Let_def split_beta settle_settle)
  qed
  finally show ?case using d by (simp add: deliver_def)
qed

text \<open>The bytes of each report fit into what is left of the buffer, as \<open>recv\<close> was asked for no more.\<close>

definition open_end :: "string \<Rightarrow> string" where
  "open_end s = rev (takeWhile (\<lambda>c. c \<noteq> LF) (rev s))"

fun chunks_fit :: "string \<Rightarrow> string list \<Rightarrow> bool" where
  "chunks_fit rest [] = True"
| "chunks_fit rest (c # cs) \<longleftrightarrow> length rest < 8191 \<and> length rest + length c \<le> 8191 \<and> chunks_fit (open_end (rest @ c)) cs"

lemma open_end_lines:
  assumes "\<forall>l \<in> set ls. is_line l" "LF \<notin> set rest"
  shows "open_end (concat ls @ rest) = rest"
proof (cases ls rule: rev_cases)
  case Nil
  have "takeWhile (\<lambda>c. c \<noteq> LF) (rev rest) = rev rest" unfolding takeWhile_eq_all_conv using assms(2) by auto
  from arg_cong [OF this, of rev] have "open_end rest = rest" unfolding open_end_def rev_rev_ident .
  then show ?thesis using Nil by simp
next
  case (snoc ks l)
  obtain x where "l = x @ [LF]" using assms(1) snoc by (auto simp: is_line_def)
  moreover have "takeWhile (\<lambda>c. c \<noteq> LF) (rev rest @ LF # r) = rev rest" for r
    using assms(2) by (subst takeWhile_append2) auto
  ultimately show ?thesis using snoc by (simp add: open_end_def)
qed

lemma receivesock_lines:
  assumes "\<And>l w. fst (handler l w)" "s_dataflow s \<noteq> SD_STREAM"
    and "s_bytesread s = length (s_commbuf s)" "no_nul (s_commbuf s @ c)" "length (s_commbuf s) < 8191"
    and "s_commbuf s @ c = concat ls @ rest" "\<forall>l \<in> set ls. is_line l" "LF \<notin> set rest"
  shows "receivesock handler pong (Got c) s w =
    (let (d, w') = deliver handler pong (s_serversocket s = 1) ls (s_serverstoned s \<noteq> 0, w)
     in (int (length c), False, settle d s\<lparr>s_commbuf := rest, s_bytesread := length rest, s_bytesin := s_bytesin s + length c\<rparr>, w'))"
proof -
  let ?s = "s\<lparr>s_commbuf := s_commbuf s @ c, s_bytesread := s_bytesread s + length c, s_bytesin := s_bytesin s + length c\<rparr>"
  have len: "length (s_commbuf s) + length c = length (concat ls @ rest)" by (metis assms(6) length_append)
  have "recv_loop handler pong ?s w = (let (d, w') = deliver handler pong (s_serversocket s = 1) ls (s_serverstoned s \<noteq> 0, w)
     in (True, settle d ?s\<lparr>s_commbuf := rest, s_bytesread := length rest\<rparr>, w'))"
    using recv_loop_lines [of handler ?s ls rest pong w] assms len by simp
  then show ?thesis using assms(2,3,5) by (simp add: receivesock_def Let_def split_beta)
qed

text \<open>
  (C11) Lines arrive whole and in order, however the bytes of a connection are cut into pieces: when
  the pieces arrive one after the other, exactly the complete lines of the whole stream, percent signs
  masked, are taken in their order, and the bytes behind the last line feed stay in the buffer. On the
  connection of a client each line longer than one byte goes to the handler; on the connection to a
  server an answer to a ping does not, it ends the pause of the flood protection or is noted for the
  user. This is the connection of a handler that keeps its socket, of a stream without zero bytes whose
  buffer never fills up with an unfinished line.
\<close>

theorem receive_stream:
  assumes "\<And>l w. fst (handler l w)" "s_dataflow s \<noteq> SD_STREAM"
    and "s_bytesread s = length (s_commbuf s)" "no_nul (s_commbuf s @ concat cs)" "LF \<notin> set (s_commbuf s)"
    and "chunks_fit (s_commbuf s) cs"
  shows "\<exists>ls s' d w'. receive_all handler pong cs s w = (s', w') \<and>
    deliver handler pong (s_serversocket s = 1) ls (s_serverstoned s \<noteq> 0, w) = (d, w') \<and>
    s_serverstoned s' = (if d then s_serverstoned s else 0) \<and>
    s_commbuf s @ concat cs = concat ls @ s_commbuf s' \<and> (\<forall>l \<in> set ls. is_line l) \<and> LF \<notin> set (s_commbuf s')"
  using assms(2-)
proof (induction cs arbitrary: s w)
  case Nil
  then show ?case by (intro exI [of _ "[]"]) (simp add: deliver_def)
next
  case (Cons c cs)
  obtain ls rest where l: "s_commbuf s @ c = concat ls @ rest" "\<forall>l \<in> set ls. is_line l" "LF \<notin> set rest"
    using lines_exist by blast
  obtain d w1 where d: "deliver handler pong (s_serversocket s = 1) ls (s_serverstoned s \<noteq> 0, w) = (d, w1)" by fastforce
  let ?s = "settle d s\<lparr>s_commbuf := rest, s_bytesread := length rest, s_bytesin := s_bytesin s + length c\<rparr>"
  have nn: "no_nul (s_commbuf s @ c)" "no_nul (rest @ concat cs)"
    using Cons.prems(3) arg_cong [OF l(1), of set] by (auto simp: no_nul_def)
  have one: "receivesock handler pong (Got c) s w = (int (length c), False, ?s, w1)"
    using receivesock_lines [OF assms(1) Cons.prems(1,2) nn(1) _ l] Cons.prems(5) d by simp
  have le: "d \<Longrightarrow> s_serverstoned s \<noteq> 0"
    using deliver_stoned [of handler pong "s_serversocket s = 1" ls "(s_serverstoned s \<noteq> 0, w)"] d by (metis fst_conv)
  have st: "(s_serverstoned ?s \<noteq> 0) = d" "s_serverstoned ?s = (if d then s_serverstoned s else 0)" using le by (auto simp: settle_def)
  have "open_end (s_commbuf s @ c) = rest" unfolding l(1) by (rule open_end_lines [OF l(2,3)])
  then obtain ls' s' e w' where r: "receive_all handler pong cs ?s w1 = (s', w')"
      "deliver handler pong (s_serversocket s = 1) ls' (d, w1) = (e, w')"
      "s_serverstoned s' = (if e then s_serverstoned ?s else 0)"
      "rest @ concat cs = concat ls' @ s_commbuf s'" "\<forall>l \<in> set ls'. is_line l" "LF \<notin> set (s_commbuf s')"
    using Cons.IH [of ?s w1] Cons.prems nn(2) l(3) unfolding st(1) by auto
  have "e \<Longrightarrow> d" using deliver_stoned [of handler pong "s_serversocket s = 1" ls' "(d, w1)"] r(2) by simp
  then have "s_serverstoned s' = (if e then s_serverstoned s else 0)" unfolding r(3) st(2) by simp
  moreover have "deliver handler pong (s_serversocket s = 1) (ls @ ls') (s_serverstoned s \<noteq> 0, w) = (e, w')"
    using d r(2) by (simp add: deliver_def)
  moreover have "s_commbuf s @ concat (c # cs) = concat (ls @ ls') @ s_commbuf s'"
    using l(1) r(4) by (metis append.assoc concat.simps(2) concat_append)
  ultimately show ?case using one r(1,5,6) l(2) by (intro exI [of _ "ls @ ls'"] exI [of _ s'] exI [of _ e] exI [of _ w']) auto
qed

definition fresh_socket :: "int \<Rightarrow> psockett" where
  "fresh_socket sock = \<lparr>s_type = 0, s_flag = SOC_CONN, s_nowfds = 0, s_syssock = sock, s_sockgroup = 0, s_dataflow = 0, s_datalen = 0,
     s_commbuf = [], s_bytesread = 0, s_serversocket = 0, s_serverstoned = 0, s_serverbytes = 0, s_bytesin = 0, s_bytesout = 0,
     s_param = 0, s_delay = 0, s_sendq = [], s_entrys = 0\<rparr>"

theorem receive_stream_witness:
  "\<exists>ls s' d w'. receive_all (\<lambda>l w. (True, w @ [l])) (\<lambda>w. w) [''NICK ja'', ''ne'' @ [LF] @ '':h PO'', ''NG p'' @ [LF] @ ''J'']
      ((fresh_socket 5)\<lparr>s_serversocket := 1, s_serverstoned := 20\<rparr>) [] = (s', w') \<and>
    deliver (\<lambda>l w. (True, w @ [l])) (\<lambda>w. w) True ls (True, []) = (d, w') \<and> s_serverstoned s' = (if d then 20 else 0) \<and>
    ''NICK jane'' @ [LF] @ '':h PONG p'' @ [LF] @ ''J'' = concat ls @ s_commbuf s' \<and> (\<forall>l \<in> set ls. is_line l) \<and> LF \<notin> set (s_commbuf s')"
  using receive_stream [of "\<lambda>l w. (True, w @ [l])" "(fresh_socket 5)\<lparr>s_serversocket := 1, s_serverstoned := 20\<rparr>"
      "[''NICK ja'', ''ne'' @ [LF] @ '':h PO'', ''NG p'' @ [LF] @ ''J'']" "\<lambda>w. w" "[]"]
  by (simp add: fresh_socket_def SD_STREAM_def open_end_def del: receive_all.simps cong: if_cong)

section \<open>The turns of the socket driver\<close>

definition SOC_SYN :: int where
  "SOC_SYN = 1"

definition ST_CONNECT :: int where
  "ST_CONNECT = 0"

text \<open>
  The first pass over the nodes: the pause of a server that was pinged gets shorter, and when it is over
  without an answer the count of its bytes starts again; the first line of the queue gets nearer to its time.
\<close>

definition tick_stoned :: "int \<Rightarrow> psockett \<Rightarrow> psockett" where
  "tick_stoned delayinc s =
     (if s_serversocket s \<noteq> 0 \<and> s_serverstoned s > 0
      then let s = s\<lparr>s_serverstoned := s_serverstoned s - delayinc\<rparr> in
           if s_serverstoned s = 0 then s\<lparr>s_serverbytes := 0\<rparr> else s
      else s)"

definition tick_queue :: "int \<Rightarrow> psockett \<Rightarrow> psockett" where
  "tick_queue delayinc s =
     (case s_sendq s of
        [] \<Rightarrow> s
      | msq # rest \<Rightarrow> if q_delay msq > 0 then s\<lparr>s_sendq := msq\<lparr>q_delay := q_delay msq - delayinc\<rparr> # rest\<rparr> else s)"

definition driver_tick :: "int \<Rightarrow> psockett \<Rightarrow> psockett" where
  "driver_tick delayinc s =
     (let s = tick_stoned delayinc s in
      if s_flag s = SOC_SYN \<or> s_flag s = SOC_CONN \<and> s_syssock s > 0 then tick_queue delayinc s else s)"

text \<open>A connection that was made gets an empty line with a delay, when it has a handler for that moment.\<close>

definition driver_connected :: "bool \<Rightarrow> nat \<Rightarrow> psockett \<Rightarrow> sockets \<Rightarrow> sockets option" where
  "driver_connected constructed i s n =
     (let s = (if s_type s = ST_CONNECT then s\<lparr>s_flag := SOC_CONN\<rparr> else s);
          n = put_node i (s\<lparr>s_delay := 300\<rparr>) n
      in if constructed then writesock_DELAY (s_syssock s) [] 5 n else Some n)"

text \<open>An outgoing connection on which nothing was written for 300 seconds gets an empty line at once.\<close>

definition sense_disconnect :: "nat \<Rightarrow> psockett \<Rightarrow> sockets \<Rightarrow> sockets option" where
  "sense_disconnect i s n =
     (if s_flag s = SOC_CONN \<and> s_type s = ST_CONNECT \<and> s_dataflow s \<noteq> SD_STREAM
      then let s = s\<lparr>s_delay := s_delay s - n_delayinc n\<rparr>; n = put_node i s n in
           if s_delay s \<le> 0
           then do {
             n \<leftarrow> writesock_URGENT (s_syssock s) [CR, LF] n;
             s \<leftarrow> n_nodes n ! i;
             Some (put_node i (s\<lparr>s_delay := 300\<rparr>) n)
           }
           else Some n
      else Some n)"

section \<open>Nothing is lost or overtaken in a queue\<close>

text \<open>What was written to a socket so far, and what is written for one entry.\<close>

definition writes :: "int \<Rightarrow> sockets \<Rightarrow> written list" where
  "writes sock n = [w. (k, w) \<leftarrow> n_out n, k = sock]"

definition out_lines :: "string \<Rightarrow> written list option" where
  "out_lines data = (if data = [] then Some [] else map_option (\<lambda>l. [Line l]) (out_line data))"

lemma writes_simps [simp]:
  "writes sock (put_node i s n) = writes sock n" "writes sock (n\<lparr>n_urgent := u\<rparr>) = writes sock n"
  "writes sock (put_out sock w n) = writes sock n @ [w]"
  by (simp_all add: writes_def put_node_def put_out_def)

lemma getpsocketbysock_put:
  assumes "getpsocketbysock sock nodes = Some (i, s)" "s_syssock s' = sock"
  shows "getpsocketbysock sock (nodes[i := Some s']) = Some (i, s')"
  using assms(1)
proof (induction nodes arbitrary: i)
  case (Cons th nodes)
  then show ?case using assms(2) by (cases i) (auto split: option.splits if_splits)
qed simp

lemma getpsocketbysock_nth: "getpsocketbysock sock nodes = Some (i, s) \<Longrightarrow> i < length nodes \<and> nodes ! i = Some s \<and> s_syssock s = sock"
proof (induction nodes arbitrary: i)
  case (Cons th nodes)
  then show ?case by (cases i) (auto split: option.splits if_splits)
qed simp

text \<open>A connected socket for lines with a queue of its own.\<close>

definition steady :: "int \<Rightarrow> nat \<Rightarrow> sockets \<Rightarrow> psockett \<Rightarrow> bool" where
  "steady sock i n s \<longleftrightarrow>
     getpsocketbysock sock (n_nodes n) = Some (i, s) \<and> s_flag s = SOC_CONN \<and> s_dataflow s \<noteq> SD_STREAM \<and> s_sockgroup s = 0"

lemma steady_put:
  assumes "steady sock i n s" "s_syssock s' = s_syssock s" "s_flag s' = SOC_CONN" "s_dataflow s' \<noteq> SD_STREAM" "s_sockgroup s' = 0"
    and "n_nodes n' = (n_nodes n)[i := Some s']"
  shows "steady sock i n' s'"
proof -
  have "getpsocketbysock sock (n_nodes n) = Some (i, s)" using assms(1) by (simp add: steady_def)
  moreover from this have "s_syssock s' = sock" using assms(2) getpsocketbysock_nth by simp
  ultimately have "getpsocketbysock sock (n_nodes n') = Some (i, s')" using getpsocketbysock_put assms(6) by simp
  then show ?thesis using assms by (simp add: steady_def)
qed

lemma steadyD:
  assumes "steady sock i n s"
  shows "getpsocketbysock sock (n_nodes n) = Some (i, s)" "s_flag s = SOC_CONN" "s_dataflow s \<noteq> SD_STREAM" "s_sockgroup s = 0"
    "n_nodes n ! i = Some s" "s_syssock s = sock" "i < length (n_nodes n)"
  using assms getpsocketbysock_nth [of sock "n_nodes n" i s] by (simp_all add: steady_def)

text \<open>
  The connection that was just made is such a socket, with the empty line behind what waits already; and
  an empty line that leaves the queue is not written, but leaves the flag \<open>urgent\<close> behind: the next line
  for any socket is written at once.
\<close>

lemma connected_steady:
  assumes "driver_connected True i s n = Some n'" "getpsocketbysock sock (n_nodes n) = Some (i, s)"
    and "s_type s = ST_CONNECT" "s_dataflow s \<noteq> SD_STREAM" "s_sockgroup s = 0" "s_entrys s < MAX_SENDQ"
  shows "\<exists>s'. steady sock i n' s' \<and> map q_data (s_sendq s') = map q_data (s_sendq s) @ [[]]"
proof -
  let ?t = "s\<lparr>s_flag := SOC_CONN, s_delay := 300\<rparr>"
  have g: "i < length (n_nodes n)" "n_nodes n ! i = Some s" "s_syssock s = sock" using getpsocketbysock_nth [OF assms(2)] by auto
  have t: "getpsocketbysock sock (n_nodes (put_node i ?t n)) = Some (i, ?t)"
    using getpsocketbysock_put [OF assms(2), of ?t] g(3) by (simp add: put_node_def)
  then have st: "steady sock i (put_node i ?t n) ?t" using assms(4,5) by (simp add: steady_def)
  let ?s = "?t\<lparr>s_entrys := s_entrys s + 1, s_sendq := s_sendq s @ [\<lparr>q_data = [], q_len = 1, q_delay = 5\<rparr>]\<rparr>"
  have "n' = put_node i ?s (put_node i (?t\<lparr>s_entrys := s_entrys s + 1\<rparr>) (put_node i ?t n))"
    using assms(1,3,5,6) t g by (simp add: driver_connected_def writesock_DELAY_def addq_def enqueue_def put_node_def Let_def)
  then have "steady sock i n' ?s"
    using assms(4,5) by (intro steady_put [OF st]) (simp_all add: put_node_def)
  then show ?thesis by (intro exI [of _ ?s]) simp
qed

lemma empty_line_urgent:
  assumes "steady sock i n s" "sock \<noteq> 0" "s_sendq s = q # rest" "q_data q = []"
    and "s_serversocket s = 1 \<longrightarrow> s_serverstoned s \<le> 0 \<and> s_serverbytes s \<le> 700" "flushsendq sock True n = Some n'"
  shows "n_urgent n' \<and> writes sock n' = writes sock n"
  using steadyD [OF assms(1)] assms(2-)
  by (auto simp: flushsendq_def flood_stop_def send_first_def write_now_def Let_def put_node_def writes_def split: if_splits)

text \<open>
  What happens to one socket: a line is submitted, which writes it at once (true) or puts it into the
  queue; a line of the queue or a ping is written; a ping is answered, or the time for the answer is
  over; a second passes.
\<close>

datatype event = Submit bool string | Out written | Answered | Expired | Second

text \<open>
  The operations on a connected socket in any order: lines submitted with each of the three functions, the
  queue flushed or forced, lines received, the turns of the driver, and whatever is done
  to the other sockets in between, which may leave the flag \<open>urgent\<close> behind.
\<close>

definition same_line :: "psockett \<Rightarrow> psockett \<Rightarrow> bool" where
  "same_line s s' \<longleftrightarrow> s_sendq s' = s_sendq s \<and> s_entrys s' = s_entrys s \<and> s_serversocket s' = s_serversocket s \<and>
     s_serverstoned s' = s_serverstoned s \<and> s_serverbytes s' = s_serverbytes s \<and> s_flag s' = s_flag s \<and>
     s_dataflow s' = s_dataflow s \<and> s_sockgroup s' = s_sockgroup s \<and> s_syssock s' = s_syssock s"

inductive traffic :: "int \<Rightarrow> event list \<times> sockets \<Rightarrow> event list \<times> sockets \<Rightarrow> bool" for sock where
  submit: "getpsocketbysock sock (n_nodes n) = Some (i, s) \<Longrightarrow> \<not> (n_urgent n \<or> s_nowfds s = 1) \<Longrightarrow>
    writesock sock data n = Some n' \<Longrightarrow> writes sock n' = writes sock n @ ws \<Longrightarrow>
    traffic sock (ev, n) (ev @ map Out ws @ [Submit False data], n')"
| at_once: "getpsocketbysock sock (n_nodes n) = Some (i, s) \<Longrightarrow> n_urgent n \<or> s_nowfds s = 1 \<Longrightarrow>
    writesock sock data n = Some n' \<Longrightarrow> traffic sock (ev, n) (ev @ [Submit True data], n')"
| urgent: "writesock_URGENT sock data n = Some n' \<Longrightarrow> traffic sock (ev, n) (ev @ [Submit True data], n')"
| delayed: "writesock_DELAY sock data d n = Some n' \<Longrightarrow> writes sock n' = writes sock n @ ws \<Longrightarrow>
    traffic sock (ev, n) (ev @ map Out ws @ [Submit False data], n')"
| flush: "flushsendq sock forced n = Some n' \<Longrightarrow> writes sock n' = writes sock n @ ws \<Longrightarrow>
    traffic sock (ev, n) (ev @ map Out ws, n')"
| pong: "getpsocketbysock sock (n_nodes n) = Some (i, s) \<Longrightarrow> take_pong (\<lambda>w. w) buf s () = (buf', s', ()) \<Longrightarrow>
    traffic sock (ev, n) (ev @ (if s_serversocket s = 1 \<and> pong_line buf \<and> s_serverstoned s \<noteq> 0 then [Answered] else []), put_node i s' n)"
| tick: "getpsocketbysock sock (n_nodes n) = Some (i, s) \<Longrightarrow> n_delayinc n = 0 \<or> n_delayinc n = 1 \<Longrightarrow> s' = driver_tick (n_delayinc n) s \<Longrightarrow>
    traffic sock (ev, n) (ev @ (if n_delayinc n = 1 then [Second] else []) @
      (if s_serverstoned s \<noteq> 0 \<and> s_serverstoned s' = 0 then [Expired] else []), put_node i s' n)"
| sense: "getpsocketbysock sock (n_nodes n) = Some (i, s) \<Longrightarrow> sense_disconnect i s n = Some n' \<Longrightarrow>
    traffic sock (ev, n) (ev @ (if writes sock n' = writes sock n then [] else [Submit True [CR, LF]]), n')"
| foreign: "getpsocketbysock sock (n_nodes n) = Some (i, s) \<Longrightarrow> getpsocketbysock sock (n_nodes n') = Some (j, s') \<Longrightarrow>
    same_line s s' \<Longrightarrow> writes sock n' = writes sock n \<Longrightarrow> traffic sock (ev, n) (ev, n')"

subsection \<open>The queue as a machine of its own\<close>

text \<open>
  The events so far, the data in the queue, the pause, the bytes counted and what was written: the
  steps that the operations make on it, for a socket whose field \<open>serversocket\<close> is \<open>sv\<close>.
\<close>

type_synonym wire = "event list \<times> string list \<times> int \<times> int \<times> written list"

inductive wire_step :: "int \<Rightarrow> wire \<Rightarrow> wire \<Rightarrow> bool" for sv where
  add: "wire_step sv (ev, Q, t, b, W) (ev @ [Submit False d], Q @ [d], t, b, W)"
| now: "out_lines d = Some ws \<Longrightarrow> wire_step sv (ev, Q, t, b, W) (ev @ [Submit True d], Q, t, b, W @ ws)"
| send: "out_lines d = Some ws \<Longrightarrow> sv = 1 \<longrightarrow> t \<le> 0 \<and> (b + int (length d) > 700 \<longrightarrow> length d \<ge> 700) \<Longrightarrow>
    wire_step sv (ev, d # Q, t, b, W) (ev @ map Out ws, Q, t, if sv = 1 then b + int (length d) else b, W @ ws)"
| ping: "sv = 1 \<Longrightarrow> t \<le> 0 \<Longrightarrow> wire_step sv (ev, Q, t, b, W) (ev @ [Out Ping], Q, 20, b, W @ [Ping])"
| answer: "sv = 1 \<Longrightarrow> t \<noteq> 0 \<Longrightarrow> wire_step sv (ev, Q, t, b, W) (ev @ [Answered], Q, 0, 0, W)"
| second: "t \<noteq> 1 \<or> sv = 0 \<Longrightarrow> wire_step sv (ev, Q, t, b, W) (ev @ [Second], Q, if sv \<noteq> 0 \<and> t > 0 then t - 1 else t, b, W)"
| expire: "sv \<noteq> 0 \<Longrightarrow> wire_step sv (ev, Q, 1, b, W) (ev @ [Second, Expired], Q, 0, 0, W)"

definition view :: "int \<Rightarrow> event list \<Rightarrow> sockets \<Rightarrow> psockett \<Rightarrow> wire" where
  "view sock ev n s = (ev, map q_data (s_sendq s), s_serverstoned s, s_serverbytes s, writes sock n)"

text \<open>The socket afterwards, and the steps of the machine that the operation made.\<close>

definition moves :: "int \<Rightarrow> nat \<Rightarrow> event list \<Rightarrow> sockets \<Rightarrow> psockett \<Rightarrow> event list \<Rightarrow> sockets \<Rightarrow> bool" where
  "moves sock i ev n s ev' n' \<longleftrightarrow>
     (\<exists>s'. steady sock i n' s' \<and> s_serversocket s' = s_serversocket s \<and>
        (wire_step (s_serversocket s))\<^sup>*\<^sup>* (view sock ev n s) (view sock ev' n' s'))"

lemma movesI:
  assumes "steady sock i n' s'" "s_serversocket s' = s_serversocket s"
    and "view sock ev n s = view sock ev' n' s' \<or> wire_step (s_serversocket s) (view sock ev n s) (view sock ev' n' s')"
  shows "moves sock i ev n s ev' n'"
  unfolding moves_def using assms by (metis r_into_rtranclp rtranclp.rtrancl_refl)

lemma write_now_steady:
  assumes w: "write_now sock i t data n = Some n'" and st: "steady sock i n s" and sock: "sock \<noteq> 0"
    and t: "s_flag t = SOC_CONN" "s_dataflow t \<noteq> SD_STREAM" "s_sockgroup t = 0" "s_syssock t = s_syssock s" "n_nodes n ! i = Some t"
  shows "\<exists>ws s'. out_lines data = Some ws \<and> writes sock n' = writes sock n @ ws \<and> steady sock i n' s' \<and> s_sendq s' = s_sendq t \<and>
    s_serversocket s' = s_serversocket t \<and> s_serverstoned s' = s_serverstoned t \<and> s_serverbytes s' = s_serverbytes t"
proof (cases "data = []")
  case True
  then have "n' = n" using w sock by (simp add: write_now_def)
  moreover have "t = s" using t(5) steadyD(5) [OF st] by simp
  ultimately show ?thesis using True st by (intro exI [of _ "[]"] exI [of _ s]) (simp_all add: out_lines_def)
next
  case False
  then obtain l where l: "out_line data = Some l"
      "n' = (put_node i (t\<lparr>s_bytesout := s_bytesout t + length l, s_delay := 300\<rparr>) (put_out sock (Line l) n))\<lparr>n_urgent := False\<rparr>"
    using w t(1) sock by (auto simp: write_now_def Let_def split: Option.bind_splits)
  have "steady sock i n' (t\<lparr>s_bytesout := s_bytesout t + length l, s_delay := 300\<rparr>)"
    using t by (intro steady_put [OF st]) (simp_all add: l(2) put_node_def put_out_def)
  then show ?thesis using l False
    by (intro exI [of _ "[Line l]"] exI [of _ "t\<lparr>s_bytesout := s_bytesout t + length l, s_delay := 300\<rparr>"]) (simp add: out_lines_def)
qed

lemma write_now_moves:
  assumes "write_now sock i s data n = Some n'" "steady sock i n s" "sock \<noteq> 0"
  shows "moves sock i ev n s (ev @ [Submit True data]) n'"
proof -
  obtain ws s' where "out_lines data = Some ws" "writes sock n' = writes sock n @ ws" "steady sock i n' s'" "s_sendq s' = s_sendq s"
      "s_serversocket s' = s_serversocket s" "s_serverstoned s' = s_serverstoned s" "s_serverbytes s' = s_serverbytes s"
    using write_now_steady [OF assms] steadyD [OF assms(2)] by blast
  then show ?thesis by (intro movesI [of sock i n' s']) (auto simp: view_def intro: wire_step.now)
qed

lemma send_first_moves:
  assumes st: "steady sock i n s" "sock \<noteq> 0" and q: "s_sendq s = q # rest"
    and t: "t = s \<and> s_serversocket s \<noteq> 1 \<or> t = s\<lparr>s_serverbytes := s_serverbytes s + int (length (q_data q))\<rparr> \<and> s_serversocket s = 1 \<and>
      s_serverstoned s \<le> 0 \<and> \<not> flood_stop s (q_data q)"
    and r: "send_first sock i t q rest n = Some n'" and ws: "writes sock n' = writes sock n @ ws"
  shows "moves sock i ev n s (ev @ map Out ws) n'"
proof -
  let ?t = "t\<lparr>s_sendq := rest, s_entrys := s_entrys t - 1\<rparr>" and ?n = "\<lambda>t. (put_node i t n)\<lparr>n_urgent := True\<rparr>"
  have f: "s_flag ?t = SOC_CONN" "s_dataflow ?t \<noteq> SD_STREAM" "s_sockgroup ?t = 0" "s_syssock ?t = s_syssock s"
    using t steadyD [OF st(1)] by auto
  have n: "steady sock i (?n ?t) ?t" using f by (intro steady_put [OF st(1)]) (simp_all add: put_node_def)
  have w: "write_now sock i ?t (q_data q) (?n ?t) = Some n'" using r f(2) by (simp add: send_first_def Let_def)
  obtain us s' where s': "out_lines (q_data q) = Some us" "writes sock n' = writes sock n @ us" "steady sock i n' s'" "s_sendq s' = rest"
      "s_serversocket s' = s_serversocket t" "s_serverstoned s' = s_serverstoned t" "s_serverbytes s' = s_serverbytes t"
    using write_now_steady [OF w n st(2) f(1-3) _ steadyD(5) [OF n]] by auto
  have "wire_step (s_serversocket s) (view sock ev n s) (view sock (ev @ map Out ws) n' s')"
    unfolding view_def q list.map s'(2,4,6,7)
    using wire_step.send [of "q_data q" us "s_serversocket s" "s_serverstoned s" "s_serverbytes s" ev "map q_data rest" "writes sock n"] s'(1,2) ws t
    by (auto simp: flood_stop_def)
  then show ?thesis using s'(3,5) t by (intro movesI [of sock i n' s']) auto
qed

lemma flush_moves:
  assumes st: "steady sock i n s" "sock \<noteq> 0" and f: "flushsendq sock forced n = Some n'" and ws: "writes sock n' = writes sock n @ ws"
  shows "moves sock i ev n s (ev @ map Out ws) n'"
proof (cases "s_sendq s")
  case Nil
  then show ?thesis using f st(1) ws steadyD(1) [OF st(1)] using movesI [OF st(1), of s ev n ev] by (auto simp: flushsendq_def)
next
  case (Cons q rest)
  note g = steadyD [OF st(1)]
  consider (delay) "n' = put_node i (s\<lparr>s_sendq := q\<lparr>q_delay := q_delay q - n_delayinc n\<rparr> # rest\<rparr>) n"
    | (stoned) "n' = n"
    | (ping) "s_serversocket s = 1" "s_serverstoned s \<le> 0" "n' = put_out sock Ping (put_node i (s\<lparr>s_serverstoned := 20\<rparr>) n)"
    | (server) "s_serversocket s = 1" "s_serverstoned s \<le> 0" "\<not> flood_stop s (q_data q)"
        "send_first sock i (s\<lparr>s_serverbytes := s_serverbytes s + int (length (q_data q))\<rparr>) q rest n = Some n'"
    | (plain) "s_serversocket s \<noteq> 1" "send_first sock i s q rest n = Some n'"
    using f g(1,2) Cons unfolding flushsendq_def by (auto split: if_splits)
  then show ?thesis
  proof cases
    case delay
    have "steady sock i n' (s\<lparr>s_sendq := q\<lparr>q_delay := q_delay q - n_delayinc n\<rparr> # rest\<rparr>)"
      using g by (intro steady_put [OF st(1)]) (simp_all add: delay put_node_def)
    then show ?thesis using delay Cons ws by (elim movesI) (auto simp: view_def)
  next
    case stoned
    then show ?thesis using movesI [OF st(1), of s ev n ev] ws by simp
  next
    case ping
    have "steady sock i n' (s\<lparr>s_serverstoned := 20\<rparr>)"
      using g by (intro steady_put [OF st(1)]) (simp_all add: ping put_node_def put_out_def)
    then show ?thesis using ping ws by (elim movesI) (auto simp: view_def intro: wire_step.ping)
  next
    case server
    then show ?thesis by (intro send_first_moves [OF st Cons _ server(4) ws]) simp
  next
    case plain
    then show ?thesis by (intro send_first_moves [OF st Cons _ plain(2) ws]) simp
  qed
qed

lemma addq_moves:
  assumes st: "steady sock i n s" "sock \<noteq> 0" and a: "addq sock data len d n = Some n'" and ws: "writes sock n' = writes sock n @ ws"
  shows "moves sock i ev n s (ev @ map Out ws @ [Submit False data]) n'"
proof -
  note g = steadyD [OF st(1)]
  let ?q = "\<lparr>q_data = data, q_len = len, q_delay = d\<rparr>" and ?t = "s\<lparr>s_entrys := s_entrys s + 1\<rparr>"
  let ?n = "put_node i ?t n"
  have t: "steady sock i ?n ?t" using g by (intro steady_put [OF st(1)]) (simp_all add: put_node_def)
  obtain n1 s1 where n1: "(if s_entrys ?t > MAX_SENDQ \<and> s_serverstoned s = 0 then flushsendq sock True ?n else Some ?n) = Some n1"
      "n_nodes n1 ! i = Some s1" "n' = put_node i (s1\<lparr>s_sendq := s_sendq s1 @ [?q]\<rparr>) n1"
    using a g(1,4,5) by (auto simp: addq_def enqueue_def Let_def split: Option.bind_splits)
  have w1: "writes sock n1 = writes sock ?n @ ws" using ws n1(3) by simp
  have "moves sock i ev ?n ?t (ev @ map Out ws) n1"
  proof (cases "s_entrys ?t > MAX_SENDQ \<and> s_serverstoned s = 0")
    case True
    then show ?thesis using flush_moves [OF t st(2) _ w1] n1(1) by simp
  next
    case False
    then have "n1 = ?n" using n1(1) by auto
    then show ?thesis using w1 t by (intro movesI [of sock i n1 ?t]) (auto simp: view_def)
  qed
  then obtain s' where s': "steady sock i n1 s'" "s_serversocket s' = s_serversocket s"
      "(wire_step (s_serversocket s))\<^sup>*\<^sup>* (view sock ev n s) (view sock (ev @ map Out ws) n1 s')"
    by (auto simp: moves_def view_def)
  have [simp]: "s' = s1" using steadyD(5) [OF s'(1)] n1(2) by simp
  let ?s = "s1\<lparr>s_sendq := s_sendq s1 @ [?q]\<rparr>"
  have "steady sock i n' ?s"
    using steadyD [OF s'(1)] by (intro steady_put [OF s'(1)]) (auto simp: n1(3) put_node_def)
  moreover have "wire_step (s_serversocket s) (view sock (ev @ map Out ws) n1 s1) (view sock (ev @ map Out ws @ [Submit False data]) n' ?s)"
    using wire_step.add [of _ "ev @ map Out ws"] n1(3) by (simp add: view_def)
  ultimately show ?thesis unfolding moves_def
    using s'(2,3) by (intro exI [of _ ?s]) (auto intro: rtranclp.rtrancl_into_rtrancl)
qed

lemma writesock_steady:
  assumes "steady sock i n s"
  shows "writesock sock data n =
    (if \<not> n_urgent n \<and> s_nowfds s \<noteq> 1 then addq sock data (length data + 1) 0 n else write_now sock i s data n)"
  using steadyD [OF assms] by (simp add: writesock_def Let_def)

lemma URGENT_moves:
  assumes "writesock_URGENT sock data n = Some n'" "steady sock i n s" "sock \<noteq> 0"
  shows "moves sock i ev n s (ev @ [Submit True data]) n'"
proof -
  have st: "steady sock i (n\<lparr>n_urgent := True\<rparr>) s" using assms(2) by (simp add: steady_def)
  have "write_now sock i s data (n\<lparr>n_urgent := True\<rparr>) = Some n'"
    using assms(1) by (simp add: writesock_URGENT_def writesock_steady [OF st])
  from write_now_moves [OF this st assms(3)] show ?thesis by (simp add: moves_def view_def)
qed

lemma pong_moves:
  assumes "steady sock i n s" "take_pong (\<lambda>w. w) buf s () = (buf', s', ())"
  shows "moves sock i ev n s
    (ev @ (if s_serversocket s = 1 \<and> pong_line buf \<and> s_serverstoned s \<noteq> 0 then [Answered] else [])) (put_node i s' n)"
proof -
  note g = steadyD [OF assms(1)]
  have s': "s' = (if s_serversocket s = 1 \<and> pong_line buf \<and> s_serverstoned s \<noteq> 0 then s\<lparr>s_serverstoned := 0, s_serverbytes := 0\<rparr> else s)"
    using assms(2) by (auto simp: take_pong_def split: if_splits)
  have "steady sock i (put_node i s' n) s'"
    using g by (intro steady_put [OF assms(1)]) (simp_all add: s' put_node_def)
  then show ?thesis by (elim movesI) (auto simp: s' view_def intro: wire_step.answer)
qed

lemma driver_tick_simps:
  "s_flag (driver_tick d s) = s_flag s" "s_dataflow (driver_tick d s) = s_dataflow s" "s_sockgroup (driver_tick d s) = s_sockgroup s"
  "s_syssock (driver_tick d s) = s_syssock s" "s_serversocket (driver_tick d s) = s_serversocket s"
  "map q_data (s_sendq (driver_tick d s)) = map q_data (s_sendq s)"
  "s_serverstoned (driver_tick d s) = (if s_serversocket s \<noteq> 0 \<and> s_serverstoned s > 0 then s_serverstoned s - d else s_serverstoned s)"
  "s_serverbytes (driver_tick d s) = (if s_serversocket s \<noteq> 0 \<and> s_serverstoned s > 0 \<and> s_serverstoned s = d then 0 else s_serverbytes s)"
  by (auto simp: driver_tick_def tick_stoned_def tick_queue_def Let_def split: list.split)

lemma tick_moves:
  assumes st: "steady sock i n s" and d: "n_delayinc n = 0 \<or> n_delayinc n = 1" and s': "s' = driver_tick (n_delayinc n) s"
  shows "moves sock i ev n s (ev @ (if n_delayinc n = 1 then [Second] else []) @
    (if s_serverstoned s \<noteq> 0 \<and> s_serverstoned s' = 0 then [Expired] else [])) (put_node i s' n)"
proof -
  have "steady sock i (put_node i s' n) s'"
    using steadyD [OF st] by (intro steady_put [OF st]) (simp_all add: s' put_node_def driver_tick_simps)
  then show ?thesis using d
    wire_step.second [of "s_serverstoned s" "s_serversocket s" ev "map q_data (s_sendq s)" "s_serverbytes s" "writes sock n"]
    wire_step.expire [of "s_serversocket s" ev "map q_data (s_sendq s)" "s_serverbytes s" "writes sock n"]
    by (elim movesI) (auto simp: s' view_def driver_tick_simps)
qed

lemma sense_moves:
  assumes st: "steady sock i n s" "sock \<noteq> 0" and r: "sense_disconnect i s n = Some n'"
  shows "moves sock i ev n s (ev @ (if writes sock n' = writes sock n then [] else [Submit True [CR, LF]])) n'"
proof -
  note g = steadyD [OF st(1)]
  let ?t = "s\<lparr>s_delay := s_delay s - n_delayinc n\<rparr>"
  let ?n = "put_node i ?t n"
  have t: "steady sock i ?n ?t" using g by (intro steady_put [OF st(1)]) (simp_all add: put_node_def)
  consider "n' = n" | "n' = ?n"
    | n1 s1 where "writesock_URGENT sock [CR, LF] ?n = Some n1" "n_nodes n1 ! i = Some s1" "n' = put_node i (s1\<lparr>s_delay := 300\<rparr>) n1"
    using r g by (auto simp: sense_disconnect_def Let_def split: if_splits Option.bind_splits)
  then show ?thesis
  proof cases
    case 1
    then show ?thesis using st(1) by (intro movesI) auto
  next
    case 2
    then show ?thesis using t by (intro movesI [of sock i n' ?t]) (auto simp: view_def)
  next
    case (3 n1 s1)
    obtain s2 where s2: "steady sock i n1 s2" "s_serversocket s2 = s_serversocket s"
        "(wire_step (s_serversocket s))\<^sup>*\<^sup>* (view sock ev n s) (view sock (ev @ [Submit True [CR, LF]]) n1 s2)"
      using URGENT_moves [OF 3(1) t st(2), of ev] by (auto simp: moves_def view_def)
    have [simp]: "s2 = s1" using steadyD(5) [OF s2(1)] 3(2) by simp
    have "writes sock n1 = writes sock n @ [Line [CR, LF]]"
    proof -
      have "steady sock i (?n\<lparr>n_urgent := True\<rparr>) ?t" using t by (simp add: steady_def)
      moreover have "out_line [CR, LF] = Some [CR, LF]" by code_simp
      ultimately show ?thesis
        using writesock_steady [of sock i "?n\<lparr>n_urgent := True\<rparr>" ?t "[CR, LF]"] 3(1) g st(2) by (auto simp: writesock_URGENT_def write_now_def)
    qed
    moreover have "steady sock i n' (s1\<lparr>s_delay := 300\<rparr>)"
      using steadyD [OF s2(1)] by (intro steady_put [OF s2(1)]) (auto simp: 3(3) put_node_def)
    ultimately show ?thesis using s2 unfolding moves_def by (intro exI [of _ "s1\<lparr>s_delay := 300\<rparr>"]) (simp add: view_def 3(3))
  qed
qed

text \<open>Every operation is a sequence of steps of the machine.\<close>

lemma traffic_moves:
  assumes "traffic sock (ev, n) (ev', n')" "steady sock i n s" "sock \<noteq> 0"
  shows "\<exists>j s'. steady sock j n' s' \<and> s_serversocket s' = s_serversocket s \<and>
    (wire_step (s_serversocket s))\<^sup>*\<^sup>* (view sock ev n s) (view sock ev' n' s')"
proof -
  have "(\<exists>i. moves sock i ev n s ev' n') \<or> (\<exists>j s'. steady sock j n' s' \<and> s_serversocket s' = s_serversocket s \<and> view sock ev n s = view sock ev' n' s')"
    using assms(1)
  proof cases
    case (submit k t data ws)
    then show ?thesis using addq_moves [OF assms(2,3) _ submit(5), of data "length data + 1" 0 ev] assms(2) writesock_steady [OF assms(2), of data]
      by (auto simp: steady_def)
  next
    case (at_once k t data)
    then show ?thesis using write_now_moves [OF _ assms(2,3), of data n' ev] assms(2) writesock_steady [OF assms(2), of data]
      by (auto simp: steady_def)
  next
    case (urgent data)
    then show ?thesis using URGENT_moves [OF _ assms(2,3)] by auto
  next
    case (delayed data d ws)
    then show ?thesis using addq_moves [OF assms(2,3)] unfolding writesock_DELAY_def by blast
  next
    case (flush forced ws)
    then show ?thesis using flush_moves [OF assms(2,3)] by blast
  next
    case (pong k t buf buf' s')
    then have "t = s" "k = i" using assms(2) by (auto simp: steady_def)
    then show ?thesis using pong pong_moves [OF assms(2), of buf buf' s' ev] by (intro disjI1 exI [of _ i]) simp
  next
    case (tick k t s')
    then have "t = s" "k = i" using assms(2) by (auto simp: steady_def)
    then show ?thesis using tick tick_moves [OF assms(2), of s' ev] by (intro disjI1 exI [of _ i]) simp
  next
    case (sense k t)
    then have "t = s" "k = i" using assms(2) by (auto simp: steady_def)
    then show ?thesis using sense sense_moves [OF assms(2,3), of n' ev] by (intro disjI1 exI [of _ i]) simp
  next
    case (foreign k t j s')
    then have "t = s" using assms(2) by (auto simp: steady_def)
    then show ?thesis using foreign assms(2) by (intro disjI2 exI [of _ j] exI [of _ s']) (auto simp: same_line_def steady_def view_def)
  qed
  then show ?thesis unfolding moves_def by (metis rtranclp.rtrancl_refl)
qed

lemma traffic_refines:
  assumes "(traffic sock)\<^sup>*\<^sup>* ([], n0) (ev, n)" "steady sock i n0 s0" "sock \<noteq> 0"
  shows "\<exists>j s. steady sock j n s \<and> s_serversocket s = s_serversocket s0 \<and>
    (wire_step (s_serversocket s0))\<^sup>*\<^sup>* (view sock [] n0 s0) (view sock ev n s)"
  using assms(1)
proof (induction "(ev, n)" arbitrary: ev n rule: rtranclp_induct)
  case base
  then show ?case using assms(2) by blast
next
  case (step x ev' n')
  obtain ev n where x: "x = (ev, n)" by (cases x)
  then obtain j s where s: "steady sock j n s" "s_serversocket s = s_serversocket s0"
      "(wire_step (s_serversocket s0))\<^sup>*\<^sup>* (view sock [] n0 s0) (view sock ev n s)" using step.hyps(3) by blast
  then show ?case using traffic_moves [OF step.hyps(2) [unfolded x] s(1) assms(3)] by (metis rtranclp_trans)
qed

subsection \<open>The order of the lines\<close>

text \<open>The data of the lines that were submitted, those for the queue and those written at once.\<close>

definition queued :: "event list \<Rightarrow> string list" where
  "queued ev = concat (map (\<lambda>e. case e of Submit now d \<Rightarrow> if now then [] else [d] | _ \<Rightarrow> []) ev)"

definition hurried :: "event list \<Rightarrow> string list" where
  "hurried ev = concat (map (\<lambda>e. case e of Submit now d \<Rightarrow> if now then [d] else [] | _ \<Rightarrow> []) ev)"

text \<open>The lines among what was written, and the lines that are due for data; empty data gives none.\<close>

definition lines_of :: "written list \<Rightarrow> string option list" where
  "lines_of ws = concat (map (\<lambda>w. case w of Line l \<Rightarrow> [Some l] | _ \<Rightarrow> []) ws)"

definition due :: "string list \<Rightarrow> string option list" where
  "due ds = map out_line (filter (\<lambda>d. d \<noteq> []) ds)"

lemma trace_simps [simp]:
  "queued [] = []" "hurried [] = []" "lines_of [] = []" "due [] = []"
  "queued (ev @ ev') = queued ev @ queued ev'" "hurried (ev @ ev') = hurried ev @ hurried ev'"
  "lines_of (us @ vs) = lines_of us @ lines_of vs" "due (ds @ es) = due ds @ due es"
  "queued [Submit now d] = (if now then [] else [d])" "hurried [Submit now d] = (if now then [d] else [])"
  "queued (map Out ws) = []" "hurried (map Out ws) = []" "queued [Out w] = []" "hurried [Out w] = []"
  "queued [Answered] = []" "hurried [Answered] = []" "queued [Second] = []" "hurried [Second] = []"
  "queued [Second, Expired] = []" "hurried [Second, Expired] = []" "lines_of [Ping] = []"
  by (auto simp: queued_def hurried_def lines_of_def due_def concat_eq_Nil_conv)

lemma lines_of_due: "out_lines d = Some ws \<Longrightarrow> lines_of ws = due [d]"
  by (auto simp: out_lines_def lines_of_def due_def split: if_splits)

lemma shuffles_snoc:
  "zs \<in> shuffles xs ys \<Longrightarrow> zs @ vs \<in> shuffles (xs @ vs) ys"
  "zs \<in> shuffles xs ys \<Longrightarrow> zs @ vs \<in> shuffles xs (ys @ vs)"
proof -
  have left: "zs \<in> shuffles xs ys \<Longrightarrow> zs @ vs \<in> shuffles (xs @ vs) ys" for xs ys zs vs :: "'a list"
    by (induction zs arbitrary: xs ys) (auto simp: Cons_in_shuffles_iff)
  show "zs \<in> shuffles xs ys \<Longrightarrow> zs @ vs \<in> shuffles (xs @ vs) ys" by (rule left)
  show "zs \<in> shuffles xs ys \<Longrightarrow> zs @ vs \<in> shuffles xs (ys @ vs)" using left [of zs ys xs vs] by (simp add: shuffles_commutes)
qed

text \<open>
  For a queue that held the data \<open>Q0\<close> when the lines \<open>L0\<close> had been written: the lines written since are the
  hurried ones and the first \<open>k\<close> of the queue, both in their order, and the rest waits.
\<close>

definition fifo :: "string list \<Rightarrow> string option list \<Rightarrow> wire \<Rightarrow> bool" where
  "fifo Q0 L0 x = (case x of (ev, Q, t, b, W) \<Rightarrow>
     \<exists>k L. k \<le> length (Q0 @ queued ev) \<and> Q = drop k (Q0 @ queued ev) \<and> lines_of W = L0 @ L \<and>
       L \<in> shuffles (due (hurried ev)) (due (take k (Q0 @ queued ev))))"

lemma fifoI:
  assumes "k \<le> length (Q0 @ queued ev)" "Q = drop k (Q0 @ queued ev)" "lines_of W = L0 @ L"
    and "L \<in> shuffles (due (hurried ev)) (due (take k (Q0 @ queued ev)))"
  shows "fifo Q0 L0 (ev, Q, t, b, W)"
  using assms by (auto simp: fifo_def)

lemma fifo_step:
  assumes "wire_step sv x y" "fifo Q0 L0 x"
  shows "fifo Q0 L0 y"
  using assms
proof cases
  case (add ev Q t b W d)
  obtain k L where k: "k \<le> length (Q0 @ queued ev)" "Q = drop k (Q0 @ queued ev)" "lines_of W = L0 @ L"
      "L \<in> shuffles (due (hurried ev)) (due (take k (Q0 @ queued ev)))" using assms(2) add(1) by (auto simp: fifo_def)
  have "take k (Q0 @ queued ev @ [d]) = take k (Q0 @ queued ev)" using k(1) by (metis append.assoc take_append append_Nil2 diff_is_0_eq take0)
  then show ?thesis unfolding add(2) using k by (intro fifoI [of k]) auto
next
  case (now d ws ev Q t b W)
  obtain k L where k: "k \<le> length (Q0 @ queued ev)" "Q = drop k (Q0 @ queued ev)" "lines_of W = L0 @ L"
      "L \<in> shuffles (due (hurried ev)) (due (take k (Q0 @ queued ev)))" using assms(2) now(1) by (auto simp: fifo_def)
  show ?thesis unfolding now(2)
    using k shuffles_snoc(1) [OF k(4), of "due [d]"] lines_of_due [OF now(3)] by (intro fifoI [of k _ _ _ _ _ "L @ due [d]"]) auto
next
  case (send d ws t b ev Q W)
  obtain k L where k: "k \<le> length (Q0 @ queued ev)" "d # Q = drop k (Q0 @ queued ev)" "lines_of W = L0 @ L"
      "L \<in> shuffles (due (hurried ev)) (due (take k (Q0 @ queued ev)))" using assms(2) send(1) by (auto simp: fifo_def)
  have "k < length (Q0 @ queued ev)" "(Q0 @ queued ev) ! k = d" "drop (Suc k) (Q0 @ queued ev) = Q"
    using k(2) by (metis drop_all list.distinct(1) not_less, metis nth_via_drop, metis drop_Suc list.sel(3) tl_drop)
  moreover from this have "take (Suc k) (Q0 @ queued ev) = take k (Q0 @ queued ev) @ [d]"
    by (simp only: take_Suc_conv_app_nth)
  ultimately show ?thesis unfolding send(2)
    using k shuffles_snoc(2) [OF k(4), of "due [d]"] lines_of_due [OF send(3)]
    by (intro fifoI [of "Suc k" _ _ _ _ _ "L @ due [d]"]) (simp_all del: take_append drop_append take_Suc)
qed (auto simp: fifo_def)


definition one_socket :: "psockett \<Rightarrow> sockets" where
  "one_socket s = \<lparr>n_nodes = [None, Some s], n_urgent = False, n_delayinc = 0, n_notsocket = 0, n_out = []\<rparr>"

lemma one_socket_steady: "steady 5 1 (one_socket ((fresh_socket 5)\<lparr>s_serversocket := sv\<rparr>)) ((fresh_socket 5)\<lparr>s_serversocket := sv\<rparr>)"
  by (simp add: steady_def one_socket_def fresh_socket_def SD_STREAM_def)

text \<open>One line waits, and another one is written at once before it.\<close>

lemma one_socket_traffic:
  "\<exists>n. (traffic 5)\<^sup>*\<^sup>* ([], one_socket ((fresh_socket 5)\<lparr>s_serversocket := sv\<rparr>)) ([Submit False ''NICK x'', Submit True ''QUIT''], n)"
proof -
  let ?n = "one_socket ((fresh_socket 5)\<lparr>s_serversocket := sv\<rparr>)"
  note defs = writesock_def writesock_URGENT_def one_socket_def fresh_socket_def SOC_CONN_def SD_STREAM_def addq_def enqueue_def MAX_SENDQ_def
    put_node_def write_now_def put_out_def writes_def
  obtain n1 where n1: "writesock 5 ''NICK x'' ?n = Some n1" "writes 5 n1 = writes 5 ?n @ []" by (simp add: defs)
  have "out_line ''QUIT'' = Some (''QUIT'' @ [CR, LF])" by code_simp
  then obtain n2 where n2: "writesock_URGENT 5 ''QUIT'' n1 = Some n2" using n1(1) by (auto simp: defs)
  have "traffic 5 ([], ?n) ([] @ map Out [] @ [Submit False ''NICK x''], n1)"
    by (rule traffic.submit [OF _ _ n1, of 1 "(fresh_socket 5)\<lparr>s_serversocket := sv\<rparr>"]) (simp_all add: one_socket_def fresh_socket_def)
  moreover have "traffic 5 ([Submit False ''NICK x''], n1) ([Submit False ''NICK x''] @ [Submit True ''QUIT''], n2)"
    using n2 by (rule traffic.urgent)
  ultimately show ?thesis by (intro exI [of _ n2]) (simp add: rtranclp.rtrancl_into_rtrancl [OF r_into_rtranclp])
qed


section \<open>Flood protection\<close>

text \<open>
  What a server may be sent: the state is the number of seconds still to wait for the answer to a ping, when one
  is open, and the bytes of the lines of the queue, without their line ends, since the last answer or the last
  pause of 20 seconds that was not answered.
\<close>

fun flood_event :: "nat option \<times> nat \<Rightarrow> event \<Rightarrow> (nat option \<times> nat) option" where
  "flood_event (wait, b) (Out (Line l)) =
     (if wait = None \<and> b + (length l - 2) \<le> 700 then Some (None, b + (length l - 2)) else None)"
| "flood_event (wait, b) (Out Ping) = (if wait = None then Some (Some 20, b) else None)"
| "flood_event (wait, b) (Out (Data d)) = None"
| "flood_event (wait, b) Answered = (if wait \<noteq> None then Some (None, 0) else None)"
| "flood_event (wait, b) Second = Some (map_option (\<lambda>t. t - 1) wait, b)"
| "flood_event (wait, b) Expired = (if wait = Some 0 then Some (None, 0) else None)"
| "flood_event (wait, b) (Submit now d) = Some (wait, b)"

fun flood_run :: "nat option \<times> nat \<Rightarrow> event list \<Rightarrow> (nat option \<times> nat) option" where
  "flood_run x [] = Some x"
| "flood_run x (e # ev) = do { x \<leftarrow> flood_event x e; flood_run x ev }"

lemma flood_run_append: "flood_run x (ev @ ev') = do { x \<leftarrow> flood_run x ev; flood_run x ev' }"
  by (induction ev arbitrary: x) (auto split: bind_splits)

lemma out_line_length: "out_line d = Some l \<Longrightarrow> length l - 2 \<le> length d"
  by (auto simp: out_line_def strmncpy_def replace_def Let_def split: option.splits if_splits)

definition flood_inv :: "wire \<Rightarrow> bool" where
  "flood_inv x = (case x of (ev, Q, t, b, W) \<Rightarrow>
     (\<forall>d \<in> set (queued ev). length d < 700) \<longrightarrow>
     (\<exists>u. flood_run (None, 0) ev = Some (if t > 0 then Some (nat t) else None, u) \<and> 0 \<le> t \<and> int u \<le> b \<and> b \<le> 700 \<and>
       (\<forall>d \<in> set Q. length d < 700)))"

lemma flood_step:
  assumes "wire_step sv x y" "sv = 1" "flood_inv x"
  shows "flood_inv y"
  using assms(1)
proof cases
  case (send d ws t b ev Q W)
  have "flood_inv (ev @ map Out ws, Q, t, b + int (length d), W @ ws)"
    unfolding flood_inv_def prod.case
  proof
    assume "\<forall>d \<in> set (queued (ev @ map Out ws)). length d < 700"
    then obtain u where u: "flood_run (None, 0) ev = Some (None, u)" "t = 0" "int u \<le> b" "b \<le> 700" "\<forall>e \<in> set (d # Q). length e < 700"
      using assms(2,3) send(1,4) by (auto simp: flood_inv_def)
    have b: "b + int (length d) \<le> 700" using send(4) assms(2) u(5) by auto
    have "\<exists>v. flood_run (None, 0) (ev @ map Out ws) = Some (None, v) \<and> int v \<le> b + int (length d)"
      using send(3) out_line_length [of d] u(1,3) b by (auto simp: flood_run_append out_lines_def split: if_splits)
    then show "\<exists>u. flood_run (None, 0) (ev @ map Out ws) = Some (if t > 0 then Some (nat t) else None, u) \<and> 0 \<le> t \<and>
        int u \<le> b + int (length d) \<and> b + int (length d) \<le> 700 \<and> (\<forall>d \<in> set Q. length d < 700)"
      using u(2,5) b by auto
  qed
  then show ?thesis using send(2) assms(2) by simp
qed (use assms(2,3) in \<open>auto simp: flood_inv_def flood_run_append nat_diff_distrib'\<close>)



end
