(* ===== verification/Log.thy ===== *)
theory Log
  imports Bouncer Userfile
begin

text \<open>
  The logs of src/p_log.c and the notices of src/p_sysmsg.c that announce their entries. The main log
  is kept open by the program between two entries; it is a file that entries are appended to. The
  guard \<open>inwrite\<close> against an entry that is written while another is being written never takes effect
  here, since queueing a line makes no entry.
\<close>

section \<open>Notices\<close>

definition systemnotice :: "int \<Rightarrow> string \<Rightarrow> bnc \<Rightarrow> bnc" where
  "systemnotice usernum text b =
     (let u = buser b usernum in
      if u_instate u = STD_CONN
      then bprint (u_insock u) (psybnc_msg (u_nick u) @ snpf 1024 text @ [LF]) b else b)"

definition notice_one :: "int \<Rightarrow> string \<Rightarrow> int \<Rightarrow> bnc \<Rightarrow> bnc" where
  "notice_one adminonly buf cuuser b =
     (let u = buser b cuuser in
      if (adminonly = RI_ADMIN \<longrightarrow> u_rights u = RI_ADMIN) \<and> u_instate u = STD_CONN \<and> u_parent u = 0
      then bprint (u_insock u) (psybnc_msg (u_nick u) @ buf @ [LF]) b else b)"

definition noticeall :: "int \<Rightarrow> string \<Rightarrow> bnc \<Rightarrow> bnc" where
  "noticeall adminonly text b = fold (notice_one adminonly (snpf 1024 text)) (uids (b_users b)) b"

section \<open>The main log\<close>

definition LOGLEVEL :: int where
  "LOGLEVEL = 0"

definition LOG_INFO :: int where
  "LOG_INFO = 0"

definition LOG_WARNING :: int where
  "LOG_WARNING = 1"

definition LOG_ERROR :: int where
  "LOG_ERROR = 2"

definition log_entry :: "env \<Rightarrow> string \<Rightarrow> int \<Rightarrow> int \<Rightarrow> bnc \<Rightarrow> bnc" where
  "log_entry e what usern level b =
     (let entry = strmncpy (e_ctime e) 20 @ '' :'' @ what @ [LF];
          b = (if level \<ge> LOGLEVEL then file_append e (e_logfile e) entry b else b)
      in if usern = -1 then noticeall RI_ADMIN entry b else systemnotice usern entry b)"

definition p_log :: "env \<Rightarrow> int \<Rightarrow> int \<Rightarrow> string \<Rightarrow> bnc \<Rightarrow> bnc" where
  "p_log e level usern text b = log_entry e (snpf 1024 text) usern level b"

definition oldfile :: "string \<Rightarrow> bnc \<Rightarrow> bnc" where
  "oldfile fname b = file_rename fname (snpf 100 (fname @ ''.old'')) b"

section \<open>The private log\<close>

definition log_name :: "int \<Rightarrow> string" where
  "log_name usern = snpf 40 (''log/USER'' @ decimal_int usern @ ''.LOG'')"

definition checkforlog :: "int \<Rightarrow> bnc \<Rightarrow> bool \<times> bnc" where
  "checkforlog usern b =
     (let u = buser b usern;
          b = (if b_files b ''salt.h'' \<noteq> None \<and> usern = 1
               then bprint (u_insock u) (psybnc_msg (u_nick u) @
                 ''WARNING ! Move the file salt.h from the shell to a safe place'' @ [LF]) b
               else b)
      in (b_files b (log_name usern) \<noteq> None, b))"

text \<open>No actions, no messages of servers, nothing the user wrote.\<close>

definition privatelog :: "env \<Rightarrow> int \<Rightarrow> bnc \<Rightarrow> bnc" where
  "privatelog e usern b =
     (let u = buser b usern; i = b_irc b in
      if strchr (irccontent i) (CHR 0x01) \<noteq> None \<or> strchr (ircfrom i) (CHR ''@'') = None then b
      else if length (ircnick i) = length (u_nick u) \<and> strstr (ircnick i) (u_nick u) \<noteq> None then b
      else file_append e (log_name (owner usern b))
             (u_network u @ ''~'' @ strmncpy (e_ctime e) 20 @ '' :('' @ ircfrom i @ '') '' @ irccontent i @ [LF]) b)"

text \<open>The pieces in which \<open>fgets\<close> reads a file with a buffer of 4200 bytes.\<close>

function log_lines :: "string \<Rightarrow> string list" where
  "log_lines text =
     (if text = [] then [] else let buf = fgets 4200 text in buf # log_lines (drop (length buf) text))"
  by pat_completeness auto
termination
  by (relation "measure length") (auto simp: fgets_not_Nil)

declare log_lines.simps [simp del]

definition play_line :: "int \<Rightarrow> string \<Rightarrow> string \<Rightarrow> bnc \<Rightarrow> bnc" where
  "play_line sock nick line b = bprint sock (psybnc_msg nick @ line @ [LF]) b"

definition playprivatelog :: "int \<Rightarrow> bnc \<Rightarrow> bnc" where
  "playprivatelog usern b =
     (let sock = u_insock (buser b usern); nick = u_nick (buser b (owner usern b)); (found, b) = checkforlog usern b in
      case b_files b (log_name usern) of
        None \<Rightarrow> b
      | Some text \<Rightarrow>
          let b = play_line sock (u_nick (buser b usern)) ''Starting playing Log'' b;
              b = fold (\<lambda>buf. play_line sock nick (if at buf 0 = CHR ''~'' then tl buf else buf)) (log_lines text) b
          in play_line sock nick ''Use ERASEPRIVATELOG to kill the log'' b)"

definition eraseprivatelog :: "int \<Rightarrow> bnc \<Rightarrow> bnc" where
  "eraseprivatelog usern b =
     (let nick = u_nick (buser b (owner usern b)); b = oldfile (log_name usern) b
      in play_line (u_insock (buser b usern)) nick ''Log erased'' b)"

text \<open>The main log is for admins.\<close>

definition playmainlog :: "env \<Rightarrow> int \<Rightarrow> bnc \<Rightarrow> bnc" where
  "playmainlog e usern b =
     (let sock = u_insock (buser b usern); u = buser b (owner usern b) in
      if u_rights u \<noteq> RI_ADMIN then play_line sock (u_nick u) ''You are no admin'' b
      else case b_files b (e_logfile e) of
        None \<Rightarrow> b
      | Some text \<Rightarrow>
          play_line sock (u_nick u) ''Use ERASEMAINLOG to kill the log''
            (fold (play_line sock (u_nick u)) (log_lines text)
              (play_line sock (u_nick u) ''Starting playing Main-Log'' b)))"

definition erasemainlog :: "env \<Rightarrow> int \<Rightarrow> bnc \<Rightarrow> bnc" where
  "erasemainlog e usern b =
     (let sock = u_insock (buser b usern); u = buser b (owner usern b) in
      if u_rights u \<noteq> RI_ADMIN then play_line sock (u_nick u) ''You are no admin'' b
      else play_line sock (u_nick (buser b usern)) ''Main-Log erased'' (oldfile (e_logfile e) b))"

section \<open>The traffic log\<close>

definition traffic_name :: "int \<Rightarrow> string" where
  "traffic_name usern = snpf 40 (''log/USER'' @ decimal_int usern @ ''.TRL'')"

definition open_traffic :: "env \<Rightarrow> int \<Rightarrow> bnc \<Rightarrow> bnc" where
  "open_traffic e usern b =
     bmod usern (\<lambda>u. u\<lparr>u_trafficlog := e_canopen e (traffic_name usern)\<rparr>) (file_append e (traffic_name usern) [] b)"

definition erasetrafficlog :: "env \<Rightarrow> int \<Rightarrow> bnc \<Rightarrow> bnc" where
  "erasetrafficlog e usern b =
     (let u = buser b usern in
      if u_trafficlog u
      then play_line (u_insock u) (u_nick u) ''Traffic-Log erased''
             (open_traffic e usern (bmod usern (\<lambda>u. u\<lparr>u_lastlog := 0\<rparr>) (file_remove (traffic_name usern) b)))
      else play_line (u_insock u) (u_nick u) ''No Traffic logging open'' b)"

text \<open>The year of an entry: 80 and later are years since 1900, the rest belongs to this century.\<close>

definition full_year :: "int \<Rightarrow> int" where
  "full_year y = (let y = (if y < 80 then y + 2000 else y) in if y < 1900 then y + 1900 else y)"

text \<open>A number as \<open>%0wd\<close> prints it.\<close>

definition dec0 :: "nat \<Rightarrow> int \<Rightarrow> string" where
  "dec0 w n =
     (if n < 0 then CHR ''-'' # replicate (w - 1 - length (decimal (nat (- n)))) (CHR ''0'') @ decimal (nat (- n))
      else replicate (w - length (decimal (nat n))) (CHR ''0'') @ decimal (nat n))"

definition traffic_entry :: "env \<Rightarrow> irc_state \<Rightarrow> string \<Rightarrow> string" where
  "traffic_entry e i buf =
     (case e_tm e of
        (year, mon, mday, hour, minute, sec) \<Rightarrow>
          dec0 2 (full_year year) @ ''-'' @ dec0 2 mon @ ''-'' @ dec0 2 mday @ ''-'' @ dec0 2 hour @ ''-'' @
          dec0 2 minute @ ''-'' @ dec0 2 sec @ '':'' @ ircto i @ '':'' @ buf @ [LF])"

text \<open>Writing the line to the traffic log, which is opened when it is not open.\<close>

definition traffic_write :: "env \<Rightarrow> int \<Rightarrow> bnc \<Rightarrow> bnc" where
  "traffic_write e usern b =
     (let b = (if u_trafficlog (buser b usern) then b else open_traffic e usern b) in
      if u_trafficlog (buser b usern) \<and> b_buf b \<noteq> []
      then b\<lparr>b_files := (b_files b)(traffic_name usern \<mapsto>
             file_text b (traffic_name usern) @ traffic_entry e (b_irc b) (b_buf b))\<rparr>
      else b)"

lemma getstring_loop_bound: "getstring_loop cnt entry xs = Some s \<Longrightarrow> entry < cnt + int (length xs)"
  by (induction cnt entry xs rule: getstring_loop.induct) (auto split: if_splits)

text \<open>The first entry that fits decides: its target is that of the line, or somebody quits, and its filter is in the line.\<close>

function checklogging_loop :: "env \<Rightarrow> int \<Rightarrow> stringarray \<Rightarrow> int \<Rightarrow> bnc \<Rightarrow> bnc" where
  "checklogging_loop e usern th entry b =
     (case getstring entry th of
        None \<Rightarrow> b
      | Some somp \<Rightarrow>
          let buf = strmncpy somp 400 in
          (case strchr buf (CHR '';'') of
             None \<Rightarrow> checklogging_loop e usern th (entry + 1) b
           | Some j \<Rightarrow>
               let flt = take j buf; dest = ucase (drop (j + 1) buf);
                   b = b\<lparr>b_irc := (b_irc b)\<lparr>ircto := ucase (ircto (b_irc b))\<rparr>\<rparr>
               in if (strmcmp dest (ircto (b_irc b)) \<or> strmcmp (irccommand (b_irc b)) ''QUIT'') \<and>
                    (at flt 0 = CHR ''*'' \<or> strstr (b_buf b) flt \<noteq> None)
                  then traffic_write e usern b
                  else checklogging_loop e usern th (entry + 1) b))"
  by pat_completeness auto
termination
  by (relation "measure (\<lambda>(e, usern, th, entry, b). nat (int (length th) - entry))")
    (auto dest: getstring_loop_bound simp: getstring_def)

declare checklogging_loop.simps [simp del]

definition checklogging :: "env \<Rightarrow> int \<Rightarrow> bnc \<Rightarrow> bnc" where
  "checklogging e usern b = checklogging_loop e usern (u_logs (buser b usern)) 0 b"

subsection \<open>Playing it\<close>

text \<open>\<open>sscanf\<close> with numbers, words, single characters and white space.\<close>

datatype conv = ConvInt | ConvStr | Lit char | White

datatype sval = IntV int | StrV string

fun scan :: "conv list \<Rightarrow> string \<Rightarrow> sval list" where
  "scan [] s = []"
| "scan (Lit c # fs) s = (if s \<noteq> [] \<and> hd s = c then scan fs (tl s) else [])"
| "scan (White # fs) s = scan fs (dropWhile isspace s)"
| "scan (ConvInt # fs) s = (case scan_int s of None \<Rightarrow> [] | Some (n, r) \<Rightarrow> IntV n # scan fs r)"
| "scan (ConvStr # fs) s =
     (let r = dropWhile isspace s; w = takeWhile (\<lambda>c. \<not> isspace c) r in
      if w = [] then [] else StrV w # scan fs (drop (length w) r))"

definition date_fmt :: "char \<Rightarrow> conv list" where
  "date_fmt sep = [ConvInt, Lit sep, ConvInt, Lit sep, ConvInt]"

definition request_fmt :: "conv list" where
  "request_fmt =
     [ConvStr, White] @ date_fmt (CHR ''-'') @ [White] @ date_fmt (CHR '':'') @ [White] @
     date_fmt (CHR ''-'') @ [White] @ date_fmt (CHR '':'') @ [White, Lit (CHR '':''), ConvStr, White]"

definition entry_fmt :: "conv list" where
  "entry_fmt = date_fmt (CHR ''-'') @ [Lit (CHR ''-'')] @ date_fmt (CHR ''-'') @ [Lit (CHR '':''), ConvStr, Lit (CHR '':'')]"

definition short_year :: "int \<Rightarrow> int" where
  "short_year y = (if y < 80 then y + 2000 else y + 1900)"

text \<open>What is asked for: everything since the last time, or a source, two points of time and a filter.\<close>

datatype request = Since | Range string "int list" "int list" string

definition traffic_request :: "bool \<Rightarrow> string \<Rightarrow> request option" where
  "traffic_request since pt =
     (if since then Some Since
      else case scan request_fmt pt of
        [StrV source, IntV fmm, IntV fdd, IntV fyy, IntV fh, IntV fm, IntV fs,
         IntV tmm, IntV tdd, IntV tyy, IntV th, IntV tm, IntV ts, StrV flt] \<Rightarrow>
          Some (Range (ucase source) [short_year fyy, fmm, fdd, fh, fm, fs] [short_year tyy, tmm, tdd, th, tm, ts] flt)
      | _ \<Rightarrow> None)"

fun later :: "int list \<Rightarrow> int list \<Rightarrow> bool" where
  "later (x # xs) (y # ys) \<longleftrightarrow> x > y \<or> (x = y \<and> later xs ys)"
| "later _ _ \<longleftrightarrow> False"

text \<open>The text behind the second colon, when it passes the filter.\<close>

definition traffic_show :: "int \<Rightarrow> string \<Rightarrow> string \<Rightarrow> bnc \<Rightarrow> bnc" where
  "traffic_show sock flt buf b =
     (case strchr buf (CHR '':'') of
        None \<Rightarrow> b
      | Some i \<Rightarrow>
          (case strchr (drop (i + 1) buf) (CHR '':'') of
             None \<Rightarrow> b
           | Some j \<Rightarrow>
               let pt = drop (i + 1 + j + 1) buf in
               if at flt 0 = CHR ''*'' \<or> strstr pt flt \<noteq> None then bwrite sock pt b else b))"

text \<open>The log is in the order of time, so that reading ends at the first entry behind the range.\<close>

fun traffic_range :: "int \<Rightarrow> string \<Rightarrow> int list \<Rightarrow> int list \<Rightarrow> string \<Rightarrow> string list \<Rightarrow> bnc \<Rightarrow> bnc" where
  "traffic_range sock source f t flt [] b = b"
| "traffic_range sock source f t flt (buf # bufs) b =
     (case scan entry_fmt buf of
        [IntV xyy, IntV xmm, IntV xdd, IntV xh, IntV xm, IntV xs, StrV src] \<Rightarrow>
          let x = [short_year xyy, xmm, xdd, xh, xm, xs]; src2 = ucase (takeWhile (\<lambda>c. c \<noteq> CHR '':'') src) in
          if later x t then b
          else traffic_range sock source f t flt bufs
                 (if \<not> later f x \<and> strmncasecmp source src2 then traffic_show sock flt buf b else b)
      | _ \<Rightarrow> traffic_range sock source f t flt bufs b)"

definition show_time :: "int list \<Rightarrow> string" where
  "show_time x = dec0 4 (x ! 0) @ ''-'' @ dec0 2 (x ! 1) @ ''-'' @ dec0 2 (x ! 2) @ '' '' @
     dec0 2 (x ! 3) @ '':'' @ dec0 2 (x ! 4) @ '':'' @ dec0 2 (x ! 5)"

definition playtrafficlog :: "env \<Rightarrow> int \<Rightarrow> bnc \<Rightarrow> bnc option" where
  "playtrafficlog e usern b =
     (let sock = u_insock (buser b usern); nick = u_nick (buser b (owner usern b));
          wrong = play_line sock nick (''Wrong Syntax. Use PLAYTRAFFICLOG source mm-dd-yy hh:mm:ss mm-dd-yy hh:mm:ss '' @
                    '':text (or * for everything)'' @ [CR]);
          since = prefix ''last'' (irccontent (b_irc b))
      in if irccontent (b_irc b) = []
      then Some (bwrite sock (snpf 4200 (psybnc_msg nick @ ''No Filter defined. Use PLAYTRAFFICLOG source mm-dd-yy hh:mm:ss '' @
             ''mm-dd-yy hh:mm:ss :text (or * for everything). You can also use PLAYTRAFFICLOG last to play.'' @ [CR, LF])) b)
      else case strchr (b_buf b) (CHR '' '') of
        None \<Rightarrow> Some (wrong b)
      | Some i \<Rightarrow>
          (case (traffic_request since (drop (i + 1) (b_buf b)), b_files b (traffic_name usern)) of
             (Some Since, Some text) \<Rightarrow>
               do {
                 let lastlog = u_lastlog (buser b usern);
                 let b = bwrite sock (snpf 4200 (psybnc_msg ''*'' @ ''Starting playing log since last.'' @ [CR, LF])) b;
                 let b = fold (traffic_show sock ''*'') (log_lines (drop (nat lastlog) text)) b;
                 (u, s) \<leftarrow> writeuser (e_salt e) usern ((buser b usern)\<lparr>u_lastlog := max lastlog (int (length text))\<rparr>) (b_store b);
                 let b = bmod usern (\<lambda>_. u) (b\<lparr>b_store := s\<rparr>);
                 Some (open_traffic e usern (bprint sock (psybnc_msg ''*'' @ ''End of log.'' @ [CR, LF]) b))
               }
           | (Some (Range source f t flt), Some text) \<Rightarrow>
               let b = bwrite sock (snpf 4200 (psybnc_msg source @ ''Starting playing log ('' @ source @ '', from '' @
                         show_time f @ '' to '' @ show_time t @ '', filter '' @ flt @ '')'' @ [CR, LF])) b;
                   b = traffic_range sock source f t flt (log_lines text) b
               in Some (open_traffic e usern (bprint sock (psybnc_msg source @ ''End of log ('' @ flt @ '')'' @ [CR, LF]) b))
           | _ \<Rightarrow> Some (wrong b)))"

end
