(* ===== verification/Talk.thy ===== *)
theory Talk
  imports Bouncer Userfile
begin

text \<open>
  Encrypted talk, \<open>checkcrypt\<close> of src/p_client.c: messages to the targets of the encryption list are
  encrypted with the key of the entry, and those from them decrypted. Messages of clients get a
  checksum of the key appended before they are encrypted with Blowfish, the cipher of this build.
\<close>

section \<open>The key of a target\<close>

definition keyhash :: "string \<Rightarrow> word32" where
  "keyhash key = sum_list (map (\<lambda>c. signed (byte_of c)) key)"

definition crypt_act :: string where
  "crypt_act = CHR 0x01 # ''ACTION ''"

text \<open>Messages with a source come from the server: the target is then the channel or the sender.\<close>

definition crypt_target :: "int \<Rightarrow> bnc \<Rightarrow> string" where
  "crypt_target usern b =
     (let i = b_irc b in
      if at (b_buf b) 0 = CHR '':'' \<and> at (ircto i) 0 \<noteq> NUL \<and> strchr (u_chantypes (buser b usern)) (at (ircto i) 0) = None
      then ircnick i else ircto i)"

text \<open>The key in the first entry for a target; the search ends at an entry without a key.\<close>

fun find_key :: "salt \<Rightarrow> string \<Rightarrow> stringarray \<Rightarrow> string option option" where
  "find_key sl target [] = Some None"
| "find_key sl target (None # lkm) = None"
| "find_key sl target (Some entry # lkm) =
     (case split_at (CHR '';'') (strmncpy entry 200) of
        None \<Rightarrow> Some None
      | Some (name, key) \<Rightarrow>
          if length (ucase name) = length target \<and> prefix target (ucase name)
          then map_option Some (decryptit sl key)
          else find_key sl target lkm)"

section \<open>Messages from the server\<close>

text \<open>The encrypted part: the whole text, or that of an action; other control messages have none.\<close>

definition crypt_text :: "string \<Rightarrow> string option" where
  "crypt_text words =
     (if at words 0 = CHR 0x01 then if prefix crypt_act words then Some (drop (length crypt_act) words) else None
      else Some words)"

definition clear_text :: "env \<Rightarrow> string \<Rightarrow> string \<Rightarrow> bnc \<Rightarrow> (string option \<times> bnc) option" where
  "clear_text e key pt b =
     (if prefix ''[B]'' pt
      then case BLOW_stringdecrypt (b_wrong b) (drop 3 pt) key of
        (t, w) \<Rightarrow> Some (Some t, b\<lparr>b_wrong := w\<rparr>)
      else if prefix ''[I]'' pt
      then map_option (\<lambda>(t, st, w). (Some t, b\<lparr>b_idea := st, b_wrong := w\<rparr>))
             (IDEA_stringdecrypt (b_wrong b) (e_delta e) (b_idea b) (drop 3 pt) (map byte_of key @ [0]))
      else Some (None, b))"

text \<open>The mark of the cipher stays in front of the text.\<close>

definition decrypt_line :: "env \<Rightarrow> string \<Rightarrow> bnc \<Rightarrow> bnc option" where
  "decrypt_line e key b =
     (let words = irccontent (b_irc b) in
      case crypt_text words of
        None \<Rightarrow> Some b
      | Some pt \<Rightarrow>
          do {
            (clear, b) \<leftarrow> clear_text e key pt b;
            Some (case (clear, strstr (b_buf b) words) of
                    (Some t, Some i) \<Rightarrow>
                      let n = i + (if prefix crypt_act words then length crypt_act else 0) + 3
                      in bparse (b\<lparr>b_buf := snpf 8192 (strmncpy (take n (b_buf b)) 800 @ t @ [CR, LF])\<rparr>)
                  | _ \<Rightarrow> b)
          })"

section \<open>Messages of the client\<close>

text \<open>The text is looked for from the start of the line.\<close>

definition encrypt_line :: "string \<Rightarrow> bnc \<Rightarrow> bnc option" where
  "encrypt_line key b =
     (let words = irccontent (b_irc b); action = prefix crypt_act words in
      if at words 0 = CHR 0x01 \<and> \<not> action then Some b
      else case strstr (b_buf b) words of
        None \<Rightarrow> Some b
      | Some i \<Rightarrow>
          do {
            let n = (if action then length crypt_act else 0);
            let buf = strmncpy (take (i + n) (b_buf b)) 800;
            let chkbuf = snpf 30 ('' <'' @ decimal (unat (keyhash key)) @ ''>'' @ (if action then [CHR 0x01] else []));
            let words = (if action then butlast words else words);
            let words = (if length words + length chkbuf + 1 < 6000 then words @ chkbuf else words);
            t \<leftarrow> BLOW_stringencrypt (drop n words) key;
            Some (bparse (b\<lparr>b_buf := snpf 8192 (buf @ ''[B]'' @ t @ [CR, LF])\<rparr>))
          })"

text \<open>Text that is marked as plain is left alone.\<close>

definition checkcrypt :: "env \<Rightarrow> int \<Rightarrow> bnc \<Rightarrow> bnc option" where
  "checkcrypt e usern b =
     (if prefix ''[N]'' (irccontent (b_irc b)) then Some b
      else do {
        key \<leftarrow> find_key (e_salt e) (ucase (strmncpy (crypt_target usern b) 800)) (u_encrypt (buser b usern));
        (case key of
           None \<Rightarrow> Some b
         | Some k \<Rightarrow> if at (b_buf b) 0 = CHR '':'' then decrypt_line e k b else encrypt_line k b)
      })"

section \<open>Encrypted talk is understood\<close>

text \<open>A text that starts with a character that the line does not have before it is found at its place.\<close>

lemma strstr_at:
  assumes "c \<notin> set src"
  shows "strstr (src @ (c # p) @ rest) (c # p) = Some (length src)"
  using assms by (induction src) (auto simp: prefix_def)

text \<open>The text with the checksum of the key.\<close>

definition marked :: "string \<Rightarrow> string \<Rightarrow> string" where
  "marked key words = words @ '' <'' @ decimal (unat (keyhash key)) @ ''>''"

lemma length_checksum: "length (decimal (unat (h :: word32))) \<le> 10"
proof (rule length_decimal)
  have "unat h < 2 ^ LENGTH(32)" by (rule unsigned_less)
  then show "unat h < 10 ^ 10" by simp
qed simp

lemma no_nul_decimal: "no_nul (decimal n)"
  using decimal_digits [of n] by (auto simp: no_nul_def isdigit_def code_def)

lemma encrypt_line_talk:
  assumes buf: "irccontent (b_irc b) = words" "strstr (b_buf b) words = Some (length pre)" "take (length pre) (b_buf b) = pre"
    and words: "no_nul words" "at words 0 \<noteq> CHR 0x01" "length words < 2000" and pre: "length pre < 800"
  shows "\<exists>t. encrypt_line key b = Some (bparse (b\<lparr>b_buf := pre @ ''[B]'' @ t @ [CR, LF]\<rparr>)) \<and>
    length t < 4100 \<and> (\<forall>wrong. fst (BLOW_stringdecrypt wrong t key) = marked key words)"
proof -
  have chk: "snpf 30 ('' <'' @ decimal (unat (keyhash key)) @ ''>'') = '' <'' @ decimal (unat (keyhash key)) @ ''>''"
    using length_checksum [of "keyhash key"] by simp
  have nn: "no_nul (marked key words)" using words(1) no_nul_decimal by (simp add: marked_def)
  have len: "length (marked key words) < 2014" using words(3) length_checksum [of "keyhash key"] by (simp add: marked_def)
  obtain t where t: "BLOW_stringencrypt (marked key words) key = Some t" "length t \<le> 2 * (length (marked key words) + 7)"
      "\<forall>wrong. fst (BLOW_stringdecrypt wrong t key) = marked key words"
    using BLOW_string_back [OF nn] by blast
  have "\<not> prefix crypt_act words" using words(2) by (cases words) (auto simp: crypt_act_def at_def)
  then have "encrypt_line key b = Some (bparse (b\<lparr>b_buf := snpf 8192 (pre @ ''[B]'' @ t @ [CR, LF])\<rparr>))"
    using buf words(2,3) pre t(1) len by (simp add: encrypt_line_def chk [simplified] Let_def marked_def)
  moreover have "length (pre @ ''[B]'' @ t @ [CR, LF]) < 8192" using pre t(2) len by simp
  ultimately show ?thesis using t(2,3) len by (intro exI [of _ t]) simp
qed

lemma decrypt_line_talk:
  assumes "irccontent (b_irc b) = ''[B]'' @ t" "b_buf b = src @ ''[B]'' @ t @ rest" "CHR ''['' \<notin> set src" "length src < 790"
    and dec: "fst (BLOW_stringdecrypt (b_wrong b) t key) = txt" and len: "length txt < 7000"
  shows "\<exists>b'. decrypt_line e key b = Some b' \<and> b_buf b' = src @ ''[B]'' @ txt @ [CR, LF]"
proof -
  obtain w where w: "BLOW_stringdecrypt (b_wrong b) t key = (txt, w)" using dec by (cases "BLOW_stringdecrypt (b_wrong b) t key") simp
  have pos: "strstr (b_buf b) (''[B]'' @ t) = Some (length src)"
    using strstr_at [OF assms(3), of "''B]'' @ t" rest] assms(2) by simp
  have "crypt_text (''[B]'' @ t) = Some (''[B]'' @ t)" "\<not> prefix crypt_act (''[B]'' @ t)"
    by (simp_all add: crypt_text_def crypt_act_def at_def)
  then show ?thesis using assms(1,2,4) w pos len
    by (simp add: decrypt_line_def clear_text_def bparse_def)
qed

text \<open>
  (C16) Encrypted talk is understood: what a user says to a target of the encryption list goes out
  as a mark and a cipher text, and a bouncer that has the same key for the target or for the sender
  shows the words again, with the mark and the checksum of the key, whatever was deciphered before.
  The words must not occur in the line before their place.
\<close>

theorem checkcrypt_talk:
  assumes "irccontent (b_irc b) = words" "strstr (b_buf b) words = Some (length pre)" "take (length pre) (b_buf b) = pre"
    and "no_nul words" "at words 0 \<noteq> CHR 0x01" "\<not> prefix ''[N]'' words" "length words < 2000"
    and "at (b_buf b) 0 \<noteq> CHR '':''" "length pre < 800"
    and "find_key (e_salt e) (ucase (strmncpy (crypt_target n b) 800)) (u_encrypt (buser b n)) = Some (Some key)"
  shows "\<exists>t b1. checkcrypt e n b = Some b1 \<and> b_buf b1 = pre @ ''[B]'' @ t @ [CR, LF] \<and>
    (\<forall>e' m b' src rest. irccontent (b_irc b') = ''[B]'' @ t \<longrightarrow> b_buf b' = '':'' @ src @ ''[B]'' @ t @ rest \<longrightarrow>
       CHR ''['' \<notin> set src \<longrightarrow> length src < 700 \<longrightarrow>
       find_key (e_salt e') (ucase (strmncpy (crypt_target m b') 800)) (u_encrypt (buser b' m)) = Some (Some key) \<longrightarrow>
       (\<exists>b2. checkcrypt e' m b' = Some b2 \<and> b_buf b2 = '':'' @ src @ ''[B]'' @ marked key words @ [CR, LF]))"
proof -
  obtain t where t: "encrypt_line key b = Some (bparse (b\<lparr>b_buf := pre @ ''[B]'' @ t @ [CR, LF]\<rparr>))" "length t < 4100"
      "\<forall>wrong. fst (BLOW_stringdecrypt wrong t key) = marked key words"
    using encrypt_line_talk [OF assms(1-3,4,5,7,9)] by blast
  have 1: "checkcrypt e n b = Some (bparse (b\<lparr>b_buf := pre @ ''[B]'' @ t @ [CR, LF]\<rparr>))"
    using assms(1,6,8,10) t(1) by (simp add: checkcrypt_def)
  have len: "length (marked key words) < 7000"
    using assms(7) length_checksum [of "keyhash key"] by (simp add: marked_def)
  have "\<exists>b2. checkcrypt e' m b' = Some b2 \<and> b_buf b2 = '':'' @ src @ ''[B]'' @ marked key words @ [CR, LF]"
    if r: "irccontent (b_irc b') = ''[B]'' @ t" "b_buf b' = '':'' @ src @ ''[B]'' @ t @ rest" "CHR ''['' \<notin> set src" "length src < 700"
      "find_key (e_salt e') (ucase (strmncpy (crypt_target m b') 800)) (u_encrypt (buser b' m)) = Some (Some key)" for e' m b' src rest
  proof -
    have "checkcrypt e' m b' = decrypt_line e' key b'" using r(1,2,5) by (simp add: checkcrypt_def at_def)
    moreover have "\<exists>b2. decrypt_line e' key b' = Some b2 \<and> b_buf b2 = ('':'' @ src) @ ''[B]'' @ marked key words @ [CR, LF]"
      using r t(3) len by (intro decrypt_line_talk [where t = t and rest = rest]) simp_all
    ultimately show ?thesis by simp
  qed
  then have 2: "\<forall>e' m b' src rest. irccontent (b_irc b') = ''[B]'' @ t \<longrightarrow> b_buf b' = '':'' @ src @ ''[B]'' @ t @ rest \<longrightarrow>
       CHR ''['' \<notin> set src \<longrightarrow> length src < 700 \<longrightarrow>
       find_key (e_salt e') (ucase (strmncpy (crypt_target m b') 800)) (u_encrypt (buser b' m)) = Some (Some key) \<longrightarrow>
       (\<exists>b2. checkcrypt e' m b' = Some b2 \<and> b_buf b2 = '':'' @ src @ ''[B]'' @ marked key words @ [CR, LF])"
    by blast
  have 3: "b_buf (bparse (b\<lparr>b_buf := pre @ ''[B]'' @ t @ [CR, LF]\<rparr>)) = pre @ ''[B]'' @ t @ [CR, LF]" by (simp add: bparse_def)
  show ?thesis by (rule exI [of _ t], rule exI, rule conjI [OF 1 conjI [OF 3 2]])
qed

definition sample_env :: env where
  "sample_env =
     \<lparr>e_salt = makesalt, e_time = 1000, e_ctime = ''Wed Jun 30 21:49:08 1993'' @ [LF], e_tm = (93, 5, 30, 21, 49, 8),
      e_rand = 7, e_delta = 0, e_canopen = (\<lambda>_. True), e_peer = (\<lambda>_. None), e_logfile = ''log/psybnc.log'',
      e_home = None, e_pid = 77, e_newsock = 9, e_firstport = 0, e_link = (\<lambda>_. zero_datalinkt), e_strerror = [], e_me = ''bnc'', e_cursock = 5,
      e_source = ''host'', e_other = None, e_group = (\<lambda>_. [])\<rparr>"

definition talk_bnc :: bnc where
  "talk_bnc =
     \<lparr>b_users = \<lparr>us_nodes = [(1, zero_usert\<lparr>u_encrypt := [Some ''#chat;secret''], u_chantypes := ''#''\<rparr>)],
        us_dummy = zero_usert, us_null = zero_usert\<rparr>,
      b_buf = ''PRIVMSG #chat :hello'', b_irc = empty_irc\<lparr>irccommand := ''PRIVMSG'', ircto := ''#chat'', irccontent := ''hello''\<rparr>,
      b_netfrom = [], b_ehost = [], b_eparm = [], b_echan = [], b_wrong = False,
      b_idea = \<lparr>IDEAUserKey = [], IDEAEncryptionKey = [], IDEADecryptionKey = []\<rparr>, b_hostallows = [], b_store = ([None], []),
      b_files = (\<lambda>_. None), b_sent = []\<rparr>"

theorem checkcrypt_talk_witness:
  "\<exists>t b1. checkcrypt sample_env 1 talk_bnc = Some b1 \<and> b_buf b1 = ''PRIVMSG #chat :'' @ ''[B]'' @ t @ [CR, LF] \<and>
    (\<forall>e' m b' src rest. irccontent (b_irc b') = ''[B]'' @ t \<longrightarrow> b_buf b' = '':'' @ src @ ''[B]'' @ t @ rest \<longrightarrow>
       CHR ''['' \<notin> set src \<longrightarrow> length src < 700 \<longrightarrow>
       find_key (e_salt e') (ucase (strmncpy (crypt_target m b') 800)) (u_encrypt (buser b' m)) = Some (Some ''secret'') \<longrightarrow>
       (\<exists>b2. checkcrypt e' m b' = Some b2 \<and> b_buf b2 = '':'' @ src @ ''[B]'' @ marked ''secret'' ''hello'' @ [CR, LF]))"
proof (rule checkcrypt_talk)
  have u: "buser talk_bnc 1 = zero_usert\<lparr>u_encrypt := [Some ''#chat;secret''], u_chantypes := ''#''\<rparr>"
    by (simp add: talk_bnc_def getu_def ucell_def user_nr_def MAX_USER_def)
  have "crypt_target 1 talk_bnc = ''#chat''" by (simp add: crypt_target_def talk_bnc_def at_def)
  then show "find_key (e_salt sample_env) (ucase (strmncpy (crypt_target 1 talk_bnc) 800)) (u_encrypt (buser talk_bnc 1)) =
      Some (Some ''secret'')"
    by (simp add: u, code_simp)
qed (simp_all add: talk_bnc_def empty_irc_def at_def)

text \<open>
  When the words occur in the target, the line is cut there: saying \<open>a\<close> on the channel \<open>#a\<close> sends the
  cipher to the channel \<open>#[B]...\<close>.
\<close>

lemma encrypt_line_in_target:
  assumes "irccontent (b_irc b) = ''a''" "b_buf b = ''PRIVMSG #a :a''" "encrypt_line key b = Some b'"
  shows "prefix ''PRIVMSG #[B]'' (b_buf b')"
  using assms by (auto simp: encrypt_line_def crypt_act_def at_def bparse_def snpf_def Let_def split: Option.bind_splits)

end
