(* ===== verification/Server.thy ===== *)
theory Server
  imports Log Talk Dispatch
begin

text \<open>
  What the bouncer does with the lines of an IRC server, src/p_server.c: following the channels of
  the user, greeting, keeping the nick, opping and banning on request. A handler gets the number of
  the user and the state and returns what the C function returns with the state it leaves; \<open>None\<close> is
  an access outside an array or through a null pointer.

  The DCC requests that \<open>parsectcps\<close> takes out of messages are an argument of the handler of
  messages.
\<close>

section \<open>Reaching users and channels\<close>

type_synonym handler = "env \<Rightarrow> int \<Rightarrow> bnc \<Rightarrow> (int \<times> bnc) option"

definition mod_irc :: "(irc_state \<Rightarrow> irc_state) \<Rightarrow> bnc \<Rightarrow> bnc" where
  "mod_irc f b = b\<lparr>b_irc := f (b_irc b)\<rparr>"

text \<open>A routine on the structure of a user and the configuration.\<close>

definition with_user :: "int \<Rightarrow> (usert \<Rightarrow> store \<Rightarrow> (usert \<times> store) option) \<Rightarrow> bnc \<Rightarrow> bnc option" where
  "with_user usern f b =
     do {
       (u, s) \<leftarrow> f (buser b usern) (b_store b);
       Some (bmod usern (\<lambda>_. u) (b\<lparr>b_store := s\<rparr>))
     }"

text \<open>A routine on a channel of a user; nothing happens when the user has no such channel.\<close>

definition with_channel :: "int \<Rightarrow> string \<Rightarrow> (uchannelt \<Rightarrow> store \<Rightarrow> (uchannelt \<times> store) option) \<Rightarrow> bnc \<Rightarrow> bnc option" where
  "with_channel usern name f =
     with_user usern (\<lambda>u s.
       case getuserchannel u name of
         None \<Rightarrow> Some (u, s)
       | Some i \<Rightarrow> map_option (\<lambda>(c, s). (u\<lparr>u_channels := (u_channels u)[i := c]\<rparr>, s)) (f (u_channels u ! i) s))"

definition on_channel :: "int \<Rightarrow> string \<Rightarrow> (uchannelt \<Rightarrow> uchannelt) \<Rightarrow> bnc \<Rightarrow> bnc option" where
  "on_channel usern name f = with_channel usern name (\<lambda>c s. Some (f c, s))"

text \<open>\<open>checkstrings\<close> on the globals: the sender is \<open>ircfrom\<close>, and the entry it found is left behind.\<close>

definition bcheck :: "env \<Rightarrow> stringarray \<Rightarrow> bnc \<Rightarrow> (bool \<times> bnc) option" where
  "bcheck e th b =
     map_option
       (\<lambda>(found, st). (found, mod_irc (\<lambda>i. i\<lparr>ircto := check_state.ircto st\<rparr>)
          (b\<lparr>b_ehost := ehost st, b_eparm := eparm st, b_echan := echan st\<rparr>)))
       (checkstrings (e_salt e) (ircfrom (b_irc b)) th
          \<lparr>check_state.ircto = ircto (b_irc b), ehost = b_ehost b, eparm = b_eparm b, echan = b_echan b\<rparr>)"

text \<open>Writing to the server and to the client of a user.\<close>

abbreviation to_server :: "int \<Rightarrow> string \<Rightarrow> bnc \<Rightarrow> bnc" where
  "to_server usern text b \<equiv> bprint (u_outsock (buser b usern)) text b"

abbreviation to_client :: "int \<Rightarrow> string \<Rightarrow> bnc \<Rightarrow> bnc" where
  "to_client usern text b \<equiv> bprint (u_insock (buser b usern)) text b"

section \<open>Greeting\<close>

text \<open>The configuration of the ident daemon: an entry for every connection that is not yet greeted.\<close>

definition oidentd_entry :: "env \<Rightarrow> usert \<Rightarrow> string" where
  "oidentd_entry e u =
     (case e_peer e (u_outsock u) of
        None \<Rightarrow> []
      | Some (dest, dport, sourceip, sourceport) \<Rightarrow>
          if u_outstate u < STD_CONN \<or> u_welcome u = 0
          then ''# User '' @ u_login u @ '' (socket '' @ decimal_int (u_outsock u) @ '') - Connecting to '' @ dest @ '':'' @
               decimal_int dport @ '' from '' @ sourceip @ '':'' @ decimal_int sourceport @ [LF] @
               snpf 1024 (''to '' @ dest @ '' fport '' @ decimal_int dport @ '' from '' @ sourceip @ '' lport '' @
                 decimal_int sourceport @ '' { reply '' @ [CHR 0x22] @ u_login u @ [CHR 0x22] @ '' }'') @ [LF, LF]
          else [])"

definition create_oidentd_conf :: "env \<Rightarrow> bnc \<Rightarrow> bnc" where
  "create_oidentd_conf e b =
     (case e_home e of
        None \<Rightarrow> p_log e LOG_ERROR (-1) ''Unable to generate oidentd configuration: Can't determine home directory.'' b
      | Some homedir \<Rightarrow>
          let name = snpf 1024 (homedir @ ''/.oidentd.conf'') in
          if \<not> e_canopen e name
          then p_log e LOG_ERROR (-1)
                 (''Unable to generate oidentd configuration: Can't open configuration file: '' @ e_strerror e) b
          else file_write e name
                 (''# psyBNC detailed oidentd configuration (generated by pid '' @ decimal_int (e_pid e) @ '')'' @ [LF] @
                  ''# NOTE: Changes in this file *will* be overwritten.'' @ [LF, LF] @
                  concat (map (\<lambda>n. oidentd_entry e (buser b n)) (uids (b_users b))) @
                  ''# End of psyBNC detailed oidentd config'' @ [LF]) b)"

definition rejoin_line :: "uchannelt \<Rightarrow> string" where
  "rejoin_line chan =
     (if strchr (c_modes chan) (CHR ''k'') \<noteq> None then ''JOIN '' @ c_name chan @ '' '' @ c_key chan @ [LF]
      else ''JOIN '' @ c_name chan @ [LF])"

definition rejoinchannels :: "int \<Rightarrow> bnc \<Rightarrow> bnc" where
  "rejoinchannels usern b =
     (if u_outstate (buser b usern) \<noteq> STD_CONN then b
      else fold (\<lambda>chan b. if c_ison chan = 0 then to_server usern (rejoin_line chan) b else b)
             (u_channels (buser b usern)) b)"

text \<open>The host behind the last name of the greeting is replaced by that of the bouncer user.\<close>

definition greet_host :: "string \<Rightarrow> string \<Rightarrow> string" where
  "greet_host host buf =
     (case strstr buf '' 001 '' of
        None \<Rightarrow> buf
      | Some i \<Rightarrow>
          (case strchr (drop i buf) (CHR ''@'') of
             None \<Rightarrow> buf
           | Some j \<Rightarrow>
               let buf = take (i + j + 1) buf in
               if length buf + length host < 8192 then buf @ host else buf))"

definition motd_name :: "int \<Rightarrow> string" where
  "motd_name usern = snpf 40 (''motd/USER'' @ decimal_int usern @ ''.MOTD'')"

definition greet :: "env \<Rightarrow> int \<Rightarrow> bnc \<Rightarrow> bnc" where
  "greet e usern b =
     (let b = bmod usern resetallchannels b;
          b = b\<lparr>b_buf := greet_host (u_host (buser b (owner usern b))) (b_buf b)\<rparr>;
          b = create_oidentd_conf e (bmod usern (\<lambda>u. u\<lparr>u_welcome := 1\<rparr>) b);
          b = (if u_channels (buser b usern) \<noteq> [] \<and> u_leavequit (buser b usern) = 0 then rejoinchannels usern b else b);
          i = b_irc b;
          b = bmod usern (\<lambda>u. u\<lparr>u_server := strmncpy (ircfrom i) 255\<rparr>) b;
          u = buser b usern;
          b = (if u_instate u = STD_CONN \<and> u_parent u = 0 \<and> u_nick u \<noteq> [] \<and> \<not> strmcmp (ircto i) (u_nick u)
               then to_client usern ('':'' @ u_nick u @ ''!'' @ u_login u @ ''@'' @ u_host u @ '' NICK :'' @ ircto i) b
               else b);
          b = bmod usern (\<lambda>u. u\<lparr>u_nick := strmncpy (ircto i) 64, u_firstnick := strmncpy (ircto i) 64\<rparr>) b
      in to_server usern (''MODE '' @ ircto i @ '' +i'' @ [CR, LF]) b)"

definition serverinit :: "env \<Rightarrow> int \<Rightarrow> int \<Rightarrow> bnc \<Rightarrow> int \<times> bnc" where
  "serverinit e usern msgn b =
     (if u_srinit (buser b usern) = 0 then (0, b)
      else
        let b = (if msgn = 1
                 then let b = greet e usern b in
                      bmod usern (\<lambda>u. u\<lparr>u_gotop := 0\<rparr>) (file_write e (motd_name usern) (b_buf b) b)
                 else file_append e (motd_name usern) (b_buf b) b)
        in (1, if u_parent (buser b usern) \<noteq> 0 then b\<lparr>b_buf := []\<rparr> else b))"

definition msg001 :: handler where
  "msg001 e usern b =
     (let b = bmod usern (\<lambda>u. u\<lparr>u_prefixmodes := ''ov'', u_prefixchars := ''@+'', u_chantypes := ''#!&+'',
                u_chanmodes := ''beI,k,l,imnpst'', u_srinit := 1\<rparr>) b
      in Some (-1, snd (serverinit e usern 1 b)))"

text \<open>The value of a token of the line that says what the server supports; it must be followed by a blank.\<close>

definition support_value :: "string \<Rightarrow> string \<Rightarrow> string option" where
  "support_value key buf =
     (case strstr buf key of
        None \<Rightarrow> None
      | Some i \<Rightarrow> map_option fst (split_at (CHR '' '') (drop (i + length key) buf)))"

definition map_prefix :: "string \<Rightarrow> usert \<Rightarrow> usert" where
  "map_prefix buf u =
     (case strstr buf '' PREFIX=('' of
        None \<Rightarrow> u
      | Some i \<Rightarrow>
          (case split_at (CHR '')'') (drop (i + 9) buf) of
             None \<Rightarrow> u
           | Some (modes, ept) \<Rightarrow>
               let u = u\<lparr>u_prefixmodes := strmncpy modes 30\<rparr> in
               if strchr modes (CHR '' '') \<noteq> None then u\<lparr>u_prefixchars := strmncpy ept 30\<rparr>
               else case split_at (CHR '' '') ept of
                 None \<Rightarrow> u
               | Some (chars, rest) \<Rightarrow> u\<lparr>u_prefixchars := strmncpy chars 30\<rparr>))"

definition mapprefixed :: "string \<Rightarrow> usert \<Rightarrow> usert" where
  "mapprefixed buf u =
     (let u = map_prefix buf u;
          u = (case support_value '' CHANTYPES='' buf of None \<Rightarrow> u | Some v \<Rightarrow> u\<lparr>u_chantypes := strmncpy v 30\<rparr>)
      in case support_value '' CHANMODES='' buf of None \<Rightarrow> u | Some v \<Rightarrow> u\<lparr>u_chanmodes := strmncpy v 100\<rparr>)"

definition serverinit_rc :: "env \<Rightarrow> int \<Rightarrow> int \<Rightarrow> bnc \<Rightarrow> int \<times> bnc" where
  "serverinit_rc e usern msgn b = (case serverinit e usern msgn b of (rc, b) \<Rightarrow> (if rc \<noteq> 0 then 0 else 1, b))"

definition msg002to005 :: handler where
  "msg002to005 e usern b =
     Some (serverinit_rc e usern 2 (if ifcommand (Some ''005'') (b_irc b) then bmod usern (mapprefixed (b_buf b)) b else b))"

definition msg251to255265to266 :: handler where
  "msg251to255265to266 e usern b = Some (serverinit_rc e usern 3 b)"

definition msg372to375 :: handler where
  "msg372to375 e usern b = Some (serverinit_rc e usern 4 b)"

definition msg376 :: handler where
  "msg376 e usern b = Some (-1, bmod usern (\<lambda>u. u\<lparr>u_srinit := 0\<rparr>) (snd (serverinit e usern 4 b)))"

section \<open>Bans, ops and ignored senders\<close>

definition checkbans :: "env \<Rightarrow> int \<Rightarrow> bnc \<Rightarrow> bnc option" where
  "checkbans e usern b =
     do {
       (found, b) \<leftarrow> bcheck e (u_bans (buser b usern)) b;
       let u = buser b usern; let i = b_irc b;
       Some (if found \<and> at (b_ehost b) 0 \<noteq> CHR '')'' \<and> hasmode u (u_nick u) (ircto i) (CHR ''@'')
             then let b = to_server usern (''MODE '' @ ircto i @ '' +b '' @ b_ehost b) b;
                      b = to_server usern (''KICK '' @ ircto i @ '' '' @ ircnick i @ '' :banned: '' @ b_eparm b) b
                  in if u_instate u = STD_CONN
                     then to_client usern (psybnc_msg (u_nick (buser b (owner usern b))) @ ''User '' @ ircnick i @ ''('' @
                            ircfrom i @ '') matches ban('' @ b_ehost b @ ''), kickbanned on '' @ ircto i) b
                     else b
             else b)
     }"

definition checkautoop :: "env \<Rightarrow> int \<Rightarrow> bnc \<Rightarrow> bnc option" where
  "checkautoop e usern b =
     do {
       (found, b) \<leftarrow> bcheck e (u_aops (buser b usern)) b;
       let u = buser b usern; let i = b_irc b;
       Some (if found \<and> at (b_ehost b) 0 \<noteq> CHR '')'' \<and> hasmode u (u_nick u) (ircto i) (CHR ''@'')
             then let b = to_server usern (''MODE '' @ ircto i @ '' +o '' @ ircnick i) b
                  in if u_instate u = STD_CONN
                     then to_client usern (psybnc_msg (u_nick (buser b (owner usern b))) @ ''User '' @ ircnick i @ ''('' @
                            ircfrom i @ '') matches autoop('' @ b_ehost b @ ''), opped on '' @ ircto i) b
                     else b
             else b)
     }"

definition skip_blanks :: "string \<Rightarrow> string" where
  "skip_blanks s = dropWhile (\<lambda>c. c = CHR '' '') s"

text \<open>
  A request for op: the password and the channel behind the first word. Without a client the
  operator is given his mode too, but the answer is the one for a request that fails.
\<close>

definition checkop :: handler where
  "checkop e usern b =
     (case split_at (CHR '' '') (skip_blanks (drop 3 (irccontent (b_irc b)))) of
        None \<Rightarrow> Some (-1, b)
      | Some (pass, rest) \<Rightarrow>
          do {
            let chan = skip_blanks rest;
            let content = irccontent (b_irc b);
            let content = take (length content - length rest - 1) content;
            let b = mod_irc (\<lambda>i. i\<lparr>ircto := strmncpy chan 800, irccontent := content\<rparr>) b;
            (found, b) \<leftarrow> bcheck e (u_ops (buser b usern)) b;
            let u = buser b usern; let i = b_irc b;
            Some (if found \<and> at (b_ehost b) 0 \<noteq> CHR ''-'' \<and> hasmode u (u_nick u) (ircto i) (CHR ''@'') \<and> strmcmp pass (b_eparm b)
                  then let b = to_server usern (''MODE '' @ chan @ '' +o '' @ ircnick i) b
                       in if u_instate u = STD_CONN
                          then (0, to_client usern (psybnc_msg (u_nick (buser b (owner usern b))) @ ''User '' @ ircnick i @ ''('' @
                                     ircfrom i @ '') matches op ('' @ b_ehost b @ ''), opped on '' @ chan) b)
                          else (-1, b)
                  else (-1, b))
          })"

text \<open>An entry has a mask for the sender and a text; a star stands for any.\<close>

fun checkignores_loop :: "stringarray \<Rightarrow> irc_state \<Rightarrow> bool option" where
  "checkignores_loop [] i = Some False"
| "checkignores_loop (None # ts) i = None"
| "checkignores_loop (Some e # ts) i =
     (case split_at (CHR '';'') (strmncpy e 500) of
        None \<Rightarrow> checkignores_loop ts i
      | Some (ighost, words) \<Rightarrow>
          do {
            m \<leftarrow> wild_match ighost (ircfrom i);
            if (m \<noteq> 0 \<or> ighost = ''*'') \<and> (strstr (irccontent i) words \<noteq> None \<or> words = ''*'')
            then Some True else checkignores_loop ts i
          })"

definition checkignores :: "int \<Rightarrow> bnc \<Rightarrow> bool option" where
  "checkignores usern b = checkignores_loop (u_ignores (buser b usern)) (b_irc b)"

text \<open>The DCC connection with a name, \<open>checkdcc\<close> of src/p_dcc.c.\<close>

fun checkdcc :: "string \<Rightarrow> linknodes \<Rightarrow> datalinkt option" where
  "checkdcc dccname [] = None"
| "checkdcc dccname ((n, l) # th) =
     (case l of
        Some link \<Rightarrow>
          if length (l_name link) = length dccname \<and> strstr (l_name link) dccname \<noteq> None then Some link
          else checkdcc dccname th
      | None \<Rightarrow> checkdcc dccname th)"

text \<open>Asking an operator for op, over DCC when the entry names a bot.\<close>

definition getops :: "env \<Rightarrow> int \<Rightarrow> bnc \<Rightarrow> bnc option" where
  "getops e usern b =
     (if strstr (irccontent (b_irc b)) ''@'' = None then Some b
      else do {
        (found, b) \<leftarrow> bcheck e (u_askops (buser b usern)) b;
        let u = buser b usern; let i = b_irc b;
        let asked = bmod usern (\<lambda>u. u\<lparr>u_gotop := 1\<rparr>);
        Some (if \<not> found then b
              else if at (b_ehost b) 0 = CHR ''-'' \<or> at (b_ehost b) 0 = CHR '')''
              then (case checkdcc (tl (b_ehost b)) (u_dcc u) of
                      Some dccbot \<Rightarrow>
                        if l_outstate dccbot = STD_CONN
                        then asked (bout (Delayed (l_outsock dccbot)
                               (snpf 1024 (''.op '' @ u_nick u @ '' '' @ b_echan b @ [CR, LF])) 3) b)
                        else b
                    | None \<Rightarrow> b)
              else let b = bout (Delayed (u_outsock u)
                         (snpf 1024 (''PRIVMSG '' @ ircnick i @ '' :op '' @ b_eparm b @ '' '' @ ircto i)) 3) (asked b)
                   in if u_instate u = STD_CONN
                      then to_client usern (psybnc_msg (u_nick (buser b (owner usern b))) @ ''Asked '' @ ircnick i @ ''('' @
                             ircfrom i @ '') for op on '' @ ircto i) b
                      else b)
      })"

text \<open>The operators of the channel in their order, as the sender of a line, until one is asked.\<close>

definition as_sender :: "string \<Rightarrow> uchannelusert \<Rightarrow> irc_state \<Rightarrow> irc_state" where
  "as_sender channel usr i =
     i\<lparr>ircfrom := snpf 300 (cu_nick usr @ ''!'' @ cu_ident usr @ ''@'' @ cu_host usr), ircto := strmncpy channel 800,
       ircnick := strmncpy (cu_nick usr) 64, irchost := strmncpy (cu_host usr) 200, ircident := strmncpy (cu_ident usr) 32,
       irccontent := strmncpy (cu_mode usr) 6000\<rparr>"

fun askforop_loop :: "env \<Rightarrow> int \<Rightarrow> string \<Rightarrow> uchannelusert list \<Rightarrow> bnc \<Rightarrow> bnc option" where
  "askforop_loop e usern channel [] b = Some b"
| "askforop_loop e usern channel (usr # users) b =
     (if u_gotop (buser b usern) \<noteq> 0 then Some b
      else if strchr (cu_mode usr) (CHR ''@'') \<noteq> None \<and> length (cu_host usr) > 1
      then do {
        b \<leftarrow> getops e usern (mod_irc (as_sender channel usr) b);
        askforop_loop e usern channel users b
      }
      else askforop_loop e usern channel users b)"

definition askforop :: "env \<Rightarrow> int \<Rightarrow> string \<Rightarrow> bnc \<Rightarrow> bnc option" where
  "askforop e usern channel b =
     (let u = buser b usern in
      case getuserchannel u channel of
        None \<Rightarrow> Some b
      | Some i \<Rightarrow>
          let chan = u_channels u ! i in
          (case getchannelnick chan (u_nick u) of
             None \<Rightarrow> Some b
           | Some j \<Rightarrow>
               if c_ison chan \<noteq> 0 \<and> strchr (cu_mode (c_users chan ! j)) (CHR ''@'') = None
               then askforop_loop e usern channel (c_users chan) (bmod usern (\<lambda>u. u\<lparr>u_gotop := 0\<rparr>) b)
               else Some b))"

fun askall :: "env \<Rightarrow> int \<Rightarrow> uchannelt list \<Rightarrow> bnc \<Rightarrow> bnc option" where
  "askall e usern [] b = Some b"
| "askall e usern (chan # chans) b = do { b \<leftarrow> askforop e usern (c_name chan) b; askall e usern chans b }"

text \<open>A ping is answered; without a client it is also the time to regain nick, channels and op.\<close>

definition pong :: handler where
  "pong e usern b =
     (let u = buser b usern; content = irccontent (b_irc b) in
      if u_outstate u \<noteq> STD_CONN then Some (0, b)
      else
        let b = bout (Urgent (u_outsock u) (snpf 400 (''PONG :'' @ (if content \<noteq> [] then content else u_server u) @ [CR, LF]))) b;
            b = bmod usern (\<lambda>u. u\<lparr>u_autopongreply := 0\<rparr>) b
        in if u_instate u = STD_CONN then Some (0, b)
           else
             let b = (if u_channels u \<noteq> [] \<and> u_leavequit u = 0 \<and> u_autorejoin u = 1 then rejoinchannels usern b else b);
                 b = (if u_antiidle u = 1 then to_server usern (''PRIVMSG '' @ u_nick u @ '' :away'' @ [CR, LF]) b else b);
                 b = to_server usern (''NICK '' @ (if u_awaynick u \<noteq> [] then u_awaynick u else u_wantnick u) @ [CR, LF]) b
             in map_option (\<lambda>b. (0, b)) (askall e usern (u_channels u) b))"

section \<open>Nicks\<close>

text \<open>The buffer \<open>nnick\<close> has 64 bytes.\<close>

definition numnick :: "int \<Rightarrow> string \<Rightarrow> string option" where
  "numnick rnd original =
     (let numb = snpf 6 (decimal_int (rnd mod 999));
          nnick = take ((if length original > 9 then 64 else 9) - length numb) (strmncpy original 64) @ numb
      in if length nnick < 64 then Some nnick else None)"

text \<open>The third word of the line, when another follows, is the nick that was refused; the line is cut behind it.\<close>

definition nickused :: handler where
  "nickused e usern b =
     (if u_welcome (buser b usern) = 1 then Some (-1, b)
      else
        let u = buser b usern;
            numbered = (\<lambda>b. map_option (\<lambda>n. (0, to_server usern (''NICK '' @ n @ [CR, LF]) b)) (numnick (e_rand e) (u_wantnick u)));
            refused = do {
              (x, r) \<leftarrow> split_at (CHR '' '') (b_buf b);
              (y, r) \<leftarrow> split_at (CHR '' '') r;
              (z, r) \<leftarrow> split_at (CHR '' '') r;
              (nick, rest) \<leftarrow> split_at (CHR '' '') r;
              Some (nick, length (b_buf b) - length rest - 1)
            }
        in case refused of
             None \<Rightarrow> numbered b
           | Some (nick, n) \<Rightarrow>
               let b = b\<lparr>b_buf := take n (b_buf b)\<rparr> in
               if strmcmp (u_wantnick u) nick
               then Some (0, to_server usern (''NICK '' @ snpf 400 (if u_altnick u = [] then ''_'' @ u_wantnick u
                                else ircto (b_irc b)) @ [CR, LF]) b)
               else numbered b)"

definition msg432to437 :: handler where
  "msg432to437 e usern b = map_option (\<lambda>(rc, b). (if rc = 0 then 0 else 1, b)) (nickused e usern b)"

definition gotnick :: handler where
  "gotnick e usern b =
     do {
       let i = b_irc b;
       b \<leftarrow> (if strmcmp (ircnick i) (u_nick (buser b usern))
             then with_user usern (\<lambda>u s. map_option (\<lambda>s. (u\<lparr>u_nick := strmncpy (ircto i) 64\<rparr>, s))
                    (store_write ''USER'' ''NICK'' (snpf 4096 (''USER'' @ decimal_int usern)) (Some (ircto i)) s)) b
             else Some b);
       Some (0, bmod usern (nickchange (ircnick i) (ircto i)) b)
     }"

section \<open>Following the channels\<close>

definition left_channel :: "uchannelt \<Rightarrow> uchannelt" where
  "left_channel chan = (removeallusersfromchannel chan)\<lparr>c_topic := [], c_ison := 0\<rparr>"

text \<open>The kinds of channel modes are overwritten with the modes of users.\<close>

definition entered_channel :: "usert \<Rightarrow> irc_state \<Rightarrow> uchannelt \<Rightarrow> uchannelt" where
  "entered_channel u i chan =
     (fst (addnicktochannel chan (ircnick i) (ircident i) (irchost i)))\<lparr>c_ison := 1,
        c_prefixmodes := strmncpy (u_prefixmodes u) 30, c_prefixchars := strmncpy (u_prefixchars u) 30,
        c_chanmodes := strmncpy (u_prefixmodes u) 100\<rparr>"

definition gotjoin :: handler where
  "gotjoin e usern b =
     (let i = b_irc b in
      if strmcmp (u_nick (buser b usern)) (ircnick i)
      then map_option (\<lambda>b. (0, b)) (with_user usern (\<lambda>u s.
             map_option (\<lambda>(j, u, s). (u\<lparr>u_channels := (u_channels u)[j := entered_channel u i (u_channels u ! j)]\<rparr>, s))
               (addchanneltouser usern (ircto i) False u s)) b)
      else do {
        b \<leftarrow> on_channel usern (ircto i) (\<lambda>c. fst (addnicktochannel c (ircnick i) (ircident i) (irchost i))) b;
        b \<leftarrow> checkbans e usern b;
        b \<leftarrow> checkautoop e usern b;
        Some (0, b)
      })"

definition gotpart :: handler where
  "gotpart e usern b =
     map_option (\<lambda>b. (0, b))
       (let i = b_irc b; u = buser b usern in
        if strmcmp (u_nick u) (ircnick i)
        then if u_instate u = STD_CONN then with_user usern (removechannelfromuser usern (ircto i)) b
             else on_channel usern (ircto i) left_channel b
        else on_channel usern (ircto i) (\<lambda>c. removenickfromchannel c (ircnick i)) b)"

text \<open>The channel and the nick behind \<open>KICK\<close>; both must be followed by a blank.\<close>

definition kick_fields :: "string \<Rightarrow> (string \<times> string) option" where
  "kick_fields buf =
     do {
       k \<leftarrow> strstr buf '' KICK '';
       (kchan, r) \<leftarrow> split_at (CHR '' '') (drop (k + 6) buf);
       (knick, r) \<leftarrow> split_at (CHR '' '') r;
       Some (strmncpy kchan 200, strmncpy knick 64)
     }"

definition gotkick :: handler where
  "gotkick e usern b =
     (case kick_fields (b_buf b) of
        None \<Rightarrow> Some (0, b)
      | Some (kchan, knick) \<Rightarrow>
          let u = buser b usern; own = strmcmp knick (u_nick u) in
          do {
            b1 \<leftarrow> on_channel usern kchan
                   (\<lambda>c. let c = removenickfromchannel c knick in if own then left_channel c else c) b;
            Some (0, if own \<and> getuserchannel u kchan \<noteq> None \<and> u_instate u \<noteq> STD_CONN
                     then privatelog e usern (mod_irc (\<lambda>i. i\<lparr>irccontent :=
                            snpf 6000 (''[KICKED] from '' @ kchan @ '' ('' @ strmncpy (irccontent i) 511 @ '')'')\<rparr>) b1)
                     else b1)
          })"

definition gotquit :: handler where
  "gotquit e usern b =
     (let i = b_irc b in
      map_option (\<lambda>b. (0, b))
        (if strmcmp (ircnick i) (u_nick (buser b usern)) then Some (bmod usern resetallchannels b)
         else with_user usern (removenickfromallchannels usern (ircnick i)) b))"

text \<open>The changes are told to the scripts one by one, over a copy of the text of 4096 bytes.\<close>

definition gotmode :: handler where
  "gotmode e usern b =
     (let u = buser b usern; i = b_irc b in
      case getuserchannel u (ircto i) of
        None \<Rightarrow> Some (0, b)
      | Some j \<Rightarrow>
          let (mode, param) = (case split_at (CHR '' '') (irccontent i) of None \<Rightarrow> (irccontent i, []) | Some mp \<Rightarrow> mp) in
          do {
            (c, s, ev) \<leftarrow> addchannelmode (e_salt e) mode param (u_channels u ! j) (b_store b);
            let b = bmod usern (\<lambda>u. u\<lparr>u_channels := (u_channels u)[j := c]\<rparr>) (b\<lparr>b_store := s\<rparr>);
            let b = mod_irc (\<lambda>i. i\<lparr>irccontent := (if ev = [] then mode else strmncpy mode 4096)\<rparr>) b;
            Some (0, fold (\<lambda>text. bout (Event usern text)) ev b)
          })"

definition gottopic :: handler where
  "gottopic e usern b =
     map_option (\<lambda>b. (0, b)) (on_channel usern (ircto (b_irc b)) (\<lambda>c. setchanneltopic c (irccontent (b_irc b))) b)"

section \<open>Replies\<close>

text \<open>The text behind a reply number and the target that follows it.\<close>

definition reply_rest :: "string \<Rightarrow> string \<Rightarrow> string option" where
  "reply_rest number buf =
     do {
       i \<leftarrow> strstr buf number;
       (target, r) \<leftarrow> split_at (CHR '' '') (drop (i + 5) buf);
       Some r
     }"

definition cut_first :: "string \<Rightarrow> string" where
  "cut_first s = (case strchr s CR of Some i \<Rightarrow> take i s | None \<Rightarrow> (case strchr s LF of Some i \<Rightarrow> take i s | None \<Rightarrow> s))"

definition skip_plus :: "string \<Rightarrow> string" where
  "skip_plus s = (if at s 0 = CHR ''+'' then tl s else s)"

text \<open>An entry of WHO: channel, ident, host, server, nick and flags.\<close>

definition who_fields :: "string \<Rightarrow> (string \<times> string \<times> string \<times> string) option" where
  "who_fields buf =
     do {
       (w, r) \<leftarrow> split_at (CHR '' '') (strmncpy buf 8192);
       (w, r) \<leftarrow> split_at (CHR '' '') r;
       (w, r) \<leftarrow> split_at (CHR '' '') r;
       (hchan, r) \<leftarrow> split_at (CHR '' '') r;
       (hident, r) \<leftarrow> split_at (CHR '' '') r;
       (hhost, r) \<leftarrow> split_at (CHR '' '') r;
       (w, r) \<leftarrow> split_at (CHR '' '') r;
       (hnick, r) \<leftarrow> split_at (CHR '' '') r;
       (flags, r) \<leftarrow> split_at (CHR '' '') r;
       Some (strmncpy hchan 1024, strmncpy hnick 64, strmncpy hident 64, strmncpy hhost 1024)
     }"

definition performwho :: "int \<Rightarrow> bnc \<Rightarrow> bnc option" where
  "performwho usern b =
     (case who_fields (b_buf b) of
        None \<Rightarrow> Some b
      | Some (hchan, hnick, hident, hhost) \<Rightarrow>
          on_channel usern hchan (\<lambda>c. fst (addnicktochannel c hnick hident hhost)) b)"

definition msg352 :: handler where
  "msg352 e usern b =
     (if u_triggered (buser b usern) = 0 then map_option (\<lambda>b. (0, b)) (performwho usern b) else Some (1, b))"

definition msg315 :: handler where
  "msg315 e usern b =
     (let b = bmod usern (\<lambda>u. u\<lparr>u_gotop := 0\<rparr>) b in
      if u_triggered (buser b usern) = 0
      then (case Option.bind (reply_rest '' 315 '' (b_buf b)) (split_at (CHR '' '')) of
              None \<Rightarrow> Some (0, b)
            | Some (chan, r) \<Rightarrow> map_option (\<lambda>b. (0, b)) (askforop e usern chan b))
      else Some (1, bmod usern (\<lambda>u. u\<lparr>u_triggered := u_triggered u - 1\<rparr>) b))"

definition mode_fields :: "string \<Rightarrow> (string \<times> string \<times> string) option" where
  "mode_fields buf =
     do {
       r \<leftarrow> reply_rest '' 324 '' (cut_first (strmncpy buf 2048));
       (chan, r) \<leftarrow> split_at (CHR '' '') r;
       let r = skip_plus r;
       let (mode, param) = (case split_at (CHR '' '') r of None \<Rightarrow> (r, []) | Some mp \<Rightarrow> mp);
       Some (strmncpy chan 200, strmncpy mode 40, strmncpy param 200)
     }"

definition msg324 :: handler where
  "msg324 e usern b =
     (case mode_fields (b_buf b) of
        None \<Rightarrow> Some (0, b)
      | Some (chan, mode, param) \<Rightarrow>
          map_option (\<lambda>b. (0, b)) (with_channel usern chan (setchannelmode (e_salt e) mode (Some param)) b))"

definition topic_fields :: "string \<Rightarrow> (string \<times> string) option" where
  "topic_fields buf =
     do {
       r \<leftarrow> reply_rest '' 332 '' buf;
       (chan, r) \<leftarrow> split_at (CHR '' '') r;
       let topic = (case split_at (CHR '':'') (skip_plus r) of None \<Rightarrow> [] | Some (x, t) \<Rightarrow> cut_first (strmncpy t 600));
       Some (strmncpy chan 200, topic)
     }"

definition msg332 :: handler where
  "msg332 e usern b =
     (case topic_fields (b_buf b) of
        None \<Rightarrow> Some (0, b)
      | Some (chan, topic) \<Rightarrow> map_option (\<lambda>b. (0, b)) (on_channel usern chan (\<lambda>c. setchanneltopic c topic) b))"

subsection \<open>Names\<close>

text \<open>The words between blanks, empty ones included.\<close>

fun blank_words :: "string \<Rightarrow> string list" where
  "blank_words [] = [[]]"
| "blank_words (c # s) =
     (if c = CHR '' '' then [] # blank_words s
      else case blank_words s of [] \<Rightarrow> [[c]] | w # ws \<Rightarrow> (c # w) # ws)"

text \<open>A nick behind the characters of its modes, of which the first is kept.\<close>

definition names_word :: "string \<Rightarrow> string \<Rightarrow> uchannelt \<Rightarrow> uchannelt" where
  "names_word prefixchars w chan =
     (let cmpbuf = snpf 100 (prefixchars @ '' '');
          marks = takeWhile (\<lambda>c. c \<in> set cmpbuf) w;
          nick = dropWhile (\<lambda>c. c \<in> set cmpbuf) w
      in if nick = [] then chan
         else case addnicktochannel chan nick [] [] of
           (chan, j) \<Rightarrow> chan\<lparr>c_users := (c_users chan)[j := (c_users chan ! j)\<lparr>cu_mode := take 1 marks\<rparr>]\<rparr>)"

text \<open>The channel behind its kind and the names behind the colon, which may be missing.\<close>

definition names_fields :: "string \<Rightarrow> (string \<times> string option) option" where
  "names_fields buf =
     do {
       let m3 = cut_first (strmncpy buf 2048);
       i \<leftarrow> strstr m3 '' 353 '';
       let pt = drop (i + 5) m3;
       j \<leftarrow> (case strstr pt '' = '' of Some j \<Rightarrow> Some j | None \<Rightarrow>
              (case strstr pt '' @ '' of Some j \<Rightarrow> Some j | None \<Rightarrow> strstr pt '' * ''));
       (channel, r) \<leftarrow> split_at (CHR '' '') (drop (j + 3) pt);
       Some (strmncpy channel 300, map_option snd (split_at (CHR '':'') r))
     }"

definition msg353 :: handler where
  "msg353 e usern b =
     (case names_fields (b_buf b) of
        None \<Rightarrow> Some (0, b)
      | Some (channel, nicks) \<Rightarrow>
          let b = bmod usern (\<lambda>u. if u_innames u = 0 then u\<lparr>u_inchan := strmncpy channel 300, u_innames := 1\<rparr> else u) b in
          (case nicks of
             None \<Rightarrow> Some (0, b)
           | Some ns \<Rightarrow>
               map_option (\<lambda>b. (0, b)) (on_channel usern channel
                 (fold (names_word (u_prefixchars (buser b usern))) (blank_words ns)) b)))"

text \<open>The names go to the client of the user, or of its parent.\<close>

definition send_channel :: "int \<Rightarrow> nat \<Rightarrow> bnc \<Rightarrow> bnc option" where
  "send_channel usern j b =
     do {
       let u = buser b usern; let up = buser b (owner usern b);
       (u', c, ls) \<leftarrow> sendnames u up (u_channels u ! j);
       let b = bmod usern (\<lambda>_. u'\<lparr>u_channels := (u_channels u)[j := c]\<rparr>) b;
       Some (fold (bwrite (u_insock up)) ls b)
     }"

definition msg366 :: handler where
  "msg366 e usern b =
     do {
       b \<leftarrow> (if u_innames (buser b usern) = 2
             then let b = bmod usern (\<lambda>u. u\<lparr>u_inchan := rtrim (u_inchan u)\<rparr>) b; u = buser b usern in
               (case getuserchannel u (u_inchan u) of
                  Some j \<Rightarrow> if u_instate u = STD_CONN then send_channel usern j b else Some b
                | None \<Rightarrow> Some b)
             else Some b);
       if u_innames (buser b usern) \<noteq> 0
       then do {
         b \<leftarrow> askforop e usern (u_inchan (buser b usern)) (bmod usern (\<lambda>u. u\<lparr>u_innames := 0\<rparr>) b);
         Some (0, bmod usern (\<lambda>u. u\<lparr>u_inchan := []\<rparr>) b)
       }
       else Some (0, b)
     }"

section \<open>Messages\<close>

text \<open>\<open>parsectcps\<close> of src/p_dcc.c, which takes requests for DCC and CTCP, is an argument.\<close>

type_synonym ctcps = "int \<Rightarrow> bnc \<Rightarrow> int \<times> bnc"

definition msgprivmsg :: "ctcps \<Rightarrow> handler" where
  "msgprivmsg parsectcps e usern b =
     do {
       ignored \<leftarrow> checkignores usern b;
       if ignored then Some (0, b)
       else (case parsectcps usern b of
         (rc, b) \<Rightarrow>
           if rc = 1 then Some (0, b)
           else do {
             b \<leftarrow> checkcrypt e usern b;
             (rc, b) \<leftarrow> (if prefix ''op '' (irccontent (b_irc b)) then checkop e usern b else Some (-1, b));
             let u = buser b usern;
             Some (if rc = 0 then 0 else 1,
                   if rc \<noteq> 0 \<and> strmncasecmp (ircto (b_irc b)) (u_nick u) \<and> u_instate u \<noteq> STD_CONN
                   then privatelog e usern b else b)
           })
     }"

section \<open>Losing the connection\<close>

definition msgERROR :: handler where
  "msgERROR e usern b =
     (let u = buser b usern;
          b = p_log e LOG_ERROR usern (''User '' @ u_login u @ '' ('' @ u_network u @ '') got disconnected (from '' @
                u_server u @ '') reason: '' @ irccontent (b_irc b)) b;
          b = bmod usern (\<lambda>u. u\<lparr>u_server := [], u_outstate := STD_NOCON, u_outsock := 0\<rparr>) (bout (Kill (u_outsock u)) b)
      in Some (-1, oldfile (motd_name usern) (bmod usern resetallchannels b)))"

definition drop_server :: "env \<Rightarrow> int \<Rightarrow> bnc \<Rightarrow> bnc" where
  "drop_server e nuser b =
     (let b = bout (Kill (u_outsock (buser b nuser))) b;
          b = bmod nuser (\<lambda>u. u\<lparr>u_outstate := STD_NOCON, u_pinged := 0, u_pingtime := 0, u_nickgain := e_time e\<rparr>) b;
          b = oldfile (motd_name nuser) (bmod nuser resetallchannels b)
      in bmod nuser (\<lambda>u. u\<lparr>u_server := []\<rparr>) b)"

definition usererror :: handler where
  "usererror e nuser b =
     (let u = buser b nuser;
          b = (if u_server u \<noteq> []
               then p_log e LOG_ERROR nuser (''User '' @ u_login u @ '' ('' @ u_network u @ '') cant connect to '' @ u_server u @
                      '' port '' @ decimal_int (u_port u) @ ''.'') b
               else b)
      in Some (-1, drop_server e nuser b))"

definition userclosed :: handler where
  "userclosed e nuser b =
     (let u = buser b nuser;
          b = p_log e LOG_WARNING nuser (''User '' @ u_login u @ '' ('' @ u_network u @ '') got disconnected from server.'') b
      in Some (-1, drop_server e nuser b))"

text \<open>Killing the socket of a server runs \<open>userclosed\<close> when the socket exists.\<close>

definition kill_server :: "env \<Rightarrow> int \<Rightarrow> bnc \<Rightarrow> bnc" where
  "kill_server e nuser b =
     (if e_peer e (u_outsock (buser b nuser)) = None then b
      else case userclosed e nuser b of None \<Rightarrow> b | Some (rc, b) \<Rightarrow> b)"

definition userremap :: "int \<Rightarrow> int \<Rightarrow> bnc \<Rightarrow> bnc" where
  "userremap nuser newsocket b = bmod nuser (\<lambda>u. u\<lparr>u_outsock := newsocket\<rparr>) b"

section \<open>Connecting\<close>

text \<open>
  The link a user connects over, if any. A user without a proxy drops it when it is no link of the
  program or is not connected; the second test looks at link 0 when the first one failed.
\<close>

definition checked_link :: "env \<Rightarrow> int \<Rightarrow> int" where
  "checked_link e vlink =
     (if vlink = 0 then 0
      else
        let nlink = (if l_type (e_link e vlink) \<noteq> 1 \<and> l_type (e_link e vlink) \<noteq> 2 then 0 else vlink)
        in if l_outstate (e_link e nlink) \<noteq> STD_CONN \<and> l_instate (e_link e nlink) \<noteq> STD_CONN then 0 else nlink)"

definition userconnected :: handler where
  "userconnected e nuser b =
     (let u = buser b nuser;
          nlink = (if u_pport u = 0 then checked_link e (u_vlink u) else u_vlink u);
          link = e_link e nlink; out = bprint (u_outsock u);
          b = (if nlink \<noteq> 0
               then bout (Delayed (u_outsock u) [LF] 3)
                 (out (''CONNECT '' @ u_server u @ '' :'' @ decimal_int (u_port u) @ [CR, LF])
                   (out (''VHOST :'' @ u_vhost u @ [CR, LF])
                     (out (''RELAY '' @ l_name link @ '' :'' @ decimal_int (e_firstport e) @ [CR, LF]) b)))
               else b);
          b = (if u_spass u \<noteq> [] then out (''PASS '' @ u_spass u @ [CR, LF]) b else b);
          b = out (''USER '' @ u_login u @ '' '' @ u_login u @ '' 127.0.0.1 :'' @ u_user u @ [CR, LF]) b;
          b = out (''NICK '' @ (if u_instate u \<noteq> STD_CONN \<and> u_awaynick u \<noteq> [] then u_awaynick u else u_wantnick u) @ [CR, LF]) b;
          b = (if nlink \<noteq> 0 then out (''PASS '' @ l_pass link @ [CR, LF]) b else b);
          b = p_log e LOG_INFO nuser (''User '' @ u_login u @ '' ('' @ u_network u @ '') connected to '' @ u_server u @ '':'' @
                decimal_int (u_port u) @ '' ('' @ u_vhost u @ '')'') b
      in Some (0, bmod nuser (\<lambda>u. u\<lparr>u_autopongreply := 500, u_pinged := 0, u_pingtime := 0, u_nickgain := e_time e\<rparr>) b))"

text \<open>The two points of time that \<open>connectuser\<close> keeps, and the ticks since the last call.\<close>

record connector =
  k_lastconnect :: int
  k_lastwarn :: int
  k_delayinc :: int

text \<open>Differences of \<open>unsigned long\<close> times.\<close>

definition since :: "int \<Rightarrow> int \<Rightarrow> int" where
  "since now past = (now - past) mod 2 ^ 64"

definition connectdelay :: "conf \<Rightarrow> int" where
  "connectdelay c =
     (case getini ''SYSTEM'' ''CONNECTDELAY'' ''PSYBNC'' c of
        (rc, v) \<Rightarrow> if rc = 0 \<and> (v = ''0'' \<or> (atoi v > 0 \<and> atoi v \<le> 600)) then atoi v else 30)"

definition no_server :: "env \<Rightarrow> int \<Rightarrow> bnc \<Rightarrow> bnc" where
  "no_server e nuser b =
     (let b = bmod nuser (\<lambda>u. u\<lparr>u_outstate := STD_NOCON\<rparr>) b; u = buser b nuser;
          b = p_log e LOG_INFO nuser (''User '' @ u_login u @ '' ('' @ u_network u @ '') has no server added'') b
      in bmod nuser (\<lambda>u. u\<lparr>u_server := [], u_delayed := 30\<rparr>) b)"

text \<open>The two files of the ident daemon for the user that connects.\<close>

definition ident_files :: "env \<Rightarrow> string \<Rightarrow> bnc \<Rightarrow> bnc" where
  "ident_files e login b =
     (case e_home e of
        None \<Rightarrow> b
      | Some ep \<Rightarrow>
          file_write e (snpf 400 (ep @ ''/.oidentd.conf'')) (''global { reply '' @ [CHR 0x22] @ login @ [CHR 0x22] @ '' }'' @ [LF])
            (file_write e (snpf 400 (ep @ ''/.ispoof'')) (login @ [LF]) b))"

text \<open>The connection: over the proxy, over the link, or straight from the host of the user.\<close>

definition start_connection :: "env \<Rightarrow> int \<Rightarrow> bnc \<Rightarrow> bnc" where
  "start_connection e nuser b =
     (let u = buser b nuser; nlink = checked_link e (u_vlink u); link = e_link e nlink;
          b = ident_files e (u_login u) b;
          b = bmod nuser (\<lambda>u. u\<lparr>u_outsock := e_newsock e\<rparr>) b;
          trying = ''User '' @ u_login u @ '' ('' @ u_network u @ '') trying '';
          conn = (\<lambda>host port vhost b. bout (Connect (e_newsock e) host port vhost) b)
      in if u_pport u \<noteq> 0
         then conn (u_proxy u) (u_pport u) None (p_log e LOG_INFO nuser (trying @ ''proxy '' @ u_proxy u @ '' port '' @
                decimal_int (u_pport u) @ '' to server '' @ u_server u @ '' port '' @ decimal_int (u_port u)) b)
         else if nlink \<noteq> 0
         then conn (l_host link) (l_port link) None (p_log e LOG_INFO nuser (trying @ u_server u @ '' port '' @
                decimal_int (u_port u) @ '' on link '' @ l_name link @ '' ('' @ l_host link @ '':'' @ decimal_int (l_port link) @
                '') ('' @ u_vhost u @ '').'') b)
         else conn (u_server u) (u_port u) (Some (u_vhost u)) (p_log e LOG_INFO nuser (trying @ u_server u @ '' port '' @
                decimal_int (u_port u) @ '' ('' @ u_vhost u @ '').'') b))"

definition connectuser :: "env \<Rightarrow> int \<Rightarrow> connector \<Rightarrow> bnc \<Rightarrow> (int \<times> connector \<times> bnc) option" where
  "connectuser e nuser k b =
     (let delay = connectdelay (fst (b_store b)); u = buser b nuser in
      if delay = 0
      then Some (0, if since (e_time e) (k_lastwarn k) > 600
                    then (k\<lparr>k_lastwarn := e_time e\<rparr>,
                          p_log e LOG_INFO (-1) ''CONNECTDELAY is currently set to zero. No clients will try to connect!'' b)
                    else (k, b))
      else if since (e_time e) (k_lastconnect k) < delay \<or> u_outstate u \<noteq> STD_NOCON \<or> u_quitted u = 1 then Some (0, k, b)
      else if u_delayed u \<noteq> 0 then Some (0, k, bmod nuser (\<lambda>u. u\<lparr>u_delayed := u_delayed u - k_delayinc k\<rparr>) b)
      else do {
        (rc, u) \<leftarrow> getnextserver nuser (fst (b_store b)) u;
        let b = bmod nuser (\<lambda>_. u) b;
        if rc \<noteq> 0 \<or> u_port u = 0 then Some (0, k, no_server e nuser b)
        else
          let b = start_connection e nuser (bmod nuser (\<lambda>u. u\<lparr>u_delayed := 0, u_triggered := 0\<rparr>) b) in
          if u_outsock (buser b nuser) = 0
          then Some (0, k, if u_server u \<noteq> []
                           then p_log e LOG_ERROR nuser (''User '' @ u_login u @ '' ('' @ u_network u @ '') cant connect to '' @
                                  u_server u @ '' port '' @ decimal_int (u_port u) @ ''.'') b
                           else b)
          else Some (1, k\<lparr>k_lastconnect := e_time e\<rparr>, bmod nuser (\<lambda>u. u\<lparr>u_outstate := STD_CONN, u_welcome := 0\<rparr>) b)
      })"

text \<open>One user at a time, not the one that came last; \<open>lastusern\<close> is kept between the calls.\<close>

fun checkclients_loop :: "env \<Rightarrow> int list \<Rightarrow> int \<Rightarrow> connector \<Rightarrow> bnc \<Rightarrow> (int \<times> connector \<times> bnc) option" where
  "checkclients_loop e [] lastusern k b = Some (-1, k, b)"
| "checkclients_loop e (usern # th) lastusern k b =
     (if usern = lastusern then checkclients_loop e th lastusern k b
      else case connectuser e usern k b of
        None \<Rightarrow> None
      | Some (rc, k, b) \<Rightarrow> if rc = 1 then Some (usern, k, b) else checkclients_loop e th lastusern k b)"

definition checkclients :: "env \<Rightarrow> int \<Rightarrow> connector \<Rightarrow> bnc \<Rightarrow> (int \<times> connector \<times> bnc) option" where
  "checkclients e lastusern k b = checkclients_loop e (uids (b_users b)) lastusern k b"

section \<open>Stoned servers and lost nicks\<close>

definition regain_nick :: "env \<Rightarrow> int \<Rightarrow> bnc \<Rightarrow> bnc" where
  "regain_nick e usern b =
     (let u = buser b usern in
      if u_instate u \<noteq> STD_CONN \<and> \<not> strmcmp (u_nick u) (u_wantnick u) \<and> \<not> strmcmp (u_nick u) (u_awaynick u) \<and>
         (u_nickgain u = 0 \<or> u_nickgain u + 10 < e_time e)
      then to_server usern (''NICK '' @ u_wantnick u @ [CR, LF]) (bmod usern (\<lambda>u. u\<lparr>u_nickgain := e_time e\<rparr>) b)
      else b)"

definition ping_server :: "env \<Rightarrow> int \<Rightarrow> bnc \<Rightarrow> bnc" where
  "ping_server e usern b =
     (let u = buser b usern in
      if u_pinged u = 1
      then if u_pingtime u + 240 \<le> e_time e
           then let b = bmod usern (\<lambda>u. u\<lparr>u_pinged := 0, u_pingtime := 0\<rparr>) b;
                    b = p_log e LOG_INFO usern (''User '' @ u_login u @ '' ('' @ u_nick u @ '') disconnecting from stoned server.'') b
                in kill_server e usern (to_server usern (''QUIT :changing servers'' @ [CR, LF]) b)
           else b
      else if u_pingtime u = 0 \<or> (u_pingtime u > 0 \<and> u_pingtime u + 120 \<le> e_time e)
      then to_server usern (''PING :p'' @ [CR, LF]) (bmod usern (\<lambda>u. u\<lparr>u_pinged := 1, u_pingtime := e_time e\<rparr>) b)
      else b)"

definition check_user :: "env \<Rightarrow> int \<Rightarrow> bnc \<Rightarrow> bnc" where
  "check_user e usern b =
     (if u_outstate (buser b usern) = STD_CONN \<and> u_welcome (buser b usern) = 1
      then ping_server e usern (regain_nick e usern b) else b)"

definition checkstonednick :: "env \<Rightarrow> bnc \<Rightarrow> bnc" where
  "checkstonednick e b = fold (check_user e) (uids (b_users b)) b"

section \<open>The handlers of the table\<close>

definition server_table :: "ctcps \<Rightarrow> (string \<times> handler) list" where
  "server_table parsectcps =
     [(''msgERROR'', msgERROR), (''msg001'', msg001), (''msg002to005'', msg002to005),
      (''msg251to255265to266'', msg251to255265to266), (''msg372to375'', msg372to375), (''msg376'', msg376),
      (''msg352'', msg352), (''msg353'', msg353), (''msg315'', msg315), (''msg324'', msg324), (''msg332'', msg332),
      (''msg366'', msg366), (''msg432to437'', msg432to437), (''pong'', pong), (''gotnick'', gotnick), (''gotjoin'', gotjoin),
      (''gotpart'', gotpart), (''gotquit'', gotquit), (''gotkick'', gotkick), (''gotmode'', gotmode), (''gottopic'', gottopic),
      (''msgprivmsg'', msgprivmsg parsectcps)]"

definition server_handlers :: "ctcps \<Rightarrow> env \<Rightarrow> handlers" where
  "server_handlers parsectcps e name usern b =
     (case map_of (server_table parsectcps) name of None \<Rightarrow> Some (0, b) | Some h \<Rightarrow> h e usern b)"

text \<open>A line of the server, with the handlers and the traffic log of the program.\<close>

definition server_line_in :: "ctcps \<Rightarrow> (int \<Rightarrow> bnc \<Rightarrow> bnc) \<Rightarrow> env \<Rightarrow> int \<Rightarrow> bnc \<Rightarrow> bnc option" where
  "server_line_in parsectcps serverevent e usern b =
     useroutbound (server_handlers parsectcps e) (\<lambda>s. e_peer e s \<noteq> None) (checklogging e) serverevent usern b"

end
