(* ===== verification/Server_Invariants.thy ===== *)
theory Server_Invariants
  imports Server
begin

text \<open>
  What no line of a server can break. The locale \<open>user_frame\<close> states what an invariant of one user
  needs so that every handler of src/p_server.c keeps it, and shows once for all handlers that they
  keep it and touch no other user. It is interpreted for the channels and for the rights of a user.
\<close>

named_theorems frame_intros

lemma b_users_frame [simp]:
  "b_users (bout x b) = b_users b" "b_users (bwrite sock s b) = b_users b" "b_users (bprint sock s b) = b_users b"
  "b_users (mod_irc f b) = b_users b" "b_users (bparse b) = b_users b" "b_users (file_write e name s b) = b_users b"
  "b_users (file_append e name s b) = b_users b" "b_users (file_rename name s b) = b_users b" "b_users (oldfile name b) = b_users b"
  by (simp_all add: bout_def bwrite_def bprint_def mod_irc_def bparse_def file_write_def file_append_def file_rename_def
      oldfile_def split: option.split)

lemma b_users_fold: "(\<And>x b. b_users (f x b) = b_users b) \<Longrightarrow> b_users (fold f xs b) = b_users b"
  by (induction xs arbitrary: b) simp_all

lemma b_users_notice [simp]: "b_users (noticeall a s b) = b_users b" "b_users (systemnotice n s b) = b_users b"
  by (simp_all add: noticeall_def notice_one_def systemnotice_def b_users_fold Let_def)

lemma b_users_log [simp]: "b_users (p_log e l n s b) = b_users b" "b_users (privatelog e n b) = b_users b"
  by (simp_all add: p_log_def log_entry_def privatelog_def Let_def)

text \<open>Nobody's channels or rights differ.\<close>

definition settled :: "bnc \<Rightarrow> bnc \<Rightarrow> bool" where
  "settled b b' \<longleftrightarrow>
     uids (b_users b') = uids (b_users b) \<and> (\<forall>m. ucell (b_users b') m = ucell (b_users b) m) \<and>
     (\<forall>m. u_channels (buser b' m) = u_channels (buser b m)) \<and> (\<forall>m. u_rights (buser b' m) = u_rights (buser b m))"

lemma settled_users: "b_users b' = b_users b \<Longrightarrow> settled b b'"
  by (simp add: settled_def)

lemma settled_trans: "settled a b \<Longrightarrow> settled b c \<Longrightarrow> settled a c"
  by (simp add: settled_def)

lemma settled_bmod: "(\<And>u. u_channels (f u) = u_channels u \<and> u_rights (f u) = u_rights u) \<Longrightarrow> settled b (bmod n f b)"
  by (simp add: settled_def bmod_def getu_modu_frame)

text \<open>An argument that settles: one that leaves the users' channels and rights to the handlers.\<close>

definition tame :: "(bnc \<Rightarrow> bnc) \<Rightarrow> bool" where
  "tame g \<longleftrightarrow> (\<forall>b. settled b (g b))"

text \<open>\<open>b'\<close> comes from \<open>b\<close> by changing the channels and rights of the user with number \<open>n\<close> alone, and keeps the invariant of that user.\<close>

definition tracks :: "(int \<Rightarrow> usert \<Rightarrow> bool) \<Rightarrow> int \<Rightarrow> bnc \<Rightarrow> bnc \<Rightarrow> bool" where
  "tracks I n b b' \<longleftrightarrow>
     uids (b_users b') = uids (b_users b) \<and> (\<forall>m. ucell (b_users b') m = ucell (b_users b) m) \<and>
     (\<forall>m. ucell (b_users b) m \<noteq> ucell (b_users b) n \<longrightarrow>
        u_channels (buser b' m) = u_channels (buser b m) \<and> u_rights (buser b' m) = u_rights (buser b m)) \<and>
     (I n (buser b n) \<longrightarrow> I n (buser b' n))"

lemma tracks_users: "b_users b' = b_users b \<Longrightarrow> tracks I n b b'"
  by (simp add: tracks_def)

lemma tracks_trans: "tracks I n a b \<Longrightarrow> tracks I n b c \<Longrightarrow> tracks I n a c"
  by (auto simp: tracks_def)

lemma tracks_modu:
  assumes "b_users b' = modu n f (b_users b)" "I n (buser b n) \<Longrightarrow> I n (f (buser b n))"
  shows "tracks I n b b'"
  using assms by (simp add: tracks_def getu_modu_same getu_modu_other)

lemma getuserchannel_bound: "getuserchannel u name = Some i \<Longrightarrow> i < length (u_channels u)"
  using uc.lookup_SomeD by (simp add: getuserchannel_key)

lemma addchanneltouser_bound: "addchanneltouser n name w u s = Some (j, u', s') \<Longrightarrow> j < length (u_channels u')"
  by (auto simp: addchanneltouser_def Let_def getuserchannel_bound split: option.splits if_splits prod.splits Option.bind_splits)

subsection \<open>The lines of a network\<close>

lemma b_users_setbuf [simp]: "b_users (setbuf t b) = b_users b"
  by (simp add: setbuf_def)

lemma b_users_token_source [simp]: "b_users (token_source n net pn b) = b_users b"
  by (simp add: token_source_def Let_def split: option.split)

lemma b_users_netnames_loop: "b_users (snd (netnames_loop n net pn l pt tmp b)) = b_users b"
proof (induction "length pt" arbitrary: pt tmp b rule: less_induct)
  case less
  show ?case
  proof (cases "strchr pt (CHR '' '')")
    case None
    then show ?thesis by (subst netnames_loop.simps) (simp add: Let_def del: netnames_loop.simps)
  next
    case (Some i)
    then have "i < length pt" using find_char_SomeD [of "CHR '' ''" pt i] by (auto simp: strchr_def split: if_splits)
    then have IH: "b_users (snd (netnames_loop n net pn l (drop (Suc i) pt) t c)) = b_users c" for t c
      using less [of "drop (Suc i) pt"] by simp
    show ?thesis using Some by (subst netnames_loop.simps) (simp add: Let_def IH del: netnames_loop.simps)
  qed
qed

lemma b_users_netnames [simp]: "b_users (netnames n net pn b) = b_users b"
proof -
  have "b_users (case netnames_loop n net pn l pt t c of (tmp, c) \<Rightarrow> c\<lparr>b_buf := tmp\<rparr>) = b_users c" for l pt t c
    using b_users_netnames_loop [of n net pn l pt t c] by (cases "netnames_loop n net pn l pt t c") (simp del: netnames_loop.simps)
  then have "b_users (case strstr (drop 1 (b_buf c)) '' :'' of None \<Rightarrow> c | Some k \<Rightarrow>
      case netnames_loop n net pn (take (k + 3) (b_buf c)) (drop (k + 3) (b_buf c)) (take (k + 3) (b_buf c)) c of
        (tmp, c) \<Rightarrow> c\<lparr>b_buf := tmp\<rparr>) = b_users c" for c
    by (simp split: option.split del: netnames_loop.simps)
  then show ?thesis unfolding netnames_def Let_def by (simp split: option.split del: netnames_loop.simps)
qed

lemma b_users_netdefault [simp]: "b_users (netdefault n net pn b) = b_users b"
  by (simp add: netdefault_def Let_def split: option.split)

lemma b_users_netkick [simp]: "b_users (netkick n net pn b) = b_users b"
  unfolding netkick_def Let_def by (simp split: option.split)

lemma b_users_branches:
  "b_users x = U \<Longrightarrow> b_users y = U \<Longrightarrow> b_users (if c then x else y) = U"
  "b_users x = U \<Longrightarrow> (\<And>z. b_users (f z) = U) \<Longrightarrow> b_users (case p of None \<Rightarrow> x | Some z \<Rightarrow> f z) = U"
  "(\<And>z. b_users (g z) = U) \<Longrightarrow> b_users (Let v g) = U"
  "b_users (setbuf t b) = b_users b" "b_users b = b_users b"
  by (simp_all split: option.split)

lemma b_users_netmode [simp]: "b_users (netmode n net pn b) = b_users b"
  unfolding netmode_def by (intro b_users_branches)

lemma b_users_netwho [simp]: "b_users (netwho n net pn b) = b_users b"
  unfolding netwho_def Let_def by (simp split: option.split)

lemma b_users_netwhoischannels [simp]: "b_users (netwhoischannels n net pn b) = b_users b"
  unfolding netwhoischannels_def Let_def by (simp split: option.split del: whoischannels_loop.simps)

lemma b_users_net [simp]:
  "b_users (netprivmsg n net pn b) = b_users b" "b_users (netnick n net pn b) = b_users b"
  "b_users (netjoin n net pn b) = b_users b" "b_users (netpart n net pn b) = b_users b"
  "b_users (nettopic n net pn b) = b_users b" "b_users (netquit n net pn b) = b_users b"
  "b_users (netinvite n net pn b) = b_users b" "b_users (netisonuserhost n net pn b) = b_users b"
  by (simp_all add: netprivmsg_def netnick_def netjoin_def netpart_def nettopic_def netquit_def
      netinvite_def netisonuserhost_def Let_def split: option.split)

lemma b_users_thash_loop: "set hs \<subseteq> set thash \<Longrightarrow> b_users (thash_loop hs irc n net pn b) = b_users b"
  by (induction hs irc n net pn b rule: thash_loop.induct) (auto simp: thash_def)

lemma settled_intros:
  "settled b x \<Longrightarrow> settled b y \<Longrightarrow> settled b (if p then x else y)" "settled b c \<Longrightarrow> settled b (c\<lparr>b_buf := t\<rparr>)"
  "settled b x \<Longrightarrow> (\<And>z. settled b z \<Longrightarrow> settled b (f z)) \<Longrightarrow> settled b (Let x f)" "settled b b"
  by (auto simp: settled_def)

lemma settled_parentnick: "settled b (parentnick n b)"
proof -
  have u: "settled b (Let x f)" if "settled b (f x)" for f and x :: "usert" using that by simp
  have i: "settled b (Let x f)" if "settled b (f x)" for f and x :: "int" using that by simp
  show ?thesis unfolding parentnick_def
    by (rule u, rule i) (intro settled_intros settled_bmod, simp)
qed

lemma settled_addtoken: "settled b (addtoken n b)"
  unfolding addtoken_def Let_def
  by (rule settled_trans [OF settled_parentnick [of b n] settled_users]) (simp add: b_users_thash_loop)

locale user_frame =
  fixes I :: "int \<Rightarrow> usert \<Rightarrow> bool"
  assumes inv_fields: "I n u \<Longrightarrow> u_channels u' = u_channels u \<Longrightarrow> u_rights u' = u_rights u \<Longrightarrow> I n u'"
    and inv_step: "channel_step sl n (u, s) (u', s') \<Longrightarrow> I n u \<Longrightarrow> I n u'"
    and inv_update: "I n u \<Longrightarrow> i < length (u_channels u) \<Longrightarrow> keeps (u_channels u ! i) c \<Longrightarrow>
      I n (u\<lparr>u_channels := (u_channels u)[i := c]\<rparr>)"
begin

definition ok1 :: "int \<Rightarrow> bnc \<Rightarrow> bnc option \<Rightarrow> bool" where
  "ok1 n a r \<longleftrightarrow> (\<forall>b. r = Some b \<longrightarrow> tracks I n a b)"

definition ok2 :: "int \<Rightarrow> bnc \<Rightarrow> ('x \<times> bnc) option \<Rightarrow> bool" where
  "ok2 n a r \<longleftrightarrow> (\<forall>x b. r = Some (x, b) \<longrightarrow> tracks I n a b)"

lemma frame_users: "tracks I n a b \<Longrightarrow> b_users b' = b_users b \<Longrightarrow> tracks I n a b'"
  using tracks_trans tracks_users by blast

lemma frame_bmod: "tracks I n a b \<Longrightarrow> (\<And>u. I n u \<Longrightarrow> I n (f u)) \<Longrightarrow> tracks I n a (bmod n f b)"
  by (rule tracks_trans, assumption, rule tracks_modu [where f = f]) (simp_all add: bmod_def)

lemma frame_fields:
  "tracks I n a b \<Longrightarrow> (\<And>u. u_channels (f u) = u_channels u \<and> u_rights (f u) = u_rights u) \<Longrightarrow> tracks I n a (bmod n f b)"
  by (rule frame_bmod) (auto intro: inv_fields)

lemma frame_settled:
  assumes "tracks I n a b" "settled b c"
  shows "tracks I n a c"
proof -
  have "tracks I n b c" using assms(2) inv_fields by (auto simp: settled_def tracks_def)
  then show ?thesis using assms(1) tracks_trans by blast
qed

lemma frame_tame: "tracks I n a b \<Longrightarrow> tame g \<Longrightarrow> tracks I n a (g b)"
  by (auto simp: tame_def intro: frame_settled)

lemma ok_results [frame_intros]:
  "ok1 n a None" "ok2 n a None" "tracks I n a b \<Longrightarrow> ok1 n a (Some b)" "tracks I n a b \<Longrightarrow> ok2 n a (Some (x, b))"
  by (simp_all add: ok1_def ok2_def)

lemma ok_bind:
  "ok1 n a r \<Longrightarrow> (\<And>b. tracks I n a b \<Longrightarrow> ok1 n a (f b)) \<Longrightarrow> ok1 n a (Option.bind r f)"
  "ok1 n a r \<Longrightarrow> (\<And>b. tracks I n a b \<Longrightarrow> ok2 n a (f' b)) \<Longrightarrow> ok2 n a (Option.bind r f')"
  "ok2 n a r' \<Longrightarrow> (\<And>x b. tracks I n a b \<Longrightarrow> ok1 n a (g x b)) \<Longrightarrow> ok1 n a (Option.bind r' (\<lambda>(x, b). g x b))"
  "ok2 n a r' \<Longrightarrow> (\<And>x b. tracks I n a b \<Longrightarrow> ok2 n a (g' x b)) \<Longrightarrow> ok2 n a (Option.bind r' (\<lambda>(x, b). g' x b))"
  by (auto simp: ok1_def ok2_def split: Option.bind_splits)

lemma ok_map: "ok1 n a r \<Longrightarrow> ok2 n a (map_option (\<lambda>b. (c, b)) r)"
  by (auto simp: ok1_def ok2_def)

lemma frame_fold: "tracks I n a b \<Longrightarrow> (\<And>x b. tracks I n a b \<Longrightarrow> tracks I n a (f x b)) \<Longrightarrow> tracks I n a (fold f xs b)"
  by (induction xs arbitrary: b) simp_all

lemma with_user_ok:
  assumes "tracks I n a b" "\<And>u s u' s'. f u s = Some (u', s') \<Longrightarrow> I n u \<Longrightarrow> I n u'"
  shows "ok1 n a (with_user n f b)"
proof -
  have "tracks I n b (bmod n (\<lambda>_. u') (b\<lparr>b_store := s'\<rparr>))" if "f (buser b n) (b_store b) = Some (u', s')" for u' s'
    using that assms(2) by (intro tracks_modu [where f = "\<lambda>_. u'"]) (auto simp: bmod_def)
  then show ?thesis using assms(1) tracks_trans
    by (auto simp: ok1_def with_user_def split: Option.bind_splits)
qed

lemma with_channel_ok:
  assumes "tracks I n a b" "\<And>c s c' s'. f c s = Some (c', s') \<Longrightarrow> keeps c c'"
  shows "ok1 n a (with_channel n name f b)"
  unfolding with_channel_def using assms(1)
  by (rule with_user_ok) (auto split: option.splits intro: inv_update getuserchannel_bound assms(2))

lemma on_channel_ok: "tracks I n a b \<Longrightarrow> (\<And>c. keeps c (f c)) \<Longrightarrow> ok1 n a (on_channel n name f b)"
  unfolding on_channel_def by (rule with_channel_ok) auto

lemma bcheck_ok: "tracks I n a b \<Longrightarrow> ok2 n a (bcheck e th b)"
  by (auto simp: ok2_def bcheck_def intro: frame_users)

subsection \<open>Structure of the handlers\<close>

lemma frame_basic [frame_intros]:
  assumes "tracks I n a b"
  shows "tracks I n a (bout x b)" "tracks I n a (bwrite sock t b)" "tracks I n a (bprint sock t b)"
    "tracks I n a (mod_irc f b)" "tracks I n a (bparse b)" "tracks I n a (file_write e t t' b)"
    "tracks I n a (file_append e t t' b)" "tracks I n a (oldfile t b)" "tracks I n a (p_log e l m t b)"
    "tracks I n a (privatelog e n b)" "tracks I n a (b\<lparr>b_buf := t\<rparr>)" "tracks I n a (b\<lparr>b_wrong := w\<rparr>)"
    "tracks I n a (b\<lparr>b_idea := st, b_wrong := w\<rparr>)"
  by (rule frame_users [OF assms], simp)+

lemma frame_split [frame_intros]:
  "(c \<Longrightarrow> tracks I n a x) \<Longrightarrow> (\<not> c \<Longrightarrow> tracks I n a y) \<Longrightarrow> tracks I n a (if c then x else y)"
  "(c \<Longrightarrow> ok1 n a r) \<Longrightarrow> (\<not> c \<Longrightarrow> ok1 n a r') \<Longrightarrow> ok1 n a (if c then r else r')"
  "(c \<Longrightarrow> ok2 n a q) \<Longrightarrow> (\<not> c \<Longrightarrow> ok2 n a q') \<Longrightarrow> ok2 n a (if c then q else q')"
  "(p = None \<Longrightarrow> tracks I n a x) \<Longrightarrow> (\<And>z. p = Some z \<Longrightarrow> tracks I n a (f z)) \<Longrightarrow> tracks I n a (case p of None \<Rightarrow> x | Some z \<Rightarrow> f z)"
  "(p = None \<Longrightarrow> ok1 n a r) \<Longrightarrow> (\<And>z. p = Some z \<Longrightarrow> ok1 n a (f1 z)) \<Longrightarrow> ok1 n a (case p of None \<Rightarrow> r | Some z \<Rightarrow> f1 z)"
  "(p = None \<Longrightarrow> ok2 n a q) \<Longrightarrow> (\<And>z. p = Some z \<Longrightarrow> ok2 n a (f2 z)) \<Longrightarrow> ok2 n a (case p of None \<Rightarrow> q | Some z \<Rightarrow> f2 z)"
  "(\<And>u v. d = (u, v) \<Longrightarrow> tracks I n a (g u v)) \<Longrightarrow> tracks I n a (case d of (u, v) \<Rightarrow> g u v)"
  "(\<And>u v. d = (u, v) \<Longrightarrow> ok1 n a (g1 u v)) \<Longrightarrow> ok1 n a (case d of (u, v) \<Rightarrow> g1 u v)"
  "(\<And>u v. d = (u, v) \<Longrightarrow> ok2 n a (g2 u v)) \<Longrightarrow> ok2 n a (case d of (u, v) \<Rightarrow> g2 u v)"
  by (auto split: option.split prod.split)

lemma frame_Let [frame_intros]:
  fixes t :: bnc
  assumes "tracks I n a t"
  shows "(\<And>x. tracks I n a x \<Longrightarrow> tracks I n a (f x)) \<Longrightarrow> tracks I n a (Let t f)"
    "(\<And>x. tracks I n a x \<Longrightarrow> ok1 n a (f1 x)) \<Longrightarrow> ok1 n a (Let t f1)"
    "(\<And>x. tracks I n a x \<Longrightarrow> ok2 n a (f2 x)) \<Longrightarrow> ok2 n a (Let t f2)"
  using assms by simp_all

lemma Let_any:
  "(\<And>x. tracks I n a (f x)) \<Longrightarrow> tracks I n a (Let t f)"
  "(\<And>x. ok1 n a (f1 x)) \<Longrightarrow> ok1 n a (Let t f1)"
  "(\<And>x. ok2 n a (f2 x)) \<Longrightarrow> ok2 n a (Let t f2)"
  by simp_all

lemmas Let_data [frame_intros] =
  Let_any [where 'a = usert] Let_any [where 'a = irc_state] Let_any [where 'a = string] Let_any [where 'a = nat]
  Let_any [where 'a = int] Let_any [where 'a = bool] Let_any [where 'a = datalinkt] Let_any [where 'a = uchannelt]

lemmas frame_rules = frame_intros ok_bind ok_map bcheck_ok frame_fields

subsection \<open>Every handler\<close>

lemma checkbans_ok: "tracks I n a b \<Longrightarrow> ok1 n a (checkbans e n b)"
  unfolding checkbans_def by (intro frame_rules) simp_all

lemma checkautoop_ok: "tracks I n a b \<Longrightarrow> ok1 n a (checkautoop e n b)"
  unfolding checkautoop_def by (intro frame_rules) simp_all

lemma checkop_ok: "tracks I n a b \<Longrightarrow> ok2 n a (checkop e n b)"
  unfolding checkop_def by (intro frame_rules) (auto simp: ok2_def Let_def intro: frame_basic)

lemma getops_ok: "tracks I n a b \<Longrightarrow> ok1 n a (getops e n b)"
  unfolding getops_def Let_def by (intro frame_rules) simp_all

lemma askforop_loop_ok: "tracks I n a b \<Longrightarrow> ok1 n a (askforop_loop e n channel us b)"
proof (induction us arbitrary: b)
  case (Cons usr us)
  then show ?case by (auto intro!: frame_intros ok_bind getops_ok)
qed (simp add: frame_intros)

lemma askforop_ok: "tracks I n a b \<Longrightarrow> ok1 n a (askforop e n channel b)"
  unfolding askforop_def by (intro frame_rules askforop_loop_ok) simp_all

lemma askall_ok: "tracks I n a b \<Longrightarrow> ok1 n a (askall e n chans b)"
  by (induction chans arbitrary: b) (auto intro: frame_intros ok_bind askforop_ok)

lemma rejoin_ok: "tracks I n a b \<Longrightarrow> tracks I n a (rejoinchannels m b)"
  unfolding rejoinchannels_def by (intro frame_rules frame_fold)

lemma oidentd_ok: "tracks I n a b \<Longrightarrow> tracks I n a (create_oidentd_conf e b)"
  unfolding create_oidentd_conf_def by (intro frame_rules)

lemma reset_ok: "I n u \<Longrightarrow> I n (resetallchannels u)"
  using inv_step [OF st_reset] .

lemma pong_ok: "tracks I n a b \<Longrightarrow> ok2 n a (pong e n b)"
  unfolding pong_def by (intro frame_rules askall_ok rejoin_ok) simp_all

lemma nickused_ok: "tracks I n a b \<Longrightarrow> ok2 n a (nickused e n b)"
  unfolding nickused_def Let_def by (intro frame_rules) (auto simp: ok2_def intro: frame_intros)

lemma msg432to437_ok: "tracks I n a b \<Longrightarrow> ok2 n a (msg432to437 e n b)"
  using nickused_ok [of n a b e] by (auto simp: msg432to437_def ok2_def)

lemma greet_ok: "tracks I n a b \<Longrightarrow> tracks I n a (greet e n b)"
  unfolding greet_def
  by (intro frame_intros frame_bmod oidentd_ok rejoin_ok) (auto intro: reset_ok inv_fields)

lemma serverinit_ok: "tracks I n a b \<Longrightarrow> tracks I n a (snd (serverinit e n m b))"
proof -
  assume "tracks I n a b"
  moreover have "snd (if c then (x, y) else z) = (if c then y else snd z)" for c and x :: int and y :: bnc and z by simp
  ultimately show ?thesis unfolding serverinit_def Let_def
    by (auto intro!: frame_intros frame_fields greet_ok)
qed

lemma serverinit_rc_ok: "tracks I n a b \<Longrightarrow> ok2 n a (Some (serverinit_rc e n m b))"
  using serverinit_ok [of n a b e m] by (auto simp: ok2_def serverinit_rc_def split: prod.splits)

lemma init_handlers_ok:
  assumes "tracks I n a b"
  shows "ok2 n a (msg001 e n b)" "ok2 n a (msg002to005 e n b)" "ok2 n a (msg251to255265to266 e n b)"
    "ok2 n a (msg372to375 e n b)" "ok2 n a (msg376 e n b)"
proof -
  show "ok2 n a (msg001 e n b)" using assms unfolding msg001_def by (intro frame_rules serverinit_ok) simp_all
  show "ok2 n a (msg376 e n b)" using assms unfolding msg376_def by (intro frame_rules serverinit_ok) simp_all
  have "u_channels (mapprefixed s u) = u_channels u \<and> u_rights (mapprefixed s u) = u_rights u" for s u
    by (simp add: mapprefixed_def map_prefix_def Let_def split: option.split prod.split)
  then show "ok2 n a (msg002to005 e n b)" using assms unfolding msg002to005_def
    by (intro serverinit_rc_ok frame_split frame_fields)
qed (use assms in \<open>simp_all add: msg251to255265to266_def msg372to375_def serverinit_rc_ok\<close>)

lemma gotnick_ok: "tracks I n a b \<Longrightarrow> ok2 n a (gotnick e n b)"
  unfolding gotnick_def
  by (intro frame_intros ok_bind frame_bmod with_user_ok) (auto intro: inv_step [OF st_nick] inv_fields)

lemma left_channel_keeps [simp]: "keeps c (left_channel c)"
  by (simp add: left_channel_def keeps_def channel_wf_def removeallusersfromchannel_def)

lemma entered_channel_keeps: "keeps c (entered_channel u i c)"
proof -
  have "keeps c (fst (addnicktochannel c (ircnick i) (ircident i) (irchost i)))" by (rule keeps_addnick)
  moreover have "keeps c' (entered_channel u i c)" if "c' = fst (addnicktochannel c (ircnick i) (ircident i) (irchost i))" for c'
    by (simp add: that entered_channel_def keeps_def channel_wf_def fits)
  ultimately show ?thesis using keeps_trans by blast
qed

lemma gotjoin_ok: "tracks I n a b \<Longrightarrow> ok2 n a (gotjoin e n b)"
proof -
  assume t: "tracks I n a b"
  have own: "I n (u2\<lparr>u_channels := (u_channels u2)[j := entered_channel v i (u_channels u2 ! j)]\<rparr>)"
    if "addchanneltouser n name False u s = Some (j, u2, s2)" "I n u" for name u s j u2 s2 v i
    by (rule inv_update [OF inv_step [OF st_add [OF that(1)] that(2)] addchanneltouser_bound [OF that(1)] entered_channel_keeps])
  have own': "I n u'" if "map_option (\<lambda>(j, u, s). (u\<lparr>u_channels := (u_channels u)[j := entered_channel u i (u_channels u ! j)]\<rparr>, s))
      (addchanneltouser n name False u s) = Some (u', s')" "I n u" for name u s u' s' i
  proof -
    note prem = that
    obtain j u2 c1 c2 where r: "addchanneltouser n name False u s = Some (j, u2, c1, c2)"
        and u': "u' = u2\<lparr>u_channels := (u_channels u2)[j := entered_channel u2 i (u_channels u2 ! j)]\<rparr>"
      using prem(1) by (auto split: prod.splits)
    show ?thesis unfolding u' by (rule own [OF r prem(2)])
  qed
  show ?thesis unfolding gotjoin_def using t
    by (intro frame_intros ok_bind ok_map with_user_ok on_channel_ok checkbans_ok checkautoop_ok keeps_addnick) (assumption | erule (1) own')+
qed

lemma gotpart_ok: "tracks I n a b \<Longrightarrow> ok2 n a (gotpart e n b)"
  unfolding gotpart_def
  by (intro ok_map frame_intros with_user_ok on_channel_ok) (auto intro: inv_step [OF st_remove])

lemma gotkick_ok: "tracks I n a b \<Longrightarrow> ok2 n a (gotkick e n b)"
  unfolding gotkick_def
  by (intro frame_intros ok_bind on_channel_ok) (auto simp: Let_def intro: keeps_trans [OF keeps_removenick left_channel_keeps])

lemma gotquit_ok: "tracks I n a b \<Longrightarrow> ok2 n a (gotquit e n b)"
  unfolding gotquit_def
  by (intro ok_map frame_intros with_user_ok frame_bmod) (auto intro: reset_ok inv_step [OF st_quit])

lemma gotmode_ok:
  assumes "tracks I n a b"
  shows "ok2 n a (gotmode e n b)"
proof (cases "getuserchannel (buser b n) (ircto (b_irc b))")
  case (Some j)
  have "tracks I n b (bmod n (\<lambda>u. u\<lparr>u_channels := (u_channels u)[j := c]\<rparr>) (b\<lparr>b_store := s\<rparr>))"
    if "addchannelmode (e_salt e) m p (u_channels (buser b n) ! j) (b_store b) = Some (c, s, ev)" for m p c s ev
    using addchannelmode_keeps [OF that] getuserchannel_bound [OF Some]
    by (intro tracks_modu [where f = "\<lambda>u. u\<lparr>u_channels := (u_channels u)[j := c]\<rparr>"]) (auto simp: bmod_def intro: inv_update)
  then have "tracks I n a (bmod n (\<lambda>u. u\<lparr>u_channels := (u_channels u)[j := c]\<rparr>) (b\<lparr>b_store := s\<rparr>))"
    if "addchannelmode (e_salt e) m p (u_channels (buser b n) ! j) (b_store b) = Some (c, s, ev)" for m p c s ev
    using that assms tracks_trans by blast
  then show ?thesis
    by (auto simp: gotmode_def Some ok2_def Let_def intro!: frame_fold frame_basic split: Option.bind_splits option.splits prod.splits)
qed (use assms in \<open>simp add: gotmode_def ok_results\<close>)

lemma gottopic_ok: "tracks I n a b \<Longrightarrow> ok2 n a (gottopic e n b)"
  unfolding gottopic_def by (intro ok_map on_channel_ok) auto

lemma msg352_ok: "tracks I n a b \<Longrightarrow> ok2 n a (msg352 e n b)"
  unfolding msg352_def performwho_def by (intro frame_intros ok_map on_channel_ok keeps_addnick)

lemma msg315_ok: "tracks I n a b \<Longrightarrow> ok2 n a (msg315 e n b)"
  unfolding msg315_def by (intro frame_rules askforop_ok) simp_all

lemma msg324_ok: "tracks I n a b \<Longrightarrow> ok2 n a (msg324 e n b)"
  unfolding msg324_def by (intro frame_intros ok_map with_channel_ok setchannelmode_keeps)

lemma msg332_ok: "tracks I n a b \<Longrightarrow> ok2 n a (msg332 e n b)"
  unfolding msg332_def by (intro frame_intros ok_map on_channel_ok) auto

lemma names_word_keeps: "keeps c (names_word pc w c)"
proof -
  have "keeps c (case addnicktochannel c nick [] [] of (chan, j) \<Rightarrow>
      chan\<lparr>c_users := (c_users chan)[j := (c_users chan ! j)\<lparr>cu_mode := take 1 marks\<rparr>]\<rparr>)" for nick and marks :: string
  proof -
    obtain c1 j where r: "addnicktochannel c nick [] [] = (c1, j)" by fastforce
    have j: "j < length (c_users c1)"
      using r getchannelnick_Some [of c nick] by (auto simp: addnicktochannel_def Let_def split: option.splits)
    have "keeps c c1" using keeps_addnick [of c nick "[]" "[]"] r by simp
    moreover have "keeps c1 (c1\<lparr>c_users := (c_users c1)[j := (c_users c1 ! j)\<lparr>cu_mode := take 1 marks\<rparr>]\<rparr>)"
      by (rule keeps_user_update [OF j]) (simp add: chanuser_wf_def)
    ultimately show ?thesis using r keeps_trans by simp
  qed
  then show ?thesis by (simp add: names_word_def Let_def)
qed

lemma names_keeps: "keeps c (fold (names_word pc) ws c)"
proof (induction ws arbitrary: c)
  case (Cons w ws)
  show ?case using keeps_trans [OF names_word_keeps [of c pc w] Cons] by simp
qed simp

lemma msg353_ok: "tracks I n a b \<Longrightarrow> ok2 n a (msg353 e n b)"
  unfolding msg353_def by (intro frame_rules on_channel_ok names_keeps) simp_all

lemma send_channel_ok:
  assumes "tracks I n a b" "u_innames (buser b n) = 2"
  shows "ok1 n a (send_channel n j b)"
proof -
  have "u' = buser b n \<and> c = u_channels (buser b n) ! j"
    if "sendnames (buser b n) up (u_channels (buser b n) ! j) = Some (u', c, ls)" for up u' c ls
    using that assms(2) by (auto simp: sendnames_def Let_def)
  note same = this
  have id: "tracks I n b (bmod n (\<lambda>_. (buser b n)\<lparr>u_channels := (u_channels (buser b n))[j := u_channels (buser b n) ! j]\<rparr>) b)"
    by (intro tracks_modu [where f = "\<lambda>_. buser b n"]) (simp_all add: bmod_def)
  show ?thesis
  proof (cases "sendnames (buser b n) (buser b (owner n b)) (u_channels (buser b n) ! j)")
    case (Some r)
    obtain u' c ls where r: "r = (u', c, ls)" by (cases r)
    have eq: "u' = buser b n" "c = u_channels (buser b n) ! j" using same Some r by blast+
    show ?thesis using Some tracks_trans [OF assms(1) id]
      by (auto simp: r eq send_channel_def ok1_def Let_def intro!: frame_fold frame_basic)
  qed (simp add: send_channel_def ok_results)
qed

lemma msg366_ok:
  assumes "tracks I n a b"
  shows "ok2 n a (msg366 e n b)"
proof -
  let ?b = "bmod n (\<lambda>u. u\<lparr>u_inchan := rtrim (u_inchan u)\<rparr>) b"
  have t: "tracks I n a ?b" using assms by (intro frame_fields) simp_all
  have n: "u_innames (buser ?b n) = u_innames (buser b n)" by (simp add: bmod_def getu_modu_same)
  have "ok1 n a (let b = ?b; u = buser b n in case getuserchannel u (u_inchan u) of
      Some j \<Rightarrow> if u_instate u = STD_CONN then send_channel n j b else Some b | None \<Rightarrow> Some b)" if "u_innames (buser b n) = 2"
    using that n t by (auto simp: Let_def intro!: send_channel_ok ok_results split: option.split)
  then have "ok1 n a (if u_innames (buser b n) = 2 then let b = ?b; u = buser b n in case getuserchannel u (u_inchan u) of
      Some j \<Rightarrow> if u_instate u = STD_CONN then send_channel n j b else Some b | None \<Rightarrow> Some b else Some b)"
    using assms by (intro frame_split ok_results)
  then show ?thesis unfolding msg366_def
    by (rule ok_bind(2)) (intro frame_intros ok_bind askforop_ok frame_fields; simp)
qed

lemma checkcrypt_ok: "tracks I n a b \<Longrightarrow> ok1 n a (checkcrypt e n b)"
proof -
  assume t: "tracks I n a b"
  have dec: "ok1 n a (decrypt_line e k b)" for k
    using t by (auto simp: decrypt_line_def clear_text_def ok1_def Let_def intro!: frame_basic
        split: option.splits Option.bind_splits if_splits prod.splits)
  have enc: "ok1 n a (encrypt_line k b)" for k
    using t by (auto simp: encrypt_line_def ok1_def Let_def intro!: frame_basic split: option.splits Option.bind_splits)
  show ?thesis using t dec enc
    by (auto simp: checkcrypt_def ok1_def split: option.splits Option.bind_splits if_splits)
qed

lemma msgprivmsg_ok:
  assumes t: "tracks I n a b" and ctcps: "tame (\<lambda>b. snd (parsectcps n b))"
  shows "ok2 n a (msgprivmsg parsectcps e n b)"
proof -
  obtain rc b' where r: "parsectcps n b = (rc, b')" by fastforce
  then have "tracks I n a b'" using frame_tame [OF t ctcps] by simp
  then show ?thesis unfolding msgprivmsg_def using t
    by (cases "checkignores n b") (auto simp: r Let_def intro!: ok_results ok_bind checkcrypt_ok checkop_ok frame_basic)
qed

lemma msgERROR_ok: "tracks I n a b \<Longrightarrow> ok2 n a (msgERROR e n b)"
  unfolding msgERROR_def Let_def by (intro frame_intros frame_bmod) (auto intro: reset_ok inv_fields)

lemmas handlers_ok = pong_ok msg432to437_ok init_handlers_ok gotnick_ok gotjoin_ok gotpart_ok gotkick_ok gotquit_ok gotmode_ok
  gottopic_ok msg352_ok msg315_ok msg324_ok msg332_ok msg353_ok msg366_ok msgERROR_ok

lemma server_handlers_ok:
  assumes "tracks I n a b" "tame (\<lambda>b. snd (parsectcps n b))"
  shows "ok2 n a (server_handlers parsectcps e name n b)"
proof -
  have "ok2 n a (h e n b)" if "(name, h) \<in> set (server_table parsectcps)" for h
    using that assms by (auto simp: server_table_def intro: handlers_ok msgprivmsg_ok)
  then show ?thesis using assms(1) by (auto simp: server_handlers_def ok_results dest: map_of_SomeD split: option.split)
qed

subsection \<open>Every line\<close>

lemma outbound_loop_ok:
  "tracks I n a b \<Longrightarrow> tame (\<lambda>b. snd (parsectcps n b)) \<Longrightarrow> ok2 n a (outbound_loop (server_handlers parsectcps e) n hs b)"
proof (induction hs)
  case (Cons h hs)
  then show ?case using server_handlers_ok [of n a b parsectcps e "h_handler h"] by (auto simp: ok2_def)
qed (simp add: ok_results)

lemma outbound_start_ok: "tracks I n a b \<Longrightarrow> tracks I n a (outbound_start n b)"
  unfolding outbound_start_def by (intro frame_intros frame_fields) simp_all

lemma traffic_write_ok: "tracks I n a b \<Longrightarrow> tracks I n a (traffic_write e n b)"
proof -
  assume "tracks I n a b"
  then have o: "tracks I n a (open_traffic e n b)" unfolding open_traffic_def by (intro frame_intros frame_fields) simp_all
  have "tracks I n a (c\<lparr>b_files := f\<rparr>)" if "tracks I n a c" for c f using that by (rule frame_users) simp
  then show ?thesis using \<open>tracks I n a b\<close> o unfolding traffic_write_def Let_def by (simp split: if_split)
qed

lemma checklogging_loop_ok: "tracks I n a b \<Longrightarrow> tracks I n a (checklogging_loop e n th entry b)"
proof (induction e n th entry b rule: checklogging_loop.induct)
  case (1 e n th entry b)
  have "tracks I n a (b\<lparr>b_irc := x\<rparr>)" for x using 1(3) by (rule frame_users) simp
  then show ?case using 1(1) [OF _ refl] 1(2) [OF _ refl _ refl refl refl] 1(3)
    by (subst checklogging_loop.simps) (auto simp: Let_def intro: traffic_write_ok split: option.split)
qed

lemma checklogging_ok: "tracks I n a b \<Longrightarrow> tracks I n a (checklogging e n b)"
  unfolding checklogging_def Let_def by (intro frame_split checklogging_loop_ok frame_basic) simp_all

lemma outbound_end_ok:
  assumes "tracks I n a b" "tame (serverevent n)"
  shows "tracks I n a (outbound_end os (checklogging e) serverevent n b)"
  unfolding outbound_end_def using assms
  by (intro frame_Let frame_split frame_settled [OF _ settled_addtoken] checklogging_ok
    frame_tame [where g = "serverevent n"] frame_basic)

lemma server_line_ok:
  assumes "server_line_in parsectcps serverevent e n b = Some b'"
    and "tame (\<lambda>b. snd (parsectcps n b))" "tame (serverevent n)"
  shows "tracks I n b b'"
proof -
  have "tracks I n b b" by (rule tracks_users) simp
  then have "ok2 n b (if n \<le> 10000 then outbound_loop (server_handlers parsectcps e) n outboundhash (outbound_start n b)
      else Some (False, b))"
    using assms(2) by (intro frame_split outbound_loop_ok outbound_start_ok ok_results)
  then show ?thesis using assms(1,3)
    by (auto simp: server_line_in_def useroutbound_def ok2_def intro: outbound_end_ok)
qed

end


subsection \<open>Channels and rights\<close>

lemma addchanneltouser_rights: "addchanneltouser n channel nw u s = Some (i, u', s') \<Longrightarrow> u_rights u' = u_rights u"
  by (auto simp: addchanneltouser_def Let_def split: option.splits if_splits Option.bind_splits prod.splits)

lemma removechannelfromuser_rights: "removechannelfromuser n channel u s = Some (u', s') \<Longrightarrow> u_rights u' = u_rights u"
  by (auto simp: removechannelfromuser_def Let_def split: option.splits Option.bind_splits)

lemma removenickall_rights: "removenickall_loop m i n nick u s = Some (u', s') \<Longrightarrow> u_rights u' = u_rights u"
proof (induction m arbitrary: i u s)
  case (Suc m)
  define v where "v = u\<lparr>u_channels := (u_channels u)[i := removenickfromchannel (u_channels u ! i) nick]\<rparr>"
  have v: "u_rights v = u_rights u" by (simp add: v_def)
  consider w t where "removechannelfromuser n (c_name (removenickfromchannel (u_channels u ! i) nick)) v s = Some (w, t)"
      "removenickall_loop m i n nick w t = Some (u', s')"
    | "removenickall_loop m (i + 1) n nick v s = Some (u', s')"
    using Suc.prems by (auto simp: Let_def v_def split: if_splits Option.bind_splits)
  then show ?case
  proof cases
    case 1
    then show ?thesis using Suc.IH [OF 1(2)] removechannelfromuser_rights [OF 1(1)] v by simp
  next
    case 2
    then show ?thesis using Suc.IH [OF 2] v by simp
  qed
qed simp

lemma lastwhois_keeps: "lastwhois_loop n ept u s = Some (u', s') \<Longrightarrow> P (u_rights u) \<Longrightarrow> P (u_rights u')"
proof (induction n ept u s rule: lastwhois_loop.induct)
  case (1 n ept0 u s)
  have add: "P (u_rights v)" if "addchanneltouser n name False u s = Some (i, v, t)" for name i v t
    using addchanneltouser_rights [OF that] "1.prems"(2) by simp
  show ?case using "1.prems"
    by (subst (asm) lastwhois_loop.simps)
      (auto simp: Let_def simp del: lastwhois_loop.simps split: if_splits option.splits prod.splits
        intro: add "1.IH" [OF refl _ refl refl refl])
qed

lemma lastwhois_rights: "lastwhois_loop n ept u s = Some (u', s') \<Longrightarrow> u_rights u' = u_rights u"
  using lastwhois_keeps [where P = "\<lambda>r. r = u_rights u"] by blast

lemma loadchannels_rights: "loadchannels sl n s u = Some u' \<Longrightarrow> u_rights u' = u_rights u"
proof -
  have step: "u_rights u' = u_rights u" if "load_channel sl n s i (Some u) = Some u'" for i u u'
    using that by (auto simp: load_channel_def Let_def split: if_splits prod.splits Option.bind_splits dest: addchanneltouser_rights)
  have "fold (load_channel sl n s) is (Some u) = Some u' \<Longrightarrow> u_rights u' = u_rights u" for "is" u
  proof (induction "is" arbitrary: u)
    case (Cons i "is")
    then obtain v where "load_channel sl n s i (Some u) = Some v"
      by (cases "load_channel sl n s i (Some u)") (auto simp: fold_load_None)
    then show ?case using Cons step by fastforce
  qed simp
  then show "loadchannels sl n s u = Some u' \<Longrightarrow> ?thesis" by (simp add: loadchannels_def)
qed

lemma channel_step_rights: "channel_step sl n p q \<Longrightarrow> u_rights (fst q) = u_rights (fst p)"
  by (induction rule: channel_step.induct)
    (auto simp: removeallchannelsfromuser_def removenickfromallchannels_def nickchange_def resetallchannels_def convertlastwhois_def
      simp del: lastwhois_loop.simps
      dest: addchanneltouser_rights removechannelfromuser_rights removenickall_rights lastwhois_rights loadchannels_rights)

interpretation line_channels: user_frame user_wf
proof unfold_locales
  show "user_wf n u'" if "user_wf n u" "u_channels u' = u_channels u" for n u u'
    using that by (simp add: user_wf_def channels_ok_def)
  show "user_wf n u'" if "channel_step sl n (u, s) (u', s')" "user_wf n u" for sl n u s u' s'
    using channel_step_wf [OF that(1)] that(2) by simp
qed (rule user_wf_update)

interpretation line_rights: user_frame "\<lambda>n u. u_rights u = r" for r
  by unfold_locales (use channel_step_rights in fastforce)+


lemma server_line_keeps_rights:
  assumes line: "server_line_in parsectcps serverevent e n b = Some b'"
    and args: "tame (\<lambda>b. snd (parsectcps n b))" "tame (serverevent n)"
  shows "u_rights (buser b' m) = u_rights (buser b m)"
proof -
  note t = line_rights.server_line_ok [OF line args, of "u_rights (buser b n)"]
  show ?thesis
  proof (cases "ucell (b_users b) m = ucell (b_users b) n")
    case True
    then have "ucell (b_users b') m = ucell (b_users b') n" using t by (simp add: tracks_def)
    then show ?thesis using getu_cell [OF True] getu_cell [of "b_users b'" m n] t by (simp add: tracks_def)
  qed (use t in \<open>simp add: tracks_def\<close>)
qed

text \<open>
  No line of a server changes the rights of anybody: whoever is an admin, or is none, stays so.
\<close>

theorem server_line_rights:
  assumes line: "server_line_in parsectcps serverevent e n b = Some b'"
    and args: "tame (\<lambda>b. snd (parsectcps n b))" "tame (serverevent n)"
  shows "u_rights (buser b' m) = u_rights (buser b m)"
  by (rule server_line_keeps_rights [OF line args])

text \<open>A user that is connected on both sides, and a line of its server.\<close>

definition line_bnc :: bnc where
  "line_bnc = talk_bnc
     \<lparr>b_users := \<lparr>us_nodes = [(1, zero_usert\<lparr>u_outstate := STD_CONN, u_outsock := 8, u_instate := STD_CONN\<rparr>)], us_dummy = zero_usert, us_null = zero_usert\<rparr>,
      b_buf := ''PING :x''\<rparr>"

lemma line_bnc_line: "server_line_in parsectcps (\<lambda>n b. b) sample_env 1 line_bnc \<noteq> None"
  by code_simp

lemma line_bnc_user:
  "ucell (b_users line_bnc) n = NodeCell n \<Longrightarrow> user_wf n (buser line_bnc n)" "ucell (b_users line_bnc) 1 = NodeCell 1"
proof -
  show "ucell (b_users line_bnc) 1 = NodeCell 1" by (simp add: line_bnc_def ucell_def user_nr_def MAX_USER_def)
  assume "ucell (b_users line_bnc) n = NodeCell n"
  then have "n = 1" using ucell_NodeD by (fastforce simp: line_bnc_def)
  then show "user_wf n (buser line_bnc n)"
    by (simp add: line_bnc_def getu_def ucell_def user_nr_def MAX_USER_def user_wf_def channels_ok_def zero_usert_def)
qed

lemma tame_ident: "tame (\<lambda>b. b)" "tame (\<lambda>b. snd ((0::int), b))"
  by (simp_all add: tame_def settled_users)


theorem server_line_rights_witness:
  "\<exists>b'. server_line_in (\<lambda>n b. (0, b)) (\<lambda>n b. b) sample_env 1 line_bnc = Some b' \<and>
     u_rights (buser b' 1) = u_rights (buser line_bnc 1)"
  using line_bnc_line [of "\<lambda>n b. (0, b)"] server_line_rights [of "\<lambda>n b. (0, b)" "\<lambda>n b. b" sample_env 1 line_bnc _ 1] tame_ident by auto

text \<open>Every handler that the table of the dispatcher names is a handler of the servers.\<close>

lemma outbound_handlers_known:
  "h \<in> set outboundhash \<Longrightarrow> h_handler h \<in> fst ` set (server_table parsectcps)"
  by (auto simp: outboundhash_def server_table_def)

end
