(* ===== verification/Stoned.thy ===== *)
theory Stoned
  imports Server_Invariants
begin

text \<open>
  Stoned servers, \<open>checkstonednick\<close> of src/p_server.c. A server that answers nothing is pinged after two
  minutes and dropped four minutes after the ping, whatever the other users' connections do.
\<close>

text \<open>What the check of one user leaves to the others.\<close>

definition apart :: "int \<Rightarrow> bnc \<Rightarrow> bnc \<Rightarrow> bool" where
  "apart m b b' \<longleftrightarrow>
     uids (b_users b') = uids (b_users b) \<and> (\<forall>k. ucell (b_users b') k = ucell (b_users b) k) \<and>
     (\<forall>k. ucell (b_users b) k \<noteq> ucell (b_users b) m \<longrightarrow> buser b' k = buser b k) \<and> set (b_sent b) \<subseteq> set (b_sent b')"

lemma apart_refl: "apart m b b"
  by (simp add: apart_def)

lemma apart_trans: "apart m a b \<Longrightarrow> apart m b c \<Longrightarrow> apart m a c"
  by (auto simp: apart_def)

lemma apart_bmod: "apart m a b \<Longrightarrow> apart m a (bmod m f b)"
  by (auto simp: apart_def bmod_def getu_modu_other)

lemma apart_users: "apart m a b \<Longrightarrow> b_users c = b_users b \<Longrightarrow> set (b_sent b) \<subseteq> set (b_sent c) \<Longrightarrow> apart m a c"
  by (auto simp: apart_def)

lemma sent_ops [simp]:
  "b_sent (bout x b) = b_sent b @ [x]" "b_sent (bprint sock s b) = b_sent b @ [Write sock (snpf 8192 s)]"
  "b_sent (file_write e name s b) = b_sent b" "b_sent (file_append e name s b) = b_sent b" "b_sent (bmod n f b) = b_sent b"
  "b_sent (oldfile name b) = b_sent b"
  by (simp_all add: bout_def bprint_def bwrite_def file_write_def file_append_def oldfile_def bmod_def file_rename_def
      split: option.split)

lemma sent_fold:
  assumes "\<And>x b. set (b_sent b) \<subseteq> set (b_sent (f x b))"
  shows "set (b_sent b) \<subseteq> set (b_sent (fold f xs b))"
proof (induction xs arbitrary: b)
  case (Cons x xs)
  show ?case using subset_trans [OF assms Cons.IH] by simp
qed simp

lemma sent_log: "set (b_sent b) \<subseteq> set (b_sent (p_log e l n s b))"
proof -
  have "set (b_sent c) \<subseteq> set (b_sent (noticeall a t c))" for a t c
    unfolding noticeall_def by (rule sent_fold) (simp add: notice_one_def Let_def subset_insertI)
  moreover have "set (b_sent c) \<subseteq> set (b_sent (systemnotice n t c))" for n t c
    by (simp add: systemnotice_def Let_def subset_insertI)
  ultimately have main: "set (b_sent c) \<subseteq> set (b_sent (if n = -1 then noticeall RI_ADMIN t c else systemnotice n t c))" for t c
    by simp
  show ?thesis unfolding p_log_def log_entry_def Let_def by (rule subset_trans [OF _ main]) simp
qed

lemma apart_intros:
  "apart m a b \<Longrightarrow> apart m a (bout op b)" "apart m a b \<Longrightarrow> apart m a (bprint sock s b)" "apart m a b \<Longrightarrow> apart m a (oldfile t b)"
  "apart m a b \<Longrightarrow> apart m a (p_log e l n s b)" "apart m a b \<Longrightarrow> apart m a (bmod m f b)"
  "apart m a x \<Longrightarrow> apart m a y \<Longrightarrow> apart m a (if c then x else y)" "apart m a a"
  by (auto intro: apart_refl apart_bmod) (erule apart_users, simp, use sent_log in auto)+

text \<open>The fields the check goes by.\<close>

definition watch :: "int \<Rightarrow> bnc \<Rightarrow> int \<times> int \<times> int \<times> int \<times> int" where
  "watch n b = (let u = buser b n in (u_outstate u, u_welcome u, u_outsock u, u_pinged u, u_pingtime u))"

lemma watch_users: "b_users c = b_users b \<Longrightarrow> watch n c = watch n b"
  by (simp add: watch_def)

lemma regain_apart: "apart n a b \<Longrightarrow> apart n a (regain_nick e n b)"
  unfolding regain_nick_def Let_def by (intro apart_intros)

lemma watch_regain: "watch n (regain_nick e n b) = watch n b"
proof -
  have "watch n (bmod n (\<lambda>u. u\<lparr>u_nickgain := t\<rparr>) b) = watch n b" for t
    by (simp add: watch_def bmod_def getu_modu_same Let_def)
  moreover have "watch n (to_server n s c) = watch n c" for s c by (rule watch_users) simp
  ultimately show ?thesis unfolding regain_nick_def by (simp add: Let_def)
qed

text \<open>One check of the user: what waits, what is pinged and what is dropped.\<close>

lemma check_user_waits:
  assumes "watch n b = (STD_CONN, 1, s, 1, p)" "\<not> p + 240 \<le> e_time e"
  shows "watch n (check_user e n b) = (STD_CONN, 1, s, 1, p)"
proof -
  have "watch n (regain_nick e n b) = (STD_CONN, 1, s, 1, p)" using assms watch_regain by simp
  then show ?thesis using assms by (simp add: watch_def check_user_def ping_server_def Let_def)
qed

lemma check_user_idle:
  assumes "watch n b = (STD_CONN, 1, s, q, p)" "q \<noteq> 1" "p > 0" "\<not> p + 120 \<le> e_time e"
  shows "watch n (check_user e n b) = (STD_CONN, 1, s, q, p)"
proof -
  have "watch n (regain_nick e n b) = (STD_CONN, 1, s, q, p)" using assms watch_regain by simp
  then show ?thesis using assms by (simp add: watch_def check_user_def ping_server_def Let_def)
qed

lemma check_user_pings:
  assumes "watch n b = (STD_CONN, 1, s, q, p)" "q \<noteq> 1" "p = 0 \<or> p > 0 \<and> p + 120 \<le> e_time e"
  shows "watch n (check_user e n b) = (STD_CONN, 1, s, 1, e_time e)"
proof -
  have "watch n (regain_nick e n b) = (STD_CONN, 1, s, q, p)" using assms watch_regain by simp
  then show ?thesis using assms by (auto simp: watch_def check_user_def ping_server_def Let_def bmod_def getu_modu_same)
qed

lemma drop_server_drops:
  "u_outstate (buser (drop_server e n b) n) = STD_NOCON" "Kill (u_outsock (buser b n)) \<in> set (b_sent (drop_server e n b))"
  by (simp_all add: drop_server_def Let_def bmod_def getu_modu_same resetallchannels_def)

lemma kill_server_drops:
  assumes "e_peer e (u_outsock (buser b n)) \<noteq> None"
  shows "u_outstate (buser (kill_server e n b) n) = STD_NOCON" "Kill (u_outsock (buser b n)) \<in> set (b_sent (kill_server e n b))"
proof -
  define c where "c = p_log e LOG_WARNING n (''User '' @ u_login (buser b n) @ '' ('' @ u_network (buser b n) @
    '') got disconnected from server.'') b"
  have "kill_server e n b = drop_server e n c" using assms by (auto simp: kill_server_def userclosed_def c_def Let_def)
  moreover have "buser c n = buser b n" by (simp add: c_def)
  ultimately show "u_outstate (buser (kill_server e n b) n) = STD_NOCON" "Kill (u_outsock (buser b n)) \<in> set (b_sent (kill_server e n b))"
    using drop_server_drops [where e = e and n = n and b = c] by simp_all
qed

lemma apart_kill: "apart n a b \<Longrightarrow> apart n a (kill_server e n b)"
  unfolding kill_server_def userclosed_def drop_server_def Let_def option.case prod.case by (intro apart_intros)

lemma apart_check_user: "apart n b (check_user e n b)"
  unfolding check_user_def ping_server_def Let_def by (intro apart_intros apart_kill regain_apart)

lemma check_user_drops:
  assumes w: "watch n b = (STD_CONN, 1, s, 1, p)" and t: "p + 240 \<le> e_time e" and s: "e_peer e s \<noteq> None"
  shows "u_outstate (buser (check_user e n b) n) = STD_NOCON \<and> Kill s \<in> set (b_sent (check_user e n b))"
proof -
  define b1 where "b1 = regain_nick e n b"
  have w1: "watch n b1 = (STD_CONN, 1, s, 1, p)" using w watch_regain by (simp add: b1_def)
  define b2 where "b2 = to_server n (''QUIT :changing servers'' @ [CR, LF])
    (p_log e LOG_INFO n (''User '' @ u_login (buser b1 n) @ '' ('' @ u_nick (buser b1 n) @ '') disconnecting from stoned server.'')
      (bmod n (\<lambda>u. u\<lparr>u_pinged := 0, u_pingtime := 0\<rparr>) b1))"
  have "check_user e n b = ping_server e n b1" using w by (simp add: check_user_def watch_def b1_def Let_def)
  also have "\<dots> = kill_server e n b2" using w1 t by (simp add: ping_server_def watch_def b2_def Let_def)
  finally have "check_user e n b = kill_server e n b2" .
  moreover have "u_outsock (buser b2 n) = s" using w1 by (simp add: b2_def watch_def Let_def bmod_def getu_modu_same)
  ultimately show ?thesis using kill_server_drops [where e = e and b = b2 and n = n] s by simp
qed

section \<open>All users\<close>

text \<open>The user \<open>n\<close> has a cell of its own.\<close>

definition own_cell :: "int \<Rightarrow> users \<Rightarrow> bool" where
  "own_cell n U \<longleftrightarrow> n \<in> set (uids U) \<and> distinct (uids U) \<and> (\<forall>m \<in> set (uids U). m \<noteq> n \<longrightarrow> ucell U m \<noteq> ucell U n)"

lemma fold_others:
  assumes "n \<notin> set ms" "\<And>m. m \<in> set ms \<Longrightarrow> ucell (b_users b) m \<noteq> ucell (b_users b) n"
  shows "buser (fold (check_user e) ms b) n = buser b n \<and> set (b_sent b) \<subseteq> set (b_sent (fold (check_user e) ms b)) \<and>
    uids (b_users (fold (check_user e) ms b)) = uids (b_users b) \<and>
    (\<forall>k. ucell (b_users (fold (check_user e) ms b)) k = ucell (b_users b) k)"
  using assms
proof (induction ms arbitrary: b)
  case (Cons m ms)
  note a = apart_check_user [of m b e]
  have c: "ucell (b_users (check_user e m b)) k = ucell (b_users b) k" for k using a by (simp add: apart_def)
  have n: "buser (check_user e m b) n = buser b n" using a Cons.prems(2) [of m] by (simp add: apart_def)
  show ?case using Cons.IH [of "check_user e m b"] Cons.prems c n a by (auto simp: apart_def)
qed auto

lemma watch_checkstonednick:
  assumes "own_cell n (b_users b)"
  shows "\<exists>c. watch n c = watch n b \<and> watch n (checkstonednick e b) = watch n (check_user e n c) \<and>
    buser (checkstonednick e b) n = buser (check_user e n c) n \<and>
    set (b_sent (check_user e n c)) \<subseteq> set (b_sent (checkstonednick e b)) \<and> own_cell n (b_users (checkstonednick e b))"
proof -
  obtain xs ys where u: "uids (b_users b) = xs @ n # ys" using assms by (auto simp: own_cell_def dest: split_list)
  then have n: "n \<notin> set xs" "n \<notin> set ys" using assms by (auto simp: own_cell_def)
  have other: "ucell (b_users b) m \<noteq> ucell (b_users b) n" if "m \<in> set xs \<union> set ys" for m
    using assms u n that by (auto simp: own_cell_def)
  define c where "c = fold (check_user e) xs b"
  have c: "buser c n = buser b n" "ucell (b_users c) k = ucell (b_users b) k" "uids (b_users c) = uids (b_users b)" for k
    using fold_others [of n xs b e] n other by (auto simp: c_def)
  note a = apart_check_user [of n c e]
  have d: "buser (fold (check_user e) ys (check_user e n c)) n = buser (check_user e n c) n \<and>
      set (b_sent (check_user e n c)) \<subseteq> set (b_sent (fold (check_user e) ys (check_user e n c))) \<and>
      uids (b_users (fold (check_user e) ys (check_user e n c))) = uids (b_users (check_user e n c)) \<and>
      (\<forall>k. ucell (b_users (fold (check_user e) ys (check_user e n c))) k = ucell (b_users (check_user e n c)) k)"
    using a c other n by (intro fold_others) (auto simp: apart_def)
  have eq: "checkstonednick e b = fold (check_user e) ys (check_user e n c)" by (simp add: checkstonednick_def u c_def)
  have "own_cell n (b_users (checkstonednick e b))"
    using assms a c d unfolding eq own_cell_def by (auto simp: apart_def)
  then show ?thesis using c d unfolding eq by (intro exI [of _ c]) (simp add: watch_def)
qed

section \<open>A server that does not answer\<close>

text \<open>The checks come at points of time that do not go back and are at most \<open>g\<close> seconds apart.\<close>

fun steady :: "int \<Rightarrow> int \<Rightarrow> env list \<Rightarrow> bool" where
  "steady g t [] = True"
| "steady g t (e # es) = (t \<le> e_time e \<and> e_time e \<le> t + g \<and> steady g (e_time e) es)"

definition run_checks :: "env list \<Rightarrow> bnc \<Rightarrow> bnc" where
  "run_checks es b = fold checkstonednick es b"

definition dropped :: "int \<Rightarrow> int \<Rightarrow> bnc \<Rightarrow> bool" where
  "dropped n s b \<longleftrightarrow> u_outstate (buser b n) = STD_NOCON \<and> Kill s \<in> set (b_sent b)"

lemma run_next: "\<exists>k \<le> length es. dropped n s (run_checks (take k es) (checkstonednick e b)) \<Longrightarrow>
    \<exists>k \<le> length (e # es). dropped n s (run_checks (take k (e # es)) b)"
  unfolding run_checks_def by (metis Suc_le_mono fold_simps(2) length_Cons take_Suc_Cons)

lemma pinged_dropped:
  assumes "own_cell n (b_users b)" "watch n b = (STD_CONN, 1, s, 1, p)" "\<exists>e \<in> set es. p + 240 \<le> e_time e"
    "\<forall>e \<in> set es. e_peer e s \<noteq> None"
  shows "\<exists>k \<le> length es. dropped n s (run_checks (take k es) b)"
  using assms
proof (induction es arbitrary: b)
  case (Cons e es)
  obtain c where c: "watch n c = watch n b" "watch n (checkstonednick e b) = watch n (check_user e n c)"
      "buser (checkstonednick e b) n = buser (check_user e n c) n"
      "set (b_sent (check_user e n c)) \<subseteq> set (b_sent (checkstonednick e b))" "own_cell n (b_users (checkstonednick e b))"
    using watch_checkstonednick [OF Cons.prems(1)] by blast
  show ?case
  proof (cases "p + 240 \<le> e_time e")
    case True
    then have "dropped n s (checkstonednick e b)"
      using check_user_drops [of n c s p e] Cons.prems(2,4) c by (auto simp: dropped_def)
    then have "dropped n s (run_checks (take 1 (e # es)) b)" by (simp add: run_checks_def)
    then show ?thesis by (intro exI [of _ 1]) simp
  next
    case False
    then have "watch n (checkstonednick e b) = (STD_CONN, 1, s, 1, p)"
      using check_user_waits [of n c s p e] Cons.prems(2) c by simp
    then show ?thesis using Cons.prems(3,4) False by (intro run_next Cons.IH [OF c(5)]) auto
  qed
qed simp

lemma unpinged_dropped:
  assumes "own_cell n (b_users b)" "watch n b = (STD_CONN, 1, s, q, p)" "q \<noteq> 1" "p \<ge> 0" "g \<ge> 0" "steady g t es"
    "es \<noteq> []" "max t (p + 120) + g + 240 \<le> e_time (last es)" "\<forall>e \<in> set es. e_peer e s \<noteq> None"
  shows "\<exists>k \<le> length es. dropped n s (run_checks (take k es) b)"
  using assms
proof (induction es arbitrary: b t)
  case (Cons e es)
  obtain c where c: "watch n c = watch n b" "watch n (checkstonednick e b) = watch n (check_user e n c)"
      "own_cell n (b_users (checkstonednick e b))"
    using watch_checkstonednick [OF Cons.prems(1)] by blast
  have e: "t \<le> e_time e" "e_time e \<le> t + g" "steady g (e_time e) es" using Cons.prems(6) by simp_all
  have es: "es \<noteq> []" using Cons.prems(8) e by auto
  have last: "e_time (last (e # es)) = e_time (last es)" using es by simp
  show ?case
  proof (cases "p = 0 \<or> p + 120 \<le> e_time e")
    case True
    then have w: "watch n (checkstonednick e b) = (STD_CONN, 1, s, 1, e_time e)"
      using check_user_pings [of n c s q p e] Cons.prems(2,3,4) c by (cases "p = 0") auto
    have "e_time e + 240 \<le> e_time (last es)" using Cons.prems(8) e last by simp
    then have "\<exists>e' \<in> set es. e_time e + 240 \<le> e_time e'" using es last_in_set by blast
    then show ?thesis using Cons.prems(9) by (intro run_next pinged_dropped [OF c(3) w]) auto
  next
    case False
    then have w: "watch n (checkstonednick e b) = (STD_CONN, 1, s, q, p)"
      using check_user_idle [of n c s q p e] Cons.prems(2,3,4) c by auto
    have "max (e_time e) (p + 120) + g + 240 \<le> e_time (last es)" using Cons.prems(8) False last by simp
    then show ?thesis using Cons.prems(3,4,5,9) e es by (intro run_next Cons.IH [OF c(3) w]) auto
  qed
qed simp



end
