(* ===== verification/Settings.thy ===== *)
theory Settings
  imports Server
begin

text \<open>
  The commands with which a client changes the settings of its user, src/p_client.c: switches, texts,
  the lists of hosts, servers and the delay between connections. A setting is kept in the structure of the user and, under
  the same name, in the configuration; most commands write the file at once.
\<close>

section \<open>Answers and entries\<close>

text \<open>A message of the bouncer to the client of \<open>usern\<close>, addressed to the nick of \<open>to\<close>.\<close>

definition reply :: "int \<Rightarrow> int \<Rightarrow> string \<Rightarrow> bnc \<Rightarrow> bnc" where
  "reply to usern t b = to_client usern (psybnc_msg (u_nick (buser b to)) @ t) b"

definition replyp :: "int \<Rightarrow> string \<Rightarrow> bnc \<Rightarrow> bnc" where
  "replyp usern t b = reply (owner usern b) usern t b"

definition CRLF :: string where
  "CRLF = [CR, LF]"

definition put_entry :: "string \<Rightarrow> string \<Rightarrow> string \<Rightarrow> string option \<Rightarrow> bnc \<Rightarrow> bnc option" where
  "put_entry section param fname data b =
     map_option (\<lambda>s. b\<lparr>b_store := s\<rparr>) (store_write section param fname data (b_store b))"

abbreviation put_user :: "int \<Rightarrow> string \<Rightarrow> string \<Rightarrow> bnc \<Rightarrow> bnc option" where
  "put_user usern param data b \<equiv> put_entry ''USER'' param (user_key usern) (Some data) b"

definition flush :: "bnc \<Rightarrow> bnc" where
  "flush b = b\<lparr>b_store := flush_store (b_store b)\<rparr>"

abbreviation ccontent :: "bnc \<Rightarrow> string" where
  "ccontent b \<equiv> irccontent (b_irc b)"

abbreviation cto :: "bnc \<Rightarrow> string" where
  "cto b \<equiv> irc_state.ircto (b_irc b)"

section \<open>Switches\<close>

definition switch :: "string \<Rightarrow> string \<Rightarrow> string \<Rightarrow> (int \<Rightarrow> usert \<Rightarrow> usert) \<Rightarrow> handler" where
  "switch command param what set_field e usern b =
     (let v = atoi (ccontent b) in
      if v \<noteq> 0 \<and> v \<noteq> 1
      then Some (0, replyp usern (''Use '' @ command @ '' 0 or '' @ command @ '' 1.'' @ CRLF) b)
      else do {
        b \<leftarrow> put_user usern param (snpf 10 (decimal_int v)) (bmod usern (set_field v) b);
        Some (0, replyp usern (what @ (if v = 1 then '' enabled.'' else '' disabled.'') @ CRLF) (flush b))
      })"

definition cmdaidle :: handler where
  "cmdaidle = switch ''AIDLE'' ''AIDLE'' ''AIDLE'' (\<lambda>v u. u\<lparr>u_antiidle := v\<rparr>)"

definition cmdautorejoin :: handler where
  "cmdautorejoin = switch ''AUTOREJOIN'' ''AUTOREJOIN'' ''AUTOREJOIN'' (\<lambda>v u. u\<lparr>u_autorejoin := v\<rparr>)"

definition cmdleavequit :: handler where
  "cmdleavequit = switch ''LEAVEQUIT'' ''LEAVEQUIT'' ''LEAVEQUIT'' (\<lambda>v u. u\<lparr>u_leavequit := v\<rparr>)"

definition cmddccenable :: handler where
  "cmddccenable = switch ''DCCENABLE'' ''DCCENABLED'' ''Pending DCCs'' (\<lambda>v u. u\<lparr>u_dccenabled := v\<rparr>)"

definition cmdautogetdcc :: handler where
  "cmdautogetdcc = switch ''AUTOGETDCC'' ''AUTOGETDCC'' ''AUTOGETDCC'' (\<lambda>v u. u\<lparr>u_autogetdcc := v\<rparr>)"

section \<open>Texts\<close>

definition set_text ::
  "string \<Rightarrow> nat \<Rightarrow> (string \<Rightarrow> usert \<Rightarrow> usert) \<Rightarrow> string \<Rightarrow> string \<Rightarrow> handler" where
  "set_text param bufsize set_field before behind e usern b =
     (let t = strmncpy (ccontent b) bufsize in
      do {
        b \<leftarrow> put_user usern param t (bmod usern (set_field t) b);
        Some (0, replyp usern (before @ '' changed to '' @ [CHR 0x27] @ t @ [CHR 0x27] @ behind @ CRLF) (flush b))
      })"

definition cmdsetaway :: handler where
  "cmdsetaway = set_text ''AWAY'' 64 (\<lambda>t u. u\<lparr>u_away := t\<rparr>) ''AWAY'' ''.''"

definition cmdsetleavemsg :: handler where
  "cmdsetleavemsg = set_text ''LEAVEMSG'' 64 (\<lambda>t u. u\<lparr>u_leavemsg := t\<rparr>) ''LEAVE Messages''
     ''. Message will be posted to channels when leaving.''"

definition cmdsetawaynick :: handler where
  "cmdsetawaynick = set_text ''AWAYNICK'' 16 (\<lambda>t u. u\<lparr>u_awaynick := t\<rparr>) ''AWAY-Nick'' ''.''"

definition cmdsetusername :: handler where
  "cmdsetusername = set_text ''USER'' 64 (\<lambda>t u. u\<lparr>u_user := t\<rparr>) ''Realname'' ''. You need to use JUMP to activate it.''"

text \<open>The nick that is wanted is not stored; the line goes on to the server.\<close>

definition cmdnick :: handler where
  "cmdnick e usern b = Some (0, bmod usern (\<lambda>u. u\<lparr>u_wantnick := strmncpy (ccontent b) 64\<rparr>) b)"

section \<open>Lists\<close>

text \<open>
  An entry of a list is a host, or what stands for it, and a parameter. The list grows in memory and
  in the configuration in memory; the file is not written.
\<close>

definition add_entry ::
  "string \<Rightarrow> string \<Rightarrow> string \<Rightarrow> string \<Rightarrow> (stringarray \<Rightarrow> bnc \<Rightarrow> bnc) \<Rightarrow> stringarray \<Rightarrow> (string \<Rightarrow> string) \<Rightarrow>
   int \<Rightarrow> bnc \<Rightarrow> (int \<times> bnc) option" where
  "add_entry section fname host param put th said usern b =
     do {
       (th, c) \<leftarrow> writelist host param (snpf 40 (fname @ ''.'' @ section)) th (fst (b_store b));
       Some (0, replyp usern (said host) (put th (b\<lparr>b_store := (c, snd (b_store b))\<rparr>)))
     }"

definition add_list ::
  "string \<Rightarrow> string \<Rightarrow> string \<Rightarrow> string \<Rightarrow> (usert \<Rightarrow> stringarray) \<Rightarrow> (stringarray \<Rightarrow> usert \<Rightarrow> usert) \<Rightarrow>
   (env \<Rightarrow> string \<Rightarrow> string option) \<Rightarrow> (string \<Rightarrow> string) \<Rightarrow> (string \<Rightarrow> string \<Rightarrow> string) \<Rightarrow> handler" where
  "add_list section nohost noparam nosemi get set_field crypt host said e usern b =
     (if ccontent b = [] then Some (0, replyp usern nohost b)
      else if cto b = [] then Some (0, replyp usern noparam b)
      else if strchr (ccontent b) (CHR '';'') \<noteq> None then Some (0, replyp usern nosemi b)
      else do {
        let b = mod_irc (\<lambda>i. i\<lparr>irccontent := host (irccontent i)\<rparr>) b;
        param \<leftarrow> crypt e (cto b);
        add_entry section (''USER'' @ decimal_int usern) (ccontent b) param (\<lambda>th. bmod usern (set_field th))
          (get (buser b usern)) (\<lambda>h. said h (cto b)) usern b
      })"

definition plain :: "env \<Rightarrow> string \<Rightarrow> string option" where
  "plain e s = Some s"

definition crypted :: "env \<Rightarrow> string \<Rightarrow> string option" where
  "crypted e s = cryptit (e_salt e) s"

definition cmdaddop :: handler where
  "cmdaddop = add_list ''OP'' ''No Host given. Use ADDOP [#chan] password :host''
     ''No Password given. Use ADDOP [#chan] password :host'' ''You may not use ; in hostnames''
     u_ops (\<lambda>th u. u\<lparr>u_ops := th\<rparr>) crypted (\<lambda>h. h) (\<lambda>h p. ''Added op for hostmask '' @ h @ '' ('' @ p @ '')'')"

definition cmdaddautoop :: handler where
  "cmdaddautoop = add_list ''AOP'' ''No Host given. Use ADDAUTOOP #chan :host''
     ''No Channel given. Use ADDAUTOOP #chan :host'' ''You may not use ; in hostnames''
     u_aops (\<lambda>th u. u\<lparr>u_aops := th\<rparr>) crypted (\<lambda>h. h) (\<lambda>h p. ''Added auto-op for hostmask '' @ h @ '' ('' @ p @ '')'')"

definition cmdaddask :: handler where
  "cmdaddask = add_list ''ASK'' ''No Host given. Use ADDASK [#chan] password :host''
     ''No Password given. Use ADDASK [#chan] password :host'' ''You may not use ; in hostnames''
     u_askops (\<lambda>th u. u\<lparr>u_askops := th\<rparr>) crypted (\<lambda>h. h) (\<lambda>h p. ''Added op from hostmask '' @ h @ '' ('' @ p @ '')'')"

definition cmdaddban :: handler where
  "cmdaddban = add_list ''BAN'' ''No Host given. Use ADDBAN [#chan] reason :host''
     ''No Reason given. Use ADDBAN [#chan] reason :host'' ''You may not use : in hostnames''
     u_bans (\<lambda>th u. u\<lparr>u_bans := th\<rparr>) plain (\<lambda>h. h) (\<lambda>h p. ''Added ban for host '' @ h @ '' ('' @ p @ '')'')"

definition cmdaddignore :: handler where
  "cmdaddignore = add_list ''IGN'' ''No Host given. Use ADDIGNORE content :host (* as wildcard)''
     ''No Content given. Use ADDIGNORE content :host (* as wildcard)'' ''You may not use : in hostnames''
     u_ignores (\<lambda>th u. u\<lparr>u_ignores := th\<rparr>) plain (\<lambda>h. h) (\<lambda>h p. ''Added ignore for host '' @ h @ '' ('' @ p @ '')'')"

definition cmdaddlog :: handler where
  "cmdaddlog = add_list ''LGI''
     ''No Log Filter given (Use * for all). Use ADDLOG [#chan/logdest.] :filter(included text to get logged)''
     ''No Destination given. Use ADDLOG [#chan/logdest.] :filter'' ''You may not use ; in filters''
     u_logs (\<lambda>th u. u\<lparr>u_logs := th\<rparr>) plain (\<lambda>h. h) (\<lambda>h p. ''Added log for destination '' @ p @ '' (filtering '' @ h @ '')'')"

definition cmdencrypt :: handler where
  "cmdencrypt = add_list ''ENC'' ''No channel or nick given. Use ENCRYPT password :#channel or nick''
     ''No Password given. Use ENCRYPT password :#channel or nick'' ''You may not use ; in chan or nick''
     u_encrypt (\<lambda>th u. u\<lparr>u_encrypt := th\<rparr>) crypted ucase (\<lambda>h p. ''Added encryption for '' @ h @ '' ('' @ p @ '')'')"

text \<open>The hosts that may connect belong to the bouncer.\<close>

definition put_hostallows :: "stringarray \<Rightarrow> bnc \<Rightarrow> bnc" where
  "put_hostallows th b = b\<lparr>b_hostallows := th\<rparr>"

definition cmdaddallow :: handler where
  "cmdaddallow e usern b =
     (if ccontent b = [] then Some (0, replyp usern ''No Host given. Use ADDALLOW :hostmask'' b)
      else if strchr (ccontent b) (CHR '';'') \<noteq> None then Some (0, replyp usern ''You may not use ; in hostnames'' b)
      else add_entry ''HOSTALLOWS'' ''PSYBNC'' (ccontent b) ''*'' put_hostallows (b_hostallows b)
             (\<lambda>h. ''Added Host allow from hostmask '' @ h) usern b)"

text \<open>The number of an entry, counted from 0; a word that is no number counts as 0.\<close>

definition del_entry ::
  "string \<Rightarrow> string \<Rightarrow> (stringarray \<Rightarrow> bnc \<Rightarrow> bnc) \<Rightarrow> stringarray \<Rightarrow> bnc \<Rightarrow> bnc option" where
  "del_entry section fname put th b =
     do {
       (th, c) \<leftarrow> eraselist (atoi (ccontent b)) (snpf 40 (fname @ ''.'' @ section)) th (fst (b_store b));
       Some (put th (b\<lparr>b_store := (c, snd (b_store b))\<rparr>))
     }"

text \<open>\<open>who\<close> is whose nick the answers are addressed to.\<close>

definition del_list ::
  "string \<Rightarrow> string \<Rightarrow> string \<Rightarrow> (int \<Rightarrow> bnc \<Rightarrow> int) \<Rightarrow> (usert \<Rightarrow> stringarray) \<Rightarrow> (stringarray \<Rightarrow> usert \<Rightarrow> usert) \<Rightarrow> handler" where
  "del_list section command what who get set_field e usern b =
     (if ccontent b = [] then Some (0, reply (who usern b) usern (''No number given. Use '' @ command @ '' number'') b)
      else do {
        b \<leftarrow> del_entry section (''USER'' @ decimal_int usern) (\<lambda>th. bmod usern (set_field th)) (get (buser b usern)) b;
        Some (0, reply (who usern b) usern (what @ '' Number '' @ ccontent b @ '' removed'') b)
      })"

definition the_user :: "int \<Rightarrow> bnc \<Rightarrow> int" where
  "the_user usern b = usern"

definition cmddelop :: handler where
  "cmddelop = del_list ''OP'' ''DELOP'' ''Op'' owner u_ops (\<lambda>th u. u\<lparr>u_ops := th\<rparr>)"

definition cmddelautoop :: handler where
  "cmddelautoop = del_list ''AOP'' ''DELOP'' ''Auto-Op'' owner u_aops (\<lambda>th u. u\<lparr>u_aops := th\<rparr>)"

definition cmddelask :: handler where
  "cmddelask = del_list ''ASK'' ''DELASK'' ''AskOp'' the_user u_askops (\<lambda>th u. u\<lparr>u_askops := th\<rparr>)"

definition cmddelban :: handler where
  "cmddelban = del_list ''BAN'' ''DELBAN'' ''Ban'' owner u_bans (\<lambda>th u. u\<lparr>u_bans := th\<rparr>)"

definition cmddelignore :: handler where
  "cmddelignore = del_list ''IGN'' ''DELIGNORE'' ''Ignore'' owner u_ignores (\<lambda>th u. u\<lparr>u_ignores := th\<rparr>)"

definition cmddellog :: handler where
  "cmddellog = del_list ''LGI'' ''DELLOG'' ''Log Entry'' owner u_logs (\<lambda>th u. u\<lparr>u_logs := th\<rparr>)"

definition cmddelencrypt :: handler where
  "cmddelencrypt = del_list ''ENC'' ''DELENCRYPT'' ''Encryption'' the_user u_encrypt (\<lambda>th u. u\<lparr>u_encrypt := th\<rparr>)"

definition cmddelallow :: handler where
  "cmddelallow e usern b =
     (if ccontent b = [] then Some (0, reply usern usern ''No number given. Use DELALLOW number'' b)
      else do {
        b \<leftarrow> del_entry ''HOSTALLOWS'' ''PSYBNC'' put_hostallows (b_hostallows b) b;
        Some (0, reply usern usern (''Host Allow Number '' @ ccontent b @ '' removed'') b)
      })"

text \<open>The entries with their numbers, up to the first gap; a crypted parameter is shown in clear.\<close>

definition list_text :: "salt \<Rightarrow> string \<Rightarrow> string option" where
  "list_text sl pt =
     (case split_at (CHR '';'') pt of
        None \<Rightarrow> Some (strmncpy pt 650)
      | Some (host, pt2) \<Rightarrow>
          map_option (\<lambda>p. snpf 650 (host @ '':'' @ p)) (if at pt2 0 = CHR ''+'' then decryptit sl pt2 else Some pt2))"

fun liststrings_loop :: "env \<Rightarrow> int \<Rightarrow> int \<Rightarrow> stringarray \<Rightarrow> bnc \<Rightarrow> bnc option" where
  "liststrings_loop e usern counter [] b = Some b"
| "liststrings_loop e usern counter (None # th) b = Some b"
| "liststrings_loop e usern counter (Some x # th) b =
     do {
       t \<leftarrow> list_text (e_salt e) (strmncpy x 650);
       liststrings_loop e usern (counter + 1) th (replyp usern (''Entry #'' @ decimal_int counter @ '': '' @ t) b)
     }"

definition liststrings :: "env \<Rightarrow> stringarray \<Rightarrow> int \<Rightarrow> bnc \<Rightarrow> bnc option" where
  "liststrings e th usern b = liststrings_loop e usern 0 th b"

definition show_list :: "string \<Rightarrow> (int \<Rightarrow> bnc \<Rightarrow> stringarray) \<Rightarrow> handler" where
  "show_list what get e usern b =
     do {
       b \<leftarrow> liststrings e (get usern b) usern (replyp usern (''Listing '' @ what @ '':'') b);
       Some (0, replyp usern ''End of List.'' b)
     }"

definition cmdlistops :: handler where
  "cmdlistops = show_list ''OPs'' (\<lambda>usern b. u_ops (buser b usern))"

definition cmdlistautoops :: handler where
  "cmdlistautoops = show_list ''Auto-OPs'' (\<lambda>usern b. u_aops (buser b usern))"

definition cmdlistask :: handler where
  "cmdlistask = show_list ''AskOPs'' (\<lambda>usern b. u_askops (buser b usern))"

definition cmdlistallow :: handler where
  "cmdlistallow = show_list ''Host Allows'' (\<lambda>usern b. b_hostallows b)"

definition cmdlistbans :: handler where
  "cmdlistbans = show_list ''Bans'' (\<lambda>usern b. u_bans (buser b usern))"

definition cmdlistignores :: handler where
  "cmdlistignores = show_list ''Ignores'' (\<lambda>usern b. u_ignores (buser b usern))"

definition cmdlistencrypt :: handler where
  "cmdlistencrypt = show_list ''Encryptions'' (\<lambda>usern b. u_encrypt (buser b usern))"

definition cmdlistlogs :: handler where
  "cmdlistlogs = show_list ''Log-Entrys'' (\<lambda>usern b. u_logs (buser b usern))"

section \<open>Servers\<close>

text \<open>
  Host and port of \<open>ADDSERVER host :port password\<close>: the last colon behind the first character
  separates them; without one, the host is empty and the first character is lost. The read behind
  an empty text is undefined.
\<close>

definition host_port :: "string \<Rightarrow> (string \<times> string) option" where
  "host_port g =
     (let g = dropWhile (\<lambda>c. c = CHR '' '') g in
      case g of
        [] \<Rightarrow> None
      | x # r \<Rightarrow> (case split_last (CHR '':'') r of
                    None \<Rightarrow> Some ([], r)
                  | Some (h, p) \<Rightarrow> Some (x # h, p)))"

definition server_entry :: "string \<Rightarrow> int \<Rightarrow> string" where
  "server_entry key nr = snpf 400 (key @ decimal_int nr)"

text \<open>The first number without a server. Every server on the way is loaded into the user.\<close>

fun free_server :: "int list \<Rightarrow> int \<Rightarrow> conf \<Rightarrow> usert \<Rightarrow> int option \<times> usert" where
  "free_server [] usern c u = (None, u)"
| "free_server (nmsrv # nrs) usern c u =
     (case getserver nmsrv usern c u of
        (rc, u) \<Rightarrow> if rc < 0 then (Some nmsrv, u) else free_server nrs usern c u)"

definition put_server :: "int \<Rightarrow> int \<Rightarrow> string \<Rightarrow> string \<Rightarrow> string option \<Rightarrow> bnc \<Rightarrow> bnc option" where
  "put_server usern nr host port pw b =
     (let put = (\<lambda>key t b. put_entry ''SERVERS'' (server_entry key nr) (user_key usern) (Some t) b) in
      do {
        b \<leftarrow> (case pw of None \<Rightarrow> Some b | Some p \<Rightarrow> put ''SPASS'' p b);
        b \<leftarrow> put ''PORT'' port b;
        b \<leftarrow> put ''SERVER'' host b;
        Some (flush b)
      })"

definition cmdaddserver :: handler where
  "cmdaddserver e usern b =
     (if cto b = [] then Some (-1, replyp usern (''No server given. Syntax is ADDSERVER hostname :port'' @ CRLF) b)
      else if strmwildcmp (cto b) ''*.eushells.com''
      then Some (-1, replyp usern (''Please provide a valid IRC-server as hostname, not your bouncer itself.'' @ CRLF) b)
      else do {
        (host, r) \<leftarrow> host_port (snpf 400 (cto b @ '':'' @ ccontent b));
        case free_server [1..9] usern (fst (b_store b)) (buser b usern) of
          (None, u) \<Rightarrow> Some (-1, replyp usern (''No server entry free.'' @ CRLF) (bmod usern (\<lambda>_. u) b))
        | (Some nr, u) \<Rightarrow>
            do {
              let (port, pw) = (case split_at (CHR '' '') r of None \<Rightarrow> (r, None) | Some (p, w) \<Rightarrow> (p, Some w));
              let port = strmncpy (if port = [] then ''6667'' else port) 6000;
              let b = mod_irc (\<lambda>i. i\<lparr>irccontent := port\<rparr>) (bmod usern (\<lambda>_. u) b);
              b \<leftarrow> put_server usern nr host port pw b;
              let b = replyp usern (''Server '' @ host @ '' port '' @ port @ '' (password: '' @
                        (case pw of None \<Rightarrow> ''None'' | Some w \<Rightarrow> w) @ '') added.'' @ CRLF) b;
              Some (0, bmod usern (\<lambda>u. u\<lparr>u_delayed := 0\<rparr>) b)
            }
      })"

definition cmddelserver :: handler where
  "cmddelserver e usern b =
     (if ccontent b = [] then Some (-1, replyp usern (''No server given. Syntax is DELSERVER number'' @ CRLF) b)
      else
        let del = (\<lambda>key b. put_entry ''SERVERS'' (snpf 400 (key @ ccontent b)) (user_key usern) None b) in
        do {
          b \<leftarrow> del ''SPASS'' b;
          b \<leftarrow> del ''PORT'' b;
          b \<leftarrow> del ''SERVER'' b;
          Some (-1, replyp usern (''Server '' @ ccontent b @ '' deleted.'' @ CRLF) (flush b))
        })"

text \<open>
  Listing loads every server into the user and puts name and port of the current one back, but not
  its password.
\<close>

fun listservers_loop :: "int \<Rightarrow> int list \<Rightarrow> bnc \<Rightarrow> bnc" where
  "listservers_loop usern [] b = b"
| "listservers_loop usern (nmsrv # nrs) b =
     (case getserver nmsrv usern (fst (b_store b)) (buser b usern) of
        (rc, u) \<Rightarrow>
          let b = bmod usern (\<lambda>_. u) b in
          listservers_loop usern nrs
            (if rc = 0 then replyp usern (''Server #'' @ decimal_int nmsrv @ '': '' @ u_server u @ '' port '' @
                              decimal_int (u_port u) @ CRLF) b else b))"

definition cmdlistservers :: handler where
  "cmdlistservers e usern b =
     (let sicport = u_port (buser b usern); sicsrv = strmncpy (u_server (buser b usern)) 400;
          b = replyp usern (''End of Servers.'' @ CRLF) (listservers_loop usern [1..9] b)
      in Some (-1, bmod usern (\<lambda>u. u\<lparr>u_server := strmncpy sicsrv 255, u_port := sicport\<rparr>) b))"

section \<open>The virtual host\<close>

definition put_vhost :: "int \<Rightarrow> int \<Rightarrow> string \<Rightarrow> bnc \<Rightarrow> bnc option" where
  "put_vhost fuid vl host b =
     do {
       let v = strmncpy host 255;
       let b = bmod fuid (\<lambda>u. u\<lparr>u_vlink := vl, u_vhost := v\<rparr>) b;
       b \<leftarrow> put_user fuid ''VHOST'' v b;
       b \<leftarrow> put_user fuid ''VLINK'' (snpf 100 (decimal_int vl)) b;
       Some (flush b)
     }"

text \<open>The user with a login, or the owner of the network with it.\<close>

fun login_loop :: "string \<Rightarrow> int list \<Rightarrow> bnc \<Rightarrow> int" where
  "login_loop nick [] b = 0"
| "login_loop nick (uind # th) b =
     (let u = buser b uind in
      if length (u_login u) = length nick \<and> strstr (u_login u) nick \<noteq> None
      then (if u_parent u \<noteq> 0 then u_parent u else uind)
      else login_loop nick th b)"

definition by_login :: "string \<Rightarrow> bnc \<Rightarrow> int" where
  "by_login nick b = login_loop nick (uids (b_users b)) b"

definition no_user :: "string \<Rightarrow> string" where
  "no_user name = ''User '' @ name @ '' not found.'' @ CRLF"

definition cmdvhost :: handler where
  "cmdvhost e usern b =
     (let vl = atoi (cto b); fuid = by_login (cto b) b;
          admin = (u_rights (buser b (owner usern b)) = RI_ADMIN \<and> cto b \<noteq> []);
          quoted = (\<lambda>t. [CHR 0x27] @ t @ [CHR 0x27])
      in if vl \<noteq> 0
         then if l_type (e_link e vl) \<noteq> 1 \<and> l_type (e_link e vl) \<noteq> 2
           then Some (0, reply usern usern (''Link '' @ quoted (decimal_int vl) @ '' not found.'' @ CRLF) b)
           else do {
             b \<leftarrow> put_vhost usern vl (ccontent b) b;
             Some (0, replyp usern (''VHOST changed to '' @ quoted (u_vhost (buser b usern)) @ '' on Link '' @ decimal_int vl @
                        ''. Use JUMP to activate changed hostname.'' @ CRLF) b)
           }
         else if admin \<and> fuid = 0 then Some (0, replyp usern (no_user (cto b)) b)
         else do {
           let fuid = (if admin then fuid else usern);
           b \<leftarrow> put_vhost fuid 0 (ccontent b) b;
           Some (0, replyp usern (''VHOST changed to '' @ quoted (u_vhost (buser b fuid)) @ ''.'' @ CRLF) b)
         })"

section \<open>The delay between connections\<close>

definition delay_ok :: "string \<Rightarrow> bool" where
  "delay_ok t \<longleftrightarrow> t = ''0'' \<or> (atoi t > 0 \<and> atoi t \<le> 600)"

definition repair_delay :: "env \<Rightarrow> bnc \<Rightarrow> bnc option" where
  "repair_delay e b =
     (if delay_ok (ccontent b) then Some b
      else do {
        let b = p_log e LOG_INFO (-1) (''Connection delay changed from invalid value to 30 seconds by System.'') b;
        b \<leftarrow> put_entry ''SYSTEM'' ''CONNECTDELAY'' ''PSYBNC'' (Some ''30'') b;
        Some (flush b)
      })"

text \<open>
  The old value is looked at together with the new one: a value that is not positive, or a new value
  over 600, makes it count as 30.
\<close>

definition cmdsetconnectdelay :: handler where
  "cmdsetconnectdelay e usern b =
     (if ccontent b = [] then Some (-1, reply usern usern ''No delay given. Use SETCONNECTDELAY delay.'' b)
      else
        let (rc, v) = getini ''SYSTEM'' ''CONNECTDELAY'' ''PSYBNC'' (fst (b_store b));
            invalid = (rc \<noteq> 0 \<or> (v \<noteq> ''0'' \<and> (atoi v \<le> 0 \<or> atoi (ccontent b) > 600)));
            olddelay = (if invalid then 30 else atoi v)
        in do {
          b \<leftarrow> (if invalid then repair_delay e b else Some b);
          if \<not> delay_ok (ccontent b)
          then Some (-1, reply usern usern ''Invalid connection delay. It must be an integer between 0 and 600.'' b)
          else do {
            b \<leftarrow> put_entry ''SYSTEM'' ''CONNECTDELAY'' ''PSYBNC'' (Some (ccontent b)) b;
            let b = reply usern usern (''Connection delay changed from '' @ decimal_int olddelay @ '' seconds to to '' @
                      decimal_int (atoi (ccontent b)) @ '' seconds.'') (flush b);
            Some (-1, p_log e LOG_INFO (-1) (''Connection delay changed from '' @ decimal_int olddelay @ '' seconds to '' @
                        decimal_int (atoi (ccontent b)) @ '' seconds by '' @ u_login (buser b usern) @ ''.'') b)
          }
        })"

end
