(* ===== verification/Client.thy ===== *)
theory Client
  imports Settings
begin

text \<open>
  The commands of a client that are more than settings, src/p_client.c: the connection to the server,
  administration of the users, passwords, what is said, and the end of a client's connection. Scripts,
  the dispatcher that some commands call again, and the queries to other bouncers are arguments.
\<close>

section \<open>Help and greeting\<close>

text \<open>
  The help of the dispatcher, with the name and version of the program. The user whose parent is
  looked at is number 0.
\<close>

definition app_version :: string where
  "app_version = ''psyBNC2.4-BETA1''"

definition printhelp :: "(int \<Rightarrow> bnc \<Rightarrow> bnc) \<Rightarrow> handler" where
  "printhelp aliasbhelp e ausern b =
     (let usern = (if u_parent (buser b 0) \<noteq> 0 then u_parent (buser b 0) else ausern);
          say = (\<lambda>t b. reply usern usern (t @ [LF]) b)
      in Some (0, say ''BHELP - End of help''
           (if ccontent b = [] \<or> ausern = 0
            then userhelp aliasbhelp (b_files b) usern None (say ''--------------------------------------''
                   (to_client usern (strmncpy (psybnc_msg (u_nick (buser b usern))) 250 @ app_version @
                      '' Help (* = BounceAdmin only)'' @ [LF]) b))
            else userhelp aliasbhelp (b_files b) usern (Some (ccontent b)) b)))"

text \<open>The lines of a file as \<open>fgets\<close> reads them into a buffer of 1024 bytes.\<close>

function motd_lines :: "string \<Rightarrow> string list" where
  "motd_lines text =
     (if text = [] then [] else let buf = fgets 1024 text in buf # motd_lines (drop (length buf) text))"
  by pat_completeness auto
termination
  by (relation "measure length") (auto simp: fgets_not_Nil)

declare motd_lines.simps [simp del]

text \<open>The host in the greeting becomes the one the client connects from.\<close>

definition motd_line :: "string \<Rightarrow> string \<Rightarrow> string" where
  "motd_line host buf =
     (case strstr buf '' 001 '' of
        None \<Rightarrow> buf
      | Some i \<Rightarrow>
          (case strchr (drop i buf) (CHR ''@'') of
             None \<Rightarrow> buf
           | Some j \<Rightarrow>
               let t = take (i + j + 1) buf in
               if length t + length host + 2 < 8192 then t @ host @ [LF] else t))"

definition show_motd :: "int \<Rightarrow> string \<Rightarrow> bnc \<Rightarrow> bnc" where
  "show_motd usern buf b =
     (let b = parentnick usern (b\<lparr>b_buf := motd_line (u_host (buser b (owner usern b))) buf\<rparr>)
      in bwrite (u_insock (buser b usern)) (b_buf b) b)"

text \<open>The DCC connections of a user that are established.\<close>

definition live_dccs :: "int \<Rightarrow> bnc \<Rightarrow> int list" where
  "live_dccs usern b =
     map (\<lambda>l. l_outsock l) (filter (\<lambda>l. l_outstate l = STD_CONN) (List.map_filter snd (u_dcc (buser b usern))))"

definition repeatserverinit :: "int \<Rightarrow> bnc \<Rightarrow> int \<times> bnc" where
  "repeatserverinit usern b =
     (case b_files b (motd_name usern) of
        None \<Rightarrow> (-1, b)
      | Some text \<Rightarrow>
          let b = fold (show_motd usern) (motd_lines text) b;
              (found, b) = checkforlog usern b;
              userp = owner usern b;
              b = (if found \<and> u_firstnick (buser b userp) \<noteq> []
                   then to_client usern (psybnc_msg (u_firstnick (buser b userp)) @
                          ''You have Messages. Type /QUOTE PLAYPRIVATELOG to read your messages.'') b
                   else b);
              b = (if u_away (buser b usern) \<noteq> []
                   then fold (\<lambda>s. bwrite s (''.AWAY'' @ CRLF)) (live_dccs usern b)
                          (bwrite (u_outsock (buser b usern)) (''AWAY'' @ CRLF) b)
                   else b)
          in (0, bmod usern (\<lambda>u. u\<lparr>u_gotop := 0\<rparr>) b))"

section \<open>Who is on the bouncer\<close>

definition bwho_line :: "int \<Rightarrow> int \<Rightarrow> int \<Rightarrow> bnc \<Rightarrow> string" where
  "bwho_line usern userp userl b =
     (let u = buser b userl;
          away = (u_host u = []);
          i = (if away then CHR '' '' else if u_parent u \<noteq> 0 then CHR ''^'' else CHR ''*'');
          seen = (away \<and> u_parent u = 0);
          plainuser = (u_rights (buser b usern) = RI_USER)
      in snpf 400 ('':-psyBNC!psyBNC@psyBNC.dk '' @ (if plainuser \<and> seen then ''NOTICE '' else ''PRIVMSG '') @
           u_nick (buser b userp) @ '' :'' @ [i] @ '' '' @ u_login u @ ''('' @ u_nick u @ '')'' @
           (if plainuser then [] else ''@'' @ u_host u) @ '' ['' @ u_network u @ '':'' @ u_server u @ ''] :'' @ u_user u @
           (if seen then '' [last:'' @ u_last u @ replicate (20 - length (u_last u)) (CHR '' '') @ '']'' else []) @ CRLF))"

definition bwho_step :: "int \<Rightarrow> int \<Rightarrow> int \<Rightarrow> bnc \<Rightarrow> bnc" where
  "bwho_step usern userp userl b =
     (if u_login (buser b userl) = [] then b
      else bwrite (u_insock (buser b usern)) (bwho_line usern userp userl b) b)"

definition cmdbwho :: handler where
  "cmdbwho e usern b =
     (let b = fold (bwho_step usern (owner usern b)) (uids (b_users b)) b;
          b = b\<lparr>b_buf := snpf 8192 ('':'' @ u_login (buser b usern) @ ''!*@'' @ e_me e @ '' BWHO :'' @ CRLF)\<rparr>
      in Some (0, bout (Broadcast (b_buf b)) b))"

section \<open>The connection to the server\<close>

definition save_user :: "env \<Rightarrow> int \<Rightarrow> bnc \<Rightarrow> bnc option" where
  "save_user e n b = with_user n (writeuser (e_salt e) n) b"

definition cmdjump :: handler where
  "cmdjump e usern b =
     (if u_outstate (buser b usern) = STD_CONN
      then
        let v = atoi (ccontent b);
            b = (if 0 < v \<and> v < 21 then bmod usern (\<lambda>u. u\<lparr>u_currentserver := v - 1\<rparr>) b else b);
            b = replyp usern (''Hop requested, changing servers.'' @ CRLF) b;
            b = p_log e LOG_INFO usern (''Hop requested by '' @ u_login (buser b usern) @ ''. Quitting.'') b;
            b = bmod usern (\<lambda>u. u\<lparr>u_afterquit := 1\<rparr>) b
        in Some (0, kill_server e usern (bwrite (u_outsock (buser b usern)) (''QUIT :changing servers'' @ CRLF) b))
      else Some (0, replyp usern (''You are not connected.'' @ CRLF) b))"

text \<open>What a user that has quitted keeps of his connection, with an answer once it is closed.\<close>

definition leave_server :: "env \<Rightarrow> int \<Rightarrow> (bnc \<Rightarrow> bnc) \<Rightarrow> bnc \<Rightarrow> bnc" where
  "leave_server e n answer b =
     (if u_outstate (buser b n) = STD_CONN
      then
        let b = kill_server e n (bwrite (u_outsock (buser b n)) (''QUIT :'' @ [LF]) b);
            b = answer (bmod n (\<lambda>u. u\<lparr>u_outstate := STD_NOCON\<rparr>) b)
        in bmod n (\<lambda>u. u\<lparr>u_instate := STD_CONN, u_outsock := 0, u_server := []\<rparr>) b
      else b)"

text \<open>
  Another user is named by his login; only admins may. \<open>irccontent\<close> is overwritten with the login of
  the user who asks.
\<close>

definition named_user :: "int \<Rightarrow> bnc \<Rightarrow> int option \<times> bnc" where
  "named_user usern b =
     (let uind = by_login (ccontent b) b in
      if uind = 0 then (None, reply usern usern (''User '' @ ccontent b @ '' not found'') b)
      else
        let b = mod_irc (\<lambda>i. i\<lparr>irccontent := strmncpy (u_login (buser b usern)) 6000\<rparr>) b in
        if uind \<noteq> usern \<and> u_rights (buser b usern) \<noteq> RI_ADMIN
        then (None, reply usern usern (''You cant change other peoples connection state.'') b)
        else (Some uind, b))"

definition cmdbquit :: handler where
  "cmdbquit e usern b =
     (let userp = owner usern b; mark = bmod usern (\<lambda>u. u\<lparr>u_quitted := 1\<rparr>) in
      if ccontent b = []
      then
        if u_quitted (buser b usern) = 1 then Some (0, reply userp usern (''You are already quitted.'' @ [LF]) b)
        else do {
          b \<leftarrow> save_user e usern (reply userp usern (''You have been marked as quitted.'' @ [LF]) (mark b));
          Some (0, leave_server e usern (reply userp usern (''You have been disconnected.'' @ [LF])) b)
        }
      else (case named_user usern b of
        (None, b) \<Rightarrow> Some (-1, b)
      | (Some v, b) \<Rightarrow>
          let pnick = u_nick (buser b userp) in
          if u_quitted (buser b v) = 1
          then Some (0, reply userp userp (''User '' @ u_nick (buser b v) @ '' is already quitted.'') b)
          else do {
            let b = bmod v (\<lambda>u. u\<lparr>u_quitted := 1\<rparr>) b;
            let b = reply v v (''You have been marked as quitted by '' @ pnick @ ''.'' @ [LF]) b;
            let b = reply userp userp (''User '' @ u_nick (buser b v) @ '' has been marked as quitted.'') b;
            b \<leftarrow> save_user e v b;
            Some (0, leave_server e v (reply v v (''You have been disconnected by '' @ pnick @ ''.'' @ [LF])) b)
          }))"

definition reconnect :: "int \<Rightarrow> bnc \<Rightarrow> bnc" where
  "reconnect n b = bmod n (\<lambda>u. u\<lparr>u_quitted := 0, u_delayed := 0\<rparr>) b"

definition cmdbconnect :: handler where
  "cmdbconnect e usern b =
     (let userp = owner usern b in
      if ccontent b = []
      then
        if u_quitted (buser b usern) = 0 then Some (0, reply userp usern (''You are not marked as quit.'' @ [LF]) b)
        else map_option (\<lambda>b. (0, b)) (save_user e usern (reconnect usern b))
      else (case named_user usern b of
        (None, b) \<Rightarrow> Some (-1, b)
      | (Some v, b) \<Rightarrow>
          if u_quitted (buser b v) = 0
          then Some (0, reply userp userp (''User '' @ ccontent b @ '' is not marked as quit.'' @ [LF]) b)
          else
            let b = reconnect v b;
                b = reply v v (''You have been connected by '' @ u_nick (buser b userp) @ ''.'') b;
                b = reply userp userp (''User '' @ u_nick (buser b v) @ '' has been connected.'' @ [LF]) b
            in map_option (\<lambda>b. (0, b)) (save_user e v b)))"

section \<open>Networks of other users\<close>

definition findnet :: "int \<Rightarrow> string \<Rightarrow> bnc \<Rightarrow> int" where
  "findnet usern name b =
     (case find (\<lambda>i. u_parent (buser b i) = usern \<and> strmcmp (u_network (buser b i)) name) (uids (b_users b)) of
        None \<Rightarrow> 0
      | Some i \<Rightarrow> i)"

text \<open>A user and one of his networks, or the answer that says what is missing.\<close>

definition named_net :: "string \<Rightarrow> int \<Rightarrow> string \<Rightarrow> bool \<Rightarrow> bnc \<Rightarrow> int option \<times> bnc" where
  "named_net syntax usern network complete b =
     (let name = cto b; v = by_login name b; n = findnet v network b in
      if \<not> complete \<or> name = [] then (None, replyp usern (''Incorrect syntax. Use: '' @ syntax) b)
      else if v = 0 then (None, replyp usern (no_user name) b)
      else if n = 0
      then (None, replyp usern (''Network '' @ [CHR 0x27] @ network @ [CHR 0x27] @ '' not found for user '' @
                    [CHR 0x27] @ name @ [CHR 0x27] @ ''.'') b)
      else (Some n, b))"

definition on_network :: "string \<Rightarrow> string \<Rightarrow> string \<Rightarrow> string \<Rightarrow> string" where
  "on_network name what network behind =
     ''User '' @ [CHR 0x27] @ name @ [CHR 0x27] @ what @ '' network '' @ [CHR 0x27] @ network @ [CHR 0x27] @ behind"

definition cmdbquitn :: handler where
  "cmdbquitn e usern b =
     (case named_net ''BQUITN <user> :<net>'' usern (ccontent b) (ccontent b \<noteq> []) b of
        (None, b) \<Rightarrow> Some (0, b)
      | (Some v, b) \<Rightarrow>
          if u_quitted (buser b v) = 1
          then Some (0, replyp usern (on_network (cto b) '' is already disconnected from'' (ccontent b) ''.'') b)
          else do {
            let b = bmod v (\<lambda>u. u\<lparr>u_quitted := 1\<rparr>) b;
            b \<leftarrow> save_user e v (reply v v (''Disconnected from network '' @ [CHR 0x27] @ ccontent b @ [CHR 0x27] @
                    '' as requested by an administrator.'') b);
            let b = leave_server e v (\<lambda>b. b) b;
            Some (0, replyp usern (''Successfully disconnected user '' @ [CHR 0x27] @ cto b @ [CHR 0x27] @ '' from network '' @
                       [CHR 0x27] @ ccontent b @ [CHR 0x27] @ ''.'') b)
          })"

definition cmdbconnectn :: handler where
  "cmdbconnectn e usern b =
     (case named_net ''BCONNECTN <user> :<net>'' usern (ccontent b) (ccontent b \<noteq> []) b of
        (None, b) \<Rightarrow> Some (0, b)
      | (Some v, b) \<Rightarrow>
          if u_quitted (buser b v) = 0
          then Some (0, replyp usern (on_network (cto b) '' is already connected to'' (ccontent b) ''.'') b)
          else do {
            let b = reply v v (''Connecting to network '' @ [CHR 0x27] @ ccontent b @ [CHR 0x27] @
                      '' as requested by an administrator.'') b;
            b \<leftarrow> save_user e v (reconnect v b);
            Some (0, replyp usern (''Successfully initiated connection for user '' @ [CHR 0x27] @ cto b @ [CHR 0x27] @
                       '' to network '' @ [CHR 0x27] @ ccontent b @ [CHR 0x27] @ ''.'') b)
          })"

text \<open>The first two words, as \<open>strtok\<close> finds them, which cuts the text behind the first; a blank must be there.\<close>

definition two_words :: "string \<Rightarrow> (string \<times> string) option" where
  "two_words s =
     (let word = takeWhile (\<lambda>c. c \<noteq> CHR '' ''); skip = dropWhile (\<lambda>c. c = CHR '' '');
          a = skip s; network = word a; r = skip (drop (length network) a); vhost = word r
      in if strchr s (CHR '' '') = None \<or> network = [] \<or> vhost = [] then None else Some (network, vhost))"

definition first_word :: "string \<Rightarrow> string" where
  "first_word s = takeWhile (\<lambda>c. c = CHR '' '') s @ takeWhile (\<lambda>c. c \<noteq> CHR '' '') (dropWhile (\<lambda>c. c = CHR '' '') s)"

definition cmdbvhostn :: handler where
  "cmdbvhostn e usern b =
     (let words = two_words (ccontent b); network = (case words of None \<Rightarrow> [] | Some (n, h) \<Rightarrow> n);
          vhost = (case words of None \<Rightarrow> [] | Some (n, h) \<Rightarrow> h);
          b = (if strchr (ccontent b) (CHR '' '') \<noteq> None \<and> cto b \<noteq> []
               then mod_irc (\<lambda>i. i\<lparr>irccontent := first_word (irccontent i)\<rparr>) b else b)
      in case named_net ''BVHOSTN <user> :<net> <vhost>'' usern network (words \<noteq> None) b of
           (None, b) \<Rightarrow> Some (0, b)
         | (Some v, b) \<Rightarrow>
             do {
               let old = strmncpy (u_vhost (buser b v)) 100;
               b \<leftarrow> put_vhost v 0 vhost b;
               Some (0, replyp usern (''Successfully changed vhost for user '' @ [CHR 0x27] @ cto b @ [CHR 0x27] @ '' on network '' @
                          [CHR 0x27] @ network @ [CHR 0x27] @ '' from '' @ [CHR 0x27] @ old @ [CHR 0x27] @ '' to '' @
                          [CHR 0x27] @ vhost @ [CHR 0x27] @ ''.'') b)
             })"

section \<open>Administration\<close>

text \<open>A user and all his networks.\<close>

definition family :: "int \<Rightarrow> bnc \<Rightarrow> int list" where
  "family n b = filter (\<lambda>i. i = n \<or> u_parent (buser b i) = n) (uids (b_users b))"

text \<open>The new password is encrypted, cut to 19 bytes, and stored for the user and his networks.\<close>

definition put_pass :: "string \<Rightarrow> int \<Rightarrow> bnc \<Rightarrow> bnc option" where
  "put_pass pw i b =
     (let b = bmod i (\<lambda>u. u\<lparr>u_pass := snpf 20 (''='' @ pw), u_pentime := 0, u_penalty := 0\<rparr>) b
      in put_user i ''PASS'' (u_pass (buser b i)) b)"

fun put_passes :: "string \<Rightarrow> int list \<Rightarrow> bnc \<Rightarrow> bnc option" where
  "put_passes pw [] b = Some b"
| "put_passes pw (i # is) b = do { b \<leftarrow> put_pass pw i b; put_passes pw is b }"

definition cmdpassword :: handler where
  "cmdpassword e usern b =
     (if ccontent b = []
      then Some (-1, reply usern usern (''No Password given. Syntax is PASSWORD [user] :newpass'' @ CRLF) b)
      else
        let uind = (if cto b = [] then usern else by_login (cto b) b) in
        if uind = 0 \<and> cto b \<noteq> [] then Some (-1, reply usern usern (''User '' @ cto b @ '' not found'' @ CRLF) b)
        else
          let b = (if cto b = [] then mod_irc (\<lambda>i. i\<lparr>irc_state.ircto := strmncpy (u_login (buser b usern)) 800\<rparr>) b else b) in
          if uind \<noteq> usern \<and> u_rights (buser b usern) \<noteq> RI_ADMIN
          then Some (-1, reply usern usern (''You cant change other peoples passwords.'' @ CRLF) b)
          else do {
            pw \<leftarrow> BLOW_stringencrypt (snpf 400 (slt1 (e_salt e) @ slt2 (e_salt e))) (ccontent b);
            b \<leftarrow> put_passes pw (family uind b) b;
            Some (0, reply usern usern (''Password for '' @ cto b @ '' changed to '' @ [CHR 0x27] @ ccontent b @ [CHR 0x27] @
                       CRLF) (flush b))
          })"

text \<open>Crowning a user with his networks, and taking the crown.\<close>

fun set_rights :: "env \<Rightarrow> int \<Rightarrow> int list \<Rightarrow> bnc \<Rightarrow> bnc option" where
  "set_rights e r [] b = Some b"
| "set_rights e r (i # is) b = do { b \<leftarrow> save_user e i (bmod i (\<lambda>u. u\<lparr>u_rights := r\<rparr>) b); set_rights e r is b }"

definition crown :: "string \<Rightarrow> int \<Rightarrow> (string \<Rightarrow> string \<Rightarrow> string) \<Rightarrow> handler" where
  "crown command r said e usern b =
     (let userp = owner usern b; n = by_login (ccontent b) b in
      if ccontent b = [] then Some (0, replyp usern (''No user given. Syntax is '' @ command @ '' user.'') b)
      else if n = 0 then Some (0, replyp usern (''User '' @ ccontent b @ '' not found.'') b)
      else
        let n = (if u_parent (buser b n) \<noteq> 0 then u_parent (buser b n) else n) in
        do {
          c \<leftarrow> set_rights e r (family n b) b;
          Some (0, if family n b \<noteq> [] then p_log e LOG_INFO usern (said (u_nick (buser c userp)) (ccontent c)) c else c)
        })"

definition cmdadmin :: handler where
  "cmdadmin = crown ''MADMIN'' RI_ADMIN (\<lambda>who whom. ''User '' @ who @ '' declared User '' @ whom @ '' to admin'')"

definition cmdunadmin :: handler where
  "cmdunadmin = crown ''UNADMIN'' RI_USER (\<lambda>who whom. ''User '' @ who @ '' took admin rights from User '' @ whom)"

text \<open>
  The client of a user is cut off. An empty name is answered and then looked for; the host that is
  cleared is that of the admin.
\<close>

definition cmdbkill :: handler where
  "cmdbkill e usern b =
     (let b = (if ccontent b = [] then replyp usern ''No user given. Syntax is BKILL user.'' b else b);
          n = by_login (ccontent b) b
      in if n = 0 then Some (0, replyp usern (''User '' @ ccontent b @ '' not found.'') b)
         else if u_instate (buser b n) \<noteq> STD_CONN
         then Some (-1, replyp usern ''He isnt online. Why killing a dead?.'' b)
         else
           let b = p_log e LOG_INFO usern (''User '' @ u_nick (buser b (owner usern b)) @ '' killed User '' @ ccontent b) b;
               b = reply n n (''You have been killed by '' @ u_login (buser b usern) @ ''.'') b;
               b = fold (\<lambda>s. bout (Kill s)) (e_group e n) b;
               b = bmod usern (\<lambda>u. u\<lparr>u_host := []\<rparr>) b
           in Some (0, bmod n (\<lambda>u. u\<lparr>u_instate := STD_NOCON, u_insock := 0\<rparr>) b))"

text \<open>A line in the name of another user; \<open>inject\<close> is \<open>fakeinbound\<close>, the dispatcher.\<close>

definition cmdbraw :: "(int \<Rightarrow> bnc \<Rightarrow> bnc option) \<Rightarrow> handler" where
  "cmdbraw inject e usern b =
     (let n = by_login (cto b) b in
      if cto b = [] then Some (0, reply usern usern ''You need to specify a user to simulate.'' b)
      else if ccontent b = [] then Some (0, reply usern usern ''You need to specify a command to send to a user.'' b)
      else if n = 0 then Some (0, reply usern usern (''User '' @ cto b @ '' not found'') b)
      else
        let b = b\<lparr>b_buf := snpf 8192 (ccontent b)\<rparr>;
            b = reply usern usern (''Your command '' @ [CHR 0x27] @ b_buf b @ [CHR 0x27] @ '' has been sent to '' @
                  u_login (buser b n) @ ''.'') b
        in map_option (\<lambda>b. (0, b)) (inject n b))"

definition cmdbdone :: handler where
  "cmdbdone e usern b =
     Some (0, to_client usern (if ccontent b = [] then ''Done'' else ''Done: '' @ ccontent b) b)"


section \<open>Talking\<close>

definition cmdping :: handler where
  "cmdping e usern b =
     (let u = buser b usern in
      Some (0, to_client usern
        (if u_server u = [] then '':bnc.psybnc.dk PONG bnc.psybnc.dk :'' @ u_nick u
         else '':'' @ u_server u @ '' PONG '' @ u_server u @ '' :'' @ u_nick u) b))"

definition cmdwho :: handler where
  "cmdwho e usern b = Some (-1, bmod usern (\<lambda>u. u\<lparr>u_triggered := u_triggered u + 1\<rparr>) b)"

definition cmduser :: handler where
  "cmduser e usern b = Some (-1, b)"

text \<open>
  \<open>querybounce\<close> of src/p_sysmsg.c: text for everybody, which goes to the linked bouncers only when there is
  no channel for it, or for the client of one user.
\<close>

definition querybounce :: "env \<Rightarrow> int \<Rightarrow> bnc \<Rightarrow> bnc" where
  "querybounce e usern b =
     (let po = drop 1 (cto b); u = buser b usern; rc = by_login po b;
          unknown = bwrite (u_insock u) (snpf 4096 (psybnc_msg (u_nick u) @ ''User '' @ po @ '' not on bounce''))
      in if at po 0 = CHR ''$''
         then let b = b\<lparr>b_buf := snpf 8192 ('':'' @ u_login u @ ''!*@'' @ e_me e @ '' PARTY * :'' @ ccontent b @ CRLF)\<rparr>
              in bout (Broadcast (b_buf b)) b
         else if rc = 0 then to_client usern (psybnc_msg (u_nick u) @ ''User '' @ po @ '' not on bounce'') b
         else if u_instate (buser b rc) \<noteq> STD_CONN then unknown b
         else to_client rc ('':$'' @ u_login u @ ''!'' @ u_login u @ ''@'' @ e_me e @ '' '' @ irccommand (b_irc b) @ '' '' @
                u_nick (buser b rc) @ '' :'' @ ccontent b) b)"

text \<open>A line of the system to everybody, in the name of user 0, who is lent a name for it.\<close>

definition sysparty :: "env \<Rightarrow> string \<Rightarrow> bnc \<Rightarrow> bnc" where
  "sysparty e said b =
     (let b = mod_irc (\<lambda>i. i\<lparr>irccontent := snpf 6000 said, irc_state.ircto := ''$$''\<rparr>) b;
          b = b\<lparr>b_users := (b_users b)\<lparr>us_null := (us_null (b_users b))\<lparr>u_login := ''psyBNC'', u_nick := ''SYS''\<rparr>\<rparr>\<rparr>;
          b = querybounce e 0 (mod_irc (\<lambda>i. i\<lparr>irccommand := ''PRIVMSG''\<rparr>) b)
      in b\<lparr>b_users := (b_users b)\<lparr>us_null := zero_usert\<rparr>\<rparr>)"

definition querybot :: "int \<Rightarrow> bnc \<Rightarrow> bnc" where
  "querybot usern b =
     (let po = drop 1 (cto b);
          unknown = replyp usern (''DCC Connection '' @ po @ '' unknown or not established'') b
      in case checkdcc po (u_dcc (buser b usern)) of
           None \<Rightarrow> unknown
         | Some th \<Rightarrow> if l_outstate th \<noteq> STD_CONN then unknown else bprint (l_outsock th) (ccontent b @ CRLF) b)"

text \<open>What a client says is shown to the other clients of its user, on a channel or as a talk.\<close>

definition shown_line :: "usert \<Rightarrow> irc_state \<Rightarrow> string" where
  "shown_line u i =
     (let on_chan = strchr (u_chantypes u) (at (irc_state.ircto i) 0) \<noteq> None; net = u_parent u \<noteq> 0;
          sender = u_nick u @ ''!'' @ u_login u @ ''@'' @ u_host u;
          said = '' :<- <'' @ u_nick u @ ''> '' @ irccontent i
      in if on_chan
         then '':'' @ sender @ '' '' @ irccommand i @ '' '' @ (if net then ''#'' @ u_network u @ ''~'' else []) @ irc_state.ircto i @
                '' :'' @ irccontent i
         else '':'' @ (if net then u_network u @ ''~'' else []) @ irc_state.ircto i @ ''!'' @ u_login u @ ''@'' @ u_host u @ '' '' @
                irccommand i @ '' '' @ u_nick u @ said)"

definition cmdprivmsg :: "(int \<Rightarrow> bnc \<Rightarrow> bnc option) \<Rightarrow> (int \<Rightarrow> bnc \<Rightarrow> bool \<times> bnc) \<Rightarrow> handler" where
  "cmdprivmsg inject senddialoguequery e usern b =
     (let u = buser b usern; b = bout (Others (u_insock u) (snpf 8192 (shown_line u (b_irc b)))) b in
      if strmncasecmp (cto b) ''-psyBNC''
      then map_option (\<lambda>b. (0, b)) (inject usern (b\<lparr>b_buf := strmncpy (ccontent b) 8192\<rparr>))
      else
        let (sent, b) = senddialoguequery usern b in
        if sent then Some (0, b)
        else if at (cto b) 0 = CHR ''$'' then Some (0, querybounce e usern b)
        else if at (cto b) 0 = CHR '')'' then Some (0, querybot usern b)
        else map_option (\<lambda>b. (1, b)) (checkcrypt e usern b))"

section \<open>The end of a client\<close>

text \<open>\<open>partleavemsg\<close>, \<open>sendleavemsg\<close> and \<open>rejoinclient\<close> of src/p_server.c.\<close>

definition leave_text :: "usert \<Rightarrow> bnc \<Rightarrow> string" where
  "leave_text u b = (if strmcmp (u_leavemsg u) ''$QUIT'' then ccontent b else u_leavemsg u)"

definition on_channels :: "int \<Rightarrow> (uchannelt \<Rightarrow> string) \<Rightarrow> bnc \<Rightarrow> bnc" where
  "on_channels usern line b =
     fold (\<lambda>chan b. if c_ison chan = 1 then to_server usern (line chan) b else b) (u_channels (buser b usern)) b"

definition partleavemsg :: "int \<Rightarrow> bnc \<Rightarrow> bnc" where
  "partleavemsg usern b =
     on_channels usern (\<lambda>chan. ''PART '' @ c_name chan @ '' :'' @ leave_text (buser b usern) b @ CRLF) b"

definition sendleavemsg :: "int \<Rightarrow> bnc \<Rightarrow> bnc" where
  "sendleavemsg usern b =
     on_channels usern (\<lambda>chan. ''PRIVMSG '' @ c_name chan @ '' :'' @ [CHR 0x01] @ ''ACTION is away ('' @
       leave_text (buser b usern) b @ '')'' @ [CHR 0x01] @ CRLF) b"

definition rejoin_one :: "int \<Rightarrow> string \<Rightarrow> string \<Rightarrow> nat \<Rightarrow> bnc \<Rightarrow> bnc option" where
  "rejoin_one usern netc mynick j b =
     (let u = buser b usern; chan = u_channels u ! j; name = netc @ c_name chan in
      if c_ison chan \<noteq> 1 then Some b
      else
        let b = to_client usern ('':'' @ mynick @ ''!'' @ u_login u @ ''@'' @ u_host u @ '' JOIN :'' @ name @ [LF]) b;
            b = (if c_topic chan \<noteq> []
                 then to_client usern ('':'' @ u_server u @ '' 332 '' @ u_nick u @ '' '' @ name @ '' :'' @ c_topic chan @ [LF]) b
                 else b)
        in do {
          b \<leftarrow> send_channel usern j b;
          let chan = u_channels (buser b usern) ! j;
          Some (case getchannelnick chan (u_nick (buser b usern)) of
            None \<Rightarrow> b
          | Some k \<Rightarrow>
              let m = at (cu_mode (c_users chan ! k)) 0 in
              case strchr (c_prefixchars chan) m of
                Some i \<Rightarrow>
                  if m \<noteq> CHR 0x00
                  then to_client usern (cstr ('':bnc.psybnc.dk MODE '' @ name @ '' +'' @ [at (c_prefixmodes chan) i] @ '' '' @ mynick @ [LF])) b
                  else b
              | None \<Rightarrow> b)
        })"

fun rejoin_all :: "int \<Rightarrow> string \<Rightarrow> string \<Rightarrow> nat list \<Rightarrow> bnc \<Rightarrow> bnc option" where
  "rejoin_all usern netc mynick [] b = Some b"
| "rejoin_all usern netc mynick (j # js) b = do { b \<leftarrow> rejoin_one usern netc mynick j b; rejoin_all usern netc mynick js b }"

definition rejoinclient :: "int \<Rightarrow> bnc \<Rightarrow> bnc option" where
  "rejoinclient usern b =
     (let b = bmod usern (\<lambda>u. u\<lparr>u_afterquit := 0\<rparr>) b; u = buser b usern;
          netc = (if u_parent u \<noteq> 0 then snpf 15 (''#'' @ u_network u @ ''~'') else []);
          mynick = strmncpy (u_nick (buser b (owner usern b))) 64
      in map_option (bmod usern (\<lambda>u. u\<lparr>u_instate := STD_CONN\<rparr>))
           (rejoin_all usern netc mynick [0..<length (u_channels u)] b))"

text \<open>
  What the end of the last client of \<open>usern\<close> does to him and to each of his networks. The away
  message of a network goes to the server of \<open>usern\<close>. \<open>stopdialogues\<close> belongs to the scripts.
\<close>

definition quit_one :: "(int \<Rightarrow> bnc \<Rightarrow> bnc) \<Rightarrow> int \<Rightarrow> int \<Rightarrow> bnc \<Rightarrow> bnc" where
  "quit_one stopdialogues usern th b =
     (if th \<noteq> usern \<and> u_parent (buser b th) \<noteq> usern then b
      else
        let b = bmod th (\<lambda>u. u\<lparr>u_instate := STD_NOCON\<rparr>) b;
            b = (if u_parent (buser b th) \<noteq> 0 then bmod th (\<lambda>u. u\<lparr>u_insock := 0\<rparr>) b else b);
            b = stopdialogues usern b;
            b = (if u_leavequit (buser b th) \<noteq> 0 then partleavemsg th b
                 else if u_leavemsg (buser b th) \<noteq> [] then sendleavemsg th b else b);
            away = u_away (buser b th);
            b = (if away \<noteq> []
                 then fold (\<lambda>s. bprint s (''.AWAY '' @ away @ CRLF)) (live_dccs th b)
                        (to_server usern (''AWAY :'' @ away @ CRLF) b)
                 else b);
            b = bmod th (\<lambda>u. u\<lparr>u_triggered := 0, u_afterquit := 1, u_host := []\<rparr>) b;
            u = buser b th
        in to_server th (''NICK '' @ (if u_awaynick u \<noteq> [] then u_awaynick u else u_wantnick u) @ CRLF) b)"

definition quitclient :: "(int \<Rightarrow> bnc \<Rightarrow> bnc) \<Rightarrow> env \<Rightarrow> int \<Rightarrow> bnc \<Rightarrow> bnc" where
  "quitclient stopdialogues e usern b =
     (let b = bmod usern (\<lambda>u. u\<lparr>u_last := strmncpy (e_ctime e) 20\<rparr>) b;
          b = fold (quit_one stopdialogues usern) (uids (b_users b)) b;
          b = bout (Kill (u_insock (buser b usern))) b;
          b = flush (bmod usern (\<lambda>u. u\<lparr>u_insock := 0\<rparr>) b)
      in sysparty e (''User '' @ u_login (buser b usern) @ '' logged off.'') b)"

definition lost_client :: "int \<Rightarrow> (string \<Rightarrow> string) \<Rightarrow> string \<Rightarrow> (int \<Rightarrow> bnc \<Rightarrow> bnc) \<Rightarrow> handler" where
  "lost_client level said reason stopdialogues e usern b =
     (let t = said (u_login (buser b usern));
          b = p_log e level (-1) t b;
          b = (if u_rights (buser b usern) \<noteq> RI_ADMIN then systemnotice usern t b else b)
      in Some (-1, quitclient stopdialogues e usern (mod_irc (\<lambda>i. i\<lparr>irccontent := reason\<rparr>) b)))"

definition userinerror :: "(int \<Rightarrow> bnc \<Rightarrow> bnc) \<Rightarrow> handler" where
  "userinerror stopdialogues e =
     lost_client LOG_ERROR (\<lambda>login. ''User '' @ login @ '': cant get connected User ('' @ e_source e @ '')'') ''Error'' stopdialogues e"

definition userinkill :: "(int \<Rightarrow> bnc \<Rightarrow> bnc) \<Rightarrow> handler" where
  "userinkill stopdialogues e =
     lost_client LOG_WARNING (\<lambda>login. ''User '' @ login @ '' disconnected (from '' @ e_source e @ '')'') ''Connection lost'' stopdialogues e"

text \<open>
  \<open>QUIT\<close> closes this client only when others are connected; then \<open>userinboundsocket\<close> of
  src/p_peer.c makes one of them the socket of the user.
\<close>

definition userinboundsocket :: "int \<Rightarrow> int \<Rightarrow> bnc \<Rightarrow> bnc" where
  "userinboundsocket usern newsock b = bmod usern (\<lambda>u. u\<lparr>u_insock := newsock\<rparr>) b"

definition cmdquit :: "(int \<Rightarrow> bnc \<Rightarrow> bnc) \<Rightarrow> handler" where
  "cmdquit stopdialogues e n b =
     (let usern = owner n b; u = buser b usern;
          b = p_log e LOG_INFO (-1) (''User '' @ u_login u @ '' quitted (from '' @ e_source e @ '')'') b
      in Some (-1, case e_other e of
           Some sock \<Rightarrow> bout (Kill (e_cursock e)) (userinboundsocket usern sock b)
         | None \<Rightarrow> quitclient stopdialogues e usern
             (to_client usern ('':'' @ u_nick u @ ''!'' @ u_login u @ ''@'' @ u_host u @ '' QUIT :good bye'' @ CRLF) b)))"

section \<open>Changing places with a network\<close>

definition net_kick :: "int \<Rightarrow> string \<Rightarrow> string \<Rightarrow> uchannelt \<Rightarrow> bnc \<Rightarrow> bnc" where
  "net_kick usern netc nick chan b =
     (if c_ison chan \<noteq> 0
      then to_client usern ('':bnc.psybnc.dk KICK '' @ netc @ c_name chan @ '' '' @ nick @ '' :Switching Network'') b else b)"

text \<open>The nodes of both change places in the list; every other network gets the new parent, in memory.\<close>

definition switch_nodes :: "int \<Rightarrow> int \<Rightarrow> users \<Rightarrow> users" where
  "switch_nodes usern uind U =
     U\<lparr>us_nodes := map (\<lambda>(k, v).
        if k = uind then (usern, getu U usern)
        else if k = usern then (uind, getu U uind)
        else if u_parent v = usern then (k, v\<lparr>u_parent := uind\<rparr>)
        else (k, v)) (us_nodes U)\<rparr>"

definition swap_users :: "int \<Rightarrow> int \<Rightarrow> string \<Rightarrow> bnc \<Rightarrow> bnc" where
  "swap_users usern uind net b =
     bmod usern (\<lambda>u. u\<lparr>u_network := net, u_parent := uind\<rparr>)
       (bmod uind (\<lambda>u. u\<lparr>u_network := [], u_parent := 0\<rparr>) (b\<lparr>b_users := switch_nodes usern uind (b_users b)\<rparr>))"

definition cmdswitchnet :: handler where
  "cmdswitchnet e usern b =
     (let uind = checkusernetwork usern b; clash = mod_irc (\<lambda>i. i\<lparr>irccontent := strmncpy (irc_state.ircto i) 6000\<rparr>) b in
      if u_parent (buser b usern) \<noteq> 0 then Some (0, b)
      else if ccontent b = []
      then Some (-1, reply usern usern (''No existent Network given. Use SWITCHNET newnet :existent'' @ CRLF) b)
      else if cto b = []
      then Some (-1, reply usern usern (''No Source-Network given. Use SWITCHNET newnet :existent'' @ CRLF) b)
      else if uind = 0 then Some (-1, reply usern usern (''Network '' @ ccontent b @ '' not found.'' @ CRLF) b)
      else if checkusernetwork usern clash \<noteq> 0
      then Some (-1, reply usern usern (''Network '' @ ccontent clash @ '' already existent.'' @ CRLF) clash)
      else
        let b = mod_irc (\<lambda>i. i\<lparr>irccontent := strmncpy (strmncpy (irccontent i) 400) 6000\<rparr>) b;
            nick = u_nick (buser b usern);
            b = fold (net_kick usern [] nick) (u_channels (buser b usern)) b;
            b = fold (net_kick usern (''#'' @ u_network (buser b uind) @ ''~'') nick) (u_channels (buser b uind)) b;
            b = swap_users usern uind (strmncpy (cto b) 10) b
        in do {
          b \<leftarrow> save_user e uind b;
          b \<leftarrow> save_user e usern b;
          let b = flush b;
          let u = buser b usern;
          let b = to_client usern ('':'' @ u_nick u @ ''!'' @ u_login u @ ''@'' @ u_host u @ '' NICK :'' @ u_nick (buser b uind)) b;
          b \<leftarrow> rejoinclient uind b;
          b \<leftarrow> rejoinclient usern b;
          Some (0, b)
        })"


section \<open>The handlers of the table\<close>

text \<open>
  What the scripts of a user add to the dispatcher: aliases, help, a dialogue with a person, the end of
  all dialogues, and whether a script runs the line.
\<close>

record scripts =
  sc_alias :: "int \<Rightarrow> bnc \<Rightarrow> int \<times> bnc"
  sc_help :: "int \<Rightarrow> bnc \<Rightarrow> bnc"
  sc_query :: "int \<Rightarrow> bnc \<Rightarrow> bool \<times> bnc"
  sc_stop :: "int \<Rightarrow> bnc \<Rightarrow> bnc"
  sc_sock :: bool

definition plainly :: "(env \<Rightarrow> int \<Rightarrow> bnc \<Rightarrow> bnc) \<Rightarrow> handler" where
  "plainly f e usern b = Some (0, f e usern b)"

definition client_table ::
  "scripts \<Rightarrow> (int \<Rightarrow> bnc \<Rightarrow> bnc option) \<Rightarrow> (int \<Rightarrow> bnc \<Rightarrow> bnc option) \<Rightarrow> (string \<times> handler) list" where
  "client_table sc inject simulate =
     [(''cmdprivmsg'', cmdprivmsg inject (sc_query sc)), (''cmdping'', cmdping), (''cmdquit'', cmdquit (sc_stop sc)),
      (''cmdwho'', cmdwho), (''cmduser'', cmduser), (''cmdnick'', cmdnick), (''cmdbwho'', cmdbwho),
      (''cmdpassword'', cmdpassword), (''cmdvhost'', cmdvhost), (''cmdsetusername'', cmdsetusername),
      (''cmdsetaway'', cmdsetaway), (''cmdsetleavemsg'', cmdsetleavemsg), (''cmdleavequit'', cmdleavequit),
      (''cmdsetawaynick'', cmdsetawaynick), (''cmdjump'', cmdjump), (''cmdbraw'', cmdbraw simulate),
      (''cmdbquit'', cmdbquit), (''cmdbconnect'', cmdbconnect), (''cmdaidle'', cmdaidle),
      (''cmdautorejoin'', cmdautorejoin), (''cmdaddserver'', cmdaddserver), (''cmddelserver'', cmddelserver),
      (''cmdlistservers'', cmdlistservers), (''cmdswitchnet'', cmdswitchnet), (''cmdbvhostn'', cmdbvhostn),
      (''cmdbquitn'', cmdbquitn), (''cmdbconnectn'', cmdbconnectn), (''cmdaddop'', cmdaddop), (''cmddelop'', cmddelop),
      (''cmdlistops'', cmdlistops), (''cmdaddautoop'', cmdaddautoop), (''cmddelautoop'', cmddelautoop),
      (''cmdlistautoops'', cmdlistautoops), (''cmdaddban'', cmdaddban), (''cmddelban'', cmddelban),
      (''cmdlistbans'', cmdlistbans), (''cmdaddask'', cmdaddask), (''cmddelask'', cmddelask), (''cmdlistask'', cmdlistask),
      (''cmdaddignore'', cmdaddignore), (''cmddelignore'', cmddelignore), (''cmdlistignores'', cmdlistignores),
      (''cmddccenable'', cmddccenable), (''cmdautogetdcc'', cmdautogetdcc),
      (''playprivatelog'', plainly (\<lambda>e. playprivatelog)), (''eraseprivatelog'', plainly (\<lambda>e. eraseprivatelog)),
      (''cmdaddlog'', cmdaddlog), (''cmddellog'', cmddellog), (''cmdlistlogs'', cmdlistlogs),
      (''playtrafficlog'', \<lambda>e n b. map_option (\<lambda>b. (0, b)) (playtrafficlog e n b)),
      (''erasetrafficlog'', plainly erasetrafficlog), (''cmdencrypt'', cmdencrypt), (''cmddelencrypt'', cmddelencrypt),
      (''cmdlistencrypt'', cmdlistencrypt), (''cmdadmin'', cmdadmin), (''cmdunadmin'', cmdunadmin), (''cmdbkill'', cmdbkill),
      (''playmainlog'', plainly playmainlog), (''erasemainlog'', plainly erasemainlog), (''cmdaddallow'', cmdaddallow),
      (''cmddelallow'', cmddelallow), (''cmdlistallow'', cmdlistallow), (''printhelp'', printhelp (sc_help sc)),
      (''cmdsetconnectdelay'', cmdsetconnectdelay)]"

text \<open>The other commands, those of DCC, accounts, scripts and the program itself, are the argument \<open>others\<close>.\<close>

definition client_handlers ::
  "scripts \<Rightarrow> handlers \<Rightarrow> env \<Rightarrow> (int \<Rightarrow> bnc \<Rightarrow> bnc option) \<Rightarrow> (int \<Rightarrow> bnc \<Rightarrow> bnc option) \<Rightarrow> handlers" where
  "client_handlers sc others e inject simulate name usern b =
     (case map_of (client_table sc inject simulate) name of None \<Rightarrow> others name usern b | Some h \<Rightarrow> h e usern b)"

text \<open>
  A line of a client, or one that an admin simulates. \<open>PRIVMSG\<close> to \<open>-psyBNC\<close> and \<open>BRAW\<close> run the
  dispatcher again on a part of the line, at most as often as the first number says.
\<close>

fun client_line :: "scripts \<Rightarrow> handlers \<Rightarrow> env \<Rightarrow> nat \<Rightarrow> bool \<Rightarrow> int \<Rightarrow> bnc \<Rightarrow> bnc option" where
  "client_line sc others e 0 simulated n b = None"
| "client_line sc others e (Suc k) simulated n b =
     (let run = client_handlers sc others e (client_line sc others e k False) (client_line sc others e k True)
      in if simulated then fakeinbound run (sc_alias sc) n b
         else userinbound run (sc_alias sc) (sc_sock sc) (e_cursock e) n b)"

end
