(* ===== verification/Peer.thy ===== *)
theory Peer
  imports Client
begin

text \<open>
  A connection before it belongs to a user, src/p_peer.c: which hosts may connect, the greeting, the lines
  up to the password, and the login that gives the connection to a user and his networks. The dialogues
  of scripts are an argument; the program has users, so that nobody becomes the first one.
\<close>

section \<open>Connections\<close>

definition STD_NEWCON :: int where
  "STD_NEWCON = 3"

fun hostallows_loop :: "string \<Rightarrow> stringarray \<Rightarrow> int option" where
  "hostallows_loop buf [] = Some (-1)"
| "hostallows_loop buf (None # th) = None"
| "hostallows_loop buf (Some e # th) =
     (let buf2 = snpf 350 (''*!*@'' @ e); buf2 = takeWhile (\<lambda>c. c \<noteq> CHR '';'') buf2
      in do { m \<leftarrow> wild_match buf2 buf; if m \<noteq> 0 then Some 1 else hostallows_loop buf th })"

definition checkhostallows :: "string \<Rightarrow> stringarray \<Rightarrow> int option" where
  "checkhostallows host allows = hostallows_loop (snpf 350 (''*!*@'' @ host)) allows"

text \<open>
  A new connection: a third host is refused with a message that is cut to 39 bytes, as is one for which no
  descriptor is left. The number of the descriptor becomes the parameter of the socket.
\<close>

definition checknewlistener :: "env \<Rightarrow> string \<Rightarrow> newpeert table \<Rightarrow> bnc \<Rightarrow> (int \<times> newpeert table \<times> bnc) option" where
  "checknewlistener e accepthost t b =
     do {
       let s = e_cursock e;
       (rc, t) \<leftarrow> checkpeerhostname accepthost t;
       if rc = -1
       then Some (0, t, bout (Kill s) (bout (Urgent s (take 39 (''Only three Connections per Host allowed !'' @ [LF]))) b))
       else do {
         (npeer, t) \<leftarrow> getnewpeer t;
         if npeer = -1
         then
           let b = p_log e LOG_ERROR (-1) (''Too many connections, removing connection from '' @ accepthost) b
           in Some (0, t, bout (Kill s) (bwrite s (''Too many host connections !'' @ [LF]) b))
         else do {
           t \<leftarrow> clearpeer npeer t;
           (p, t) \<leftarrow> newpeer npeer t;
           v \<leftarrow> content t p;
           t \<leftarrow> assign p (v\<lparr>p_insock := s, p_host := strmncpy accepthost 400, p_state := STD_NEWCON, p_delayed := 0\<rparr>) t;
           Some (npeer, t, bprint s ('':Welcome!psyBNC@psyBNC.dk NOTICE * :'' @ app_version) b)
         }
       }
     }"

text \<open>
  The end of a connection that is no user's yet: its socket is killed, which makes an entry in the log
  and clears the descriptor; after an error the entry is another one.
\<close>

definition killoldlistener :: "env \<Rightarrow> newpeert \<Rightarrow> bnc \<Rightarrow> newpeert \<times> bnc" where
  "killoldlistener e v b =
     (zero_newpeert, bout (Kill (p_insock v))
        (p_log e LOG_WARNING (-1) (''Lost Connection from '' @ p_host v @ '' ('' @ p_login v @ '')'') b))"

definition erroroldlistener :: "env \<Rightarrow> newpeert \<Rightarrow> bnc \<Rightarrow> newpeert \<times> bnc" where
  "erroroldlistener e v b =
     (zero_newpeert, bout (Kill (p_insock v))
        (p_log e LOG_ERROR (-1) (''Lost Connection from '' @ p_host v @ '' ('' @ p_login v @ '')'') b))"

definition erasepeer :: "env \<Rightarrow> newpeert \<Rightarrow> bnc \<Rightarrow> newpeert \<times> bnc" where
  "erasepeer e v b = (if e_peer e (p_insock v) = None then (zero_newpeert, b) else killoldlistener e v b)"

section \<open>Login\<close>

text \<open>The password as it is stored and compared: encrypted and cut to 19 bytes.\<close>

definition peer_pass :: "salt \<Rightarrow> string \<Rightarrow> string option" where
  "peer_pass sl pw = map_option (\<lambda>c. snpf 20 (''='' @ c)) (BLOW_stringencrypt (snpf 200 (slt1 sl @ slt2 sl)) pw)"

text \<open>What a login does to a user and each of his networks.\<close>

definition login_one ::
  "(int \<Rightarrow> bnc \<Rightarrow> bnc) \<Rightarrow> newpeert \<Rightarrow> int \<Rightarrow> int \<Rightarrow> bnc \<Rightarrow> bnc option" where
  "login_one startdialogues v rc th b =
     (if th \<noteq> rc \<and> u_parent (buser b th) \<noteq> rc then Some b
      else
        let b = startdialogues th (bmod th (\<lambda>u. u\<lparr>u_delayed := 0, u_insock := p_insock v\<rparr>) b);
            b = bmod th (\<lambda>u. u\<lparr>u_host := strmncpy (p_host v) 255, u_wantnick := strmncpy (p_nick v) 64\<rparr>) b
        in if u_outstate (buser b th) = STD_CONN
           then do {
             let b = bmod th (\<lambda>u. u\<lparr>u_instate := STD_CONN\<rparr>) b;
             let b = (if u_parent (buser b th) = 0
                      then let b = snd (repeatserverinit rc b); u = buser b rc
                           in to_client rc ('':'' @ u_firstnick u @ ''!'' @ u_login u @ ''@'' @ u_host u @ '' NICK :'' @ u_nick u @ CRLF) b
                      else b);
             b \<leftarrow> (if u_welcome (buser b th) = 1
                   then (if u_leavequit (buser b th) = 1 then Some (rejoinchannels th b) else rejoinclient th b)
                   else Some b);
             Some (bout (Urgent (u_outsock (buser b th)) (snpf 200 (''NICK '' @ u_wantnick (buser b th) @ CRLF))) b)
           }
           else
             let b = bmod th (\<lambda>u. u\<lparr>u_nick := strmncpy (p_nick v) 64, u_instate := STD_CONN\<rparr>) b in
             Some (if u_parent (buser b th) = 0
                   then let (found, b) = checkforlog th b
                        in reply th th (if found then ''You have Messages. Type /QUOTE PLAYPRIVATELOG to read your messages.''
                                        else ''You have no new Messages.'') b
                   else b))"

fun login_all ::
  "(int \<Rightarrow> bnc \<Rightarrow> bnc) \<Rightarrow> newpeert \<Rightarrow> int \<Rightarrow> int list \<Rightarrow> bnc \<Rightarrow> bnc option" where
  "login_all startdialogues v rc [] b = Some b"
| "login_all startdialogues v rc (th # ths) b =
     do { b \<leftarrow> login_one startdialogues v rc th b; login_all startdialogues v rc ths b }"

text \<open>More than two wrong passwords lock the user out for ten minutes and up to two more.\<close>

definition locked_out :: "env \<Rightarrow> usert \<Rightarrow> bool" where
  "locked_out e u = (u_penalty u > 2 \<and> u_pentime u + 600 + e_rand e mod 120 > e_time e)"

text \<open>The answer is the user the connection now belongs to, or -1, the descriptor and the state.\<close>

definition linkpeer ::
  "(int \<Rightarrow> bnc \<Rightarrow> bnc) \<Rightarrow> env \<Rightarrow> newpeert \<Rightarrow> bnc \<Rightarrow> (int \<times> newpeert \<times> bnc) option" where
  "linkpeer startdialogues e v b =
     (let rc = by_login (p_login v) b in
      if rc = 0 then Some (-1, v, b)
      else do {
        pw \<leftarrow> peer_pass (e_salt e) (p_pass v);
        let v = v\<lparr>p_pass := pw\<rparr>;
        if \<not> strmcmp (p_pass v) (u_pass (buser b rc))
        then Some (-1, v, bmod rc (\<lambda>u. u\<lparr>u_penalty := u_penalty u + 1, u_pentime := e_time e\<rparr>) b)
        else if locked_out e (buser b rc) then Some (-1, v, b)
        else do {
          let b = bmod rc (\<lambda>u. u\<lparr>u_penalty := 0, u_pentime := 0\<rparr>) b;
          let b = sysparty e (''User '' @ p_login v @ '' logged in.'') b;
          let b = p_log e LOG_INFO (-1) (''User '' @ p_login v @ '' logged in (from '' @ e_source e @ '')'') b;
          b \<leftarrow> login_all startdialogues v rc (uids (b_users b)) b;
          Some (rc, zero_newpeert, b)
        }
      })"

section \<open>The lines of a connection\<close>

text \<open>What \<open>USER\<close>, \<open>NICK\<close> and \<open>PASS\<close> leave in the descriptor; \<open>USER\<close> without a blank ends the line.\<close>

definition peer_user :: "newpeert \<Rightarrow> bnc \<Rightarrow> bool \<times> newpeert \<times> bnc" where
  "peer_user v b =
     (if ifcommand (Some ''USER'') (b_irc b)
      then
        let v = v\<lparr>p_user := strmncpy (ccontent b) 64\<rparr> in
        case strchr (cto b) (CHR '' '') of
          None \<Rightarrow> (True, v, b)
        | Some k \<Rightarrow>
            let b = mod_irc (\<lambda>i. i\<lparr>irc_state.ircto := take k (irc_state.ircto i)\<rparr>) b
            in (False, v\<lparr>p_login := strmncpy (cto b) 64\<rparr>, b)
      else (False, v, b))"

definition peer_nick :: "newpeert \<Rightarrow> bnc \<Rightarrow> newpeert \<times> bnc" where
  "peer_nick v b =
     (if ifcommand (Some ''NICK'') (b_irc b)
      then
        let v = v\<lparr>p_nick := strmncpy (ccontent b) 64\<rparr>
        in (v, if p_pass v = [] \<and> p_type v = 0
               then bprint (p_insock v) ('':-psyBNC!psyBNC@psyBNC.dk NOTICE '' @ p_nick v @
                      '' :Your IRC Client did not support a password. Please type /QUOTE PASS yourpassword to connect.'') b
               else b)
      else (v, b))"

definition peer_setpass :: "newpeert \<Rightarrow> bnc \<Rightarrow> newpeert \<times> bnc" where
  "peer_setpass v b =
     (if ifcommand (Some ''PASS'') (b_irc b)
      then
        let b = (if at (ccontent b) 0 = CHR ''+''
                 then mod_irc (\<lambda>i. i\<lparr>irccontent := CHR ''-'' # tl (irccontent i)\<rparr>) b else b)
        in (v\<lparr>p_pass := strmncpy (ccontent b) 20\<rparr>, b)
      else (v, b))"

text \<open>The answer is the user the connection belongs to from now on, or 0.\<close>

definition checkoldlistener ::
  "(int \<Rightarrow> bnc \<Rightarrow> bnc) \<Rightarrow> env \<Rightarrow> newpeert \<Rightarrow> bnc \<Rightarrow> (int \<times> newpeert \<times> bnc) option" where
  "checkoldlistener startdialogues e v b =
     (if p_state v = STD_NOUSE then Some (0, v, b)
      else let v = v\<lparr>p_delayed := p_delayed v + 1\<rparr> in
      if p_delayed v > 8
      then Some (0, erasepeer e v (bwrite (p_insock v) (''Login failed. Disconnecting.'' @ [LF]) b))
      else
        let (ended, v, b) = peer_user v (bparse b) in
        if ended then Some (0, v, b)
        else
          let (v, b) = peer_nick v b; (v, b) = peer_setpass v b in
          if p_nick v = [] \<or> p_login v = [] \<or> p_pass v = [] then Some (0, v, b)
          else do {
            (rc, v, b) \<leftarrow> linkpeer startdialogues e v b;
            if rc \<noteq> -1 then Some (rc, v, b)
            else
              let b = bprint (p_insock v) (psybnc_msg (p_nick v) @
                        ''Wrong Password or invalid ident specified. Your ident is currently set to: '' @ p_login v @
                        ''. Disconnecting.'' @ [LF]) b;
                  b = p_log e LOG_ERROR (-1) (''Failed Authentification for '' @ p_login v @ '' from host '' @ p_host v) b
              in Some (0, erasepeer e v b)
          })"

end
