(* ===== verification/Client_Rights.thy ===== *)
theory Client_Rights
  imports Server_Invariants Peer
begin

text \<open>
  The rights of users under the commands of clients: every command that the table does not keep for
  admins leaves the rights of everybody as they are, or lowers them.
\<close>

section \<open>Rights\<close>

definition same_rights :: "bnc \<Rightarrow> bnc \<Rightarrow> bool" where
  "same_rights b b' \<longleftrightarrow> (\<forall>m. u_rights (buser b' m) = u_rights (buser b m))"

definition no_crown :: "bnc \<Rightarrow> bnc \<Rightarrow> bool" where
  "no_crown b b' \<longleftrightarrow> (\<forall>m. u_rights (buser b' m) = RI_ADMIN \<longrightarrow> u_rights (buser b m) = RI_ADMIN)"

lemma same_no_crown: "same_rights b b' \<Longrightarrow> no_crown b b'"
  by (simp add: same_rights_def no_crown_def)

lemma no_crown_trans: "no_crown a b \<Longrightarrow> no_crown b c \<Longrightarrow> no_crown a c"
  by (simp add: no_crown_def)

lemma rights_bmod [simp]: "(\<And>u. u_rights (f u) = u_rights u) \<Longrightarrow> u_rights (buser (bmod n f b) m) = u_rights (buser b m)"
  unfolding bmod_def by (simp add: getu_modu_frame [where g = u_rights])

lemma rights_put [simp]:
  assumes "u_rights u = u_rights (buser b n)"
  shows "u_rights (buser (bmod n (\<lambda>_. u) b) m) = u_rights (buser b m)"
proof (cases "ucell (b_users b) m = ucell (b_users b) n")
  case True
  then show ?thesis
    using getu_cell [of "modu n (\<lambda>_. u) (b_users b)" m n] getu_cell [OF True] assms by (simp add: bmod_def getu_modu_same)
qed (simp add: bmod_def getu_modu_other)

lemma rights_fold: "(\<And>x b. u_rights (buser (f x b) m) = u_rights (buser b m)) \<Longrightarrow> u_rights (buser (fold f xs b) m) = u_rights (buser b m)"
  by (induction xs arbitrary: b) simp_all

lemma b_users_answers [simp]:
  "b_users (reply to n t b) = b_users b" "b_users (replyp n t b) = b_users b" "b_users (flush b) = b_users b"
  "b_users (put_hostallows th b) = b_users b"
  by (simp_all add: reply_def replyp_def flush_def put_hostallows_def)

lemma put_entry_users: "put_entry s p f d b = Some b' \<Longrightarrow> b_users b' = b_users b"
  by (auto simp: put_entry_def)

lemma writeuser_rights: "writeuser sl n u s = Some (u', s') \<Longrightarrow> u_rights u' = u_rights u"
  by (auto simp: writeuser_def crypt_pass_def Let_def split: option.splits if_splits Option.bind_splits)

lemma save_user_rights: "save_user e n b = Some b' \<Longrightarrow> same_rights b b'"
proof -
  assume "save_user e n b = Some b'"
  then obtain u s where w: "writeuser (e_salt e) n (buser b n) (b_store b) = Some (u, s)" "b' = bmod n (\<lambda>_. u) (b\<lparr>b_store := s\<rparr>)"
    by (auto simp: save_user_def with_user_def split: Option.bind_splits)
  then show ?thesis using writeuser_rights [OF w(1)] by (simp add: same_rights_def)
qed

lemma switch_rights:
  assumes "switch c p w f e n b = Some (x, b')" "\<And>v u. u_rights (f v u) = u_rights u"
  shows "same_rights b b'"
  using assms unfolding same_rights_def switch_def Let_def
  by (auto split: if_splits Option.bind_splits dest!: put_entry_users)

lemma set_text_rights:
  assumes "set_text p k f t1 t2 e n b = Some (x, b')" "\<And>v u. u_rights (f v u) = u_rights u"
  shows "same_rights b b'"
  using assms unfolding same_rights_def set_text_def Let_def
  by (auto split: if_splits Option.bind_splits dest!: put_entry_users)


text \<open>Every answer of a handler leaves the rights as they are.\<close>

definition keeps_rights :: "handler \<Rightarrow> bool" where
  "keeps_rights h \<longleftrightarrow> (\<forall>e n b x b'. h e n b = Some (x, b') \<longrightarrow> same_rights b b')"

text \<open>The same for what may be undefined.\<close>

definition keep :: "bnc \<Rightarrow> bnc option \<Rightarrow> bool" where
  "keep b r \<longleftrightarrow> (\<forall>b'. r = Some b' \<longrightarrow> same_rights b b')"

lemma keep_intros:
  "same_rights b c \<Longrightarrow> keep b (Some c)" "keep b None"
  "(p \<Longrightarrow> keep b r) \<Longrightarrow> (\<not> p \<Longrightarrow> keep b r') \<Longrightarrow> keep b (if p then r else r')"
  "keep b r \<Longrightarrow> (\<And>x. keep b (f x)) \<Longrightarrow> keep b (case v of None \<Rightarrow> r | Some x \<Rightarrow> f x)"
  "keep b (g x y) \<Longrightarrow> keep b (case (x, y) of (x, y) \<Rightarrow> g x y)"
  "keep b r \<Longrightarrow> (\<And>so f t flt. keep b (h so f t flt)) \<Longrightarrow> keep b (case q of Since \<Rightarrow> r | Range so f t flt \<Rightarrow> h so f t flt)"
  "(\<And>u s. v' = Some (u, s) \<Longrightarrow> keep b (k u s)) \<Longrightarrow> keep b (Option.bind v' (\<lambda>(u, s). k u s))"
  by (auto simp: keep_def split: option.split request.split Option.bind_split)

lemma keep_bind: "keep b v \<Longrightarrow> (\<And>c. same_rights b c \<Longrightarrow> keep b (g c)) \<Longrightarrow> keep b (Option.bind v g)"
  by (auto simp: keep_def split: Option.bind_split)

definition keep2 :: "bnc \<Rightarrow> (int \<times> bnc) option \<Rightarrow> bool" where
  "keep2 b r \<longleftrightarrow> (\<forall>x b'. r = Some (x, b') \<longrightarrow> same_rights b b')"

lemma keep2_intros:
  "same_rights b c \<Longrightarrow> keep2 b (Some (x, c))" "keep2 b None"
  "(p \<Longrightarrow> keep2 b r) \<Longrightarrow> (\<not> p \<Longrightarrow> keep2 b r') \<Longrightarrow> keep2 b (if p then r else r')"
  "(\<And>x. keep2 b (f x)) \<Longrightarrow> keep2 b (Option.bind (t :: string option) f)"
  "keep b v \<Longrightarrow> (\<And>c. same_rights b c \<Longrightarrow> keep2 b (g c)) \<Longrightarrow> keep2 b (Option.bind v g)"
  "keep b v \<Longrightarrow> keep2 b (map_option (\<lambda>c. (x, c)) v)"
  by (auto simp: keep2_def keep_def split: Option.bind_split)

lemma keeps_rightsI: "(\<And>e n b. keep2 b (h e n b)) \<Longrightarrow> keeps_rights h"
  by (simp add: keeps_rights_def keep2_def)

lemma keeps_rightsD: "keeps_rights h \<Longrightarrow> keep2 b (h e n b)"
  by (simp add: keeps_rights_def keep2_def)

lemma same_rights_trans: "same_rights a b \<Longrightarrow> same_rights b c \<Longrightarrow> same_rights a c"
  by (simp add: same_rights_def)

lemma same_rights_intros:
  "same_rights b b" "same_rights b c \<Longrightarrow> same_rights b (bprint k t c)" "same_rights b c \<Longrightarrow> same_rights b (reply k n t c)" "same_rights b c \<Longrightarrow> same_rights b (replyp n t c)"
  "same_rights b c \<Longrightarrow> same_rights b (flush c)" "same_rights b c \<Longrightarrow> same_rights b (mod_irc f c)"
  "same_rights b c \<Longrightarrow> same_rights b d \<Longrightarrow> same_rights b (if p then c else d)"
  by (simp_all add: same_rights_def)

lemma same_rights_lets:
  "same_rights b (c :: bnc) \<Longrightarrow> (\<And>c. same_rights b c \<Longrightarrow> same_rights b (g c)) \<Longrightarrow> same_rights b (Let c g)"
  "(\<And>t. same_rights b (h t)) \<Longrightarrow> same_rights b (Let (t :: string) h)"
  "(\<And>u. same_rights b (k u)) \<Longrightarrow> same_rights b (Let (u :: usert) k)"
  "same_rights b c \<Longrightarrow> (\<And>u. u_rights (f u) = u_rights u) \<Longrightarrow> same_rights b (bmod n f c)"
  by (simp_all add: same_rights_def)

lemma keep_then: "same_rights a b \<Longrightarrow> keep b r \<Longrightarrow> keep a r" "same_rights a b \<Longrightarrow> keep2 b q \<Longrightarrow> keep2 a q"
  by (auto simp: keep_def keep2_def same_rights_def)

lemma switches_keep [simp]:
  "keeps_rights cmdaidle" "keeps_rights cmdautorejoin" "keeps_rights cmdleavequit" "keeps_rights cmddccenable"
  "keeps_rights cmdautogetdcc"
  by (auto simp: keeps_rights_def cmdaidle_def cmdautorejoin_def cmdleavequit_def cmddccenable_def cmdautogetdcc_def
      intro: switch_rights)

lemma texts_keep [simp]:
  "keeps_rights cmdsetaway" "keeps_rights cmdsetleavemsg" "keeps_rights cmdsetawaynick" "keeps_rights cmdsetusername"
  by (auto simp: keeps_rights_def cmdsetaway_def cmdsetleavemsg_def cmdsetawaynick_def cmdsetusername_def
      intro: set_text_rights)

lemma add_entry_rights:
  "add_entry s f h p put th said n b = Some (x, b') \<Longrightarrow> (\<And>th b. u_rights (buser (put th b) m) = u_rights (buser b m)) \<Longrightarrow>
   u_rights (buser b' m) = u_rights (buser b m)"
  by (auto simp: add_entry_def split: Option.bind_splits)

lemma add_list_keeps:
  assumes "\<And>th u. u_rights (f th u) = u_rights u"
  shows "keeps_rights (add_list s t1 t2 t3 get f c h said)"
  using assms unfolding keeps_rights_def same_rights_def add_list_def Let_def
  by (auto split: if_splits Option.bind_splits dest!: add_entry_rights)

lemma adders_keep [simp]:
  "keeps_rights cmdaddop" "keeps_rights cmdaddautoop" "keeps_rights cmdaddask" "keeps_rights cmdaddban"
  "keeps_rights cmdaddignore" "keeps_rights cmdaddlog" "keeps_rights cmdencrypt"
  by (simp_all add: cmdaddop_def cmdaddautoop_def cmdaddask_def cmdaddban_def cmdaddignore_def cmdaddlog_def
      cmdencrypt_def add_list_keeps)

lemma del_entry_rights:
  "del_entry s f put th b = Some b' \<Longrightarrow> (\<And>th b. u_rights (buser (put th b) m) = u_rights (buser b m)) \<Longrightarrow>
   u_rights (buser b' m) = u_rights (buser b m)"
  by (auto simp: del_entry_def split: Option.bind_splits)

lemma del_list_keeps:
  assumes "\<And>th u. u_rights (f th u) = u_rights u"
  shows "keeps_rights (del_list s c w who get f)"
  using assms unfolding keeps_rights_def same_rights_def del_list_def
  by (auto split: if_splits Option.bind_splits dest!: del_entry_rights)

lemma deleters_keep [simp]:
  "keeps_rights cmddelop" "keeps_rights cmddelautoop" "keeps_rights cmddelask" "keeps_rights cmddelban"
  "keeps_rights cmddelignore" "keeps_rights cmddellog" "keeps_rights cmddelencrypt"
  by (simp_all add: cmddelop_def cmddelautoop_def cmddelask_def cmddelban_def cmddelignore_def cmddellog_def
      cmddelencrypt_def del_list_keeps)

lemma liststrings_users: "liststrings_loop e n k th b = Some b' \<Longrightarrow> b_users b' = b_users b"
  by (induction e n k th b rule: liststrings_loop.induct) (auto split: Option.bind_splits)

lemma show_list_keeps: "keeps_rights (show_list what get)"
  unfolding keeps_rights_def same_rights_def show_list_def liststrings_def
  by (auto split: Option.bind_splits dest!: liststrings_users)

lemma listers_keep [simp]:
  "keeps_rights cmdlistops" "keeps_rights cmdlistautoops" "keeps_rights cmdlistask"
  "keeps_rights cmdlistbans" "keeps_rights cmdlistignores" "keeps_rights cmdlistencrypt" "keeps_rights cmdlistlogs"
  by (simp_all add: cmdlistops_def cmdlistautoops_def cmdlistask_def cmdlistbans_def
      cmdlistignores_def cmdlistencrypt_def cmdlistlogs_def show_list_keeps)

text \<open>Servers.\<close>

lemma getserver_rights: "u_rights (snd (getserver k n c u)) = u_rights u"
  by (auto simp: getserver_def Let_def split: prod.split)

lemma free_server_rights: "free_server ks n c u = (r, u') \<Longrightarrow> u_rights u' = u_rights u"
proof (induction ks n c u rule: free_server.induct)
  case (2 k ks n c u)
  then show ?case using getserver_rights [of k n c u] by (auto split: prod.splits if_splits)
qed simp

lemma put_server_users: "put_server n k h p w b = Some b' \<Longrightarrow> b_users b' = b_users b"
  by (auto simp: put_server_def Let_def split: Option.bind_splits option.splits dest!: put_entry_users)

lemma cmdaddserver_keeps [simp]: "keeps_rights cmdaddserver"
  unfolding keeps_rights_def same_rights_def cmdaddserver_def Let_def
  by (auto split: if_splits Option.bind_splits prod.splits option.splits dest!: put_server_users free_server_rights)

lemma cmddelserver_keeps [simp]: "keeps_rights cmddelserver"
  unfolding keeps_rights_def same_rights_def cmddelserver_def Let_def
  by (auto split: if_splits Option.bind_splits dest!: put_entry_users)

lemma listservers_rights: "u_rights (buser (listservers_loop n ks b) m) = u_rights (buser b m)"
proof (induction n ks b rule: listservers_loop.induct)
  case (2 n k ks b)
  obtain rc u where "getserver k n (fst (b_store b)) (buser b n) = (rc, u)" by fastforce
  moreover have "u_rights u = u_rights (buser b n)" using getserver_rights [of k n] calculation by (metis snd_conv)
  ultimately show ?case using 2 by (simp add: Let_def)
qed simp

lemma cmdlistservers_keeps [simp]: "keeps_rights cmdlistservers"
  unfolding keeps_rights_def same_rights_def cmdlistservers_def Let_def by (auto simp: listservers_rights)

lemma put_vhost_rights: "put_vhost f v h b = Some b' \<Longrightarrow> same_rights b b'"
  by (auto simp: same_rights_def put_vhost_def Let_def split: Option.bind_splits dest!: put_entry_users)

lemma cmdvhost_keeps [simp]: "keeps_rights cmdvhost"
  unfolding keeps_rights_def cmdvhost_def Let_def
  by (auto simp: same_rights_def split: if_splits Option.bind_splits dest!: put_vhost_rights)

lemma keep_put_entry: "same_rights b c \<Longrightarrow> keep b (put_entry s p f d c)"
  by (auto simp: keep_def same_rights_def dest: put_entry_users)

lemma same_rights_users: "same_rights b c \<Longrightarrow> b_users d = b_users c \<Longrightarrow> same_rights b d"
  by (simp add: same_rights_def)

text \<open>The connection to the server.\<close>

lemma file_users [simp]: "b_users (file_remove t b) = b_users b"
  by (simp add: file_remove_def)

lemma kill_server_rights [simp]: "u_rights (buser (kill_server e n b) m) = u_rights (buser b m)"
  by (simp add: kill_server_def userclosed_def drop_server_def Let_def resetallchannels_def)

lemma leave_server_rights:
  assumes "\<And>b. u_rights (buser (answer b) m) = u_rights (buser b m)"
  shows "u_rights (buser (leave_server e n answer b) m) = u_rights (buser b m)"
  using assms by (simp add: leave_server_def Let_def)

lemma cmdjump_keeps [simp]: "keeps_rights cmdjump"
  unfolding keeps_rights_def same_rights_def cmdjump_def Let_def by (auto split: if_splits)

lemma named_user_users: "named_user n b = (v, b') \<Longrightarrow> b_users b' = b_users b"
  by (auto simp: named_user_def Let_def split: if_splits)

lemma cmdbquit_keeps [simp]: "keeps_rights cmdbquit"
  unfolding keeps_rights_def cmdbquit_def Let_def
  by (auto simp: same_rights_def leave_server_rights split: if_splits Option.bind_splits prod.splits option.splits
      dest!: save_user_rights named_user_users)

lemma cmdbconnect_keeps [simp]: "keeps_rights cmdbconnect"
  unfolding keeps_rights_def cmdbconnect_def Let_def
  by (auto simp: same_rights_def reconnect_def split: if_splits Option.bind_splits prod.splits option.splits
      dest!: save_user_rights named_user_users)

text \<open>Passwords.\<close>

lemma put_pass_rights: "keep b (put_pass pw i b)"
  unfolding put_pass_def Let_def by (intro keep_put_entry) (simp add: same_rights_def)

lemma put_passes_rights: "keep b (put_passes pw is b)"
proof (induction "is" arbitrary: b)
  case (Cons i "is")
  show ?case unfolding put_passes.simps by (rule keep_bind [OF put_pass_rights keep_then(1) [OF _ Cons]])
qed (simp add: keep_def same_rights_def)

lemma cmdpassword_keeps [simp]: "keeps_rights cmdpassword"
proof (rule keeps_rightsI)
  fix e n and b :: bnc
  have p: "keep b (put_passes pw is (if c then mod_irc f b else b))" for pw "is" c f
    by (rule keep_then(1) [OF _ put_passes_rights]) (simp add: same_rights_def)
  show "keep2 b (cmdpassword e n b)"
    unfolding cmdpassword_def Let_def
    by (intro keep2_intros p same_rights_intros)
qed

text \<open>Logs and help.\<close>

lemma checkforlog_users [simp]: "b_users (snd (checkforlog n b)) = b_users b"
  by (simp add: checkforlog_def Let_def split: option.splits)

lemma play_line_users [simp]: "b_users (play_line sock nick line b) = b_users b"
  by (simp add: play_line_def)

lemma playprivatelog_users [simp]: "b_users (playprivatelog n b) = b_users b"
proof -
  obtain found c where c: "checkforlog n b = (found, c)" "b_users c = b_users b"
    using checkforlog_users [of n b] by (cases "checkforlog n b") simp
  show ?thesis by (simp add: playprivatelog_def Let_def c b_users_fold split: option.splits)
qed

lemma eraseprivatelog_users [simp]: "b_users (eraseprivatelog n b) = b_users b"
  by (simp add: eraseprivatelog_def Let_def)

lemma open_traffic_rights [simp]: "u_rights (buser (open_traffic e n b) m) = u_rights (buser b m)"
  by (simp add: open_traffic_def)

lemma erasetrafficlog_rights [simp]: "u_rights (buser (erasetrafficlog e n b) m) = u_rights (buser b m)"
  by (simp add: erasetrafficlog_def Let_def)

lemma traffic_show_users [simp]: "b_users (traffic_show sock flt buf b) = b_users b"
  by (simp add: traffic_show_def Let_def split: option.split)

lemma b_users_cases:
  "b_users x = U \<Longrightarrow> (\<And>y ys. b_users (f y ys) = U) \<Longrightarrow> b_users (case l of [] \<Rightarrow> x | y # ys \<Rightarrow> f y ys) = U"
  "(\<And>i. b_users (g i) = U) \<Longrightarrow> (\<And>s. b_users (h s) = U) \<Longrightarrow> b_users (case v of IntV i \<Rightarrow> g i | StrV s \<Rightarrow> h s) = U"
  by (auto split: list.split sval.split)

lemma traffic_range_users [simp]: "b_users (traffic_range sock src f t flt ls b) = b_users b"
proof (induction ls arbitrary: b)
  case (Cons l ls)
  show ?case unfolding traffic_range.simps Let_def by (intro b_users_cases b_users_branches) (simp_all add: Cons)
qed simp

lemma playtrafficlog_rights: "keep b (playtrafficlog e n b)"
proof -
  have f: "b_users (fold (traffic_show sock flt) ls c) = b_users c" for sock flt ls c by (simp add: b_users_fold)
  show ?thesis
    unfolding playtrafficlog_def Let_def
    by (intro keep_intros) (auto simp: same_rights_def f dest: writeuser_rights)
qed


lemma b_users_help_text [simp]: "b_users (help_text n t b) = b_users b"
proof (induction n t b rule: help_text.induct)
  case (1 n t b)
  then show ?case by (subst help_text.simps) (simp add: Let_def)
qed

lemma b_users_help [simp]: "b_users (help_topic files n hs b) = b_users b" "b_users (help_line n h b) = b_users b"
  by (induction files n hs b rule: help_topic.induct) (auto simp: help_line_def simp del: append.simps split: option.split)

lemma userhelp_rights:
  assumes "\<And>n b. same_rights b (help n b)"
  shows "same_rights b (userhelp help files n c b)"
proof -
  have h: "u_rights (buser (help n b) m) = u_rights (buser b m)" for n b m using assms by (simp add: same_rights_def)
  show ?thesis by (auto simp: same_rights_def userhelp_def Let_def h b_users_fold split: option.split)
qed

lemma checkcrypt_users:
  assumes "checkcrypt e n b = Some b'"
  shows "b_users b' = b_users b"
proof -
  have dec: "b_users c = b_users b" if "decrypt_line e k b = Some c" for k c
    using that by (auto simp: decrypt_line_def clear_text_def Let_def split: option.splits Option.bind_splits if_splits prod.splits)
  have enc: "b_users c = b_users b" if "encrypt_line k b = Some c" for k c
    using that unfolding encrypt_line_def Let_def
    by (cases "at (ccontent b) 0 = CHR 0x01 \<and> \<not> prefix crypt_act (ccontent b)")
      (auto simp: bind_eq_Some_conv simp del: append.simps split: option.splits)
  show ?thesis using assms dec enc by (auto simp: checkcrypt_def split: option.splits Option.bind_splits if_splits)
qed

lemma querybounce_users [simp]: "b_users (querybounce e n b) = b_users b" "b_users (querybot n b) = b_users b"
proof -
  have buf: "b_users (b\<lparr>b_buf := t\<rparr>) = b_users b" for t by simp
  show "b_users (querybounce e n b) = b_users b" "b_users (querybot n b) = b_users b"
    unfolding querybounce_def querybot_def Let_def by (intro b_users_branches; simp only: b_users_frame b_users_answers buf)+
qed

lemma sysparty_crown: "no_crown b (sysparty e t b)"
proof -
  have "u_rights (buser (sysparty e t b) m) = (if ucell (b_users b) m = NullCell then 0 else u_rights (buser b m))" for m
    by (simp add: sysparty_def Let_def getu_def ucell_def zero_usert_def split: ucell.split)
  then show ?thesis by (simp add: no_crown_def RI_ADMIN_def)
qed


text \<open>The end of a client.\<close>

lemma on_channels_users [simp]: "b_users (on_channels n line b) = b_users b"
  by (simp add: on_channels_def b_users_fold)

lemma fold_bprint_users [simp]: "b_users (fold (\<lambda>s. bprint s t) ss b) = b_users b"
  by (simp add: b_users_fold)

lemma quit_one_rights:
  assumes "\<And>n b. same_rights b (stop n b)"
  shows "u_rights (buser (quit_one stop n th b) m) = u_rights (buser b m)"
proof -
  have stop: "same_rights a c \<Longrightarrow> same_rights a (stop n c)" for a c n using assms same_rights_trans by blast
  have leave: "same_rights a c \<Longrightarrow> same_rights a (partleavemsg n c)" "same_rights a c \<Longrightarrow> same_rights a (sendleavemsg n c)"
    "same_rights a c \<Longrightarrow> same_rights a (fold (\<lambda>s. bprint s t) ss c)" for a c n t ss
    by (simp_all add: same_rights_def partleavemsg_def sendleavemsg_def)
  have "same_rights b (quit_one stop n th b)"
    unfolding quit_one_def by (intro same_rights_lets same_rights_intros stop leave) simp_all
  then show ?thesis by (simp add: same_rights_def)
qed

lemma quitclient_crown:
  assumes "\<And>n b. same_rights b (stop n b)" "same_rights a b"
  shows "no_crown a (quitclient stop e n b)"
proof -
  have "same_rights c (fold (quit_one stop n) ts c)" for ts c
    by (simp add: same_rights_def rights_fold quit_one_rights [of stop, OF assms(1)])
  then have r: "u_rights (buser (fold (quit_one stop n) ts c) m) = u_rights (buser c m)" for ts c m
    by (simp add: same_rights_def)
  show ?thesis unfolding quitclient_def Let_def
    by (rule no_crown_trans [OF same_no_crown sysparty_crown]) (use assms(2) in \<open>simp add: same_rights_def r\<close>)
qed

lemma sendnames_rights: "sendnames u up c = Some (u', c', ls) \<Longrightarrow> u_rights u' = u_rights u"
  by (auto simp: sendnames_def Let_def split: if_splits)

lemma send_channel_rights: "send_channel n j b = Some b' \<Longrightarrow> same_rights b b'"
proof -
  assume "send_channel n j b = Some b'"
  then obtain u' c ls where "sendnames (buser b n) (buser b (owner n b)) (u_channels (buser b n) ! j) = Some (u', c, ls)"
      and b': "b' = fold (bwrite (u_insock (buser b (owner n b)))) ls (bmod n (\<lambda>_. u'\<lparr>u_channels := (u_channels (buser b n))[j := c]\<rparr>) b)"
    by (auto simp: send_channel_def Let_def split: Option.bind_splits)
  then have "u_rights u' = u_rights (buser b n)" using sendnames_rights by blast
  then show ?thesis by (simp add: b' same_rights_def b_users_fold)
qed

lemma rejoin_one_rights: "keep b (rejoin_one n netc nick j b)"
  unfolding rejoin_one_def Let_def
  by (auto simp: keep_def same_rights_def split: option.splits if_splits Option.bind_splits dest!: send_channel_rights)

lemma rejoin_all_rights: "keep b (rejoin_all n netc nick js b)"
proof (induction js arbitrary: b)
  case (Cons j js)
  show ?case unfolding rejoin_all.simps by (rule keep_bind [OF rejoin_one_rights keep_then(1) [OF _ Cons]])
qed (simp add: keep_def same_rights_def)

lemma rejoinclient_rights: "rejoinclient n b = Some b' \<Longrightarrow> same_rights b b'"
proof -
  assume "rejoinclient n b = Some b'"
  then obtain netc nick js c where "rejoin_all n netc nick js (bmod n (\<lambda>u. u\<lparr>u_afterquit := 0\<rparr>) b) = Some c"
      "b' = bmod n (\<lambda>u. u\<lparr>u_instate := STD_CONN\<rparr>) c"
    by (auto simp: rejoinclient_def Let_def)
  then show ?thesis using rejoin_all_rights [of _ n netc nick js] by (fastforce simp: keep_def same_rights_def)
qed


text \<open>Changing places with a network: both nodes must be there.\<close>

lemma map_of_switch:
  fixes g :: "int \<Rightarrow> 'a \<Rightarrow> 'a" and a u :: int
  defines "swap \<equiv> (\<lambda>k. if k = u then a else if k = a then u else k)"
  shows "map_of (map (\<lambda>(k, v). (swap k, g k v)) xs) m = map_option (g (swap m)) (map_of xs (swap m))"
  by (induction xs) (auto simp: swap_def split: if_splits)

lemma switch_nodes_rights:
  assumes "a \<in> set (uids U)" "u \<in> set (uids U)"
  shows "u_rights (getu (switch_nodes a u U) m) = u_rights (getu U m)"
proof -
  let ?swap = "\<lambda>k. if k = u then a else if k = a then u else k"
  let ?g = "\<lambda>k v. if k = u then getu U a else if k = a then getu U u else if u_parent v = a then v\<lparr>u_parent := u\<rparr> else v"
  have nodes: "us_nodes (switch_nodes a u U) = map (\<lambda>(k, v). (?swap k, ?g k v)) (us_nodes U)"
    by (auto simp: switch_nodes_def)
  have rest: "us_null (switch_nodes a u U) = us_null U" "us_dummy (switch_nodes a u U) = us_dummy U"
    by (simp_all add: switch_nodes_def)
  have img: "?swap ` set (uids U) = set (uids U)"
    using assms by auto
  have keys: "set (uids (switch_nodes a u U)) = set (uids U)"
  proof -
    have "uids (switch_nodes a u U) = map ?swap (uids U)" unfolding uids_def nodes by (simp add: comp_def split_beta)
    then show ?thesis using img by (simp only: set_map)
  qed
  have cell: "ucell (switch_nodes a u U) m = ucell U m"
    using keys unfolding ucell_def uids_def by (simp only:)
  show ?thesis
  proof (cases "ucell U m")
    case (NodeCell i)
    then have i: "user_nr m = i" "1 \<le> i \<or> i < 0" "i \<le> MAX_USER" "i \<in> set (uids U)"
      by (auto simp: ucell_def uids_def Let_def split: if_splits)
    have nr: "user_nr i = i" using i(3) by (simp add: user_nr_def MAX_USER_def)
    have get: "getu U i = the (map_of (us_nodes U) i)" using i nr by (auto simp: getu_def ucell_def uids_def)
    obtain v where v: "map_of (us_nodes U) i = Some v" using i(4) by (fastforce simp: uids_def dest: weak_map_of_SomeI)
    have "map_of (us_nodes (switch_nodes a u U)) i = map_option (?g (?swap i)) (map_of (us_nodes U) (?swap i))"
      unfolding nodes by (rule map_of_switch)
    moreover obtain w where w: "map_of (us_nodes U) (?swap i) = Some w"
      using assms i(4) by (cases "map_of (us_nodes U) (?swap i)") (auto simp: uids_def map_of_eq_None_iff split: if_splits)
    ultimately have new: "the (map_of (us_nodes (switch_nodes a u U)) i) = ?g (?swap i) w" by simp
    have "u_rights (?g (?swap i) w) = u_rights v"
    proof (cases "i = u \<or> i = a")
      case True
      then show ?thesis using get v by auto
    next
      case False
      then show ?thesis using w v by auto
    qed
    then show ?thesis using NodeCell cell new v by (simp add: getu_def)
  qed (simp_all add: getu_def cell rest)
qed


section \<open>Commands\<close>

text \<open>A handler that makes nobody an admin when it runs for a user who is none.\<close>

definition harmless :: "handler \<Rightarrow> bool" where
  "harmless h \<longleftrightarrow> (\<forall>e n b x b'. n \<in> set (uids (b_users b)) \<longrightarrow> h e n b = Some (x, b') \<longrightarrow> no_crown b b')"

lemma keeps_harmless: "keeps_rights h \<Longrightarrow> harmless h"
  by (auto simp: keeps_rights_def harmless_def intro: same_no_crown)

lemma talk_harmless [simp]: "harmless cmdping" "harmless cmdwho" "harmless cmduser" "harmless cmdnick"
  by (auto simp: harmless_def no_crown_def cmdping_def cmdwho_def cmduser_def cmdnick_def Let_def)

lemma logs_harmless [simp]:
  "harmless (plainly (\<lambda>e. playprivatelog))" "harmless (plainly (\<lambda>e. eraseprivatelog))" "harmless (plainly erasetrafficlog)"
  "harmless (\<lambda>e n b. map_option (\<lambda>b. (0, b)) (playtrafficlog e n b))"
  using playtrafficlog_rights by (auto simp: harmless_def plainly_def no_crown_def keep_def same_rights_def)

lemma printhelp_keeps:
  assumes "\<And>n b. same_rights b (hp n b)"
  shows "keeps_rights (printhelp hp)"
proof (rule keeps_rightsI)
  fix e n and b :: bnc
  have h: "same_rights b (userhelp hp files m c d)" if "same_rights b d" for files m c d
    by (rule same_rights_trans [OF that userhelp_rights [of hp, OF assms]])
  show "keep2 b (printhelp hp e n b)"
    unfolding printhelp_def Let_def by (intro keep2_intros same_rights_intros h)
qed

lemma cmdquit_harmless:
  assumes "\<And>n b. same_rights b (stop n b)"
  shows "harmless (cmdquit stop)"
proof -
  have q: "no_crown b (case other of Some sock \<Rightarrow> bout k (userinboundsocket n sock (p_log e l i t b))
      | None \<Rightarrow> quitclient stop e n (bprint s t' (p_log e l i t b)))" for b other k n e l i t s t'
  proof (cases other)
    case None
    then show ?thesis using quitclient_crown [of stop, OF assms] by (simp add: same_rights_def)
  next
    case (Some sock)
    then show ?thesis by (simp add: no_crown_def userinboundsocket_def)
  qed
  show ?thesis unfolding harmless_def cmdquit_def Let_def by (auto intro: q simp del: append.simps)
qed

lemma net_kick_users [simp]: "b_users (fold (net_kick n c k) chans b) = b_users b"
  by (simp add: b_users_fold net_kick_def)

lemma checkusernetwork_uids: "checkusernetwork n b \<noteq> 0 \<Longrightarrow> checkusernetwork n b \<in> set (uids (b_users b))"
  by (auto simp: checkusernetwork_def find_network_def split: option.splits dest: find_Some_iff [THEN iffD1])

lemma swap_users_rights:
  assumes "b_users c = b_users b" "n \<in> set (uids (b_users b))" "u \<in> set (uids (b_users b))"
  shows "same_rights b (swap_users n u net c)"
  using assms by (simp add: same_rights_def swap_users_def switch_nodes_rights)

lemma cmdswitchnet_harmless [simp]: "harmless cmdswitchnet"
proof -
  have "keep2 b (cmdswitchnet e n b)" if n: "n \<in> set (uids (b_users b))" for e n and b :: bnc
  proof -
    have save: "keep b (save_user e i (swap_users n u net c))"
      if "b_users c = b_users b" "checkusernetwork n b \<noteq> 0" "u = checkusernetwork n b" for e i u net c
    proof -
      have "same_rights b (swap_users n u net c)"
        using swap_users_rights [OF that(1) n] checkusernetwork_uids [OF that(2)] that(3) by simp
      then show ?thesis by (rule keep_then(1)) (simp add: keep_def save_user_rights)
    qed
    have again: "same_rights b c \<Longrightarrow> keep b (save_user e i c)" "same_rights b c \<Longrightarrow> keep b (rejoinclient i (bprint k t d))"
      "same_rights b c \<Longrightarrow> keep b (rejoinclient i c)" if "b_users d = b_users c" for e i k t c d
      using save_user_rights rejoinclient_rights that by (fastforce simp: keep_def same_rights_def)+
    show ?thesis
      unfolding cmdswitchnet_def Let_def
      by (intro keep2_intros save again same_rights_intros) simp_all
  qed
  then show ?thesis by (auto simp: harmless_def keep2_def intro: same_no_crown)
qed


text \<open>The numbers, rights and parents of all users are the same.\<close>

definition same_ranks :: "bnc \<Rightarrow> bnc \<Rightarrow> bool" where
  "same_ranks b b' \<longleftrightarrow> uids (b_users b') = uids (b_users b) \<and> same_rights b b' \<and>
     (\<forall>m. u_parent (buser b' m) = u_parent (buser b m))"

lemma same_ranks_trans: "same_ranks a b \<Longrightarrow> same_ranks b c \<Longrightarrow> same_ranks a c"
  by (simp add: same_ranks_def same_rights_def)

lemma same_ranks_users: "b_users b' = b_users b \<Longrightarrow> same_ranks b b'"
  by (simp add: same_ranks_def same_rights_def)

lemma same_ranks_bmod:
  "(\<And>u. u_rights (f u) = u_rights u) \<Longrightarrow> (\<And>u. u_parent (f u) = u_parent u) \<Longrightarrow> same_ranks b (bmod n f b)"
  unfolding same_ranks_def same_rights_def bmod_def
  by (simp add: getu_modu_frame [where g = u_rights] getu_modu_frame [where g = u_parent])

lemma inherit_socket_ranks: "same_ranks b (inherit_socket i n b)"
proof (cases "i < 10000")
  case True
  then show ?thesis unfolding inherit_socket_def Let_def
    by (simp only: if_True) (intro same_ranks_trans [OF same_ranks_bmod same_ranks_bmod]; simp)
qed (simp add: inherit_socket_def same_ranks_users)

lemma checknetwork_ranks:
  assumes "checknetwork a b = Some (i, b')"
  shows "same_ranks b b' \<and> (i = a \<or> i \<in> set (uids (b_users b)) \<and> u_parent (buser b i) = a)"
  using assms
proof (cases rule: checknetwork_cases)
  case (2 k j)
  have i: "same_ranks b (inherit_socket i a (b\<lparr>b_buf := t\<rparr>))" for i t
    using same_ranks_trans [OF same_ranks_users inherit_socket_ranks] by simp
  show ?thesis
    using 2(1) i by (auto simp: use_token_def Let_def find_network_def same_ranks_users split: option.splits dest!: find_Some_iff [THEN iffD1])
qed (simp add: same_ranks_users)

lemma filter_tokens_ranks: "filter_tokens n b = Some b' \<Longrightarrow> same_ranks b b'"
proof (induction n b rule: filter_tokens.induct)
  case (1 n b)
  obtain i b1 where c: "checknetwork n b = Some (i, b1)" using 1(2) by (subst (asm) filter_tokens.simps) (auto split: option.splits)
  then have "filter_tokens n b = (if i = n then Some b1 else filter_tokens n b1)" by (subst filter_tokens.simps) simp
  then show ?case using 1 c checknetwork_ranks [OF c] same_ranks_trans by (auto split: if_splits)
qed

text \<open>A user and his networks, none of them with the rights of an admin.\<close>

definition plain_family :: "int \<Rightarrow> bnc \<Rightarrow> bool" where
  "plain_family a b \<longleftrightarrow> a \<noteq> 0 \<and> a \<in> set (uids (b_users b)) \<and> u_parent (buser b a) = 0 \<and>
     (\<forall>i. i = a \<or> u_parent (buser b i) = a \<longrightarrow> u_rights (buser b i) \<noteq> RI_ADMIN)"

lemma plain_family_ranks: "plain_family a b \<Longrightarrow> same_ranks b b' \<Longrightarrow> plain_family a b'"
  by (simp add: plain_family_def same_ranks_def same_rights_def)

lemma plain_family_owner: "plain_family a b \<Longrightarrow> i = a \<or> u_parent (buser b i) = a \<Longrightarrow> owner i b = a"
  by (auto simp: plain_family_def owner_def)

definition scripts_tame :: "scripts \<Rightarrow> bool" where
  "scripts_tame sc \<longleftrightarrow> (\<forall>n b. same_ranks b (snd (sc_alias sc n b)) \<and> same_ranks b (snd (sc_query sc n b)) \<and>
     same_rights b (sc_help sc n b) \<and> same_rights b (sc_stop sc n b))"

lemma admin_commands:
  "list_all admin_handler [''cmdbwho'', ''cmdbraw'', ''cmdbvhostn'', ''cmdbquitn'', ''cmdbconnectn'', ''cmdadmin'', ''cmdunadmin'',
     ''cmdbkill'', ''playmainlog'', ''erasemainlog'', ''cmdaddallow'', ''cmddelallow'', ''cmdlistallow'', ''cmdsetconnectdelay'']"
proof -
  have "admin_handler name \<longleftrightarrow> list_all (\<lambda>(h, a). h = name \<longrightarrow> a = 1) (map (\<lambda>h. (h_handler h, h_adminonly h)) inboundhash)" for name
    by (simp add: admin_handler_def list_all_iff)
  note columns = this [unfolded inboundhash_def list.map hasht.sel]
  show ?thesis by (simp add: columns)
qed

lemma client_table_harmless:
  assumes "scripts_tame sc" "(name, h) \<in> set (client_table sc inject simulate)" "\<not> admin_handler name" "name \<noteq> ''cmdprivmsg''"
  shows "harmless h"
proof -
  have p: "harmless (printhelp (sc_help sc))" "harmless (cmdquit (sc_stop sc))"
    using assms(1) by (auto simp: scripts_tame_def intro!: keeps_harmless printhelp_keeps cmdquit_harmless)
  have "list_all (\<lambda>(name, h). admin_handler name \<or> name = ''cmdprivmsg'' \<or> harmless h) (client_table sc inject simulate)"
    unfolding client_table_def using admin_commands by (simp add: p keeps_harmless)
  then show ?thesis using assms(2-4) by (auto simp: list_all_iff)
qed

end
