(* ===== verification/Client_Invariants.thy ===== *)
theory Client_Invariants
  imports Client_Rights
begin

text \<open>
  What holds however the lines of clients, servers and strangers follow each other: who is an admin.
\<close>

section \<open>No client makes an admin\<close>

text \<open>The other commands make nobody an admin when a user runs them who is none.\<close>

definition others_harmless :: "handlers \<Rightarrow> bool" where
  "others_harmless others \<longleftrightarrow> (\<forall>name n b x b'. \<not> admin_handler name \<longrightarrow> n \<in> set (uids (b_users b)) \<longrightarrow>
     u_rights (buser b n) \<noteq> RI_ADMIN \<longrightarrow> others name n b = Some (x, b') \<longrightarrow> no_crown b b')"

lemma cmdprivmsg_crown:
  assumes inject: "\<And>c b'. same_ranks b c \<Longrightarrow> inject n c = Some b' \<Longrightarrow> no_crown c b'"
    and query: "\<And>n b. same_ranks b (snd (query n b))"
    and run: "cmdprivmsg inject query e n b = Some (x, b')"
  shows "no_crown b b'"
proof -
  let ?b = "bout (Others (u_insock (buser b n)) (snpf 8192 (shown_line (buser b n) (b_irc b)))) b"
  show ?thesis
  proof (cases "strmncasecmp (cto ?b) ''-psyBNC''")
    case True
    let ?c = "?b\<lparr>b_buf := strmncpy (ccontent ?b) 8192\<rparr>"
    have r: "same_ranks b ?c" by (simp add: same_ranks_users)
    have "inject n ?c = Some b'" using run True unfolding cmdprivmsg_def Let_def by (simp add: map_option_case split: option.splits)
    then have "no_crown ?c b'" by (rule inject [OF r])
    then show ?thesis by (simp add: no_crown_def)
  next
    case False
    obtain sent c where c: "query n ?b = (sent, c)" by fastforce
    then have r: "same_rights b c" using query [of ?b n] by (simp add: same_ranks_def same_rights_def)
    have b': "Some (x, b') = (if sent then Some (0, c) else if at (cto c) 0 = CHR ''$'' then Some (0, querybounce e n c)
        else if at (cto c) 0 = CHR '')'' then Some (0, querybot n c) else map_option (\<lambda>b. (1, b)) (checkcrypt e n c))"
      using run False c unfolding cmdprivmsg_def Let_def by simp
    have "b_users b' = b_users c" using b' by (cases "checkcrypt e n c") (auto split: if_splits dest: checkcrypt_users)
    then have "same_rights b b'" using r by (simp add: same_rights_def)
    then show ?thesis by (rule same_no_crown)
  qed
qed

lemma inbound_loop_crown:
  assumes "inbound_loop run a n hs b = Some (stop, b')" "u_rights (buser b n) \<noteq> RI_ADMIN"
    and "\<And>h x c. h \<in> set hs \<Longrightarrow> h_adminonly h \<noteq> 1 \<Longrightarrow> run (h_handler h) n b = Some (x, c) \<Longrightarrow> no_crown b c"
  shows "no_crown b b'"
  using assms
proof (induction hs)
  case (Cons h hs)
  then show ?case by (fastforce simp: admins_only_def no_crown_def split: if_splits)
qed (simp add: no_crown_def)

lemma inbound_crown:
  assumes line: "inbound run al set_socket a n b = Some b'"
    and al: "\<And>n b. same_ranks b (snd (al n b))" and sock: "\<And>b. same_ranks b (set_socket b)"
    and plain: "u_rights (buser b n) \<noteq> RI_ADMIN"
    and run: "\<And>h x c d. same_ranks b c \<Longrightarrow> h \<in> set inboundhash \<Longrightarrow> h_adminonly h \<noteq> 1 \<Longrightarrow>
      run (h_handler h) n c = Some (x, d) \<Longrightarrow> no_crown c d"
  shows "no_crown b b'"
proof -
  obtain ca c where c: "(if n \<le> 1000 then al n (bparse (set_socket b)) else (0, b)) = (ca, c)" by fastforce
  have "same_ranks b (bparse (set_socket b))" using sock [of b] same_ranks_trans same_ranks_users by fastforce
  then have "same_ranks b (snd (al n (bparse (set_socket b))))" using same_ranks_trans al by blast
  then have r: "same_ranks b c" using c by (cases "n \<le> 1000") (simp_all add: same_ranks_users)
  then have bc: "no_crown b c" "u_rights (buser c n) \<noteq> RI_ADMIN"
    using plain by (simp_all add: same_ranks_def same_rights_def no_crown_def)
  obtain stop d where d: "(if n \<le> 1000 \<and> ca = 0 then inbound_loop run a n inboundhash c else Some (False, c)) = Some (stop, d)"
      "b_users b' = b_users d"
    using line unfolding inbound_def c by (auto split: Option.bind_splits if_splits)
  have "no_crown c d"
    using d(1) inbound_loop_crown [OF _ bc(2)] run [OF r] by (auto simp: no_crown_def split: if_splits)
  then show ?thesis using bc(1) d(2) by (simp add: no_crown_def)
qed


text \<open>The user that a line is for, once its tokens are taken out.\<close>

lemma line_user:
  assumes fam: "plain_family (owner n b) b" and c: "checknetwork (owner n b) b = Some (i, b1)"
    and f: "filter_tokens (owner n b) b1 = Some b2"
  shows "same_ranks b b2" "owner i b2 = owner n b" "i \<in> set (uids (b_users b2))" "u_rights (buser b2 i) \<noteq> RI_ADMIN"
proof -
  note i = checknetwork_ranks [OF c]
  show r: "same_ranks b b2" using i filter_tokens_ranks [OF f] same_ranks_trans by blast
  have fam2: "plain_family (owner n b) b2" by (rule plain_family_ranks [OF fam r])
  have "i = owner n b \<or> u_parent (buser b2 i) = owner n b" using i r by (auto simp: same_ranks_def)
  then show "owner i b2 = owner n b" "u_rights (buser b2 i) \<noteq> RI_ADMIN"
    using plain_family_owner [OF fam2] fam2 by (auto simp: plain_family_def)
  show "i \<in> set (uids (b_users b2))" using i r fam by (auto simp: same_ranks_def plain_family_def)
qed

lemma client_line_crown:
  assumes sc: "scripts_tame sc" and others: "others_harmless others"
  shows "client_line sc others e k simulated n b = Some b' \<Longrightarrow> plain_family (owner n b) b \<Longrightarrow> no_crown b b'"
proof (induction k arbitrary: simulated n b b')
  case (Suc k)
  let ?run = "client_handlers sc others e (client_line sc others e k False) (client_line sc others e k True)"
  let ?ss = "\<lambda>i. if simulated \<or> sc_sock sc then (\<lambda>b. b) else bmod i (\<lambda>u. u\<lparr>u_insock := e_cursock e\<rparr>)"
  obtain i b1 b2 where c: "checknetwork (owner n b) b = Some (i, b1)" "filter_tokens (owner n b) b1 = Some b2"
      and line: "inbound ?run (sc_alias sc) (?ss i) (owner n b) i b2 = Some b'"
    using Suc.prems(1) that
    by (cases simulated; cases "sc_sock sc")
      (auto simp: fakeinbound_def userinbound_def Let_def split: Option.bind_splits prod.splits)
  have ss: "same_ranks b (?ss i b)" for b by (simp add: same_ranks_users) (auto intro!: same_ranks_bmod)
  note u = line_user [OF Suc.prems(2) c]
  have fam2: "plain_family (owner n b) b2" by (rule plain_family_ranks [OF Suc.prems(2) u(1)])
  have "no_crown b2 b'"
  proof (rule inbound_crown [OF line _ ss u(4)])
    fix h x d d'
    assume r: "same_ranks b2 d" and h: "h \<in> set inboundhash" "h_adminonly h \<noteq> 1" and run: "?run (h_handler h) i d = Some (x, d')"
    have na: "\<not> admin_handler (h_handler h)" using h by (auto simp: admin_handler_def list_all_iff)
    have i: "i \<in> set (uids (b_users d))" "u_rights (buser d i) \<noteq> RI_ADMIN"
      using u(3,4) r by (simp_all add: same_ranks_def same_rights_def)
    have inject: "no_crown d1 d2" if "same_ranks d d1" "client_line sc others e k False i d1 = Some d2" for d1 d2
    proof -
      have fam: "plain_family (owner n b) d1" by (rule plain_family_ranks [OF fam2 same_ranks_trans [OF r that(1)]])
      moreover have "owner i d1 = owner i b2" using same_ranks_trans [OF r that(1)] by (simp add: owner_def same_ranks_def)
      then have "owner i d1 = owner n b" using u(2) by simp
      ultimately show ?thesis using Suc.IH [OF that(2)] by simp
    qed
    show "no_crown d d'"
    proof (cases "map_of (client_table sc (client_line sc others e k False) (client_line sc others e k True)) (h_handler h)")
      case None
      then show ?thesis using run others na i by (auto simp: client_handlers_def others_harmless_def)
    next
      case (Some hd)
      then have hd: "hd e i d = Some (x, d')" using run by (simp add: client_handlers_def)
      show ?thesis
      proof (cases "h_handler h = ''cmdprivmsg''")
        case True
        then have "hd = cmdprivmsg (client_line sc others e k False) (sc_query sc)" using Some by (simp add: client_table_def)
        then have msg: "cmdprivmsg (client_line sc others e k False) (sc_query sc) e i d = Some (x, d')" using hd by simp
        show ?thesis by (rule cmdprivmsg_crown [OF inject _ msg]) (use sc in \<open>simp_all add: scripts_tame_def\<close>)
      next
        case False
        then have "harmless hd" using client_table_harmless [OF sc map_of_SomeD [OF Some] na] by simp
        then show ?thesis using hd i(1) by (auto simp: harmless_def)
      qed
    qed
  qed (use sc in \<open>simp add: scripts_tame_def\<close>)
  then show ?case using u(1) by (simp add: no_crown_def same_ranks_def same_rights_def)
qed simp


section \<open>Strangers make no admin\<close>

lemma erasepeer_users [simp]: "b_users (snd (erasepeer e v b)) = b_users b"
  by (simp add: erasepeer_def killoldlistener_def)

lemma peer_users: "b_users (snd (snd (peer_user v b))) = b_users b" "b_users (snd (peer_nick v b)) = b_users b"
    "b_users (snd (peer_setpass v b)) = b_users b"
proof -
  show "b_users (snd (snd (peer_user v b))) = b_users b" "b_users (snd (peer_setpass v b)) = b_users b"
    by (simp_all add: peer_user_def peer_setpass_def Let_def split: option.split)
  show "b_users (snd (peer_nick v b)) = b_users b"
    unfolding peer_nick_def Let_def if_distrib [of snd] snd_conv by (intro b_users_branches; simp only: b_users_frame)
qed

lemma parentnick_rights: "u_rights (buser (parentnick n b) m) = u_rights (buser b m)"
  using settled_parentnick [of b n] by (simp add: settled_def)

lemma repeatserverinit_rights: "u_rights (buser (snd (repeatserverinit n b)) m) = u_rights (buser b m)"
proof (cases "b_files b (motd_name n)")
  case (Some doc)
  have f: "u_rights (buser (fold (show_motd n) ls b) m) = u_rights (buser b m)" for ls b m
    by (rule rights_fold) (simp add: show_motd_def Let_def parentnick_rights)
  obtain found c where c: "checkforlog n (fold (show_motd n) (motd_lines doc) b) = (found, c)" by fastforce
  have "b_users c = b_users (fold (show_motd n) (motd_lines doc) b)"
    using checkforlog_users [of n "fold (show_motd n) (motd_lines doc) b"] c by simp
  then have "u_rights (buser c m) = u_rights (buser b m)" using f by simp
  then show ?thesis using Some c by (simp add: repeatserverinit_def Let_def b_users_fold)
qed (simp add: repeatserverinit_def)

lemma rejoinchannels_users [simp]: "b_users (rejoinchannels n b) = b_users b"
  unfolding rejoinchannels_def by (auto intro!: b_users_fold)

lemma login_one_rights:
  assumes "\<And>n b. same_rights b (hail n b)"
  shows "keep b (login_one hail v rc th b)"
proof -
  have s: "u_rights (buser (hail n b) m) = u_rights (buser b m)" for n b m using assms by (simp add: same_rights_def)
  have again: "keep b (Option.bind (if p then (if q then Some (rejoinchannels th d) else rejoinclient th d) else Some d)
      (\<lambda>b. Some (bout (f b) b)))" if "same_rights b d" for b p q d f
  proof -
    have "keep d (rejoinclient th d)" using rejoinclient_rights by (auto simp: keep_def)
    then have "keep b (rejoinclient th d)" by (rule keep_then(1) [OF that])
    moreover have "same_rights b (rejoinchannels th d)" using that by (simp add: same_rights_def)
    ultimately have r: "keep b (if p then (if q then Some (rejoinchannels th d) else rejoinclient th d) else Some d)"
      using that by (intro keep_intros)
    show ?thesis by (rule keep_bind [OF r]) (simp add: keep_def same_rights_def)
  qed
  have log: "same_rights b (case checkforlog th d of (y, b) \<Rightarrow> reply th th (t y) b)" if "same_rights b d" for b d t
    using that checkforlog_users [of th d] by (cases "checkforlog th d") (simp add: same_rights_def)
  let ?b = "bmod th (\<lambda>u. u\<lparr>u_host := strmncpy (p_host v) 255, u_wantnick := strmncpy (p_nick v) 64\<rparr>)
     (hail th (bmod th (\<lambda>u. u\<lparr>u_delayed := 0, u_insock := p_insock v\<rparr>) b))"
  have b: "same_rights b (bmod th f ?b)" if "\<And>u. u_rights (f u) = u_rights u" for f
    using that by (simp add: same_rights_def s)
  have greeted: "same_rights b (snd (repeatserverinit rc d))" if "same_rights b d" for b d
    using that by (simp add: same_rights_def repeatserverinit_rights)
  show ?thesis
    unfolding login_one_def Let_def
    by (intro keep_intros again same_rights_intros b greeted log) simp_all
qed


lemma login_all_rights:
  assumes "\<And>n b. same_rights b (hail n b)"
  shows "keep b (login_all hail v rc ths b)"
proof (induction ths arbitrary: b)
  case (Cons th ths)
  have one: "keep b (login_one hail v rc th b)" by (rule login_one_rights) (rule assms)
  show ?case unfolding login_all.simps by (rule keep_bind [OF one keep_then(1) [OF _ Cons]])
qed (simp add: keep_def same_rights_def)

text \<open>What became of a login: no such user or a user who is locked out, a wrong password, or the right one.\<close>

lemma linkpeer_cases:
  assumes "linkpeer hail e v b = Some (rc, v', b')"
  obtains (refused) "rc = -1" "b' = b" "v' = v\<lparr>p_pass := p_pass v'\<rparr>"
  | (wrong) pw where "rc = -1" "by_login (p_login v) b \<noteq> 0" "peer_pass (e_salt e) (p_pass v) = Some pw"
      "pw \<noteq> u_pass (buser b (by_login (p_login v) b))" "v' = v\<lparr>p_pass := pw\<rparr>"
      "b' = bmod (by_login (p_login v) b) (\<lambda>u. u\<lparr>u_penalty := u_penalty u + 1, u_pentime := e_time e\<rparr>) b"
  | (right) "rc = by_login (p_login v) b" "rc \<noteq> 0" "peer_pass (e_salt e) (p_pass v) = Some (u_pass (buser b rc))"
      "\<not> locked_out e (buser b rc)" "v' = zero_newpeert"
      "login_all hail (v\<lparr>p_pass := u_pass (buser b rc)\<rparr>) rc (uids (b_users b))
        (p_log e LOG_INFO (-1) (''User '' @ p_login v @ '' logged in (from '' @ e_source e @ '')'')
          (sysparty e (''User '' @ p_login v @ '' logged in.'')
            (bmod rc (\<lambda>u. u\<lparr>u_penalty := 0, u_pentime := 0\<rparr>) b))) = Some b'"
proof -
  let ?rc = "by_login (p_login v) b"
  have sp: "uids (b_users (sysparty e t d)) = uids (b_users d)" for t d
    by (simp add: sysparty_def Let_def uids_def)
  have up: "uids (b_users (bmod n f d)) = uids (b_users d)" for n f d by (simp add: bmod_def)
  show ?thesis
  proof (cases "?rc = 0 \<or> locked_out e (buser b ?rc) \<and> peer_pass (e_salt e) (p_pass v) = Some (u_pass (buser b ?rc))")
    case True
    then show ?thesis using assms refused by (auto simp: linkpeer_def Let_def split: if_splits)
  next
    case False
    then obtain pw where pw: "peer_pass (e_salt e) (p_pass v) = Some pw" "?rc \<noteq> 0"
      using assms by (cases "peer_pass (e_salt e) (p_pass v)") (auto simp: linkpeer_def Let_def)
    show ?thesis
    proof (cases "pw = u_pass (buser b ?rc)")
      case True
      then have "rc = ?rc" "v' = zero_newpeert" using assms pw False by (auto simp: linkpeer_def Let_def split: Option.bind_splits)
      then show ?thesis using assms pw False True right
        by (auto simp: linkpeer_def Let_def sp up split: Option.bind_splits)
    next
      case neq: False
      then show ?thesis using assms pw wrong by (auto simp: linkpeer_def Let_def)
    qed
  qed
qed


lemma linkpeer_nonzero: "linkpeer hail e v b = Some (rc, v', b') \<Longrightarrow> rc \<noteq> 0"
  by (erule linkpeer_cases) auto

lemma linkpeer_crown:
  assumes "\<And>n b. same_rights b (hail n b)" "linkpeer hail e v b = Some (rc, v', b')"
  shows "no_crown b b'"
  using assms(2)
proof (cases rule: linkpeer_cases)
  case right
  let ?b = "bmod rc (\<lambda>u. u\<lparr>u_penalty := 0, u_pentime := 0\<rparr>) b"
  have "no_crown ?b b'"
    using sysparty_crown [of ?b e] login_all_rights [of hail, OF assms(1)] right(6)
    by (fastforce simp: keep_def no_crown_def same_rights_def)
  then show ?thesis by (simp add: no_crown_def)
qed (simp_all add: no_crown_def)

text \<open>The descriptor once a line was looked at, before the login.\<close>

definition heard :: "newpeert \<Rightarrow> bnc \<Rightarrow> newpeert" where
  "heard v b =
     (let (ended, v, b) = peer_user (v\<lparr>p_delayed := p_delayed v + 1\<rparr>) (bparse b); (v, b) = peer_nick v b
      in fst (peer_setpass v b))"

lemma heard_frame: "p_state (heard v b) = p_state v" "p_delayed (heard v b) = p_delayed v + 1"
  by (simp_all add: heard_def peer_user_def peer_nick_def peer_setpass_def Let_def split: option.split)

lemma checkoldlistener_cases:
  assumes "checkoldlistener hail e v b = Some (rc, v', b')"
  obtains (quiet) "rc = 0" "b_users b' = b_users b" "p_state v' = STD_NOUSE \<or> p_state v' = p_state v \<and> p_delayed v' = p_delayed v + 1 \<and> p_delayed v' \<le> 8"
  | (login) r v2 b1 b2 where "b_users b1 = b_users b" "linkpeer hail e (heard v b) b1 = Some (r, v2, b2)"
      "r = -1 \<and> rc = 0 \<and> v' = zero_newpeert \<and> b_users b' = b_users b2 \<or> r \<noteq> -1 \<and> rc = r \<and> v' = v2 \<and> b' = b2"
proof (cases "p_state v = STD_NOUSE \<or> p_delayed v + 1 > 8")
  case True
  then show ?thesis
    using assms quiet by (auto simp: checkoldlistener_def erasepeer_def killoldlistener_def zero_newpeert_def STD_NOUSE_def Let_def split: if_splits)
next
  case False
  let ?v = "v\<lparr>p_delayed := p_delayed v + 1\<rparr>"
  obtain ended v1 b1 where u: "peer_user ?v (bparse b) = (ended, v1, b1)" by (cases "peer_user ?v (bparse b)") auto
  obtain v2 b2 where n: "peer_nick v1 b1 = (v2, b2)" by fastforce
  obtain v3 b3 where w: "peer_setpass v2 b2 = (v3, b3)" by fastforce
  have h: "heard v b = v3" by (simp add: heard_def u n w)
  have b3: "b_users b1 = b_users b" "b_users b3 = b_users b"
    using peer_users(1) [of ?v "bparse b"] peer_users(2) [of v1 b1] peer_users(3) [of v2 b2] u n w by simp_all
  have v1: "p_state v1 = p_state v" "p_delayed v1 = p_delayed v + 1"
    using u by (auto simp: peer_user_def Let_def split: if_splits option.splits)
  have v3: "p_state v3 = p_state v" "p_delayed v3 = p_delayed v + 1" using heard_frame h by auto
  show ?thesis
  proof (cases "ended \<or> p_nick v3 = [] \<or> p_login v3 = [] \<or> p_pass v3 = []")
    case True
    then show ?thesis using assms False quiet b3 v1 v3 by (auto simp: checkoldlistener_def Let_def u n w split: if_splits)
  next
    case go: False
    then obtain r v4 b4 where l: "linkpeer hail e v3 b3 = Some (r, v4, b4)"
      using assms False by (cases "linkpeer hail e v3 b3") (auto simp: checkoldlistener_def Let_def u n w)
    define c where "c = p_log e LOG_ERROR (-1) (''Failed Authentification for '' @ p_login v4 @ '' from host '' @ p_host v4)
      (bprint (p_insock v4) (psybnc_msg (p_nick v4) @ ''Wrong Password or invalid ident specified. Your ident is currently set to: '' @
        p_login v4 @ ''. Disconnecting.'' @ [LF]) b4)"
    have c: "b_users c = b_users b4" "(rc, v', b') = (if r \<noteq> -1 then (r, v4, b4) else (0, erasepeer e v4 c))"
      using assms False go l by (auto simp: checkoldlistener_def Let_def u n w c_def split: if_splits)
    have "fst (erasepeer e v4 c) = zero_newpeert" by (simp add: erasepeer_def killoldlistener_def)
    then have "r = -1 \<and> rc = 0 \<and> v' = zero_newpeert \<and> b_users b' = b_users b4 \<or> r \<noteq> -1 \<and> rc = r \<and> v' = v4 \<and> b' = b4"
      using c erasepeer_users [of e v4 c] by (cases "erasepeer e v4 c") (auto split: if_splits)
    then show ?thesis using login [OF b3(2) l [folded h]] by simp
  qed
qed


lemma checkoldlistener_crown:
  assumes "\<And>n b. same_rights b (hail n b)" "checkoldlistener hail e v b = Some (rc, v', b')"
  shows "no_crown b b'"
  using assms(2)
proof (cases rule: checkoldlistener_cases)
  case (login r v2 b1 b2)
  have "no_crown b1 b2" by (rule linkpeer_crown [of hail, OF assms(1) login(2)])
  then show ?thesis using login by (auto simp: no_crown_def)
qed (simp add: no_crown_def)

section \<open>What reaches the bouncer\<close>

text \<open>
  A line of a server, of a client who is no admin, or of a connection without a user; the rights of the
  user and of his networks are looked at when the line comes.
\<close>

inductive line_step ::
  "scripts \<Rightarrow> handlers \<Rightarrow> ctcps \<Rightarrow> (int \<Rightarrow> bnc \<Rightarrow> bnc) \<Rightarrow> (int \<Rightarrow> bnc \<Rightarrow> bnc) \<Rightarrow> bnc \<Rightarrow> bnc \<Rightarrow> bool"
  for sc others parsectcps event hail where
  server: "server_line_in parsectcps event e n (b\<lparr>b_buf := t\<rparr>) = Some b' \<Longrightarrow> line_step sc others parsectcps event hail b b'"
| client: "plain_family (owner n b) b \<Longrightarrow> client_line sc others e k simulated n (b\<lparr>b_buf := t\<rparr>) = Some b' \<Longrightarrow>
    line_step sc others parsectcps event hail b b'"
| stranger: "checkoldlistener hail e v (b\<lparr>b_buf := t\<rparr>) = Some (rc, v', b') \<Longrightarrow> line_step sc others parsectcps event hail b b'"


text \<open>Nothing is done by scripts and by the commands outside the model.\<close>

definition no_scripts :: scripts where
  "no_scripts = \<lparr>sc_alias = (\<lambda>n b. (0, b)), sc_help = (\<lambda>n b. b), sc_query = (\<lambda>n b. (False, b)), sc_stop = (\<lambda>n b. b), sc_sock = False\<rparr>"

lemma no_scripts_tame: "scripts_tame no_scripts" "others_harmless (\<lambda>name n b. Some (0, b))"
  by (auto simp: no_scripts_def scripts_tame_def others_harmless_def same_ranks_def same_rights_def no_crown_def)

end
