(* ===== verification/Login.thy ===== *)
theory Login
  imports Client_Invariants
begin

text \<open>
  What a login needs: it always has an outcome, only the right password gives a connection to a user,
  guessing is slow, and a password that was set is accepted.
\<close>

section \<open>A login has an outcome\<close>

lemma total_intros:
  "r \<noteq> None \<Longrightarrow> (\<And>c. f c \<noteq> None) \<Longrightarrow> Option.bind r f \<noteq> None"
  "(p \<Longrightarrow> r \<noteq> None) \<Longrightarrow> (\<not> p \<Longrightarrow> r' \<noteq> None) \<Longrightarrow> (if p then r else r') \<noteq> None"
  "Some x \<noteq> None" "(\<And>x y. g x y \<noteq> None) \<Longrightarrow> (case q of (x, y) \<Rightarrow> g x y) \<noteq> None"
  by (auto split: prod.split)

lemma names_loop_total:
  assumes "length nameline \<le> 500"
  shows "names_loop own pnick token nameline line users \<noteq> None"
proof (induction users arbitrary: line)
  case Nil
  show ?case by (subst names_loop.simps) simp
next
  case (Cons cu rest)
  have short: "names_loop own pnick token nameline l (cu # rest) \<noteq> None" if "length l \<le> 500" for l
    using that Cons [of "l @ name_item own pnick token cu"] by (subst names_loop.simps) simp
  have n: "length (strmncpy nameline 1024) \<le> 500" using assms by simp
  show ?case
  proof (cases "length line > 500")
    case True
    then show ?thesis using short [OF n] by (subst names_loop.simps) auto
  next
    case False
    then show ?thesis using short [of line] by simp
  qed
qed

lemma sendnames_total: "sendnames u up chan \<noteq> None"
proof -
  have "length (snpf 300 t) \<le> 500" for t using length_snpf [of 300 t] by simp
  note names_loop_total [OF this]
  then show ?thesis by (simp add: sendnames_def Let_def)
qed

lemma send_channel_total: "send_channel n j b \<noteq> None"
  unfolding send_channel_def Let_def by (intro total_intros sendnames_total)

lemma rejoin_one_total: "rejoin_one n netc nick j b \<noteq> None"
  unfolding rejoin_one_def Let_def by (intro total_intros send_channel_total)

lemma rejoin_all_total: "rejoin_all n netc nick js b \<noteq> None"
proof (induction js arbitrary: b)
  case (Cons j js)
  show ?case unfolding rejoin_all.simps by (intro total_intros rejoin_one_total Cons)
qed simp

lemma rejoinclient_total: "rejoinclient n b \<noteq> None"
  using rejoin_all_total by (simp add: rejoinclient_def Let_def)

lemma login_one_total: "login_one hail v rc th b \<noteq> None"
  unfolding login_one_def Let_def by (intro total_intros rejoinclient_total)

lemma login_all_total: "login_all hail v rc ths b \<noteq> None"
proof (induction ths arbitrary: b)
  case (Cons th ths)
  show ?case unfolding login_all.simps by (intro total_intros login_one_total Cons)
qed simp

lemma blow_enc_loop_total: "\<exists>t. blow_enc_loop st p = Some t"
proof (induction st p rule: blow_enc_loop.induct)
  case (1 st p)
  obtain x y where "hashstring (take 4 (blow_encb st (map byte_of (take 8 (p @ replicate 8 NUL))))) = Some x"
      "hashstring (drop 4 (blow_encb st (map byte_of (take 8 (p @ replicate 8 NUL))))) = Some y"
    using hashstring_total by blast
  then show ?case using 1 by (subst blow_enc_loop.simps) (auto simp: Let_def)
qed

lemma peer_pass_total: "\<exists>pw. peer_pass sl t = Some pw"
  using blow_enc_loop_total by (simp add: peer_pass_def BLOW_stringencrypt_def BLOWencrypt_def Let_def)

lemma linkpeer_total: "linkpeer hail e v b \<noteq> None"
proof -
  have "peer_pass (e_salt e) (p_pass v) \<noteq> None" using peer_pass_total by simp
  then show ?thesis unfolding linkpeer_def Let_def by (intro total_intros login_all_total)
qed

lemma checkoldlistener_total: "checkoldlistener hail e v b \<noteq> None"
  unfolding checkoldlistener_def Let_def by (intro total_intros linkpeer_total)

section \<open>Logging in\<close>

lemma by_login_users: "b_users c = b_users b \<Longrightarrow> by_login name c = by_login name b"
proof -
  assume b: "b_users c = b_users b"
  have "login_loop name ns c = login_loop name ns b" for ns
    by (induction ns) (simp_all only: login_loop.simps Let_def b)
  then show ?thesis by (simp add: by_login_def b)
qed

text \<open>A user without what counts the wrong passwords.\<close>

definition uncounted :: "usert \<Rightarrow> usert" where
  "uncounted u = u\<lparr>u_penalty := 0, u_pentime := 0\<rparr>"

lemma uncounted_bmod: "(\<And>u. uncounted (f u) = uncounted u) \<Longrightarrow> uncounted (buser (bmod n f b) m) = uncounted (buser b m)"
  unfolding bmod_def by (simp add: getu_modu_frame [where g = uncounted])

text \<open>
  (C3) A connection is given to a user only by his name together with his password, when he is not
  locked out: the password of the descriptor, encrypted, is the one that is stored. Without a login
  nothing changes for any user but the count of wrong passwords and its time. No user has the number -1,
  which \<open>linkpeer\<close> answers when it refuses.
\<close>

theorem login_needs_password:
  assumes "by_login (p_login (heard v b)) b \<noteq> -1"
  shows "\<exists>rc v' b'. checkoldlistener hail e v b = Some (rc, v', b') \<and>
    (if rc = 0 then \<forall>m. uncounted (buser b' m) = uncounted (buser b m)
     else rc = by_login (p_login (heard v b)) b \<and>
       peer_pass (e_salt e) (p_pass (heard v b)) = Some (u_pass (buser b rc)) \<and> \<not> locked_out e (buser b rc))"
proof -
  obtain rc v' b' where c: "checkoldlistener hail e v b = Some (rc, v', b')"
    using checkoldlistener_total [of hail e v b] by auto
  then show ?thesis
  proof (cases rule: checkoldlistener_cases)
    case (login r v2 b1 b2)
    show ?thesis
      using login(2)
    proof (cases rule: linkpeer_cases)
      case (wrong pw)
      have "uncounted (buser b2 m) = uncounted (buser b1 m)" for m
        unfolding wrong(6) by (rule uncounted_bmod) (simp add: uncounted_def)
      then show ?thesis using c login wrong(1) by auto
    next
      case right
      then show ?thesis using c login(1,3) by_login_users [OF login(1), of "p_login (heard v b)"] assms by auto
    qed (use c login in auto)
  qed (use c in auto)
qed

text \<open>
  Lines that a connection sends before it belongs to a user, up to the one with which it becomes a
  user's or is closed.
\<close>

fun stranger_lines ::
  "(int \<Rightarrow> bnc \<Rightarrow> bnc) \<Rightarrow> (env \<times> string) list \<Rightarrow> newpeert \<Rightarrow> bnc \<Rightarrow> (int \<times> newpeert \<times> bnc) option" where
  "stranger_lines hail [] v b = Some (0, v, b)"
| "stranger_lines hail ((e, t) # ls) v b =
     do {
       (rc, v, b) \<leftarrow> checkoldlistener hail e v (b\<lparr>b_buf := t\<rparr>);
       if rc \<noteq> 0 \<or> p_state v = STD_NOUSE then Some (rc, v, b) else stranger_lines hail ls v b
     }"

text \<open>
  (C7) A connection that belongs to no user is closed with its ninth line at the latest.
\<close>

theorem stranger_line_limit:
  assumes "length ls + nat (p_delayed v) \<ge> 9" "0 \<le> p_delayed v" "p_delayed v \<le> 8"
  shows "\<exists>rc v' b'. stranger_lines hail ls v b = Some (rc, v', b') \<and> (rc \<noteq> 0 \<or> p_state v' = STD_NOUSE)"
  using assms
proof (induction hail ls v b rule: stranger_lines.induct)
  case (2 hail e t ls v b)
  obtain r v1 b1 where c: "checkoldlistener hail e v (b\<lparr>b_buf := t\<rparr>) = Some (r, v1, b1)"
    using checkoldlistener_total [of hail e v "b\<lparr>b_buf := t\<rparr>"] by auto
  show ?case
  proof (cases "r \<noteq> 0 \<or> p_state v1 = STD_NOUSE")
    case False
    have "p_delayed v1 = p_delayed v + 1 \<and> p_delayed v1 \<le> 8"
      using c by (cases rule: checkoldlistener_cases)
        (use False in \<open>auto simp: zero_newpeert_def STD_NOUSE_def dest: linkpeer_nonzero\<close>)
    then show ?thesis using 2(1) [OF c refl refl] c False 2(2,3) by (simp add: nat_add_distrib)
  qed (use c in auto)
qed simp

text \<open>Wrong passwords for a user, one connection after the other.\<close>

fun wrong_logins :: "(int \<Rightarrow> bnc \<Rightarrow> bnc) \<Rightarrow> (env \<times> newpeert) list \<Rightarrow> bnc \<Rightarrow> bnc option" where
  "wrong_logins hail [] b = Some b"
| "wrong_logins hail ((e, v) # ls) b =
     do {
       (rc, v', b) \<leftarrow> linkpeer hail e v b;
       if rc = -1 then wrong_logins hail ls b else None
     }"

lemma login_loop_bmod:
  assumes "\<And>u. u_login (f u) = u_login u" "\<And>u. u_parent (f u) = u_parent u"
  shows "by_login name (bmod n f b) = by_login name b"
proof -
  have "u_login (buser (bmod n f b) m) = u_login (buser b m)" "u_parent (buser (bmod n f b) m) = u_parent (buser b m)" for m
    using assms by (simp_all add: bmod_def getu_modu_frame [where g = u_login] getu_modu_frame [where g = u_parent])
  then have "login_loop name ns (bmod n f b) = login_loop name ns b" for ns
    by (induction ns) (simp_all only: login_loop.simps Let_def)
  then show ?thesis by (simp add: by_login_def bmod_def)
qed

lemma bmod_pass: "(\<And>u. u_pass (f u) = u_pass u) \<Longrightarrow> u_pass (buser (bmod n f b) m) = u_pass (buser b m)"
  unfolding bmod_def by (simp add: getu_modu_frame [where g = u_pass])

lemma wrong_login:
  assumes "by_login (p_login v) b = n" "n \<noteq> 0" "peer_pass (e_salt e) (p_pass v) \<noteq> Some (u_pass (buser b n))"
  shows "\<exists>v'. linkpeer hail e v b = Some (-1, v', bmod n (\<lambda>u. u\<lparr>u_penalty := u_penalty u + 1, u_pentime := e_time e\<rparr>) b)"
  using assms peer_pass_total [of "e_salt e" "p_pass v"] by (auto simp: linkpeer_def Let_def)

lemma wrong_logins_count:
  assumes "n \<noteq> 0" "by_login name b = n"
    and "\<forall>(e, v) \<in> set ls. p_login v = name \<and> peer_pass (e_salt e) (p_pass v) \<noteq> Some (u_pass (buser b n))"
  shows "\<exists>b'. wrong_logins hail ls b = Some b' \<and>
    u_penalty (buser b' n) = u_penalty (buser b n) + int (length ls) \<and> by_login name b' = n \<and>
    u_pass (buser b' n) = u_pass (buser b n) \<and> (ls \<noteq> [] \<longrightarrow> u_pentime (buser b' n) = e_time (fst (last ls)))"
  using assms
proof (induction hail ls b rule: wrong_logins.induct)
  case (2 hail e v ls b)
  let ?f = "\<lambda>u. u\<lparr>u_penalty := u_penalty u + 1, u_pentime := e_time e\<rparr>"
  let ?b = "bmod n ?f b"
  obtain v1 where l: "linkpeer hail e v b = Some (-1, v1, ?b)" using wrong_login [of v b n e hail] 2(2-4) by auto
  have u: "buser ?b n = ?f (buser b n)" by (simp add: bmod_def getu_modu_same)
  have "by_login name ?b = n" using 2(3) by (simp add: login_loop_bmod)
  then obtain b' where b': "wrong_logins hail ls ?b = Some b'"
      "u_penalty (buser b' n) = u_penalty (buser ?b n) + int (length ls) \<and> by_login name b' = n \<and>
       u_pass (buser b' n) = u_pass (buser ?b n) \<and> (ls \<noteq> [] \<longrightarrow> u_pentime (buser b' n) = e_time (fst (last ls)))"
    using 2(1) [OF l refl refl refl] 2(2,4) u by auto
  then show ?case using u l by (cases ls) auto
qed simp

text \<open>
  (C4) Three wrong passwords lock a user out: whoever tries next, with whatever password, is refused for
  ten minutes after the last one.
\<close>

theorem wrong_passwords_lock:
  assumes "length ls \<ge> 3" "by_login name b = n" "n \<noteq> 0" "n \<noteq> -1" "0 \<le> u_penalty (buser b n)"
    and "\<forall>(e, v) \<in> set ls. p_login v = name \<and> peer_pass (e_salt e) (p_pass v) \<noteq> Some (u_pass (buser b n))"
    and "p_login v = name" "e_time e < e_time (fst (last ls)) + 600" "0 \<le> e_rand e"
  shows "\<exists>b1 v' b'. wrong_logins hail ls b = Some b1 \<and> linkpeer hail e v b1 = Some (-1, v', b')"
proof -
  obtain b1 where c: "wrong_logins hail ls b = Some b1" "u_penalty (buser b1 n) = u_penalty (buser b n) + int (length ls)"
      "by_login name b1 = n" "ls \<noteq> [] \<longrightarrow> u_pentime (buser b1 n) = e_time (fst (last ls))"
    using wrong_logins_count [OF assms(3,2,6), of hail] by blast
  obtain rc v' b' where l: "linkpeer hail e v b1 = Some (rc, v', b')"
    using linkpeer_total [of hail e v b1] by auto
  have "ls \<noteq> []" using assms(1) by auto
  moreover have "0 \<le> e_rand e mod 120" by simp
  ultimately have "locked_out e (buser b1 n)" using c assms(1,5,8) unfolding locked_out_def by auto
  then have "rc = -1" using c(3) assms(7) by (cases rule: linkpeer_cases [OF l]) auto
  then show ?thesis using c(1) l by blast
qed

section \<open>The password a user has set\<close>

lemma write_loop_nonempty: "write_loop ppuf spuf (Some t) pre sect c = Found c' \<Longrightarrow> c' \<noteq> []"
  by (induction c arbitrary: pre sect) (auto split: if_splits)

lemma writeini_nonempty: "c \<noteq> [] \<Longrightarrow> v \<noteq> [] \<Longrightarrow> \<exists>c'. writeini section p fname (Some v) c = Some c' \<and> c' \<noteq> []"
  by (cases v) (auto simp: writeini_def Let_def split: write_found.split option.split dest: write_loop_nonempty)

lemma put_pass_runs:
  assumes "fst (b_store b) \<noteq> []"
  shows "\<exists>s. fst s \<noteq> [] \<and> put_pass pw i b =
    Some (bmod i (\<lambda>u. u\<lparr>u_pass := snpf 20 (''='' @ pw), u_pentime := 0, u_penalty := 0\<rparr>) b\<lparr>b_store := s\<rparr>)"
proof -
  let ?t = "snpf 20 (''='' @ pw)"
  have t: "?t \<noteq> []" by (simp add: snpf_def)
  from writeini_nonempty [OF assms t, of "''USER''" "''PASS''" "user_key i"]
  obtain c where "writeini ''USER'' ''PASS'' (user_key i) (Some ?t) (fst (b_store b)) = Some c" "c \<noteq> []" by blast
  then show ?thesis
    by (auto simp: put_pass_def put_entry_def store_write_def Let_def bmod_def getu_modu_same intro!: exI [of _ "(c, snd (b_store b))"])
qed

text \<open>Every user on the list has the password and no wrong ones counted, the logins stay.\<close>

lemma put_passes_runs:
  assumes "fst (b_store b) \<noteq> []"
  shows "\<exists>b'. put_passes pw is b = Some b' \<and> uids (b_users b') = uids (b_users b) \<and>
    (\<forall>i. i \<in> set is \<or> u_pass (buser b i) = snpf 20 (''='' @ pw) \<and> u_penalty (buser b i) = 0 \<longrightarrow>
      u_pass (buser b' i) = snpf 20 (''='' @ pw) \<and> u_penalty (buser b' i) = 0) \<and>
    (\<forall>i. u_login (buser b' i) = u_login (buser b i) \<and> u_parent (buser b' i) = u_parent (buser b i))"
  using assms
proof (induction "is" arbitrary: b)
  case (Cons i "is")
  let ?f = "\<lambda>u. u\<lparr>u_pass := snpf 20 (''='' @ pw), u_pentime := 0, u_penalty := 0\<rparr>"
  obtain s where s: "fst s \<noteq> []" "put_pass pw i b = Some (bmod i ?f b\<lparr>b_store := s\<rparr>)" using put_pass_runs [OF Cons.prems] by blast
  have f: "getu (modu i ?f (b_users b)) j = (if ucell (b_users b) j = ucell (b_users b) i then ?f (buser b j) else buser b j)" for j
  proof (cases "ucell (b_users b) j = ucell (b_users b) i")
    case True
    then have "getu (modu i ?f (b_users b)) j = getu (modu i ?f (b_users b)) i" by (intro getu_cell) simp
    then show ?thesis using getu_cell [OF True] True by (simp add: getu_modu_same)
  qed (simp add: getu_modu_other)
  let ?c = "bmod i ?f b\<lparr>b_store := s\<rparr>"
  have c: "u_pass (buser ?c j) = snpf 20 (''='' @ pw) \<and> u_penalty (buser ?c j) = 0"
    if "j = i \<or> u_pass (buser b j) = snpf 20 (''='' @ pw) \<and> u_penalty (buser b j) = 0" for j
    using that by (auto simp: bmod_def f simp del: append.simps)
  have l: "u_login (buser ?c j) = u_login (buser b j) \<and> u_parent (buser ?c j) = u_parent (buser b j)" for j
    by (simp add: bmod_def f del: append.simps)
  have u: "uids (b_users ?c) = uids (b_users b)" by (simp add: bmod_def)
  obtain b' where b': "put_passes pw is ?c = Some b'" "uids (b_users b') = uids (b_users ?c)"
      "\<And>j. j \<in> set is \<or> u_pass (buser ?c j) = snpf 20 (''='' @ pw) \<and> u_penalty (buser ?c j) = 0 \<Longrightarrow>
        u_pass (buser b' j) = snpf 20 (''='' @ pw) \<and> u_penalty (buser b' j) = 0"
      "\<And>j. u_login (buser b' j) = u_login (buser ?c j) \<and> u_parent (buser b' j) = u_parent (buser ?c j)"
    using Cons.IH [of ?c] s(1) by force
  have "put_passes pw (i # is) b = Some b'" using s(2) b'(1) by simp
  moreover have "u_pass (buser b' j) = snpf 20 (''='' @ pw) \<and> u_penalty (buser b' j) = 0"
    if "j \<in> set (i # is) \<or> u_pass (buser b j) = snpf 20 (''='' @ pw) \<and> u_penalty (buser b j) = 0" for j
    using that c [of j] b'(3) [of j] by (cases "j \<in> set is") auto
  ultimately show ?case using b'(2,4) l u by simp
qed simp

lemma put_passes_others:
  assumes "put_passes pw is b = Some b'" "\<forall>i \<in> set is. ucell (b_users b) m \<noteq> ucell (b_users b) i"
  shows "u_pass (buser b' m) = u_pass (buser b m)"
  using assms
proof (induction "is" arbitrary: b)
  case (Cons i "is")
  obtain c where c: "put_pass pw i b = Some c" "put_passes pw is c = Some b'" using Cons.prems(1) by (auto split: Option.bind_splits)
  have "u_pass (buser c m) = u_pass (buser b m)" "ucell (b_users c) = ucell (b_users b)"
    using c(1) Cons.prems(2) by (auto simp: put_pass_def put_entry_def bmod_def getu_modu_other Let_def fun_eq_iff)
  then show ?case using Cons c(2) by simp
qed simp

text \<open>
  (C6) A user who is no admin changes by \<open>PASSWORD\<close> no password but his own and those of his networks,
  whatever name he gives.
\<close>

theorem password_own_family:
  assumes "cmdpassword e n b = Some (x, b')" "u_rights (buser b n) \<noteq> RI_ADMIN"
    and "\<forall>i \<in> set (family n b). ucell (b_users b) m \<noteq> ucell (b_users b) i"
  shows "u_pass (buser b' m) = u_pass (buser b m)"
proof -
  have fam: "family n (mod_irc f b) = family n b" for f by (simp add: family_def)
  have other: "u_pass (buser c m) = u_pass (buser b m)" if "put_passes pw (family n b) b = Some c" for pw c
    using put_passes_others [OF that, of m] assms(3) by simp
  have other': "u_pass (buser c m) = u_pass (buser b m)" if "put_passes pw (family n b) (mod_irc f b) = Some c" for pw f c
    using put_passes_others [OF that, of m] assms(3) by simp
  show ?thesis
    using assms(1,2) fam other other'
    by (cases "cto b = []") (fastforce simp: cmdpassword_def Let_def simp del: append.simps split: if_splits Option.bind_splits)+
qed

lemma by_login_same:
  assumes "uids (b_users c) = uids (b_users b)"
    "\<And>i. u_login (buser c i) = u_login (buser b i)" "\<And>i. u_parent (buser c i) = u_parent (buser b i)"
  shows "by_login name c = by_login name b"
proof -
  have "login_loop name ns c = login_loop name ns b" for ns
    by (induction ns) (simp_all only: login_loop.simps Let_def assms)
  then show ?thesis by (simp add: by_login_def assms)
qed

text \<open>
  (C5) What a user sets by \<open>PASSWORD\<close> opens his account: a connection that gives his name and that
  password by \<open>PASS\<close> is his, from the next login on, even if he was locked out before. The password has
  at most 19 characters and does not start with \<open>+\<close>: \<open>PASS\<close> cuts the one and changes the other.
\<close>

theorem password_login:
  assumes "ccontent b = pw" "cto b = []" "pw \<noteq> []" "length pw \<le> 19" "hd pw \<noteq> CHR ''+''" "fst (b_store b) \<noteq> []"
    and "by_login name b = n" "n \<noteq> 0" "n \<in> set (uids (b_users b))" "length (slt1 (e_salt e) @ slt2 (e_salt e)) < 200"
  shows "\<exists>b1. cmdpassword e n b = Some (0, b1) \<and>
    (\<forall>hail e' v c. e_salt e' = e_salt e \<longrightarrow> p_login v = name \<longrightarrow> ifcommand (Some ''PASS'') (b_irc c) \<longrightarrow> ccontent c = pw \<longrightarrow>
       (\<exists>v' b2. linkpeer hail e' (fst (peer_setpass v c)) b1 = Some (n, v', b2)))"
proof -
  let ?sl = "slt1 (e_salt e) @ slt2 (e_salt e)"
  obtain t where t: "BLOW_stringencrypt ?sl pw = Some t"
    using blow_enc_loop_total by (auto simp: BLOW_stringencrypt_def BLOWencrypt_def Let_def)
  have sl: "snpf 400 ?sl = ?sl" "snpf 200 ?sl = ?sl" using assms(10) by (simp_all add: snpf_def)
  let ?b = "mod_irc (\<lambda>i. i\<lparr>irc_state.ircto := strmncpy (u_login (buser b n)) 800\<rparr>) b"
  have st: "fst (b_store ?b) \<noteq> []" using assms(6) by (simp add: mod_irc_def)
  obtain c where c: "put_passes t (family n ?b) ?b = Some c" "uids (b_users c) = uids (b_users b)"
      "\<And>i. i \<in> set (family n ?b) \<Longrightarrow> u_pass (buser c i) = snpf 20 (''='' @ t) \<and> u_penalty (buser c i) = 0"
      "\<And>i. u_login (buser c i) = u_login (buser b i) \<and> u_parent (buser c i) = u_parent (buser b i)"
    using put_passes_runs [of ?b t "family n ?b"] st by auto
  obtain b1 where b1: "cmdpassword e n b = Some (0, b1)" "b_users b1 = b_users c"
    using assms(1-3) t sl c(1) by (simp add: cmdpassword_def Let_def mod_irc_def)
  have n: "u_pass (buser b1 n) = snpf 20 (''='' @ t)" "u_penalty (buser b1 n) = 0" using b1(2) c(3) [of n] assms(9) by (simp_all add: family_def)
  have name: "by_login name b1 = n" using by_login_same [of b1 b] b1(2) c(2,4) assms(7) by simp
  have login: "\<exists>v' b2. linkpeer hail e' v b1 = Some (n, v', b2)"
    if "e_salt e' = e_salt e" "p_login v = name" "p_pass v = pw" for hail e' v
  proof -
    obtain rc v' b2 where l: "linkpeer hail e' v b1 = Some (rc, v', b2)" using linkpeer_total [of hail e' v b1] by auto
    have "peer_pass (e_salt e') (p_pass v) = Some (u_pass (buser b1 n))" using that t sl n by (simp add: peer_pass_def)
    moreover have "\<not> locked_out e' (buser b1 n)" using n by (simp add: locked_out_def)
    ultimately have "rc = n" using l that name assms(8) by (auto simp: linkpeer_def Let_def split: Option.bind_splits if_splits)
    then show ?thesis using l by blast
  qed
  have pass: "p_pass (fst (peer_setpass v c)) = pw \<and> p_login (fst (peer_setpass v c)) = p_login v"
    if "ifcommand (Some ''PASS'') (b_irc c)" "ccontent c = pw" for v c
    using that assms(3-5) by (cases pw) (simp_all add: peer_setpass_def Let_def at_def strmncpy_def)
  show ?thesis using b1(1) login pass by auto
qed

section \<open>Examples\<close>

text \<open>Two users, of which the first has a password that encrypts nothing, and a descriptor that waits for a password.\<close>

definition jane_bnc :: bnc where
  "jane_bnc = talk_bnc
     \<lparr>b_users := \<lparr>us_nodes = [(1, zero_usert\<lparr>u_login := ''jane'', u_pass := ''none''\<rparr>), (2, zero_usert\<lparr>u_login := ''bob''\<rparr>)], us_dummy = zero_usert, us_null = zero_usert\<rparr>,
      b_buf := ''PASS :secret'', b_irc := empty_irc\<lparr>irccommand := ''PASS'', irccontent := ''secret''\<rparr>\<rparr>"

definition jane_peer :: newpeert where
  "jane_peer = zero_newpeert\<lparr>p_login := ''jane'', p_nick := ''jane'', p_state := STD_NEWCON, p_insock := 7\<rparr>"

lemma jane_user: "buser jane_bnc 1 = zero_usert\<lparr>u_login := ''jane'', u_pass := ''none''\<rparr>" "uids (b_users jane_bnc) = [1, 2]"
  "buser jane_bnc 2 = zero_usert\<lparr>u_login := ''bob''\<rparr>" "ucell (b_users jane_bnc) 1 \<noteq> ucell (b_users jane_bnc) 2"
  by (simp_all add: jane_bnc_def talk_bnc_def getu_def ucell_def user_nr_def MAX_USER_def uids_def)

lemma jane_login: "by_login ''jane'' jane_bnc = 1"
  by (simp add: by_login_def jane_user Let_def zero_usert_def)

lemma jane_wrong: "peer_pass sl pw \<noteq> Some ''none''"
  by (auto simp: peer_pass_def snpf_def)

theorem login_needs_password_witness:
  "\<exists>rc v' b'. checkoldlistener (\<lambda>n b. b) sample_env (jane_peer\<lparr>p_pass := ''guess''\<rparr>) (jane_bnc\<lparr>b_buf := []\<rparr>) = Some (rc, v', b') \<and>
    rc = 0 \<and> uncounted (buser b' 1) = uncounted (buser jane_bnc 1)"
proof -
  let ?b = "jane_bnc\<lparr>b_buf := []\<rparr>" and ?v = "jane_peer\<lparr>p_pass := ''guess''\<rparr>"
  have "irccommand (b_irc (bparse ?b)) = []" by code_simp
  then have "heard ?v ?b = ?v\<lparr>p_delayed := 1\<rparr>"
    by (simp add: heard_def peer_user_def peer_nick_def peer_setpass_def ifcommand_def jane_peer_def zero_newpeert_def)
  then have "p_login (heard ?v ?b) = ''jane''" by (simp add: jane_peer_def)
  moreover have "by_login ''jane'' ?b = 1" using jane_login by_login_users [of ?b jane_bnc] by simp
  ultimately show ?thesis
    using login_needs_password [of ?v ?b "\<lambda>n b. b" sample_env] jane_wrong by (auto simp: jane_user split: if_splits)
qed

theorem stranger_line_limit_witness:
  "\<exists>rc v' b'. stranger_lines (\<lambda>n b. b) (replicate 9 (sample_env, ''HELLO'')) (zero_newpeert\<lparr>p_state := STD_NEWCON\<rparr>) jane_bnc = Some (rc, v', b') \<and>
    (rc \<noteq> 0 \<or> p_state v' = STD_NOUSE)"
  by (rule stranger_line_limit) (simp_all add: zero_newpeert_def)

theorem wrong_passwords_lock_witness:
  "\<exists>b1 v' b'. wrong_logins (\<lambda>n b. b) (replicate 3 (sample_env, jane_peer\<lparr>p_pass := ''guess''\<rparr>)) jane_bnc = Some b1 \<and>
    linkpeer (\<lambda>n b. b) (sample_env\<lparr>e_time := 1599\<rparr>) jane_peer b1 = Some (-1, v', b')"
  by (rule wrong_passwords_lock [OF _ jane_login])
    (auto simp: jane_user jane_wrong jane_peer_def sample_env_def zero_usert_def)

theorem password_own_family_witness:
  "\<exists>x b'. cmdpassword sample_env 1 (jane_bnc\<lparr>b_irc := empty_irc\<lparr>irccontent := ''x'', irc_state.ircto := ''bob''\<rparr>\<rparr>) = Some (x, b') \<and>
    u_pass (buser b' 2) = u_pass (buser jane_bnc 2)"
proof -
  let ?b = "jane_bnc\<lparr>b_irc := empty_irc\<lparr>irccontent := ''x'', irc_state.ircto := ''bob''\<rparr>\<rparr>"
  have "by_login ''bob'' ?b = 2" by (simp add: by_login_def jane_user Let_def zero_usert_def)
  then obtain x b' where c: "cmdpassword sample_env 1 ?b = Some (x, b')"
    by (simp add: cmdpassword_def Let_def jane_user zero_usert_def RI_ADMIN_def empty_irc_def)
  have "u_pass (buser b' 2) = u_pass (buser ?b 2)"
    by (rule password_own_family [OF c])
      (use jane_user(4) [symmetric] in \<open>auto simp: family_def jane_user zero_usert_def RI_ADMIN_def\<close>)
  then show ?thesis using c by auto
qed

theorem password_login_witness:
  "\<exists>b1 v' b2. cmdpassword sample_env 1 jane_bnc = Some (0, b1) \<and>
    linkpeer (\<lambda>n b. b) sample_env (fst (peer_setpass jane_peer jane_bnc)) b1 = Some (1, v', b2)"
proof -
  have j: "ccontent jane_bnc = ''secret''" "cto jane_bnc = []" "fst (b_store jane_bnc) \<noteq> []" "ifcommand (Some ''PASS'') (b_irc jane_bnc)"
      "p_login jane_peer = ''jane''"
    by (simp_all add: jane_bnc_def talk_bnc_def jane_peer_def ifcommand_def strmcmp_def empty_irc_def)
  have sl: "length (slt1 (e_salt sample_env) @ slt2 (e_salt sample_env)) < 200" by code_simp
  show ?thesis
    using password_login [OF j(1,2) _ _ _ j(3) jane_login _ _ sl] j jane_user by fastforce
qed

end
