(* ===== verification/Exchange.thy ===== *)
theory Exchange
  imports Peer
begin

text \<open>
  Chats and files between users, src/p_dcc.c: requests that come in and go out, the list of the pending
  and running ones, the events of their sockets, and the connections to bots. An open file is
  its text with the number of bytes moved so far; a read of fewer than 2048 bytes is the last one.
\<close>

section \<open>What the system answers\<close>

text \<open>
  The address of the bouncer for DCCs, as text and as number, the directory for files, the random number and
  the socket of each try to listen, the sockets that are created for connections, in order, what the two
  uninitialised variables hold that are read, the process a script is started in, what the end of
  a process does, the pipe to a process, the socket that listened and the address that was accepted, the number of bytes
  that are written of those that should be, and whether more data waits.
\<close>

datatype hook = ChatScript | FileScript | CtcpScript string

record dccenv =
  x_host :: string
  x_ip :: nat
  x_root :: string
  x_listen :: "nat \<Rightarrow> int \<times> int"
  x_sock :: "nat \<Rightarrow> int"
  x_dip :: nat
  x_word :: int
  x_script :: "hook \<Rightarrow> int \<Rightarrow> bnc \<Rightarrow> int"
  x_end :: "int \<Rightarrow> bnc \<Rightarrow> bnc"
  x_pipe :: "int \<Rightarrow> int option"
  x_master :: int
  x_acceptip :: string
  x_written :: "nat \<Rightarrow> nat"
  x_waiting :: bool

definition PDC_CHATTORQ :: int where "PDC_CHATTORQ = 1"

definition PDC_CHATTO :: int where "PDC_CHATTO = 2"

definition PDC_CHATFROMRQ :: int where "PDC_CHATFROMRQ = 3"

definition PDC_CHATFROM :: int where "PDC_CHATFROM = 4"

definition PDC_SENDTORQ :: int where "PDC_SENDTORQ = 5"

definition PDC_SENDTO :: int where "PDC_SENDTO = 6"

definition PDC_RECVFROMRQ :: int where "PDC_RECVFROMRQ = 7"

definition PDC_RECVFROM :: int where "PDC_RECVFROM = 8"

section \<open>Files\<close>

definition dccrootpath :: "dccenv \<Rightarrow> string" where
  "dccrootpath x = (if x_root x = [] then ''downloads'' else x_root x)"

definition dccfilepath :: "dccenv \<Rightarrow> nat \<Rightarrow> int \<Rightarrow> string \<Rightarrow> string" where
  "dccfilepath x len usern fil = snpf len (dccrootpath x @ ''/USER'' @ decimal_int usern @ ''/'' @ fil)"

text \<open>What is behind the last \<open>c\<close>.\<close>

function behind_last :: "char \<Rightarrow> string \<Rightarrow> string" where
  "behind_last c pt = (if c \<in> set pt then behind_last c (tl (dropWhile (\<lambda>d. d \<noteq> c) pt)) else pt)"
  by pat_completeness auto
termination
proof (relation "measure (\<lambda>(c, pt). length pt)", goal_cases)
  case (2 c pt)
  then have "dropWhile (\<lambda>d. d \<noteq> c) pt \<noteq> []" by (simp add: dropWhile_eq_Nil_conv)
  moreover have "length (dropWhile (\<lambda>d. d \<noteq> c) pt) \<le> length pt" by (rule length_dropWhile_le)
  ultimately show ?case by (cases "dropWhile (\<lambda>d. d \<noteq> c) pt") auto
qed simp

declare behind_last.simps [simp del]

text \<open>
  The name of a file without its directories: of a file to send (\<open>received\<close> is false), which may not be a
  device or a file of the system, or of one that is offered, which may have no directories at all.
\<close>

definition stripdccfile :: "string \<Rightarrow> bool \<Rightarrow> string option" where
  "stripdccfile realname received =
     (if \<not> received \<and> (prefix ''/dev/'' realname \<or> prefix ''/etc/'' realname) then None
      else if strchr realname (CHR ''?'') \<noteq> None \<or> strchr realname (CHR ''*'') \<noteq> None then None
      else if received \<and> strchr realname (CHR ''/'') \<noteq> None then None
      else
        let pt = behind_last (CHR 0x5C) (behind_last (CHR ''/'') realname) in
        if received \<and> strstr pt ''..'' \<noteq> None then None else Some pt)"

section \<open>The list of a user\<close>

definition createpdcc :: "int \<Rightarrow> dcct \<Rightarrow> bnc \<Rightarrow> bnc" where
  "createpdcc usern d b = bmod usern (\<lambda>u. u\<lparr>u_pdcc := u_pdcc u @ [d]\<rparr>) b"

text \<open>The entry of a socket, when the program knows the socket.\<close>

fun pdcc_of_sock :: "int \<Rightarrow> dcct list \<Rightarrow> nat option" where
  "pdcc_of_sock s [] = None"
| "pdcc_of_sock s (d # ds) = (if s = d_sock d then Some 0 else map_option Suc (pdcc_of_sock s ds))"

definition getpsocketpdcc :: "env \<Rightarrow> int \<Rightarrow> int \<Rightarrow> bnc \<Rightarrow> nat option" where
  "getpsocketpdcc e usern psock b = (if e_peer e psock = None then None else pdcc_of_sock psock (u_pdcc (buser b usern)))"

definition mod_pdcc :: "int \<Rightarrow> nat \<Rightarrow> (dcct \<Rightarrow> dcct) \<Rightarrow> bnc \<Rightarrow> bnc" where
  "mod_pdcc usern i f b = bmod usern (\<lambda>u. u\<lparr>u_pdcc := (u_pdcc u)[i := f (u_pdcc u ! i)]\<rparr>) b"

abbreviation pdcc :: "int \<Rightarrow> nat \<Rightarrow> bnc \<Rightarrow> dcct" where
  "pdcc usern i b \<equiv> u_pdcc (buser b usern) ! i"

text \<open>The entry of the socket \<open>s\<close> is taken out of the list; its script and its socket end.\<close>

definition end_task :: "dccenv \<Rightarrow> dcct \<Rightarrow> bnc \<Rightarrow> bnc" where
  "end_task x d b = (if d_pid d \<noteq> 0 \<and> x_pipe x (d_pid d) \<noteq> None then x_end x (d_pid d) b else b)"

definition removepdcc :: "dccenv \<Rightarrow> env \<Rightarrow> int \<Rightarrow> int \<Rightarrow> bnc \<Rightarrow> bnc" where
  "removepdcc x e s usern b =
     (case getpsocketpdcc e usern s b of
        None \<Rightarrow> b
      | Some i \<Rightarrow>
          let d = pdcc usern i b;
              b = bmod usern (\<lambda>u. u\<lparr>u_pdcc := take i (u_pdcc u) @ drop (Suc i) (u_pdcc u)\<rparr>) b
          in if d_sock d > 0 then bout (Kill (d_sock d)) (end_task x d b) else b)"

text \<open>The name of the network in front of the nick of the other side.\<close>

definition netc :: "int \<Rightarrow> bnc \<Rightarrow> string" where
  "netc usern b = (let u = buser b usern in if u_parent u \<noteq> 0 then snpf 20 (u_network u @ ''~'') else [])"

abbreviation dcc_say :: "int \<Rightarrow> string \<Rightarrow> bnc \<Rightarrow> bnc" where
  "dcc_say usern t b \<equiv> to_client usern (psybnc_msg (u_nick (buser b usern)) @ t) b"

definition say_if_here :: "int \<Rightarrow> string \<Rightarrow> bnc \<Rightarrow> bnc" where
  "say_if_here usern t b = (if u_instate (buser b usern) = STD_CONN then dcc_say usern t b else b)"

section \<open>Requests\<close>

text \<open>\<open>sscanf\<close> with \<open>%lu\<close>, and an address of four bytes as text.\<close>

definition scan_ulong :: "string \<Rightarrow> nat option" where
  "scan_ulong s =
     (let s = dropWhile isspace s; neg = (at s 0 = CHR ''-''); t = (if neg \<or> at s 0 = CHR ''+'' then tl s else s);
          v = digits_val 0 t
      in if \<not> isdigit (at t 0) then None
         else Some (if v \<ge> 2 ^ 64 then 2 ^ 64 - 1 else if neg then (2 ^ 64 - v) mod 2 ^ 64 else v))"

definition inet_ntoa :: "nat \<Rightarrow> string" where
  "inet_ntoa n =
     decimal (n div 2 ^ 24 mod 256) @ ''.'' @ decimal (n div 2 ^ 16 mod 256) @ ''.'' @ decimal (n div 2 ^ 8 mod 256) @ ''.'' @
     decimal (n mod 256)"

text \<open>A host without a colon is a number; when it is none, the variable for it was never set.\<close>

definition request_host :: "dccenv \<Rightarrow> string \<Rightarrow> string" where
  "request_host x host =
     strmncpy (if strchr host (CHR '':'') = None
               then inet_ntoa (case scan_ulong host of None \<Rightarrow> x_dip x | Some dip \<Rightarrow> dip) else host) 200"

definition randport :: "int \<Rightarrow> int" where
  "randport r = (let port = r mod 2 ^ 16 in if port < 1024 then port + 1024 else port)"

fun listen_tries :: "dccenv \<Rightarrow> nat list \<Rightarrow> int \<times> int \<Rightarrow> int \<times> int" where
  "listen_tries x [] r = r"
| "listen_tries x (cnt # cs) (prt, sck) =
     (if sck > 0 then (prt, sck) else listen_tries x cs (randport (fst (x_listen x cnt)), snd (x_listen x cnt)))"

text \<open>Port, number and address of a listening socket, or an entry in the log.\<close>

definition open_listener :: "dccenv \<Rightarrow> env \<Rightarrow> int \<Rightarrow> bnc \<Rightarrow> (int \<times> int \<times> string) option \<times> bnc" where
  "open_listener x e usern b =
     (let (prt, sck) = listen_tries x [0..<20] (0, 0) in
      if sck \<le> 0 then (None, p_log e LOG_ERROR usern (''Cannot create listening Port in 20 tries.. giving up.'') b)
      else case e_peer e sck of
             None \<Rightarrow> (None, p_log e LOG_ERROR usern (''Cannot create Socket.. giving up.'') b)
           | Some (dest, dport, source, sport) \<Rightarrow> (Some (prt, sck, source), bout (Listen sck (x_host x) prt) b))"

definition ctcp :: "string \<Rightarrow> string" where
  "ctcp t = [CHR 0x01] @ t @ [CHR 0x01]"

text \<open>What a user needs to offer something: a connection to a server and an address.\<close>

definition offer_ready :: "dccenv \<Rightarrow> env \<Rightarrow> int \<Rightarrow> bnc \<Rightarrow> bool \<times> bnc" where
  "offer_ready x e usern b =
     (if u_outstate (buser b usern) \<noteq> STD_CONN then (False, dcc_say usern ''You are not connected.'' b)
      else if x_host x = []
      then (False, p_log e LOG_ERROR usern (''No IP defined for DCC Usage. Please create a line '' @ [CHR 0x27] @
             ''PSYBNC.SYSTEM.DCCHOST=IP'' @ [CHR 0x27] @ '' in the psybnc.conf.'') b)
      else (True, b))"

definition new_offer :: "int \<Rightarrow> int \<Rightarrow> int \<Rightarrow> int \<Rightarrow> string \<Rightarrow> string \<Rightarrow> dcct" where
  "new_offer type usern prt sck source nick =
     zero_dcct\<lparr>d_type := type, d_nick := strmncpy nick 64, d_host := strmncpy source 200, d_port := prt, d_sock := sck,
       d_uid := usern, d_delay := 50\<rparr>"

definition offer_chat :: "dccenv \<Rightarrow> env \<Rightarrow> int \<Rightarrow> string \<Rightarrow> bnc \<Rightarrow> int \<times> bnc" where
  "offer_chat x e usern nick b =
     (case offer_ready x e usern b of
        (False, b) \<Rightarrow> (-1, b)
      | (True, b) \<Rightarrow>
          (case open_listener x e usern b of
             (None, b) \<Rightarrow> (-1, b)
           | (Some (prt, sck, source), b) \<Rightarrow>
               let d = new_offer PDC_CHATTORQ usern prt sck source nick; b = createpdcc usern d b;
                   b = say_if_here usern (''DCC Chat request sent to '' @ netc usern b @ d_nick d @ '' ('' @ d_host d @ '':'' @
                         decimal_int prt @ '')'') b;
                   b = to_server usern (''NOTICE '' @ d_nick d @ '' :DCC Chat ('' @ d_host d @ '')'') b
               in (0, to_server usern (''PRIVMSG '' @ d_nick d @ '' :'' @
                        ctcp (''DCC CHAT chat '' @ decimal (x_ip x) @ '' '' @ decimal_int prt)) b)))"

text \<open>The file under its own name, or else in the directory of the user.\<close>

definition offered_file :: "dccenv \<Rightarrow> env \<Rightarrow> int \<Rightarrow> string \<Rightarrow> string \<Rightarrow> bnc \<Rightarrow> string option" where
  "offered_file x e usern name fil b =
     (let there = (\<lambda>f. e_canopen e f \<and> b_files b f \<noteq> None); mine = dccfilepath x 800 usern fil in
      if there name then Some name else if there mine then Some mine else None)"

definition offer_file :: "dccenv \<Rightarrow> env \<Rightarrow> int \<Rightarrow> string \<Rightarrow> string \<Rightarrow> bnc \<Rightarrow> int \<times> bnc" where
  "offer_file x e usern nick name b =
     (case offer_ready x e usern b of
        (False, b) \<Rightarrow> (-1, b)
      | (True, b) \<Rightarrow>
          (case stripdccfile name False of
             None \<Rightarrow> (-1, p_log e LOG_ERROR usern (''Invalid Filename '' @ [CHR 0x27] @ name @ [CHR 0x27] @ ''.'') b)
           | Some fil \<Rightarrow>
               (case offered_file x e usern name fil b of
                  None \<Rightarrow> (-1, dcc_say usern (''File '' @ name @ '' not found.'') b)
                | Some path \<Rightarrow>
                    (case open_listener x e usern b of
                       (None, b) \<Rightarrow> (-1, b)
                     | (Some (prt, sck, source), b) \<Rightarrow>
                         let flen = length (file_text b path);
                             d = (new_offer PDC_SENDTORQ usern prt sck source nick)
                                   \<lparr>d_file := strmncpy path 200, d_filesize := int flen\<rparr>;
                             b = createpdcc usern d b;
                             b = say_if_here usern (''DCC File Send for '' @ fil @ '' request sent to '' @ netc usern b @ d_nick d @
                                   '' ('' @ d_host d @ '':'' @ decimal_int prt @ '')'') b;
                             b = to_server usern (''NOTICE '' @ d_nick d @ '' :DCC Send '' @ fil @ '' ('' @ d_host d @ '')'') b
                         in (0, to_server usern (''PRIVMSG '' @ d_nick d @ '' :'' @
                                  ctcp (''DCC SEND '' @ fil @ '' '' @ decimal (x_ip x) @ '' '' @ decimal_int prt @ '' '' @
                                        decimal flen)) b)))))"

text \<open>A script of the user may take a request; the line is parsed anew behind it.\<close>

definition run_script :: "dccenv \<Rightarrow> hook \<Rightarrow> int \<Rightarrow> bnc \<Rightarrow> int \<times> bnc" where
  "run_script x h usern b = (x_script x h usern b, bparse b)"

definition last_pdcc :: "int \<Rightarrow> (dcct \<Rightarrow> dcct) \<Rightarrow> bnc \<Rightarrow> bnc" where
  "last_pdcc usern f b = mod_pdcc usern (length (u_pdcc (buser b usern)) - 1) f b"

text \<open>Somebody asks for a chat; not more than one request in five seconds counts.\<close>

definition chat_request :: "dccenv \<Rightarrow> env \<Rightarrow> int \<Rightarrow> string \<Rightarrow> int \<Rightarrow> string \<Rightarrow> bnc \<Rightarrow> int \<times> bnc" where
  "chat_request x e usern host port nick b =
     (let dccreq = u_lastdccchat (buser b usern); b = bmod usern (\<lambda>u. u\<lparr>u_lastdccchat := e_time e\<rparr>) b in
      if (e_time e - dccreq) mod 2 ^ 64 < 5 \<or> port < 1024 \<or> port > 65535 then (-1, b)
      else
        let d = zero_dcct\<lparr>d_type := PDC_CHATFROMRQ, d_uid := usern, d_port := port, d_host := request_host x host,
                  d_nick := strmncpy nick 64, d_delay := 50\<rparr>;
            b = createpdcc usern d b;
            b = dcc_say usern (netc usern b @ d_nick d @ '' sent a DCC Chat Request. Use /DCCANSWER '' @ d_nick d @
                  '' to establish the connection ('' @ d_host d @ ''/'' @ decimal_int port @ '').'') b;
            (pid, b) = run_script x ChatScript usern b
        in (0, last_pdcc usern (\<lambda>d. d\<lparr>d_pid := pid\<rparr>) b))"

text \<open>The user answers: every request for a chat from this nick is tried until a socket is there.\<close>

fun answer_chat :: "dccenv \<Rightarrow> int \<Rightarrow> string \<Rightarrow> nat list \<Rightarrow> nat \<Rightarrow> bnc \<Rightarrow> bool \<times> bnc" where
  "answer_chat x usern en [] k b = (False, b)"
| "answer_chat x usern en (i # is) k b =
     (if d_type (pdcc usern i b) = PDC_CHATFROMRQ \<and> strmcmp en (ucase (d_nick (pdcc usern i b)))
      then
        let sck = x_sock x k;
            b = (if sck \<noteq> 0 then mod_pdcc usern i (\<lambda>d. d\<lparr>d_sock := sck, d_delay := 0, d_type := PDC_CHATFROM\<rparr>) b else b);
            d = pdcc usern i b; b = bout (Connect sck (d_host d) (d_port d) (Some (u_vhost (buser b usern)))) b
        in if sck \<noteq> 0 then (True, b) else answer_chat x usern en is (Suc k) b
      else answer_chat x usern en is k b)"

definition dcc_answer :: "dccenv \<Rightarrow> int \<Rightarrow> string \<Rightarrow> bnc \<Rightarrow> int \<times> bnc" where
  "dcc_answer x usern nick b =
     (case answer_chat x usern (ucase (strmncpy nick 64)) [0..<length (u_pdcc (buser b usern))] 0 b of
        (True, b) \<Rightarrow> (0, b)
      | (False, b) \<Rightarrow> (-1, say_if_here usern (''No DCC Request from '' @ [CHR 0x27] @ nick @ [CHR 0x27]) b))"

text \<open>The same for files, by nick and name or a star; the user may give the file another name.\<close>

fun receive_file :: "dccenv \<Rightarrow> env \<Rightarrow> int \<Rightarrow> string \<Rightarrow> string \<Rightarrow> string option \<Rightarrow> nat list \<Rightarrow> nat \<Rightarrow> bnc \<Rightarrow> bool \<times> bnc" where
  "receive_file x e usern nck name newfile [] k b = (False, b)"
| "receive_file x e usern nck name newfile (i # is) k b =
     (if d_type (pdcc usern i b) = PDC_RECVFROMRQ \<and> strmncasecmp nck (d_nick (pdcc usern i b)) \<and>
         (case stripdccfile (d_file (pdcc usern i b)) False of
            None \<Rightarrow> False | Some fil \<Rightarrow> strmncasecmp name fil \<or> at name 0 = CHR ''*'')
      then
        let sck = x_sock x k;
            b = (case newfile of
                   Some f \<Rightarrow> if at name 0 \<noteq> CHR ''*'' then mod_pdcc usern i (\<lambda>d. d\<lparr>d_file := strmncpy f 200\<rparr>) b else b
                 | None \<Rightarrow> b);
            b = (if sck \<noteq> 0 \<and> e_peer e sck \<noteq> None
                 then mod_pdcc usern i (\<lambda>d. d\<lparr>d_sock := sck, d_delay := 0, d_type := PDC_RECVFROM\<rparr>) b else b);
            d = pdcc usern i b; b = bout (Connect sck (d_host d) (d_port d) (Some (u_vhost (buser b usern)))) b
        in if sck \<noteq> 0 then (True, b) else receive_file x e usern nck name newfile is (Suc k) b
      else receive_file x e usern nck name newfile is k b)"

definition dcc_get :: "dccenv \<Rightarrow> env \<Rightarrow> int \<Rightarrow> string \<Rightarrow> string \<Rightarrow> string option \<Rightarrow> bnc \<Rightarrow> int \<times> bnc" where
  "dcc_get x e usern nick name newfile b =
     (case receive_file x e usern nick name newfile [0..<length (u_pdcc (buser b usern))] 0 b of
        (True, b) \<Rightarrow> (0, b)
      | (False, b) \<Rightarrow> (-1, say_if_here usern (''No DCC File Request from '' @ [CHR 0x27] @ nick @ [CHR 0x27] @ '' for '' @ name) b))"

text \<open>
  Somebody offers a file. When the user gets files by themselves, the message about it has one argument
  too many, so that the name of the network stands for the host and a pointer for the port.
\<close>

definition file_request :: "dccenv \<Rightarrow> env \<Rightarrow> int \<Rightarrow> string \<Rightarrow> int \<Rightarrow> string \<Rightarrow> string \<Rightarrow> int \<Rightarrow> bnc \<Rightarrow> int \<times> bnc" where
  "file_request x e usern host port nick name fsize b =
     (if port < 1024 \<or> port > 65535 then (-1, b)
      else case stripdccfile name True of
             None \<Rightarrow> (-1, b)
           | Some fil \<Rightarrow>
               let d = zero_dcct\<lparr>d_type := PDC_RECVFROMRQ, d_uid := usern, d_port := port,
                         d_file := strmncpy (dccfilepath x 800 usern fil) 200, d_filesize := fsize,
                         d_host := request_host x host, d_nick := strmncpy nick 64, d_delay := 50\<rparr>;
                   b = createpdcc usern d b;
                   asked = netc usern b @ d_nick d @ '' sent a DCC File Send Request for File '' @ fil;
                   b = (if u_autogetdcc (buser b usern) = 1
                        then snd (dcc_get x e usern (d_nick d) fil None
                               (dcc_say usern (asked @ ''. The file will be auto-downloaded. ('' @ netc usern b @ ''/'' @
                                  decimal_int (x_word x) @ '').'') b))
                        else dcc_say usern (asked @ ''. Use /DCCGET '' @ netc usern b @ d_nick d @ '' :'' @ fil @
                               '' to receive the file. ('' @ d_host d @ ''/'' @ decimal_int port @ '').'') b);
                   b = mod_irc (\<lambda>i. i\<lparr>irccontent := strmncpy (d_file d) 6000\<rparr>) b;
                   (pid, b) = run_script x FileScript usern b
               in (0, last_pdcc usern (\<lambda>d. d\<lparr>d_pid := pid\<rparr>) b))"

section \<open>Requests in messages\<close>

text \<open>
  What is said to the user between two bytes 1: a request that a script may answer, or the offer of a chat
  or of a file. The text is cut where the parts of an offer end. Behind a text of nine characters the
  code looks at what an earlier line has left; here nothing is found there.
\<close>

definition cut_content :: "nat \<Rightarrow> bnc \<Rightarrow> bnc" where
  "cut_content k b = mod_irc (\<lambda>i. i\<lparr>irccontent := take k (irccontent i)\<rparr>) b"

definition answerctcp :: "dccenv \<Rightarrow> int \<Rightarrow> string \<Rightarrow> bnc \<Rightarrow> int \<times> bnc" where
  "answerctcp x usern request b = (0, snd (run_script x (CtcpScript request) usern b))"

definition chat_ctcp :: "dccenv \<Rightarrow> env \<Rightarrow> int \<Rightarrow> bnc \<Rightarrow> int \<times> bnc" where
  "chat_ctcp x e usern b =
     (let c = ccontent b in
      case split_at (CHR '' '') (drop 10 c) of
        None \<Rightarrow> (0, b)
      | Some (word, r) \<Rightarrow>
          (case split_at (CHR '' '') r of
             None \<Rightarrow> (0, b)
           | Some (host, r) \<Rightarrow>
               let b = cut_content (length c - length r - 1) b in
               (case strchr r (CHR 0x01) of
                  None \<Rightarrow> (0, b)
                | Some j \<Rightarrow>
                    (1, snd (chat_request x e usern (strmncpy host 200) (atoi (take j r)) (ircnick (b_irc b)) b)))))"

definition file_ctcp :: "dccenv \<Rightarrow> env \<Rightarrow> int \<Rightarrow> bnc \<Rightarrow> int \<times> bnc" where
  "file_ctcp x e usern b =
     (let c = ccontent b in
      case split_at (CHR '' '') (drop 10 c) of
        None \<Rightarrow> (0, b)
      | Some (name, r) \<Rightarrow>
          let b = cut_content (length c - length r - 1) b in
          (case split_at (CHR '' '') r of
             None \<Rightarrow> (0, b)
           | Some (host, r) \<Rightarrow>
               (case split_at (CHR '' '') r of
                  None \<Rightarrow> (0, b)
                | Some (port, r) \<Rightarrow>
                    (case strchr r (CHR 0x01) of
                       None \<Rightarrow> (0, b)
                     | Some j \<Rightarrow>
                         (1, snd (file_request x e usern (strmncpy host 200) (atoi port) (ircnick (b_irc b)) (strmncpy name 200)
                                    (atoi (take j r)) b))))))"

definition parsectcps :: "dccenv \<Rightarrow> env \<Rightarrow> ctcps" where
  "parsectcps x e usern b =
     (let c = ccontent b; u = buser b usern in
      if \<not> (at c 0 = CHR 0x01 \<and> strmncasecmp (cto b) (u_nick u)) then (0, b)
      else if strchr c (CHR '' '') = None
      then (case strchr (drop 1 c) (CHR 0x01) of
              None \<Rightarrow> (0, b)
            | Some j \<Rightarrow> answerctcp x usern (take j (drop 1 c)) (cut_content (j + 1) b))
      else if prefix ''DCC CHAT'' (drop 1 c) \<and> u_dccenabled u = 1 then chat_ctcp x e usern b
      else if prefix ''DCC SEND'' (drop 1 c) \<and> \<not> strmncasecmp (ircnick (b_irc b)) (u_nick u) \<and> u_dccenabled u = 1
      then file_ctcp x e usern b
      else (0, b))"

section \<open>Chats\<close>

text \<open>A line of a chat to the client.\<close>

definition chat_line :: "int \<Rightarrow> dcct \<Rightarrow> string \<Rightarrow> bnc \<Rightarrow> bnc" where
  "chat_line usern d t b =
     (if u_instate (buser b usern) = STD_CONN
      then to_client usern ('':'' @ netc usern b @ ''('' @ d_nick d @ ''!DCCChat@'' @ d_host d @ '' PRIVMSG '' @
             u_nick (buser b usern) @ '' :'' @ t) b
      else b)"

definition chat_event :: "int \<Rightarrow> string \<Rightarrow> string" where
  "chat_event s t = ''['' @ decimal_int s @ ''] Chat '' @ t"

definition pdccconnected :: "dccenv \<Rightarrow> env \<Rightarrow> int \<Rightarrow> bnc \<Rightarrow> bnc" where
  "pdccconnected x e usern b =
     (case getpsocketpdcc e usern (e_cursock e) b of
        None \<Rightarrow> b
      | Some i \<Rightarrow>
          let b = mod_pdcc usern i (\<lambda>d. d\<lparr>d_delay := 0\<rparr>) b; d = pdcc usern i b;
              b = chat_line usern d (chat_event (e_cursock e) ''established'') b
          in case (if d_pid d \<noteq> 0 then x_pipe x (d_pid d) else None) of
               None \<Rightarrow> b
             | Some fd \<Rightarrow> bprint fd ''CONNECTED'' b)"

definition pdccremap :: "env \<Rightarrow> int \<Rightarrow> int \<Rightarrow> bnc \<Rightarrow> bnc" where
  "pdccremap e usern newsock b =
     (case getpsocketpdcc e usern (e_cursock e) b of
        None \<Rightarrow> b
      | Some i \<Rightarrow> mod_pdcc usern i (\<lambda>d. d\<lparr>d_sock := newsock\<rparr>) b)"

text \<open>The end of the chat on the socket \<open>s\<close>.\<close>

definition pdccerror :: "dccenv \<Rightarrow> env \<Rightarrow> int \<Rightarrow> int \<Rightarrow> bnc \<Rightarrow> bnc" where
  "pdccerror x e s usern b =
     (case getpsocketpdcc e usern s b of
        None \<Rightarrow> b
      | Some i \<Rightarrow> removepdcc x e s usern (chat_line usern (pdcc usern i b) (chat_event s ''closed'') b))"

definition pdccclosed :: "dccenv \<Rightarrow> env \<Rightarrow> int \<Rightarrow> bnc \<Rightarrow> bnc" where
  "pdccclosed x e usern b = pdccerror x e (e_cursock e) usern b"

text \<open>What the other side says goes to the client and to the script.\<close>

definition pdccquery :: "dccenv \<Rightarrow> env \<Rightarrow> int \<Rightarrow> bnc \<Rightarrow> bnc" where
  "pdccquery x e usern b =
     (case getpsocketpdcc e usern (e_cursock e) b of
        None \<Rightarrow> p_log e LOG_ERROR (-1) (''Unknown DCC for socket '' @ decimal_int (e_cursock e)) b
      | Some i \<Rightarrow>
          let d = pdcc usern i b; b = chat_line usern d (b_buf b) b in
          case (if d_pid d \<noteq> 0 then x_pipe x (d_pid d) else None) of
            None \<Rightarrow> b
          | Some fd \<Rightarrow>
              let b = (case strchr (b_buf b) CR of None \<Rightarrow> b | Some k \<Rightarrow> b\<lparr>b_buf := take k (b_buf b) @ [LF]\<rparr>)
              in bout (Stream fd (b_buf b)) b)"

text \<open>The other side has come to the socket that listens, which is closed.\<close>

definition acceptpdccchat :: "dccenv \<Rightarrow> env \<Rightarrow> int \<Rightarrow> bnc \<Rightarrow> bnc" where
  "acceptpdccchat x e usern b =
     (let nsock = e_cursock e in
      case getpsocketpdcc e usern (x_master x) b of
        None \<Rightarrow> b
      | Some i \<Rightarrow>
          if nsock \<le> 0 \<or> e_peer e nsock = None then b
          else
            let b = mod_pdcc usern i (\<lambda>d. d\<lparr>d_delay := 0, d_type := PDC_CHATTO, d_sock := nsock\<rparr>) b;
                b = bout (Kill (x_master x)) b;
                b = mod_pdcc usern i (\<lambda>d. d\<lparr>d_host := strmncpy (x_acceptip x) 200\<rparr>) b
            in chat_line usern (pdcc usern i b) (chat_event nsock ''established'') b)"

definition querydccchat :: "int \<Rightarrow> string \<Rightarrow> bnc \<Rightarrow> bool \<times> bnc" where
  "querydccchat usern nick b =
     (case find (\<lambda>d. (d_type d = PDC_CHATFROM \<or> d_type d = PDC_CHATTO) \<and> strmncasecmp nick (d_nick d)) (u_pdcc (buser b usern)) of
        None \<Rightarrow> (False, b)
      | Some d \<Rightarrow> (True, bwrite (d_sock d) (ccontent b) b))"

section \<open>Sending a file\<close>

text \<open>
  A block goes out whenever everything that was sent is acknowledged; the acknowledgement is a number of
  32 bits, most significant byte first. Closing a file that is not open is undefined.
\<close>

definition BLOCK :: nat where
  "BLOCK = 2048"

definition be32 :: "int \<Rightarrow> string" where
  "be32 n = map (\<lambda>k. char_of (nat (n div 2 ^ k mod 256))) [24, 16, 8, 0]"

definition read_be32 :: "string \<Rightarrow> int" where
  "read_be32 s = fold (\<lambda>k n. n * 256 + int (code (at s k))) [0, 1, 2, 3] 0"

definition read_block :: "string \<Rightarrow> dcct \<Rightarrow> string" where
  "read_block body d = take BLOCK (drop (nat (d_transferred d)) body)"

definition count_block :: "string \<Rightarrow> dcct \<Rightarrow> dcct" where
  "count_block t d = d\<lparr>d_lasttransferred := int (length t), d_transferred := d_transferred d + int (length t)\<rparr>"

definition at_eof :: "dcct \<Rightarrow> bool" where
  "at_eof d \<longleftrightarrow> d_lasttransferred d < int BLOCK"

definition close_file :: "dccenv \<Rightarrow> env \<Rightarrow> int \<Rightarrow> int \<Rightarrow> nat \<Rightarrow> bnc \<Rightarrow> bnc option" where
  "close_file x e s usern i b = (if d_fhandle (pdcc usern i b) then Some (removepdcc x e s usern b) else None)"

definition transfer_end :: "string \<Rightarrow> dccenv \<Rightarrow> env \<Rightarrow> int \<Rightarrow> bnc \<Rightarrow> bnc option" where
  "transfer_end how x e usern b =
     (case getpsocketpdcc e usern (e_cursock e) b of
        None \<Rightarrow> Some b
      | Some i \<Rightarrow>
          let d = pdcc usern i b
          in close_file x e (e_cursock e) usern i
               (say_if_here usern (''Filetransfer of '' @ d_file d @ '' by '' @ netc usern b @ d_nick d @ '' '' @ how @ ''.'') b))"

definition pdccfileerror :: "dccenv \<Rightarrow> env \<Rightarrow> int \<Rightarrow> bnc \<Rightarrow> bnc option" where
  "pdccfileerror = transfer_end ''aborted''"

definition pdccfileclosed :: "dccenv \<Rightarrow> env \<Rightarrow> int \<Rightarrow> bnc \<Rightarrow> bnc option" where
  "pdccfileclosed = transfer_end ''stopped''"

definition pdccfilesendack :: "dccenv \<Rightarrow> env \<Rightarrow> int \<Rightarrow> bnc \<Rightarrow> bnc option" where
  "pdccfilesendack x e usern b =
     (case getpsocketpdcc e usern (e_cursock e) b of
        None \<Rightarrow> Some b
      | Some i \<Rightarrow>
          let d = pdcc usern i b in
          if d_transferred d \<noteq> read_be32 (b_buf b) then Some b
          else if \<not> d_fhandle d then None
          else if at_eof d
          then close_file x e (e_cursock e) usern i
                 (if u_instate (buser b usern) = STD_CONN
                  then p_log e LOG_INFO usern (''File '' @ d_file d @ '' sent to '' @ netc usern b @ d_nick d @ '' completed.'') b
                  else b)
          else
            let t = read_block (file_text b (d_file d)) d
            in Some (bout (Stream (d_sock d) t) (mod_pdcc usern i (count_block t) b)))"

definition acceptpdccfile :: "dccenv \<Rightarrow> env \<Rightarrow> int \<Rightarrow> bnc \<Rightarrow> bnc" where
  "acceptpdccfile x e usern b =
     (let nsock = e_cursock e in
      case getpsocketpdcc e usern (x_master x) b of
        None \<Rightarrow> b
      | Some i \<Rightarrow>
          let f = d_file (pdcc usern i b) in
          if nsock \<le> 0 then b
          else if \<not> e_canopen e f \<or> b_files b f = None then bout (Kill nsock) (mod_pdcc usern i (\<lambda>d. d\<lparr>d_fhandle := False\<rparr>) b)
          else if e_peer e nsock = None then mod_pdcc usern i (\<lambda>d. d\<lparr>d_fhandle := True\<rparr>) b
          else
            let b = mod_pdcc usern i (\<lambda>d. d\<lparr>d_fhandle := True, d_delay := 0, d_sock := nsock, d_type := PDC_SENDTO\<rparr>) b;
                b = bout (Kill (x_master x)) b;
                b = mod_pdcc usern i (\<lambda>d. d\<lparr>d_host := strmncpy (x_acceptip x) 200\<rparr>) b;
                d = pdcc usern i b;
                b = say_if_here usern (''User '' @ netc usern b @ d_nick d @ ''('' @ d_host d @ '') accepted File '' @ f @
                      ''. Start sending.'') b;
                t = take BLOCK (file_text b f)
            in bout (Stream nsock t) (mod_pdcc usern i (\<lambda>d. count_block t (d\<lparr>d_transferred := 0\<rparr>)) b))"

section \<open>Receiving a file\<close>

definition from_whom :: "int \<Rightarrow> dcct \<Rightarrow> bnc \<Rightarrow> string" where
  "from_whom usern d b = netc usern b @ d_nick d @ ''('' @ d_host d @ '')''"

definition incomplete :: "dcct \<Rightarrow> string" where
  "incomplete d = ''. File '' @ d_file d @ '' incomplete.''"

definition pdccfclosed :: "dccenv \<Rightarrow> env \<Rightarrow> int \<Rightarrow> bnc \<Rightarrow> bnc" where
  "pdccfclosed x e usern b =
     (case getpsocketpdcc e usern (e_cursock e) b of
        None \<Rightarrow> b
      | Some i \<Rightarrow>
          let d = pdcc usern i b
          in removepdcc x e (e_cursock e) usern
               (if d_filesize d \<noteq> d_transferred d
                then dcc_say usern (''EOF while receiving from '' @ from_whom usern d b @ incomplete d) b
                else p_log e LOG_INFO usern (''File '' @ d_file d @ '' from '' @ from_whom usern d b @ '' received.'') b))"

text \<open>When the file cannot be created the socket is killed, which ends the entry as above.\<close>

definition pdccfconnected :: "dccenv \<Rightarrow> env \<Rightarrow> int \<Rightarrow> bnc \<Rightarrow> bnc" where
  "pdccfconnected x e usern b =
     (case getpsocketpdcc e usern (e_cursock e) b of
        None \<Rightarrow> b
      | Some i \<Rightarrow>
          let f = d_file (pdcc usern i b); b = b\<lparr>b_files := (b_files b)(f := None)\<rparr> in
          if e_canopen e f
          then
            let b = mod_pdcc usern i (\<lambda>d. d\<lparr>d_fhandle := True\<rparr>) (b\<lparr>b_files := (b_files b)(f \<mapsto> [])\<rparr>); d = pdcc usern i b
            in say_if_here usern (''Connected to '' @ from_whom usern d b @ ''. Receiving File '' @ f @ ''.'') b
          else
            pdccfclosed x e usern
              (p_log e LOG_ERROR usern (''Cannot create File '' @ f @ '' - aborting.'') (mod_pdcc usern i (\<lambda>d. d\<lparr>d_fhandle := False\<rparr>) b)))"

definition pdccferror :: "dccenv \<Rightarrow> env \<Rightarrow> int \<Rightarrow> int \<Rightarrow> bnc \<Rightarrow> bnc" where
  "pdccferror x e s usern b =
     (case getpsocketpdcc e usern s b of
        None \<Rightarrow> b
      | Some i \<Rightarrow>
          let d = pdcc usern i b
          in removepdcc x e s usern (say_if_here usern (''Connection to '' @ from_whom usern d b @ '' lost'' @ incomplete d) b))"

text \<open>The bytes that came are in the buffer; they are acknowledged when no more are waiting.\<close>

definition pdccfget :: "dccenv \<Rightarrow> env \<Rightarrow> int \<Rightarrow> bnc \<Rightarrow> bnc option" where
  "pdccfget x e usern b =
     (case getpsocketpdcc e usern (e_cursock e) b of
        None \<Rightarrow> Some b
      | Some i \<Rightarrow>
          let t = b_buf b; b = mod_pdcc usern i (count_block t) b; d = pdcc usern i b; w = x_written x (length t) in
          if \<not> d_fhandle d then None
          else
            let b = b\<lparr>b_files := (b_files b)(d_file d \<mapsto> file_text b (d_file d) @ take w t)\<rparr> in
            if w \<noteq> length t
            then close_file x e (e_cursock e) usern i
                   (say_if_here usern (''File write error while receiving from '' @ from_whom usern d b @ incomplete d) b)
            else Some (if x_waiting x then b else bout (Stream (e_cursock e) (be32 (d_transferred d))) b))"

definition pdccfremap :: "env \<Rightarrow> int \<Rightarrow> int \<Rightarrow> bnc \<Rightarrow> bnc" where
  "pdccfremap = pdccremap"

section \<open>Giving up\<close>

text \<open>A chat or a running transfer is ended by its nick, and by the file or a star.\<close>

definition cancels :: "string \<Rightarrow> string option \<Rightarrow> dcct \<Rightarrow> bool" where
  "cancels nick name d \<longleftrightarrow>
     (case name of
        None \<Rightarrow> (d_type d = PDC_CHATTO \<or> d_type d = PDC_CHATFROM) \<and> strmncasecmp nick (d_nick d)
      | Some f \<Rightarrow> (d_type d = PDC_RECVFROM \<or> d_type d = PDC_SENDTO) \<and>
          (case stripdccfile (d_file d) False of
             None \<Rightarrow> True
           | Some fil \<Rightarrow> strmncasecmp nick (d_nick d) \<and> (strmncasecmp f fil \<or> at f 0 = CHR ''*'')))"

definition canceldcc :: "dccenv \<Rightarrow> env \<Rightarrow> int \<Rightarrow> string \<Rightarrow> string option \<Rightarrow> bnc \<Rightarrow> bnc" where
  "canceldcc x e usern nick name b =
     (case find (cancels nick name) (u_pdcc (buser b usern)) of
        None \<Rightarrow> dcc_say usern ''Unknown DCC. Please use /DCCCANCEL nick :file or /DCCCANCEL nick.'' b
      | Some d \<Rightarrow>
          if e_peer e (d_sock d) = None \<or> name \<noteq> None \<and> stripdccfile (d_file d) False = None then b
          else if name = None then pdccerror x e (d_sock d) usern b
          else pdccferror x e (d_sock d) usern b)"

text \<open>A request that is not answered is dropped when its delay has run down.\<close>

definition pending :: "dcct \<Rightarrow> bool" where
  "pending d \<longleftrightarrow>
     (d_type d = PDC_SENDTORQ \<or> d_type d = PDC_RECVFROMRQ \<or> d_type d = PDC_CHATTORQ \<or> d_type d = PDC_CHATFROMRQ) \<and> d_delay d > 0"

fun tick_pdccs :: "dcct list \<Rightarrow> dcct list \<times> dcct list" where
  "tick_pdccs [] = ([], [])"
| "tick_pdccs (d # ds) =
     (let (kept, dropped) = tick_pdccs ds in
      if \<not> pending d then (d # kept, dropped)
      else if d_delay d - 1 = 0 then (kept, d # dropped)
      else (d\<lparr>d_delay := d_delay d - 1\<rparr> # kept, dropped))"

definition drop_pdcc :: "dccenv \<Rightarrow> env \<Rightarrow> dcct \<Rightarrow> bnc \<Rightarrow> bnc" where
  "drop_pdcc x e d b =
     (let b = end_task x d b in if e_peer e (d_sock d) = None then b else bout (Kill (d_sock d)) b)"

definition user_timeouts :: "dccenv \<Rightarrow> env \<Rightarrow> int \<Rightarrow> bnc \<Rightarrow> bnc" where
  "user_timeouts x e n b =
     (let (kept, dropped) = tick_pdccs (u_pdcc (buser b n))
      in fold (drop_pdcc x e) dropped (bmod n (\<lambda>u. u\<lparr>u_pdcc := kept\<rparr>) b))"

definition checkdcctimeouts :: "dccenv \<Rightarrow> env \<Rightarrow> bnc \<Rightarrow> bnc" where
  "checkdcctimeouts x e b = fold (user_timeouts x e) (uids (b_users b)) b"

section \<open>Lists\<close>

definition dcckind :: "int \<Rightarrow> string" where
  "dcckind k = [''Unknown'', ''DCC Chat Request To'', ''DCC Chat To'', ''DCC Chat Request From'', ''DCC Chat From'',
     ''DCC Send Request To'', ''DCC Send To '', ''DCC Send Request From'', ''DCC Send From'', ''Unknown''] ! nat k"

definition pdcc_line :: "dcct \<Rightarrow> string" where
  "pdcc_line d = '' '' @ decimal_int (d_sock d) @ '' '' @ dcckind (d_type d) @ '' '' @ d_nick d @
     (if d_type d > 4 then '' ('' @ d_file d @ '')'' else [])"

definition listpdccs :: "int \<Rightarrow> bnc \<Rightarrow> bnc" where
  "listpdccs usern b =
     (let ds = filter (\<lambda>d. 0 < d_type d \<and> d_type d < 9) (u_pdcc (buser b usern)) in
      if ds = [] then b
      else dcc_say usern '' End of Pending DCCs''
             (fold (\<lambda>d. dcc_say usern (pdcc_line d)) ds (dcc_say usern '' Listing Pending DCCs'' b)))"

definition dcc_line :: "nat \<Rightarrow> datalinkt \<Rightarrow> string" where
  "dcc_line cnt l =
     decimal cnt @ (if l_outstate l = STD_CONN then ''*'' else '' '') @ '' '' @ l_name l @ '' ('' @ l_host l @ '':'' @
     decimal_int (l_port l) @ '')'' @ CRLF"

definition listdccs :: "int \<Rightarrow> bnc \<Rightarrow> bnc" where
  "listdccs usern b =
     (let ls = List.map_filter snd (u_dcc (buser b usern)); b = replyp usern (''Listing DCCs'' @ CRLF) b;
          b = fold (\<lambda>(cnt, l). replyp usern (dcc_line cnt l)) (zip [1..<length ls + 1] ls) b
      in listpdccs usern (replyp usern (''End of DCCs'' @ CRLF) b))"

section \<open>The connections to bots\<close>

text \<open>The position of the link with number \<open>n\<close>, counted from 1, and the last position with a link in front of it.\<close>

fun nth_dcc :: "int \<Rightarrow> int \<Rightarrow> nat \<Rightarrow> nat \<Rightarrow> linknodes \<Rightarrow> (nat \<times> nat) option" where
  "nth_dcc n cnt i prev [] = None"
| "nth_dcc n cnt i prev ((uid, link) # ns) =
     (if link = None then nth_dcc n cnt (Suc i) prev ns
      else if cnt = n then Some (i, prev)
      else nth_dcc n (cnt + 1) (Suc i) i ns)"

definition without_dcc :: "nat \<Rightarrow> nat \<Rightarrow> linknodes \<Rightarrow> linknodes" where
  "without_dcc i prev ns =
     (if i = 0 then (if length ns = 1 then [(fst (ns ! 0), None)] else drop 1 ns)
      else take (Suc prev) ns @ drop (Suc i) ns)"

text \<open>The entries behind the one that is deleted move up by one.\<close>

partial_function (option) shift_entries :: "int \<Rightarrow> string \<Rightarrow> bnc \<Rightarrow> bnc option" where
  "shift_entries cnt fname b =
     (let entry = (\<lambda>k. snpf 30 (''ENTRY'' @ decimal_int k)); (rc, v) = getini ''DCC'' (entry cnt) fname (fst (b_store b)) in
      if rc \<noteq> 0 then Some b
      else Option.bind (put_entry ''DCC'' (entry cnt) fname None b) (\<lambda>b.
             Option.bind (put_entry ''DCC'' (entry (cnt - 1)) fname (Some v) b) (\<lambda>b. shift_entries (cnt + 1) fname b)))"

definition erasedcc :: "dccenv \<Rightarrow> int \<Rightarrow> int \<Rightarrow> bnc \<Rightarrow> bnc option" where
  "erasedcc x usern dccn b =
     (case nth_dcc dccn 1 0 0 (u_dcc (buser b usern)) of
        None \<Rightarrow> Some (replyp usern (''No such DCC.'' @ CRLF) b)
      | Some (i, prev) \<Rightarrow>
          let l = the (snd (u_dcc (buser b usern) ! i)); afile = snpf 30 (''USER'' @ decimal_int usern);
              b = (if l_outstate l = STD_CONN
                   then replyp usern (''DCC '' @ decimal_int (x_word x) @ '' session closed.'' @ CRLF) (bout (Kill (l_outsock l)) b)
                   else b);
              b = bmod usern (\<lambda>u. u\<lparr>u_dcc := without_dcc i prev (u_dcc u)\<rparr>) b
          in do {
            b \<leftarrow> put_entry ''DCC'' (snpf 30 (''ENTRY'' @ decimal_int (dccn - 1))) afile None b;
            b \<leftarrow> shift_entries dccn afile b;
            Some (replyp usern (''DCC '' @ decimal_int dccn @ '' deleted.'' @ CRLF) b)
          })"

text \<open>The link whose socket has an event.\<close>

fun link_of_sock :: "int \<Rightarrow> linknodes \<Rightarrow> nat option" where
  "link_of_sock s [] = None"
| "link_of_sock s ((uid, link) # ns) =
     (case link of
        Some l \<Rightarrow> if l_outsock l = s then Some 0 else map_option Suc (link_of_sock s ns)
      | None \<Rightarrow> map_option Suc (link_of_sock s ns))"

definition mod_dcc :: "int \<Rightarrow> nat \<Rightarrow> (datalinkt \<Rightarrow> datalinkt) \<Rightarrow> bnc \<Rightarrow> bnc" where
  "mod_dcc usern i f b = bmod usern (\<lambda>u. u\<lparr>u_dcc := (u_dcc u)[i := (fst (u_dcc u ! i), map_option f (snd (u_dcc u ! i)))]\<rparr>) b"

definition with_dcc :: "env \<Rightarrow> int \<Rightarrow> (nat \<Rightarrow> datalinkt \<Rightarrow> bnc \<Rightarrow> bnc) \<Rightarrow> bnc \<Rightarrow> bnc" where
  "with_dcc e usern f b =
     (let ns = u_dcc (buser b usern) in
      case link_of_sock (e_cursock e) ns of
        None \<Rightarrow> b
      | Some i \<Rightarrow> (case snd (ns ! i) of None \<Rightarrow> b | Some l \<Rightarrow> f i l b))"

definition dcchandler :: "env \<Rightarrow> int \<Rightarrow> bnc \<Rightarrow> bnc" where
  "dcchandler e usern b =
     (let u = buser b usern; net = (if u_parent u \<noteq> 0 then snpf 15 (u_network u @ ''~'') else []) in
      with_dcc e usern (\<lambda>i l b.
        if l_outstate l = STD_CONN \<and> u_instate u = STD_CONN
        then to_client usern ('':'' @ net @ '')'' @ l_name l @ ''!DCC@'' @ l_host l @ '' PRIVMSG '' @ u_nick u @ '' :'' @ b_buf b @ CRLF) b
        else b) b)"

definition dcc_where :: "int \<Rightarrow> datalinkt \<Rightarrow> bnc \<Rightarrow> string" where
  "dcc_where usern l b = u_login (buser b usern) @ '' to '' @ l_name l @ '' ('' @ l_host l @ '':'' @ decimal_int (l_port l) @ '')''"

text \<open>A bot gets user and password, with delays; the rest of a blank-padded password is cut.\<close>

definition connecteddcc :: "env \<Rightarrow> int \<Rightarrow> bnc \<Rightarrow> bnc" where
  "connecteddcc e usern b =
     with_dcc e usern (\<lambda>i l b.
       let b = p_log e LOG_INFO usern (''Connected to DCC: '' @ dcc_where usern l b) b; pass = rtrim (l_pass l);
           b = bout (Delayed (l_outsock l) (snpf 100 (l_user l @ CRLF)) 10) b;
           b = bout (Delayed (l_outsock l) (snpf 100 (pass @ CRLF)) 5) b
       in mod_dcc usern i (\<lambda>l. l\<lparr>l_pass := pass, l_outstate := STD_CONN, l_delayed := 1\<rparr>) b) b"

definition remapdcc :: "env \<Rightarrow> int \<Rightarrow> int \<Rightarrow> bnc \<Rightarrow> bnc" where
  "remapdcc e usern newsocket b = with_dcc e usern (\<lambda>i l. mod_dcc usern i (\<lambda>l. l\<lparr>l_outsock := newsocket\<rparr>)) b"

definition lost_dcc :: "int \<Rightarrow> string \<Rightarrow> env \<Rightarrow> int \<Rightarrow> bnc \<Rightarrow> bnc" where
  "lost_dcc level said e usern b =
     with_dcc e usern (\<lambda>i l b.
       bout (Kill (l_outsock l)) (mod_dcc usern i (\<lambda>l. l\<lparr>l_delayed := 1, l_outstate := 0\<rparr>)
         (p_log e level usern (said @ dcc_where usern l b) b))) b"

definition killeddcc :: "env \<Rightarrow> int \<Rightarrow> bnc \<Rightarrow> bnc" where
  "killeddcc = lost_dcc LOG_WARNING ''Lost DCC: ''"

definition errordcc :: "env \<Rightarrow> int \<Rightarrow> bnc \<Rightarrow> bnc" where
  "errordcc = lost_dcc LOG_ERROR ''Cant connect DCC: ''"

text \<open>One link of a user: waiting, or connecting with the socket that is created for it.\<close>

definition checkdcclink :: "env \<Rightarrow> int \<Rightarrow> int \<Rightarrow> nat \<Rightarrow> datalinkt \<Rightarrow> bnc \<Rightarrow> bool \<times> bnc" where
  "checkdcclink e delayinc usern i l b =
     (if l_outstate l \<noteq> 0 then (False, b)
      else if l_delayed l > 0 then (False, mod_dcc usern i (\<lambda>l. l\<lparr>l_delayed := l_delayed l - delayinc\<rparr>) b)
      else
        let b = p_log e LOG_INFO usern (''Connecting DCC: '' @ dcc_where usern l b) b; s = e_newsock e;
            b = bout (Connect s (l_host l) (l_port l) (Some (u_vhost (buser b usern)))) b;
            b = mod_dcc usern i (\<lambda>l. l\<lparr>l_outsock := s, l_outstate := STD_NEWCON\<rparr>) b
        in if s = 0
           then (False, mod_dcc usern i (\<lambda>l. l\<lparr>l_delayed := 1\<rparr>)
                   (p_log e LOG_ERROR usern (''Cant connect DCC: '' @ dcc_where usern l b) b))
           else (True, b))"

text \<open>
  All links of all users: at most one new connection for each user, and never for the node that was the last one to
  get a connection. The node is given by its user and its place; without a new connection it is forgotten.
\<close>

fun checkdccs_user ::
  "(int \<Rightarrow> nat \<Rightarrow> env) \<Rightarrow> int \<Rightarrow> int \<Rightarrow> nat list \<Rightarrow> (int \<times> nat) option \<Rightarrow> bnc \<Rightarrow> (int \<times> nat) option \<times> bool \<times> bnc" where
  "checkdccs_user es delayinc n [] lastdh b = (lastdh, False, b)"
| "checkdccs_user es delayinc n (i # is) lastdh b =
     (case snd (u_dcc (buser b n) ! i) of
        None \<Rightarrow> checkdccs_user es delayinc n is lastdh b
      | Some l \<Rightarrow>
          if lastdh = Some (n, i) then checkdccs_user es delayinc n is lastdh b
          else case checkdcclink (es n i) delayinc n i l b of
                 (True, b) \<Rightarrow> (Some (n, i), True, b)
               | (False, b) \<Rightarrow> checkdccs_user es delayinc n is lastdh b)"

definition checkdccs :: "(int \<Rightarrow> nat \<Rightarrow> env) \<Rightarrow> int \<Rightarrow> (int \<times> nat) option \<Rightarrow> bnc \<Rightarrow> (int \<times> nat) option \<times> bnc" where
  "checkdccs es delayinc lastdh b =
     (case fold (\<lambda>n (lastdh, cn, b).
               case checkdccs_user es delayinc n [0..<length (u_dcc (buser b n))] lastdh b of
                 (lastdh, c, b) \<Rightarrow> (lastdh, cn \<or> c, b))
             (uids (b_users b)) (lastdh, False, b) of
        (lastdh, cn, b) \<Rightarrow> (if cn then lastdh else None, b))"

section \<open>The commands\<close>

text \<open>\<open>ADDDCC bot user password :host:port\<close>; the line is cut at its first blank. The host may have colons.\<close>

definition adddcc_words :: "string \<Rightarrow> (string \<times> string \<times> string \<times> string \<times> int) option" where
  "adddcc_words line =
     do {
       (word, r) \<leftarrow> split_at (CHR '' '') line;
       (npt, r) \<leftarrow> split_at (CHR '' '') r;
       (lpt, r) \<leftarrow> split_at (CHR '' '') r;
       (ppt, r) \<leftarrow> split_at (CHR '':'') r;
       (hpt, spt) \<leftarrow> split_last (CHR '':'') r;
       if atoi spt = 0 then None else Some (npt, lpt, ppt, hpt, atoi spt)
     }"

definition cmdadddcc :: handler where
  "cmdadddcc e usern b =
     (let line = b_buf b; b = (case strchr line (CHR '' '') of None \<Rightarrow> b | Some i \<Rightarrow> b\<lparr>b_buf := take i line\<rparr>) in
      case adddcc_words line of
        None \<Rightarrow> Some (0, replyp usern (''Wrong Parameters. Use ADDDCC botname user pass :host:port'' @ CRLF) b)
      | Some (npt, lpt, ppt, hpt, port) \<Rightarrow>
          do {
            b \<leftarrow> with_user usern (adddcc (e_salt e) usern hpt port lpt ppt npt False) b;
            Some (0, p_log e LOG_INFO usern (''DCC to '' @ strmncpy npt 64 @ ''('' @ strmncpy hpt 64 @ '':'' @ decimal_int port @
              '') added by '' @ u_login (buser b usern) @ ''.'') b)
          })"

definition cmddeldcc :: "dccenv \<Rightarrow> handler" where
  "cmddeldcc x e usern b = map_option (\<lambda>b. (0, b)) (erasedcc x usern (atoi (ccontent b)) b)"

definition cmdlistdcc :: handler where
  "cmdlistdcc e usern b = Some (0, listdccs usern b)"

definition cmddccchat :: "dccenv \<Rightarrow> handler" where
  "cmddccchat x e usern b = Some (0, snd (offer_chat x e usern (ccontent b) b))"

definition cmddccanswer :: "dccenv \<Rightarrow> handler" where
  "cmddccanswer x e usern b = Some (0, snd (dcc_answer x usern (ccontent b) b))"

definition cmddccsend :: "dccenv \<Rightarrow> handler" where
  "cmddccsend x e usern b = Some (0, snd (offer_file x e usern (cto b) (ccontent b) b))"

text \<open>What is behind the first blank is the name the file gets.\<close>

definition cmddccget :: "dccenv \<Rightarrow> handler" where
  "cmddccget x e usern b =
     Some (0, snd (case strchr (ccontent b) (CHR '' '') of
                     None \<Rightarrow> dcc_get x e usern (cto b) (ccontent b) None b
                   | Some k \<Rightarrow>
                       let newfile = drop (k + 1) (ccontent b); b = cut_content k b
                       in dcc_get x e usern (cto b) (ccontent b) (Some newfile) b))"

definition cmddccsendme :: "dccenv \<Rightarrow> handler" where
  "cmddccsendme x e usern b = Some (0, snd (offer_file x e usern (u_nick (buser b usern)) (ccontent b) b))"

definition cmddcccancel :: "dccenv \<Rightarrow> handler" where
  "cmddcccancel x e usern b =
     Some (0, if cto b = [] then canceldcc x e usern (ccontent b) None b else canceldcc x e usern (cto b) (Some (ccontent b)) b)"

definition dcc_table :: "dccenv \<Rightarrow> (string \<times> handler) list" where
  "dcc_table x =
     [(''cmdadddcc'', cmdadddcc), (''cmddeldcc'', cmddeldcc x), (''cmdlistdcc'', cmdlistdcc), (''cmddccchat'', cmddccchat x),
      (''cmddccanswer'', cmddccanswer x), (''cmddccsend'', cmddccsend x), (''cmddccget'', cmddccget x),
      (''cmddccsendme'', cmddccsendme x), (''cmddcccancel'', cmddcccancel x)]"

text \<open>These, in front of the commands that are still given from outside.\<close>

definition dcc_commands :: "dccenv \<Rightarrow> env \<Rightarrow> handlers \<Rightarrow> handlers" where
  "dcc_commands x e others name usern b =
     (case map_of (dcc_table x) name of None \<Rightarrow> others name usern b | Some h \<Rightarrow> h e usern b)"

end
