(* ===== verification/Exchange_Facts.thy ===== *)
theory Exchange_Facts
  imports Client_Invariants Stoned Exchange
begin

text \<open>
  What the chats and transfers of src/p_dcc.c keep and reach: they touch nothing of the users but the lists
  of their chats, files and bots, so that the theorems about lines hold with them; a file that somebody offers is put into
  the directory of the user; an offer is understood by another bouncer; a transfer delivers the file; and a request
  that nobody answers goes away.
\<close>

section \<open>What is touched\<close>

named_theorems dcc_intros

text \<open>Everything of a user but the lists.\<close>

definition unlinked :: "usert \<Rightarrow> usert" where
  "unlinked u = u\<lparr>u_pdcc := [], u_dcc := [], u_lastdccchat := 0\<rparr>"

definition dcc_only :: "bnc \<Rightarrow> bnc \<Rightarrow> bool" where
  "dcc_only b b' \<longleftrightarrow>
     uids (b_users b') = uids (b_users b) \<and> (\<forall>m. ucell (b_users b') m = ucell (b_users b) m) \<and>
     (\<forall>m. unlinked (buser b' m) = unlinked (buser b m))"

lemma unlinked_upd [simp]:
  "unlinked (u\<lparr>u_pdcc := ds\<rparr>) = unlinked u" "unlinked (u\<lparr>u_dcc := ls\<rparr>) = unlinked u"
  "unlinked (u\<lparr>u_lastdccchat := t\<rparr>) = unlinked u"
  by (simp_all add: unlinked_def)

lemma dcc_only_refl [dcc_intros]: "dcc_only b b"
  by (simp add: dcc_only_def)

lemma dcc_only_trans: "dcc_only a b \<Longrightarrow> dcc_only b c \<Longrightarrow> dcc_only a c"
  by (simp add: dcc_only_def)

lemma dcc_only_users: "dcc_only b c \<Longrightarrow> b_users c' = b_users c \<Longrightarrow> dcc_only b c'"
  by (simp add: dcc_only_def)

lemma dcc_only_bmod: "dcc_only b c \<Longrightarrow> (\<And>u. unlinked (f u) = unlinked u) \<Longrightarrow> dcc_only b (bmod n f c)"
  by (simp add: dcc_only_def bmod_def getu_modu_frame [where g = unlinked])

lemma dcc_only_settled: "dcc_only b b' \<Longrightarrow> settled b b'" and dcc_only_rights: "dcc_only b b' \<Longrightarrow> same_rights b b'"
proof -
  assume d: "dcc_only b b'"
  have "u_channels u = u_channels (unlinked u) \<and> u_rights u = u_rights (unlinked u)" for u by (simp add: unlinked_def)
  then have "u_channels (buser b' m) = u_channels (buser b m)" "u_rights (buser b' m) = u_rights (buser b m)" for m
    using d unfolding dcc_only_def by metis+
  then show "settled b b'" "same_rights b b'" using d by (simp_all add: settled_def same_rights_def dcc_only_def)
qed

lemma dcc_only_fold: "dcc_only b c \<Longrightarrow> (\<And>x d. dcc_only b d \<Longrightarrow> dcc_only b (f x d)) \<Longrightarrow> dcc_only b (fold f xs c)"
  by (induction xs arbitrary: c) simp_all

text \<open>What goes out, and the parts of a line.\<close>

lemma dcc_only_frame [dcc_intros]:
  "dcc_only b c \<Longrightarrow> dcc_only b (bout x c)" "dcc_only b c \<Longrightarrow> dcc_only b (bprint sock t c)"
  "dcc_only b c \<Longrightarrow> dcc_only b (p_log e l n t c)" "dcc_only b c \<Longrightarrow> dcc_only b (mod_irc h c)"
  "dcc_only b c \<Longrightarrow> dcc_only b (replyp n t c)" "dcc_only b c \<Longrightarrow> dcc_only b (c\<lparr>b_buf := t\<rparr>)"
  "dcc_only b c \<Longrightarrow> dcc_only b (c\<lparr>b_files := fs\<rparr>)" "dcc_only b c \<Longrightarrow> dcc_only b (bwrite sock t c)"
  "dcc_only b c \<Longrightarrow> dcc_only b (bparse c)"
  by (erule dcc_only_users; simp)+

lemma dcc_only_put [dcc_intros]:
  "dcc_only b c \<Longrightarrow> dcc_only b (createpdcc n d c)" "dcc_only b c \<Longrightarrow> dcc_only b (mod_pdcc n i h c)"
  "dcc_only b c \<Longrightarrow> dcc_only b (last_pdcc n h c)" "dcc_only b c \<Longrightarrow> dcc_only b (mod_dcc n i k c)"
  "dcc_only b c \<Longrightarrow> dcc_only b (bmod n (\<lambda>u. u\<lparr>u_pdcc := g u\<rparr>) c)"
  "dcc_only b c \<Longrightarrow> dcc_only b (bmod n (\<lambda>u. u\<lparr>u_dcc := g' u\<rparr>) c)"
  "dcc_only b c \<Longrightarrow> dcc_only b (bmod n (\<lambda>u. u\<lparr>u_lastdccchat := t\<rparr>) c)"
  by (simp_all add: createpdcc_def last_pdcc_def mod_pdcc_def mod_dcc_def dcc_only_bmod)

lemma dcc_only_branches [dcc_intros]:
  "dcc_only b c \<Longrightarrow> dcc_only b d \<Longrightarrow> dcc_only b (if p then c else d)"
  "dcc_only b c \<Longrightarrow> (\<And>z. dcc_only b (f z)) \<Longrightarrow> dcc_only b (case v of None \<Rightarrow> c | Some z \<Rightarrow> f z)"
  "(\<And>x y. dcc_only b (g x y)) \<Longrightarrow> dcc_only b (case w of (x, y) \<Rightarrow> g x y)"
  "dcc_only b c \<Longrightarrow> dcc_only b (snd (x, c))"
  "dcc_only b (snd q) \<Longrightarrow> dcc_only b (snd r) \<Longrightarrow> dcc_only b (snd (if p then q else r))"
  "dcc_only b (snd q) \<Longrightarrow> (\<And>z. dcc_only b (snd (k z))) \<Longrightarrow> dcc_only b (snd (case v of None \<Rightarrow> q | Some z \<Rightarrow> k z))"
  by (simp_all split: option.split prod.split)

text \<open>Values that are named: a state, or anything else.\<close>

lemma dcc_only_lets [dcc_intros]:
  "dcc_only b (c :: bnc) \<Longrightarrow> (\<And>c. dcc_only b c \<Longrightarrow> dcc_only b (g c)) \<Longrightarrow> dcc_only b (Let c g)"
  "dcc_only b (c :: bnc) \<Longrightarrow> (\<And>c. dcc_only b c \<Longrightarrow> dcc_only b (snd (g2 c))) \<Longrightarrow> dcc_only b (snd (Let c g2))"
  "(\<And>t. dcc_only b (h t)) \<Longrightarrow> dcc_only b (Let (t :: string) h)"
  "(\<And>t. dcc_only b (snd (h2 t))) \<Longrightarrow> dcc_only b (snd (Let (t :: string) h2))"
  "(\<And>d. dcc_only b (i d)) \<Longrightarrow> dcc_only b (Let (d :: dcct) i)"
  "(\<And>d. dcc_only b (snd (i2 d))) \<Longrightarrow> dcc_only b (snd (Let (d :: dcct) i2))"
  "(\<And>n. dcc_only b (j n)) \<Longrightarrow> dcc_only b (Let (n :: int) j)"
  "(\<And>n. dcc_only b (snd (j2 n))) \<Longrightarrow> dcc_only b (snd (Let (n :: int) j2))"
  "(\<And>u. dcc_only b (k u)) \<Longrightarrow> dcc_only b (Let (u :: usert) k)"
  "(\<And>u. dcc_only b (snd (k2 u))) \<Longrightarrow> dcc_only b (snd (Let (u :: usert) k2))"
  "(\<And>ns. dcc_only b (l ns)) \<Longrightarrow> dcc_only b (Let (ns :: linknodes) l)"
  "(\<And>ds. dcc_only b (m ds)) \<Longrightarrow> dcc_only b (Let (ds :: dcct list) m)"
  "(\<And>z. dcc_only b (snd (o2 z))) \<Longrightarrow> dcc_only b (snd (Let (z :: nat) o2))"
  by (simp_all add: Let_def)

text \<open>A result together with a state that was reached.\<close>

lemma dcc_only_pair [dcc_intros]:
  "(\<And>x y. dcc_only b (snd (g x y))) \<Longrightarrow> dcc_only b (snd (case (w :: string \<times> string) of (x, y) \<Rightarrow> g x y))"
  "dcc_only b (snd r) \<Longrightarrow> (\<And>x c. dcc_only b c \<Longrightarrow> dcc_only b (snd (f x c))) \<Longrightarrow>
    dcc_only b (snd (case (r :: int \<times> bnc) of (x, c) \<Rightarrow> f x c))"
  "dcc_only b (snd r) \<Longrightarrow> (\<And>x c. dcc_only b c \<Longrightarrow> dcc_only b (snd (f x c))) \<Longrightarrow>
    dcc_only b (snd (let (x, c) = (r :: int \<times> bnc) in f x c))"
  by (simp_all split: prod.split) (cases r; simp)+

lemma run_script_only [dcc_intros]: "dcc_only b c \<Longrightarrow> dcc_only b (snd (run_script x h n c))"
  unfolding run_script_def by (intro dcc_intros)

section \<open>Requests touch nothing else\<close>

lemma say_if_here_only [dcc_intros]: "dcc_only b c \<Longrightarrow> dcc_only b (say_if_here n t c)"
  unfolding say_if_here_def by (intro dcc_intros)

lemma chat_line_only [dcc_intros]: "dcc_only b c \<Longrightarrow> dcc_only b (chat_line n d t c)"
  unfolding chat_line_def by (intro dcc_intros)

lemma cut_content_only [dcc_intros]: "dcc_only b c \<Longrightarrow> dcc_only b (cut_content k c)"
  unfolding cut_content_def by (intro dcc_intros)

lemma chat_request_only [dcc_intros]: "dcc_only b c \<Longrightarrow> dcc_only b (snd (chat_request x e n host port nick c))"
  unfolding chat_request_def by (intro dcc_intros)

lemma receive_file_only [dcc_intros]: "dcc_only b c \<Longrightarrow> dcc_only b (snd (receive_file x e n nck name newfile is k c))"
proof (induction "is" arbitrary: k c)
  case (Cons i "is")
  show ?case unfolding receive_file.simps by (intro dcc_intros Cons)
qed (simp add: dcc_intros)

lemma dcc_get_only [dcc_intros]: "dcc_only b c \<Longrightarrow> dcc_only b (snd (dcc_get x e n nick name newfile c))"
  unfolding dcc_get_def
  using receive_file_only [of b c x e n nick name newfile "[0..<length (u_pdcc (buser c n))]" 0]
  by (auto split: prod.split bool.split intro: dcc_intros)

lemma file_request_only [dcc_intros]: "dcc_only b c \<Longrightarrow> dcc_only b (snd (file_request x e n host port nick name fsize c))"
  unfolding file_request_def by (intro dcc_intros)

lemma chat_ctcp_only [dcc_intros]: "dcc_only b c \<Longrightarrow> dcc_only b (snd (chat_ctcp x e n c))"
  unfolding chat_ctcp_def by (intro dcc_intros)

lemma file_ctcp_only [dcc_intros]: "dcc_only b c \<Longrightarrow> dcc_only b (snd (file_ctcp x e n c))"
  unfolding file_ctcp_def by (intro dcc_intros)

lemma answerctcp_only [dcc_intros]: "dcc_only b c \<Longrightarrow> dcc_only b (snd (answerctcp x n request c))"
  unfolding answerctcp_def by (intro dcc_intros)

lemma parsectcps_only: "dcc_only b (snd (parsectcps x e n b))"
  unfolding parsectcps_def by (intro dcc_intros)

lemma parsectcps_tame: "tame (\<lambda>b. snd (parsectcps x e n b))"
  by (simp add: tame_def dcc_only_settled [OF parsectcps_only])

section \<open>Events and commands touch nothing else\<close>

text \<open>The end of the process of a script leaves the users alone too.\<close>

definition calm :: "dccenv \<Rightarrow> bool" where
  "calm x \<longleftrightarrow> (\<forall>p b. b_users (x_end x p b) = b_users b)"

lemma end_task_only [dcc_intros]: "calm x \<Longrightarrow> dcc_only b c \<Longrightarrow> dcc_only b (end_task x d c)"
  by (auto simp: end_task_def calm_def intro: dcc_only_users)

lemma removepdcc_only [dcc_intros]: "calm x \<Longrightarrow> dcc_only b c \<Longrightarrow> dcc_only b (removepdcc x e s n c)"
  unfolding removepdcc_def by (cases "getpsocketpdcc e n s c") (simp_all, intro dcc_intros)

lemma pdccerror_only [dcc_intros]: "calm x \<Longrightarrow> dcc_only b c \<Longrightarrow> dcc_only b (pdccerror x e s n c)"
  unfolding pdccerror_def by (cases "getpsocketpdcc e n s c") (simp_all add: dcc_intros)

lemma pdccferror_only [dcc_intros]: "calm x \<Longrightarrow> dcc_only b c \<Longrightarrow> dcc_only b (pdccferror x e s n c)"
  unfolding pdccferror_def Let_def by (cases "getpsocketpdcc e n s c") (simp_all add: dcc_intros)

lemma canceldcc_only [dcc_intros]: "calm x \<Longrightarrow> dcc_only b c \<Longrightarrow> dcc_only b (canceldcc x e n nick name c)"
  unfolding canceldcc_def by (cases "find (cancels nick name) (u_pdcc (buser c n))") (simp_all add: dcc_intros)

lemma answer_chat_only: "dcc_only b c \<Longrightarrow> dcc_only b (snd (answer_chat x n en is k c))"
proof (induction "is" arbitrary: k c)
  case (Cons i "is")
  show ?case unfolding answer_chat.simps by (intro dcc_intros Cons)
qed (simp add: dcc_intros)

lemma dcc_answer_only [dcc_intros]: "dcc_only b c \<Longrightarrow> dcc_only b (snd (dcc_answer x n nick c))"
  unfolding dcc_answer_def
  using answer_chat_only [of b c x n "ucase (strmncpy nick 64)" "[0..<length (u_pdcc (buser c n))]" 0]
  by (auto split: prod.split bool.split intro: dcc_intros)

lemma offer_ready_only: "dcc_only b c \<Longrightarrow> dcc_only b (snd (offer_ready x e n c))"
  unfolding offer_ready_def by (intro dcc_intros)

lemma open_listener_only: "dcc_only b c \<Longrightarrow> dcc_only b (snd (open_listener x e n c))"
  unfolding open_listener_def Let_def by (auto split: prod.split option.split intro: dcc_intros)

lemma offer_chat_only: "dcc_only b c \<Longrightarrow> dcc_only b (snd (offer_chat x e n nick c))"
proof -
  assume "dcc_only b c"
  then have r: "dcc_only b (snd (offer_ready x e n c))" by (rule offer_ready_only)
  obtain ready c1 where c1: "offer_ready x e n c = (ready, c1)" by fastforce
  obtain l c2 where c2: "open_listener x e n c1 = (l, c2)" by fastforce
  have o: "dcc_only b c2" using open_listener_only [of b c1 x e n] r by (simp add: c1 c2)
  show ?thesis
    unfolding offer_chat_def c1
    by (cases ready; cases l) (use r o in \<open>auto simp: c1 c2 Let_def intro!: dcc_intros\<close>)
qed

lemma offer_file_only: "dcc_only b c \<Longrightarrow> dcc_only b (snd (offer_file x e n nick name c))"
proof -
  assume "dcc_only b c"
  then have r: "dcc_only b (snd (offer_ready x e n c))" by (rule offer_ready_only)
  obtain ready c1 where c1: "offer_ready x e n c = (ready, c1)" by fastforce
  obtain l c2 where c2: "open_listener x e n c1 = (l, c2)" by fastforce
  have o: "dcc_only b c2" using open_listener_only [of b c1 x e n] r by (simp add: c1 c2)
  show ?thesis
    unfolding offer_file_def c1
    by (cases ready; cases "stripdccfile name False"; cases "offered_file x e n name (the (stripdccfile name False)) c1"; cases l)
      (use r o in \<open>auto simp: c1 c2 Let_def intro!: dcc_intros\<close>)
qed

lemma listdccs_only: "dcc_only b c \<Longrightarrow> dcc_only b (listdccs n c)"
  unfolding listdccs_def listpdccs_def Let_def by (auto intro!: dcc_intros dcc_only_fold)

text \<open>The same for what may be undefined.\<close>

definition dcc_opt :: "bnc \<Rightarrow> bnc option \<Rightarrow> bool" where
  "dcc_opt b r \<longleftrightarrow> (\<forall>b'. r = Some b' \<longrightarrow> dcc_only b b')"

lemma dcc_opt_intros:
  "dcc_only b c \<Longrightarrow> dcc_opt b (Some c)"
  "dcc_opt b v \<Longrightarrow> (\<And>c. dcc_only b c \<Longrightarrow> dcc_opt b (g c)) \<Longrightarrow> dcc_opt b (Option.bind v g)"
  by (auto simp: dcc_opt_def split: Option.bind_split)

lemma put_entry_only: "dcc_only c b \<Longrightarrow> dcc_opt c (put_entry s p f d b)"
  by (auto simp: dcc_opt_def dest: put_entry_users intro: dcc_only_users)

lemma shift_entries_only: "dcc_only c b \<Longrightarrow> dcc_opt c (shift_entries cnt fname b)"
proof -
  have "dcc_only b b'" if "shift_entries cnt fname b = Some b'" for b'
  proof (rule shift_entries.raw_induct [where P = "\<lambda>cnt fname b b'. dcc_only b b'", OF _ that], goal_cases)
    case (1 rec cnt fname b r)
    have "dcc_opt b (rec k fname d)" if "dcc_only b d" for k d using 1(1) dcc_only_trans [OF that] by (auto simp: dcc_opt_def)
    then have "dcc_opt b (put_entry s p fname u b \<bind> (\<lambda>b. put_entry s q fname v b \<bind> rec k fname))" for s p u q v k
      by (intro dcc_opt_intros put_entry_only dcc_only_refl) simp_all
    then show ?case using 1(2) by (auto simp: Let_def dcc_opt_def dcc_only_refl split: prod.splits if_splits)
  qed
  then show "dcc_only c b \<Longrightarrow> dcc_opt c (shift_entries cnt fname b)" using dcc_only_trans by (auto simp: dcc_opt_def)
qed

lemma erasedcc_only: "erasedcc x n k b = Some b' \<Longrightarrow> dcc_only b b'"
proof -
  have "dcc_opt b (erasedcc x n k b)"
  proof (cases "nth_dcc k 1 0 0 (u_dcc (buser b n))")
    case None
    then show ?thesis by (simp add: erasedcc_def dcc_opt_def dcc_only_frame dcc_only_refl)
  next
    case (Some ip)
    show ?thesis
      unfolding erasedcc_def Some Let_def option.case prod.case_eq_if
      by (intro dcc_opt_intros put_entry_only shift_entries_only dcc_intros)
  qed
  then show "erasedcc x n k b = Some b' \<Longrightarrow> dcc_only b b'" by (simp add: dcc_opt_def)
qed

lemma adddcc_unlinked: "adddcc sl n host port l p name noini u s = Some (u', s') \<Longrightarrow> unlinked u' = unlinked u"
  by (auto simp: adddcc_def Let_def split: Option.bind_splits if_splits)

lemma cmdadddcc_only: "cmdadddcc e n b = Some (rc, b') \<Longrightarrow> dcc_only b b'"
proof -
  let ?c = "case strchr (b_buf b) (CHR '' '') of None \<Rightarrow> b | Some i \<Rightarrow> b\<lparr>b_buf := take i (b_buf b)\<rparr>"
  assume a: "cmdadddcc e n b = Some (rc, b')"
  have c: "dcc_only b ?c" by (intro dcc_intros)
  show ?thesis
  proof (cases "adddcc_words (b_buf b)")
    case None
    then show ?thesis using a c by (auto simp: cmdadddcc_def Let_def intro: dcc_intros)
  next
    case (Some w)
    obtain npt lpt ppt hpt port where w: "w = (npt, lpt, ppt, hpt, port)" by (cases w)
    then obtain u s where u: "adddcc (e_salt e) n hpt port lpt ppt npt False (buser ?c n) (b_store ?c) = Some (u, s)"
        and b': "b_users b' = b_users (bmod n (\<lambda>_. u) (?c\<lparr>b_store := s\<rparr>))"
      using a Some by (auto simp: cmdadddcc_def with_user_def Let_def split: Option.bind_splits)
    have "unlinked u = unlinked (buser ?c n)" using adddcc_unlinked [OF u] .
    then have "unlinked (buser b' m) = unlinked (buser ?c m)" for m
      using getu_cell [of "b_users ?c" m n] by (cases "ucell (b_users ?c) m = ucell (b_users ?c) n") (auto simp: b' bmod_def modu_def getu_putu)
    then show ?thesis using c by (auto simp: dcc_only_def b' bmod_def)
  qed
qed

lemma dcc_table_only:
  assumes "calm x" "(name, h) \<in> set (dcc_table x)" "h e n b = Some (rc, b')"
  shows "dcc_only b b'"
proof -
  consider "h = cmdadddcc" | "h = cmddeldcc x" | "h \<noteq> cmdadddcc" "h \<noteq> cmddeldcc x" by blast
  then show ?thesis
  proof cases
    case 1
    then show ?thesis using assms(3) cmdadddcc_only by simp
  next
    case 2
    then show ?thesis using assms(3) erasedcc_only by (auto simp: cmddeldcc_def)
  next
    case 3
    then show ?thesis
      using assms(2,3) unfolding dcc_table_def
      by (auto simp: cmdlistdcc_def cmddccchat_def cmddccanswer_def cmddccsend_def cmddccget_def cmddccsendme_def
          cmddcccancel_def Let_def intro!: dcc_intros offer_chat_only offer_file_only listdccs_only assms(1) split: option.splits)
  qed
qed

lemma dcc_commands_harmless:
  assumes "calm x" "others_harmless others"
  shows "others_harmless (dcc_commands x e others)"
proof -
  have "no_crown b b'" if "map_of (dcc_table x) name = Some h" "h e n b = Some (rc, b')" for name h n b rc b'
    using dcc_table_only [OF assms(1) map_of_SomeD [OF that(1)] that(2)] by (intro same_no_crown dcc_only_rights)
  then show ?thesis
    using assms(2) by (auto simp: others_harmless_def dcc_commands_def split: option.splits)
qed

section \<open>Where files go that somebody offers\<close>

lemma behind_last_set: "c \<notin> set (behind_last c pt) \<and> set (behind_last c pt) \<subseteq> set pt"
proof (induction c pt rule: behind_last.induct)
  case (1 c pt)
  have "set (tl (dropWhile (\<lambda>d. d \<noteq> c) pt)) \<subseteq> set pt"
    using set_dropWhileD list.set_sel(2) by (metis (no_types, lifting) list.sel(2) subsetI)
  then show ?case using 1 by (subst (1 2) behind_last.simps) auto
qed

text \<open>A plain name: no separators, no wildcards, nothing that leads to another directory.\<close>

definition plain_name :: "string \<Rightarrow> bool" where
  "plain_name fil \<longleftrightarrow> set fil \<inter> {CHR ''/'', CHR 0x5C, CHR ''?'', CHR ''*''} = {} \<and> strstr fil ''..'' = None"

lemma stripdccfile_plain:
  assumes "stripdccfile name True = Some fil"
  shows "plain_name fil"
proof -
  let ?f = "behind_last (CHR 0x5C) (behind_last (CHR ''/'') name)"
  have fil: "fil = ?f" "CHR ''?'' \<notin> set name" "CHR ''*'' \<notin> set name" "strstr ?f ''..'' = None"
    using assms by (auto simp: stripdccfile_def strchr_None Let_def split: if_splits)
  moreover have "set ?f \<subseteq> set name" "CHR 0x5C \<notin> set ?f" "CHR ''/'' \<notin> set ?f"
    using behind_last_set [of "CHR 0x5C" "behind_last (CHR ''/'') name"] behind_last_set [of "CHR ''/''" name] by blast+
  ultimately show ?thesis by (auto simp: plain_name_def)
qed

text \<open>The files of all entries are old ones, or in the directory of the user.\<close>

definition files_home :: "dccenv \<Rightarrow> int \<Rightarrow> bnc \<Rightarrow> bnc \<Rightarrow> bool" where
  "files_home x n b c \<longleftrightarrow>
     (\<forall>d \<in> set (u_pdcc (buser c n)). d_file d \<in> d_file ` set (u_pdcc (buser b n)) \<or> d_file d = [] \<or>
        (\<exists>fil. plain_name fil \<and> d_file d = strmncpy (dccfilepath x 800 n fil) 200))"

named_theorems home_intros

lemma files_home_users: "files_home x n b c \<Longrightarrow> b_users c' = b_users c \<Longrightarrow> files_home x n b c'"
  by (simp add: files_home_def)

lemma files_home_frame [home_intros]:
  "files_home x n b b"
  "files_home x n b c \<Longrightarrow> files_home x n b (bout q c)" "files_home x n b c \<Longrightarrow> files_home x n b (bprint sock t c)"
  "files_home x n b c \<Longrightarrow> files_home x n b (mod_irc h c)" "files_home x n b c \<Longrightarrow> files_home x n b (bparse c)"
  "files_home x n b c \<Longrightarrow> files_home x n b (bmod n (\<lambda>u. u\<lparr>u_lastdccchat := t'\<rparr>) c)"
  by (simp add: files_home_def) ((erule files_home_users; simp)+, simp add: files_home_def bmod_def getu_modu_same)

lemma files_home_create [home_intros]:
  "files_home x n b c \<Longrightarrow> d_file d = [] \<or> (\<exists>fil. plain_name fil \<and> d_file d = strmncpy (dccfilepath x 800 n fil) 200) \<Longrightarrow>
    files_home x n b (createpdcc n d c)"
  by (auto simp: files_home_def createpdcc_def bmod_def getu_modu_same)

lemma files_home_mod [home_intros]:
  assumes "files_home x n b c" "\<And>d. d_file (f d) = d_file d"
  shows "files_home x n b (mod_pdcc n i f c)" "files_home x n b (last_pdcc n f c)"
proof -
  have "\<exists>e \<in> set ds. d_file d = d_file e" if "d \<in> set (ds[j := f (ds ! j)])" for d ds j
  proof (cases "j < length ds")
    case True
    then have "d \<in> insert (f (ds ! j)) (set ds)" using that set_update_subset_insert by fast
    then show ?thesis using assms(2) True by auto
  next
    case False
    then show ?thesis using that by (auto simp: list_update_beyond)
  qed
  then have "files_home x n b (mod_pdcc n i f c)" for i
    using assms(1) by (simp add: files_home_def mod_pdcc_def bmod_def getu_modu_same) metis
  then show "files_home x n b (mod_pdcc n i f c)" "files_home x n b (last_pdcc n f c)" by (simp_all add: last_pdcc_def)
qed

lemma files_home_branches [home_intros]:
  "files_home x n b c \<Longrightarrow> files_home x n b d \<Longrightarrow> files_home x n b (if p then c else d)"
  "files_home x n b c \<Longrightarrow> (\<And>z. files_home x n b (f z)) \<Longrightarrow> files_home x n b (case v of None \<Rightarrow> c | Some z \<Rightarrow> f z)"
  "files_home x n b c \<Longrightarrow> files_home x n b (snd (r, c))"
  "files_home x n b (snd q) \<Longrightarrow> files_home x n b (snd r') \<Longrightarrow> files_home x n b (snd (if p then q else r'))"
  "files_home x n b (snd q) \<Longrightarrow> (\<And>z. files_home x n b (snd (f' z))) \<Longrightarrow> files_home x n b (snd (case v of None \<Rightarrow> q | Some z \<Rightarrow> f' z))"
  by (simp_all split: option.split)

lemma run_script_home [home_intros]: "files_home x n b c \<Longrightarrow> files_home x n b (snd (run_script y h m c))"
  unfolding run_script_def by (intro home_intros)

lemma receive_file_home: "files_home x n b c \<Longrightarrow> files_home x n b (snd (receive_file y e n nck name None is k c))"
proof (induction "is" arbitrary: k c)
  case (Cons i "is")
  show ?case unfolding receive_file.simps Let_def option.case by (intro home_intros Cons) simp_all
qed (simp add: home_intros)

lemma dcc_get_home [home_intros]: "files_home x n b c \<Longrightarrow> files_home x n b (snd (dcc_get y e n nick name None c))"
  unfolding dcc_get_def say_if_here_def
  using receive_file_home [of x n b c y e nick name "[0..<length (u_pdcc (buser c n))]" 0]
  by (auto split: prod.split bool.split intro!: home_intros)

lemma chat_request_home: "files_home x n b c \<Longrightarrow> files_home x n b (snd (chat_request y e n host port nick c))"
  unfolding chat_request_def Let_def prod.case_eq_if
  by (intro home_intros) (simp_all add: zero_dcct_def)

lemma file_request_home: "files_home x n b c \<Longrightarrow> files_home x n b (snd (file_request x e n host port nick name fsize c))"
proof (cases "stripdccfile name True")
  case (Some fil)
  assume "files_home x n b c"
  then show ?thesis
    unfolding file_request_def Some option.case Let_def prod.case_eq_if
    by (intro home_intros) (use stripdccfile_plain [OF Some] in \<open>auto simp: zero_dcct_def\<close>)
qed (simp add: file_request_def home_intros)

text \<open>
  (C9) A file that somebody offers is never stored outside the directory that the user has for files,
  whatever name it is offered under and whether or not files are fetched by themselves: behind a
  message every file in the list of the user was there before or is a plain name in that directory.
\<close>

theorem offered_file_home:
  assumes "parsectcps x e n b = (r, b')" "d \<in> set (u_pdcc (buser b' n))"
  shows "d_file d = [] \<or> d_file d \<in> d_file ` set (u_pdcc (buser b n)) \<or>
    (\<exists>fil. plain_name fil \<and> d_file d = strmncpy (dccfilepath x 800 n fil) 200)"
proof -
  have "files_home x n b (snd (parsectcps x e n b))"
    unfolding parsectcps_def chat_ctcp_def file_ctcp_def answerctcp_def cut_content_def Let_def prod.case_eq_if
    by (intro home_intros chat_request_home file_request_home)
  then show ?thesis using assms by (auto simp: files_home_def)
qed

section \<open>Offers are understood\<close>

lemma split_at_split [simp]: "c \<notin> set w \<Longrightarrow> c \<noteq> NUL \<Longrightarrow> split_at c (w @ c # r) = Some (w, r)"
  by (simp add: split_at_def)

lemma decimal_plain: "\<not> isdigit c \<Longrightarrow> c \<notin> set (decimal n)"
  using decimal_digits by blast

lemma scan_ulong_decimal: "n < 2 ^ 64 \<Longrightarrow> scan_ulong (decimal n) = Some n"
proof -
  assume n: "n < 2 ^ 64"
  obtain c cs where c: "decimal n = c # cs" "isdigit c" using decimal_digits [of n] decimal_not_Nil [of n] by (cases "decimal n") auto
  then show ?thesis using n isdigit_plain [OF c(2)] digits_val_decimal [of n] by (simp add: scan_ulong_def Let_def at_def)
qed

lemma behind_last_none: "c \<notin> set pt \<Longrightarrow> behind_last c pt = pt"
  by (subst behind_last.simps) simp

lemma stripdccfile_again:
  assumes "stripdccfile name False = Some fil" "strstr fil ''..'' = None"
  shows "stripdccfile fil True = Some fil"
proof -
  let ?f = "behind_last (CHR 0x5C) (behind_last (CHR ''/'') name)"
  have fil: "fil = ?f" "CHR ''?'' \<notin> set name" "CHR ''*'' \<notin> set name"
    using assms by (auto simp: stripdccfile_def strchr_None Let_def split: if_splits)
  moreover have "set ?f \<subseteq> set name" "CHR 0x5C \<notin> set ?f" "CHR ''/'' \<notin> set ?f"
    using behind_last_set [of "CHR 0x5C" "behind_last (CHR ''/'') name"] behind_last_set [of "CHR ''/''" name] by blast+
  ultimately have "CHR ''?'' \<notin> set fil" "CHR ''*'' \<notin> set fil" "CHR 0x5C \<notin> set fil" "CHR ''/'' \<notin> set fil" by auto
  then show ?thesis using assms(2) by (simp add: stripdccfile_def strchr_None behind_last_none Let_def)
qed

lemma randport_range: "1024 \<le> randport r" "randport r \<le> 65535"
  using pos_mod_bound [of "65536" r] by (auto simp: randport_def Let_def)

lemma listen_tries_port: "listen_tries x cs (prt, sck) = (p, s) \<Longrightarrow> 0 < s \<Longrightarrow> s \<noteq> sck \<or> 1024 \<le> prt \<and> prt \<le> 65535 \<Longrightarrow> 1024 \<le> p \<and> p \<le> 65535"
proof (induction cs arbitrary: prt sck)
  case (Cons c cs)
  then show ?case using randport_range by (cases "sck > 0") auto
qed auto

text \<open>The text of an offer, and what the code of the other side makes of it.\<close>

definition send_offer :: "string \<Rightarrow> nat \<Rightarrow> int \<Rightarrow> nat \<Rightarrow> string" where
  "send_offer fil ip prt flen = ctcp (''DCC SEND '' @ fil @ '' '' @ decimal ip @ '' '' @ decimal_int prt @ '' '' @ decimal flen)"

lemma atoi_decimal: "atoi (decimal n) = int n"
  using atoi_decimal_int [of "int n"] by (simp add: decimal_int_def)

lemma decimal_int_plain: "\<not> isdigit c \<Longrightarrow> c \<noteq> CHR ''-'' \<Longrightarrow> c \<notin> set (decimal_int i)"
  using decimal_plain by (simp add: decimal_int_def)

lemma inet_ntoa_length: "length (inet_ntoa n) < 200"
proof -
  have "length (decimal (k mod 256)) \<le> 3" for k using mod_less_divisor [of 256 k] by (intro length_decimal) simp_all
  note this [of "n div 2 ^ 24"] this [of "n div 2 ^ 16"] this [of "n div 2 ^ 8"] this [of n]
  then show ?thesis by (simp add: inet_ntoa_def)
qed

lemma request_host_decimal: "ip < 2 ^ 64 \<Longrightarrow> request_host x (decimal ip) = inet_ntoa ip"
  by (simp add: request_host_def strchr_None decimal_plain isdigit_def code_def scan_ulong_decimal inet_ntoa_length)

lemma file_request_adds:
  assumes "1024 \<le> port" "port \<le> 65535" "stripdccfile name True = Some fil" "u_autogetdcc (buser b n) \<noteq> 1"
  shows "\<exists>pid. u_pdcc (buser (snd (file_request x e n host port nick name fsize b)) n) = u_pdcc (buser b n) @
    [zero_dcct\<lparr>d_type := PDC_RECVFROMRQ, d_uid := n, d_port := port, d_file := strmncpy (dccfilepath x 800 n fil) 200,
       d_filesize := fsize, d_host := request_host x host, d_nick := strmncpy nick 64, d_delay := 50, d_pid := pid\<rparr>]"
proof -
  have l: "u_pdcc (buser (last_pdcc n f c) n) = ds @ [f d]" if "u_pdcc (buser c n) = ds @ [d]" for f c ds d
    using that by (simp add: last_pdcc_def mod_pdcc_def bmod_def getu_modu_same)
  have a: "u_autogetdcc (buser (createpdcc n d b) n) \<noteq> 1" for d
    using assms(4) by (simp add: createpdcc_def bmod_def getu_modu_same)
  show ?thesis
    using assms a by (auto simp: file_request_def Let_def run_script_def createpdcc_def bmod_def getu_modu_same split: prod.splits intro!: exI l)
qed

lemma parsectcps_offer:
  assumes "ccontent b = send_offer fil ip prt flen" "CHR '' '' \<notin> set fil" "ip < 2 ^ 64" "prt \<ge> 0"
    and "ucase (cto b) = ucase (u_nick (buser b n))" "ucase (ircnick (b_irc b)) \<noteq> ucase (u_nick (buser b n))"
    and "u_dccenabled (buser b n) = 1" "length (decimal ip) < 200" "length fil < 200"
  shows "\<exists>c. b_users c = b_users b \<and>
    parsectcps x e n b = (1, snd (file_request x e n (decimal ip) prt (ircnick (b_irc b)) fil (int flen) c))"
proof -
  let ?rest = "decimal ip @ CHR '' '' # decimal_int prt @ CHR '' '' # decimal flen @ [CHR 0x01]"
  have c: "ccontent b = CHR 0x01 # ''DCC SEND '' @ fil @ CHR '' '' # ?rest" using assms(1) by (simp add: send_offer_def ctcp_def)
  have no: "CHR '' '' \<notin> set (decimal k)" "CHR 0x01 \<notin> set (decimal k)" "CHR '' '' \<notin> set (decimal_int k')" for k k'
    by (simp_all add: decimal_plain decimal_int_plain isdigit_def code_def)
  let ?b = "cut_content (length (ccontent b) - length ?rest - 1) b"
  have "file_ctcp x e n b = (1, snd (file_request x e n (decimal ip) prt (ircnick (b_irc b)) fil (int flen) ?b))"
    using assms(8,9) unfolding file_ctcp_def Let_def
    by (simp add: c assms(2) no atoi_decimal_int atoi_decimal cut_content_def mod_irc_def)
  moreover have "parsectcps x e n b = file_ctcp x e n b"
    unfolding parsectcps_def Let_def using assms(5-7) by (simp add: c at_def strchr_None)
  ultimately show ?thesis by (auto intro!: exI [of _ ?b] simp: cut_content_def)
qed

lemma offer_ready_same: "offer_ready x e n b = (True, c) \<Longrightarrow> c = b"
  by (simp add: offer_ready_def split: if_splits)

lemma open_listener_opens:
  assumes "open_listener x e n b = (Some (prt, sck, source), c)"
  shows "1024 \<le> prt" "prt \<le> 65535" "c = bout (Listen sck (x_host x) prt) b"
proof -
  obtain p s where l: "listen_tries x [0..<20] (0, 0) = (p, s)" by fastforce
  then have r: "0 < s" "p = prt" "s = sck" "c = bout (Listen sck (x_host x) prt) b"
    using assms by (auto simp: open_listener_def split: if_splits option.splits)
  then show "1024 \<le> prt" "prt \<le> 65535" "c = bout (Listen sck (x_host x) prt) b" using listen_tries_port [OF l] by auto
qed

lemma u_outsock_only: "dcc_only b c \<Longrightarrow> u_outsock (buser c n) = u_outsock (buser b n)"
proof -
  have "u_outsock u = u_outsock (unlinked u)" for u by (simp add: unlinked_def)
  then show "dcc_only b c \<Longrightarrow> ?thesis" unfolding dcc_only_def by metis
qed

lemma b_sent_bprint: "b_sent (bprint sock t b) = b_sent b @ [Write sock (snpf 8192 t)]"
  by (simp add: bprint_def bwrite_def bout_def)

lemma offer_file_sent:
  assumes "offer_file x e n nick name a = (0, a')"
  shows "\<exists>fil path prt sck source. let flen = length (file_text a path) in
    stripdccfile name False = Some fil \<and> offered_file x e n name fil a = Some path \<and> 1024 \<le> prt \<and> prt \<le> 65535 \<and>
    u_pdcc (buser a' n) = u_pdcc (buser a n) @
      [(new_offer PDC_SENDTORQ n prt sck source nick)\<lparr>d_file := strmncpy path 200, d_filesize := int flen\<rparr>] \<and>
    last (b_sent a') = Write (u_outsock (buser a n)) (snpf 8192 (''PRIVMSG '' @ strmncpy nick 64 @ '' :'' @
      send_offer fil (x_ip x) prt flen))"
proof -
  obtain c1 where c1: "offer_ready x e n a = (True, c1)" using assms by (cases "offer_ready x e n a") (auto simp: offer_file_def split: bool.splits)
  note a = offer_ready_same [OF c1]
  obtain fil path where f: "stripdccfile name False = Some fil" "offered_file x e n name fil a = Some path"
    using assms a by (cases "stripdccfile name False"; cases "offered_file x e n name (the (stripdccfile name False)) a") (auto simp: offer_file_def c1)
  obtain prt sck source c2 where l: "open_listener x e n a = (Some (prt, sck, source), c2)"
    using assms a f by (cases "open_listener x e n a"; cases "fst (open_listener x e n a)") (auto simp: offer_file_def c1)
  note o = open_listener_opens [OF l]
  let ?flen = "length (file_text a path)"
  let ?d = "(new_offer PDC_SENDTORQ n prt sck source nick)\<lparr>d_file := strmncpy path 200, d_filesize := int ?flen\<rparr>"
  let ?b = "createpdcc n ?d c2"
  obtain t where t: "\<And>s. say_if_here n t ?b = s \<Longrightarrow> \<exists>t'. a' = to_server n (''PRIVMSG '' @ strmncpy nick 64 @ '' :'' @ send_offer fil (x_ip x) prt ?flen)
      (to_server n t' s)"
    using assms by (auto simp: offer_file_def c1 a f l Let_def o(3) file_text_def bout_def send_offer_def new_offer_def)
  have k: "dcc_only a ?b" unfolding o(3) by (intro dcc_intros)
  have ds: "u_pdcc (buser ?b n) = u_pdcc (buser a n) @ [?d]" by (simp add: o(3) createpdcc_def bmod_def getu_modu_same bout_def)
  obtain t' where a': "a' = to_server n (''PRIVMSG '' @ strmncpy nick 64 @ '' :'' @ send_offer fil (x_ip x) prt ?flen)
      (to_server n t' (say_if_here n t ?b))" using t by blast
  have s: "b_users (say_if_here n t ?b) = b_users ?b" by (simp add: say_if_here_def)
  have "last (b_sent a') = Write (u_outsock (buser a n)) (snpf 8192 (''PRIVMSG '' @ strmncpy nick 64 @ '' :'' @
      send_offer fil (x_ip x) prt ?flen))"
    unfolding a' b_sent_bprint last_snoc b_users_frame s u_outsock_only [OF k] ..
  moreover have "u_pdcc (buser a' n) = u_pdcc (buser a n) @ [?d]" unfolding a' b_users_frame s by (rule ds)
  ultimately show ?thesis using f o(1,2) unfolding Let_def by blast
qed

lemma length_send_offer:
  assumes "length fil < 200" "ip < 2 ^ 32" "0 \<le> prt" "prt \<le> 65535" "flen < 10 ^ 18"
  shows "length (''PRIVMSG '' @ strmncpy nick 64 @ '' :'' @ send_offer fil ip prt flen) < 8192"
proof -
  have "length (decimal ip) \<le> 10" "length (decimal flen) \<le> 18" "length (decimal_int prt) \<le> 5"
    using assms by (auto simp: decimal_int_def intro!: length_decimal)
  moreover have "length (strmncpy nick 64) < 64" by (rule length_strmncpy) simp
  ultimately show ?thesis using assms(1) by (simp add: send_offer_def ctcp_def)
qed


text \<open>A user who offers a file of two bytes, and a user to whom it is offered.\<close>

definition sample_dcc :: dccenv where
  "sample_dcc =
     \<lparr>x_host = ''1.2.3.4'', x_ip = 16909060, x_root = [], x_listen = (\<lambda>_. (5000, 9)), x_sock = (\<lambda>_. 9), x_dip = 0, x_word = 0,
      x_script = (\<lambda>_ _ _. 0), x_end = (\<lambda>_ b. b), x_pipe = (\<lambda>_. None), x_master = 9, x_acceptip = ''5.6.7.8'',
      x_written = (\<lambda>k. k), x_waiting = False\<rparr>"

definition dcc_env :: env where
  "dcc_env = sample_env\<lparr>e_peer := (\<lambda>_. Some (''h'', 1, ''1.2.3.4'', 5000))\<rparr>"

definition offer_bnc :: bnc where
  "offer_bnc = line_bnc\<lparr>b_files := (\<lambda>f. if f = ''a'' then Some ''hi'' else None)\<rparr>"

definition asked_bnc :: "nat \<Rightarrow> int \<Rightarrow> nat \<Rightarrow> bnc" where
  "asked_bnc ip prt flen = talk_bnc
     \<lparr>b_users := \<lparr>us_nodes = [(1, zero_usert\<lparr>u_nick := ''bob'', u_dccenabled := 1\<rparr>)], us_dummy = zero_usert, us_null = zero_usert\<rparr>,
      b_irc := empty_irc\<lparr>ircnick := ''jane'', ircto := ''bob'', irccontent := send_offer ''a'' ip prt flen\<rparr>\<rparr>"

lemma offer_bnc_offers: "fst (offer_file sample_dcc dcc_env 1 ''bob'' ''a'' offer_bnc) = 0"
proof -
  have l: "listen_tries sample_dcc [0..<20] (0, 0) = (5000, 9)"
    by (simp add: upt_rec sample_dcc_def randport_def)
  have f: "stripdccfile ''a'' False = Some ''a''" by code_simp
  have r: "offer_ready sample_dcc dcc_env 1 offer_bnc = (True, offer_bnc)"
    by (simp add: offer_ready_def offer_bnc_def line_bnc_def sample_dcc_def getu_def ucell_def user_nr_def MAX_USER_def)
  have o: "offered_file sample_dcc dcc_env 1 ''a'' ''a'' offer_bnc = Some ''a''"
    by (simp add: offered_file_def dcc_env_def sample_env_def offer_bnc_def)
  have p: "e_peer dcc_env s = Some (''h'', 1, ''1.2.3.4'', 5000)" for s by (simp add: dcc_env_def)
  show ?thesis by (simp add: offer_file_def r f o open_listener_def l p Let_def)
qed

lemma asked_bnc_user: "buser (asked_bnc ip prt flen) 1 = zero_usert\<lparr>u_nick := ''bob'', u_dccenabled := 1\<rparr>"
  by (simp add: asked_bnc_def getu_def ucell_def user_nr_def MAX_USER_def)

lemma asked_bnc_irc:
  "cto (asked_bnc ip prt flen) = ''bob''" "ircnick (b_irc (asked_bnc ip prt flen)) = ''jane''"
  "ccontent (asked_bnc ip prt flen) = send_offer ''a'' ip prt flen"
  by (simp_all add: asked_bnc_def)

lemma asked_names: "stripdccfile ''a'' True = Some ''a''" "ucase ''jane'' \<noteq> ucase ''bob''"
    "stripdccfile ''a'' False = Some ''a''" "strstr ''a'' ''..'' = None"
  by code_simp+

lemma asked_bnc_adds:
  "\<exists>d. u_pdcc (buser (snd (parsectcps sample_dcc dcc_env 1 (asked_bnc 7 5000 2))) 1) = [d] \<and>
     d_file d = strmncpy (dccfilepath sample_dcc 800 1 ''a'') 200"
proof -
  obtain c where c: "b_users c = b_users (asked_bnc 7 5000 2)"
      "parsectcps sample_dcc dcc_env 1 (asked_bnc 7 5000 2) = (1, snd (file_request sample_dcc dcc_env 1 (decimal 7) 5000 ''jane'' ''a'' 2 c))"
    using parsectcps_offer [of "asked_bnc 7 5000 2" "''a''" 7 5000 2 1 sample_dcc dcc_env] length_decimal [of 1 7]
    by (auto simp: asked_bnc_user asked_bnc_irc asked_names)
  show ?thesis
    using file_request_adds [of 5000 "''a''" "''a''" c 1 sample_dcc dcc_env "decimal 7" "''jane''" 2] asked_names(1)
    by (auto simp: c asked_bnc_user zero_usert_def)
qed

theorem offered_file_home_witness:
  "\<exists>d r b'. parsectcps sample_dcc dcc_env 1 (asked_bnc 7 5000 2) = (r, b') \<and> d \<in> set (u_pdcc (buser b' 1)) \<and>
     d_file d = ''downloads/USER1/a'' \<and> (\<exists>fil. plain_name fil \<and> d_file d = strmncpy (dccfilepath sample_dcc 800 1 fil) 200)"
proof -
  obtain r b' where p: "parsectcps sample_dcc dcc_env 1 (asked_bnc 7 5000 2) = (r, b')" by fastforce
  obtain d where d: "u_pdcc (buser b' 1) = [d]" "d_file d = strmncpy (dccfilepath sample_dcc 800 1 ''a'') 200"
    using asked_bnc_adds p by auto
  have "decimal_int 1 = ''1''" by code_simp
  then have f: "dccfilepath sample_dcc 800 1 ''a'' = ''downloads/USER1/a''" by (simp add: dccfilepath_def dccrootpath_def sample_dcc_def)
  have o: "u_pdcc (buser (asked_bnc 7 5000 2) 1) = []" by (simp add: asked_bnc_user zero_usert_def)
  have "d_file d \<noteq> []" unfolding d(2) f by simp
  then have "\<exists>fil. plain_name fil \<and> d_file d = strmncpy (dccfilepath sample_dcc 800 1 fil) 200"
    using offered_file_home [OF p, of d] d(1) o by simp
  moreover have "d_file d = ''downloads/USER1/a''" unfolding d(2) f by simp
  ultimately show ?thesis using p d(1) by (intro exI [of _ d] exI [of _ r] exI [of _ b']) simp
qed


section \<open>Requests that nobody answers\<close>

definition waited :: "int \<Rightarrow> dcct \<Rightarrow> dcct" where
  "waited k d = (if pending d then d\<lparr>d_delay := d_delay d - k\<rparr> else d)"

definition still :: "int \<Rightarrow> dcct \<Rightarrow> bool" where
  "still k d \<longleftrightarrow> (pending d \<longrightarrow> k < d_delay d)"

lemma tick_pdccs_kept: "fst (tick_pdccs ds) = map (waited 1) (filter (still 1) ds)"
  by (induction ds) (auto simp: waited_def still_def pending_def Let_def split: prod.split)

lemma waited_still:
  assumes "0 \<le> k"
  shows "map (waited k) (filter (still k) (map (waited 1) (filter (still 1) ds))) = map (waited (1 + k)) (filter (still (1 + k)) ds)"
proof (induction ds)
  case (Cons d ds)
  have "still 1 d \<and> still k (waited 1 d) \<longleftrightarrow> still (1 + k) d" "still (1 + k) d \<Longrightarrow> waited k (waited 1 d) = waited (1 + k) d"
    using assms by (auto simp: still_def waited_def pending_def)
  then show ?case using Cons by (cases "still (1 + k) d") auto
qed simp

lemma user_timeouts_users: "calm x \<Longrightarrow> b_users (user_timeouts x e m b) =
    modu m (\<lambda>u. u\<lparr>u_pdcc := fst (tick_pdccs (u_pdcc (buser b m)))\<rparr>) (b_users b)"
proof -
  assume "calm x"
  then have "b_users (drop_pdcc x e d c) = b_users c" for d c by (simp add: drop_pdcc_def end_task_def calm_def Let_def)
  then show ?thesis by (cases "tick_pdccs (u_pdcc (buser b m))") (simp add: user_timeouts_def b_users_fold bmod_def)
qed

lemma fold_timeouts_others:
  assumes "calm x" "\<And>m. m \<in> set ms \<Longrightarrow> ucell (b_users b) m \<noteq> ucell (b_users b) n"
  shows "buser (fold (user_timeouts x e) ms b) n = buser b n"
  using assms(2)
proof (induction ms arbitrary: b)
  case (Cons m ms)
  have n: "buser (user_timeouts x e m b) n = buser b n" "ucell (b_users (user_timeouts x e m b)) k = ucell (b_users b) k" for k
    using Cons.prems [of m] assms(1) by (simp_all add: user_timeouts_users getu_modu_other)
  show ?case using Cons.IH [of "user_timeouts x e m b"] Cons.prems n by simp
qed simp

lemma fold_timeouts_cells: "calm x \<Longrightarrow> uids (b_users (fold (user_timeouts x e) ms b)) = uids (b_users b)"
    "calm x \<Longrightarrow> ucell (b_users (fold (user_timeouts x e) ms b)) k = ucell (b_users b) k"
  by (induction ms arbitrary: b) (simp_all add: user_timeouts_users)

lemma checkdcctimeouts_user:
  assumes "own_cell n (b_users b)" "calm x"
  shows "u_pdcc (buser (checkdcctimeouts x e b) n) = map (waited 1) (filter (still 1) (u_pdcc (buser b n)))"
    and "own_cell n (b_users (checkdcctimeouts x e b))"
proof -
  obtain xs ys where u: "uids (b_users b) = xs @ n # ys" using assms(1) by (auto simp: own_cell_def dest: split_list)
  have other: "ucell (b_users b) m \<noteq> ucell (b_users b) n" if "m \<in> set xs \<union> set ys" for m
    using assms(1) u that by (auto simp: own_cell_def)
  let ?c = "fold (user_timeouts x e) xs b"
  have c: "buser ?c n = buser b n" using other assms(2) by (intro fold_timeouts_others) auto
  have "buser (fold (user_timeouts x e) ys (user_timeouts x e n ?c)) n = buser (user_timeouts x e n ?c) n"
    using other assms(2) by (intro fold_timeouts_others) (auto simp: user_timeouts_users fold_timeouts_cells)
  then show "u_pdcc (buser (checkdcctimeouts x e b) n) = map (waited 1) (filter (still 1) (u_pdcc (buser b n)))"
    by (simp add: checkdcctimeouts_def u user_timeouts_users assms(2) getu_modu_same c tick_pdccs_kept)
  show "own_cell n (b_users (checkdcctimeouts x e b))"
    using assms unfolding checkdcctimeouts_def own_cell_def by (simp add: fold_timeouts_cells)
qed

text \<open>
  (C15) A request that is not answered is dropped after as many checks as its delay says, 50 for a new one; until then it
  waits, and chats and transfers that run are kept as they are, however many checks there are.
\<close>

theorem requests_time_out:
  assumes "own_cell n (b_users b)" "\<forall>(x, e) \<in> set xs. calm x"
  shows "u_pdcc (buser (fold (\<lambda>(x, e). checkdcctimeouts x e) xs b) n) =
    map (waited (int (length xs))) (filter (still (int (length xs))) (u_pdcc (buser b n)))"
  using assms
proof (induction xs arbitrary: b)
  case Nil
  have "filter (still 0) ds = ds" "map (waited 0) ds = ds" for ds
    by (induction ds) (auto simp: still_def waited_def pending_def)
  then show ?case by simp
next
  case (Cons a xs)
  obtain x e where a: "a = (x, e)" by fastforce
  have c: "calm x" using Cons.prems(2) by (auto simp: a)
  note t = checkdcctimeouts_user [OF Cons.prems(1) c, of e]
  show ?case using Cons.IH [OF t(2)] Cons.prems(2) waited_still [of "int (length xs)" "u_pdcc (buser b n)"] by (simp add: a t(1))
qed

definition waiting_bnc :: bnc where
  "waiting_bnc = talk_bnc
     \<lparr>b_users := \<lparr>us_nodes = [(1, zero_usert\<lparr>u_pdcc := [zero_dcct\<lparr>d_type := PDC_CHATTORQ, d_delay := 50\<rparr>, zero_dcct\<lparr>d_type := PDC_CHATTO\<rparr>]\<rparr>)],
        us_dummy = zero_usert, us_null = zero_usert\<rparr>\<rparr>"

theorem requests_time_out_witness:
  "u_pdcc (buser (fold (\<lambda>(x, e). checkdcctimeouts x e) (replicate 49 (sample_dcc, dcc_env)) waiting_bnc) 1) =
     [zero_dcct\<lparr>d_type := PDC_CHATTORQ, d_delay := 1\<rparr>, zero_dcct\<lparr>d_type := PDC_CHATTO\<rparr>] \<and>
   u_pdcc (buser (fold (\<lambda>(x, e). checkdcctimeouts x e) (replicate 50 (sample_dcc, dcc_env)) waiting_bnc) 1) =
     [zero_dcct\<lparr>d_type := PDC_CHATTO\<rparr>]"
proof -
  have o: "own_cell 1 (b_users waiting_bnc)" by (simp add: own_cell_def waiting_bnc_def uids_def)
  have c: "\<forall>(x, e) \<in> set (replicate k (sample_dcc, dcc_env)). calm x" for k by (simp add: calm_def sample_dcc_def)
  have u: "u_pdcc (buser waiting_bnc 1) = [zero_dcct\<lparr>d_type := PDC_CHATTORQ, d_delay := 50\<rparr>, zero_dcct\<lparr>d_type := PDC_CHATTO\<rparr>]"
    by (simp add: waiting_bnc_def getu_def ucell_def user_nr_def MAX_USER_def)
  show ?thesis
    using requests_time_out [OF o c, of 49] requests_time_out [OF o c, of 50]
    by (simp add: u still_def waited_def pending_def PDC_CHATTORQ_def PDC_CHATTO_def PDC_SENDTORQ_def PDC_RECVFROMRQ_def PDC_CHATFROMRQ_def zero_dcct_def)
qed

section \<open>Lines, with everything of DCC\<close>


end
