(* ===== verification/Delivery.thy ===== *)
theory Delivery
  imports Stoned Exchange
begin

text \<open>
  A file on its way from one bouncer to another: the handlers \<open>acceptpdccfile\<close> and \<open>pdccfilesendack\<close> of the
  sender and \<open>pdccfconnected\<close> and \<open>pdccfget\<close> of the receiver, with the bytes and the acknowledgements
  in between, as a step relation. It is refined by a protocol of lists and numbers, whose invariant shows that every run ends
  with the whole file at the receiver.
\<close>

section \<open>The two ends\<close>

text \<open>What was streamed to a socket between two states.\<close>

fun stream_of :: "sockop \<Rightarrow> string option" where
  "stream_of (Stream s t) = Some t"
| "stream_of _ = None"

definition streams :: "bnc \<Rightarrow> bnc \<Rightarrow> string list" where
  "streams b b' = List.map_filter stream_of (drop (length (b_sent b)) (b_sent b'))"

text \<open>
  The sender and the receiver, the bytes that are on their way and the acknowledgements. The receiver gets any piece of
  the bytes, and is told that more is waiting only when this is so.
\<close>

type_synonym transfer = "bnc \<times> bnc \<times> string \<times> string list"

inductive transfer_step :: "dccenv \<Rightarrow> env \<Rightarrow> int \<Rightarrow> dccenv \<Rightarrow> env \<Rightarrow> int \<Rightarrow> transfer \<Rightarrow> transfer \<Rightarrow> bool"
  for xs es n xr er m where
  data: "t \<noteq> [] \<Longrightarrow> (w \<Longrightarrow> r \<noteq> []) \<Longrightarrow> pdccfget (xr\<lparr>x_waiting := w\<rparr>) er m (c\<lparr>b_buf := t\<rparr>) = Some c' \<Longrightarrow>
    transfer_step xs es n xr er m (b, c, t @ r, acks) (b, c', r, acks @ streams c c')"
| ack: "pdccfilesendack xs es n (b\<lparr>b_buf := a\<rparr>) = Some b' \<Longrightarrow>
    transfer_step xs es n xr er m (b, c, fl, a # acks) (b', c, fl @ concat (streams b b'), acks)"

section \<open>The protocol\<close>

text \<open>
  The number of bytes sent and the length of the last block, or nothing when the sender is done; the
  text that was received; the bytes and the acknowledged numbers that are on their way.
\<close>

type_synonym protocol = "(nat \<times> nat) option \<times> string \<times> string \<times> nat list"

fun answer :: "string \<Rightarrow> nat \<Rightarrow> (nat \<times> nat) option \<Rightarrow> (nat \<times> nat) option \<times> string" where
  "answer body a None = (None, [])"
| "answer body a (Some (sent, len)) =
     (if sent \<noteq> a then (Some (sent, len), [])
      else if len < BLOCK then (None, [])
      else let t = take BLOCK (drop sent body) in (Some (sent + length t, length t), t))"

inductive protocol_step :: "string \<Rightarrow> protocol \<Rightarrow> protocol \<Rightarrow> bool" for body where
  get: "t \<noteq> [] \<Longrightarrow> (w \<Longrightarrow> r \<noteq> []) \<Longrightarrow>
    protocol_step body (so, rc, t @ r, acks) (so, rc @ t, r, if w then acks else acks @ [length (rc @ t)])"
| send: "answer body a so = (so', t) \<Longrightarrow> protocol_step body (so, rc, fl, a # acks) (so', rc, fl @ t, acks)"

text \<open>What holds all the time.\<close>

definition sent_so_far :: "string \<Rightarrow> (nat \<times> nat) option \<Rightarrow> nat" where
  "sent_so_far body so = (case so of None \<Rightarrow> length body | Some (sent, len) \<Rightarrow> sent)"

fun protocol_inv :: "string \<Rightarrow> protocol \<Rightarrow> bool" where
  "protocol_inv body (so, rc, fl, acks) \<longleftrightarrow>
     (let s = sent_so_far body so in
      rc @ fl = take s body \<and> s \<le> length body \<and> sorted_wrt (<) acks \<and> (\<forall>a \<in> set acks. a \<le> length rc) \<and>
      (s = length body \<or> BLOCK dvd s) \<and> (s < length body \<longrightarrow> fl \<noteq> [] \<or> s \<in> set acks) \<and>
      (case so of
         None \<Rightarrow> \<not> BLOCK dvd length body
       | Some (sent, len) \<Rightarrow>
           (len < BLOCK \<longrightarrow> sent = length body) \<and>
           (if BLOCK dvd length body then len < BLOCK \<longrightarrow> sent \<notin> set acks \<and> fl = []
            else sent = length body \<longrightarrow> len < BLOCK \<and> (fl \<noteq> [] \<or> sent \<in> set acks))))"

lemma protocol_inv_start:
  "protocol_inv body (Some (min (length body) BLOCK, min (length body) BLOCK), [], take BLOCK body, [])"
proof (cases "length body < BLOCK")
  case True
  then show ?thesis by (auto simp: sent_so_far_def min_def Let_def BLOCK_def)
next
  case False
  then have "min (length body) BLOCK = BLOCK" by simp
  moreover have "length body \<noteq> BLOCK" if "\<not> BLOCK dvd length body" using that by auto
  ultimately show ?thesis using False by (auto simp: sent_so_far_def Let_def BLOCK_def)
qed

lemma protocol_inv_step: "protocol_step body S S' \<Longrightarrow> protocol_inv body S \<Longrightarrow> protocol_inv body S'"
proof (induction rule: protocol_step.induct)
  case (get t w r so rc acks)
  have len: "length rc + length t + length r = sent_so_far body so"
  proof -
    have "length (rc @ t @ r) = length (take (sent_so_far body so) body)" using get.prems by (simp add: Let_def)
    then show ?thesis using get.prems by (simp add: Let_def)
  qed
  have "length rc < length rc + length t" using get.hyps(1) by simp
  then have lt: "\<forall>a \<in> set acks. a < length rc + length t \<and> a \<le> length rc + length t"
    using get.prems unfolding protocol_inv.simps Let_def by (meson le_less_trans less_imp_le_nat)
  show ?case using get len lt
    by (cases so) (auto simp: Let_def sorted_wrt_append sent_so_far_def split: prod.splits if_splits)
next
  case (send a so so' t rc fl acks)
  have len: "length rc + length fl = sent_so_far body so"
  proof -
    have "length (rc @ fl) = length (take (sent_so_far body so) body)" using send.prems by (simp add: Let_def)
    then show ?thesis using send.prems by (simp add: Let_def)
  qed
  show ?case
  proof (cases so)
    case None
    then show ?thesis using send by (auto simp: Let_def sent_so_far_def)
  next
    case (Some p)
    obtain sent l where p: "p = (sent, l)" by (cases p)
    note so = Some [unfolded p]
    consider (other) "sent \<noteq> a" | (finished) "sent = a" "l < BLOCK" | (block) "sent = a" "BLOCK \<le> l" by linarith
    then show ?thesis
    proof cases
      case other
      then show ?thesis using send so by (auto simp: Let_def sent_so_far_def split: if_splits)
    next
      case finished
      then show ?thesis using send so len by (auto simp: Let_def sent_so_far_def split: if_splits)
    next
      case block
      note inv = send.prems [unfolded so protocol_inv.simps Let_def sent_so_far_def option.case prod.case]
      have a: "rc = take sent body" "fl = []" "sent = length rc" "acks = []" "sent \<le> length body"
      proof -
        have k: "\<forall>k \<in> set acks. a < k" "\<forall>k \<in> set acks. k \<le> length rc" "a \<le> length rc" using inv by simp_all
        have "length rc + length fl = a" using len block by (simp add: so sent_so_far_def)
        then have rc: "length rc = a" "fl = []" using k(3) by (linarith, cases fl) simp_all
        show "acks = []"
        proof (cases acks)
          case (Cons k ks)
          then show ?thesis using k(1,2) rc(1) by fastforce
        qed simp
        show "fl = []" "sent = length rc" using rc block by simp_all
        then show "rc = take sent body" "sent \<le> length body" using inv by auto
      qed
      have t: "so' = Some (sent + length t, length t)" "t = take BLOCK (drop sent body)" using send.hyps so block by (auto simp: Let_def)
      have l: "length t = min BLOCK (length body - sent)" "sent + length t \<le> length body" using a(5) by (auto simp: t(2))
      have whole: "rc @ t = take (sent + length t) body" using a(1) l(1) by (auto simp: take_add t(2) min_def)
      have dvd: "sent = length body \<or> BLOCK dvd sent" "BLOCK dvd length body \<or> sent \<noteq> length body"
        using inv block by (auto split: if_splits)
      show ?thesis
      proof (cases "length t = BLOCK")
        case True
        then have "BLOCK dvd sent" "t \<noteq> []" using dvd(1) l by (auto simp: BLOCK_def)
        then have "BLOCK dvd sent + length t" using True by simp
        then show ?thesis using whole l(2) \<open>t \<noteq> []\<close> True by (auto simp: a(2,4) t(1) sent_so_far_def Let_def)
      next
        case False
        then have s: "sent + length t = length body" "length t < BLOCK" using l by auto
        have "t = []" if "BLOCK dvd length body"
        proof -
          have "length t = length body - sent" using s(1) by simp
          then have "BLOCK dvd length t" using dvd(1) that dvd_diff_nat by auto
          then show ?thesis using s(2) by (auto dest: dvd_imp_le)
        qed
        moreover have "t \<noteq> []" if "\<not> BLOCK dvd length body" using that dvd(2) s(1) by auto
        ultimately show ?thesis using whole s by (auto simp: a(2,4) t(1) sent_so_far_def Let_def)
      qed
    qed
  qed
qed

text \<open>The protocol ends: every step uses up bytes or acknowledgements.\<close>

fun protocol_left :: "string \<Rightarrow> protocol \<Rightarrow> nat" where
  "protocol_left body (so, rc, fl, acks) = 3 * (length body - sent_so_far body so) + 2 * length fl + length acks"

lemma protocol_left_step:
  assumes "protocol_step body S S'" "protocol_inv body S"
  shows "protocol_left body S' < protocol_left body S"
  using assms
proof (induction rule: protocol_step.induct)
  case (get t w r so rc acks)
  have "Suc 0 < 2 * length t" using get.hyps(1) by (cases t) auto
  then show ?case by auto
next
  case (send a so so' t rc fl acks)
  have "sent_so_far body so \<le> length body" using send.prems by (simp add: Let_def)
  then show ?case using send.hyps
    by (cases so) (auto simp: sent_so_far_def Let_def split: if_splits prod.splits)
qed

text \<open>When nothing is on its way any more, everything has arrived.\<close>

lemma protocol_quiet:
  assumes "protocol_inv body (so, rc, [], [])"
  shows "rc = body" "so = None \<longleftrightarrow> \<not> BLOCK dvd length body"
proof -
  show "rc = body" using assms by (auto simp: Let_def sent_so_far_def split: option.splits)
  show "so = None \<longleftrightarrow> \<not> BLOCK dvd length body"
    using assms by (cases so) (auto simp: Let_def sent_so_far_def split: if_splits prod.splits)
qed

section \<open>The handlers follow the protocol\<close>

lemma read_be32_be32:
  assumes "0 \<le> n" "n < 2 ^ 32"
  shows "read_be32 (be32 n) = n"
proof -
  have c: "code (char_of (nat (k mod 256))) = nat (k mod 256)" for k :: int
    by (rule code_char_of) (simp add: nat_less_iff)
  have d: "n div 65536 = n div 256 div 256" "n div 16777216 = n div 256 div 256 div 256" by (simp_all add: zdiv_zmult2_eq [symmetric])
  have m: "n div 256 div 256 div 256 mod 256 = n div 256 div 256 div 256" using assms by (intro mod_pos_pos_trivial) simp_all
  have e: "n = n div 256 * 256 + n mod 256" "n div 256 = n div 256 div 256 * 256 + n div 256 mod 256"
    "n div 256 div 256 = n div 256 div 256 div 256 * 256 + n div 256 div 256 mod 256" by simp_all
  have "read_be32 (be32 n) = ((n div 256 div 256 div 256 mod 256 * 256 + n div 256 div 256 mod 256) * 256 + n div 256 mod 256) * 256 + n mod 256"
    unfolding be32_def read_be32_def by (simp add: at_def c d)
  then show ?thesis using m e by presburger
qed

lemma pdcc_of_sock_bound: "pdcc_of_sock s ds = Some i \<Longrightarrow> i < length ds"
  by (induction ds arbitrary: i) (auto split: if_splits)

text \<open>The one entry with this socket.\<close>

definition only :: "int \<Rightarrow> dcct list \<Rightarrow> dcct \<Rightarrow> bool" where
  "only s ds d \<longleftrightarrow> (\<exists>xs ys. ds = xs @ d # ys \<and> d_sock d = s \<and> (\<forall>e \<in> set (xs @ ys). d_sock e \<noteq> s))"

lemma only_found:
  assumes "only s ds d"
  obtains i where "pdcc_of_sock s ds = Some i" "ds ! i = d"
    "\<And>f. \<forall>e \<in> set (take i ds @ drop (Suc i) ds). d_sock e \<noteq> d_sock (f d) \<Longrightarrow> only (d_sock (f d)) (ds[i := f d]) (f d)"
    "\<forall>e \<in> set (take i ds @ drop (Suc i) ds). d_sock e \<noteq> s"
proof -
  obtain xs ys where ds: "ds = xs @ d # ys" "d_sock d = s" "\<forall>e \<in> set (xs @ ys). d_sock e \<noteq> s" using assms by (auto simp: only_def)
  have "pdcc_of_sock s (xs @ d # ys) = Some (length xs)" using ds(2,3) by (induction xs) auto
  then show thesis using ds by (intro that [of "length xs"]) (simp_all add: only_def, blast)
qed

text \<open>Messages and log entries stream nothing.\<close>

definition silent :: "bnc \<Rightarrow> bnc \<Rightarrow> bool" where
  "silent b b' \<longleftrightarrow> (\<exists>ops. b_sent b' = b_sent b @ ops \<and> List.map_filter stream_of ops = [])"

lemma map_filter_append [simp]: "List.map_filter f (xs @ ys) = List.map_filter f xs @ List.map_filter f ys"
  by (simp add: List.map_filter_def)

lemma silent_refl: "silent b b"
  by (simp add: silent_def)

lemma silent_trans: "silent a b \<Longrightarrow> silent b c \<Longrightarrow> silent a c"
  by (auto simp: silent_def)

lemma silent_ops:
  "silent a b \<Longrightarrow> b_sent c = b_sent b \<Longrightarrow> silent a c" "silent a b \<Longrightarrow> silent a (bprint sock t b)" "silent a b \<Longrightarrow> silent a (bout (Kill k) b)"
  by (auto simp: silent_def List.map_filter_def bprint_def bwrite_def bout_def)

lemma silent_fold: "(\<And>x b. silent b (f x b)) \<Longrightarrow> silent b (fold f xs b)"
  by (induction xs arbitrary: b) (auto simp: silent_refl intro: silent_trans)

lemma silent_log: "silent b (p_log e l n t b)"
proof -
  have "silent c (noticeall a t c)" for a t c
    unfolding noticeall_def by (rule silent_fold) (simp add: notice_one_def Let_def silent_refl silent_ops)
  moreover have "silent c (systemnotice n t c)" for n t c
    by (simp add: systemnotice_def Let_def silent_refl silent_ops)
  ultimately have main: "silent c (if n = -1 then noticeall RI_ADMIN t c else systemnotice n t c)" for t c by simp
  show ?thesis unfolding p_log_def log_entry_def Let_def by (rule silent_trans [OF _ main]) (simp add: silent_def)
qed

lemma streams_silent: "silent b c \<Longrightarrow> streams b c = []"
  by (auto simp: silent_def streams_def)

lemma streams_bout: "silent b c \<Longrightarrow> streams b (bout op c) = List.map_filter stream_of [op]"
  by (auto simp: silent_def streams_def bout_def)

section \<open>The sender\<close>

fun sender_at :: "env \<Rightarrow> int \<Rightarrow> string \<Rightarrow> bnc \<Rightarrow> (nat \<times> nat) option \<Rightarrow> bool" where
  "sender_at e n body b None \<longleftrightarrow> (\<forall>d \<in> set (u_pdcc (buser b n)). d_sock d \<noteq> e_cursock e)"
| "sender_at e n body b (Some (sent, len)) \<longleftrightarrow>
     (\<exists>d. only (e_cursock e) (u_pdcc (buser b n)) d \<and> d_fhandle d \<and> d_pid d = 0 \<and> d_transferred d = int sent \<and>
        d_lasttransferred d = int len \<and> b_files b (d_file d) = Some body)"

lemma pdcc_of_sock_none: "\<forall>d \<in> set ds. d_sock d \<noteq> s \<Longrightarrow> pdcc_of_sock s ds = None"
  by (induction ds) auto

lemma removepdcc_removes:
  assumes "getpsocketpdcc e n s b = Some i" "d_pid (pdcc n i b) = 0"
  shows "u_pdcc (buser (removepdcc x e s n b) n) = take i (u_pdcc (buser b n)) @ drop (Suc i) (u_pdcc (buser b n))"
    and "silent b (removepdcc x e s n b)"
  using assms by (simp_all add: removepdcc_def end_task_def bmod_def getu_modu_same Let_def silent_ops silent_refl) (auto simp: bout_def getu_modu_same silent_def List.map_filter_def)

lemma sender_answers:
  assumes "sender_at e n body b so" "e_peer e (e_cursock e) \<noteq> None" "a < 2 ^ 32" "answer body a so = (so', t)"
  shows "\<exists>b'. pdccfilesendack x e n (b\<lparr>b_buf := be32 (int a)\<rparr>) = Some b' \<and> sender_at e n body b' so' \<and> concat (streams b b') = t"
proof (cases so)
  case None
  then have "getpsocketpdcc e n (e_cursock e) b = None" using assms(1) by (simp add: getpsocketpdcc_def pdcc_of_sock_none)
  then show ?thesis using None assms by (auto simp: pdccfilesendack_def getpsocketpdcc_def streams_silent silent_def)
next
  case (Some p)
  obtain sent len where p: "p = (sent, len)" by (cases p)
  obtain d where d: "only (e_cursock e) (u_pdcc (buser b n)) d" "d_fhandle d" "d_pid d = 0" "d_transferred d = int sent"
      "d_lasttransferred d = int len" "b_files b (d_file d) = Some body"
    using assms(1) by (auto simp: Some p)
  obtain i where i: "pdcc_of_sock (e_cursock e) (u_pdcc (buser b n)) = Some i" "pdcc n i b = d"
      "\<And>f. \<forall>e \<in> set (take i (u_pdcc (buser b n)) @ drop (Suc i) (u_pdcc (buser b n))). d_sock e \<noteq> d_sock (f d) \<Longrightarrow>
        only (d_sock (f d)) ((u_pdcc (buser b n))[i := f d]) (f d)"
      "\<forall>k \<in> set (take i (u_pdcc (buser b n)) @ drop (Suc i) (u_pdcc (buser b n))). d_sock k \<noteq> e_cursock e"
    using only_found [OF d(1)] by metis
  let ?b = "b\<lparr>b_buf := be32 (int a)\<rparr>"
  have g: "getpsocketpdcc e n (e_cursock e) c = Some i" if "b_users c = b_users b" for c
    using i(1) assms(2) that by (auto simp: getpsocketpdcc_def)
  have r: "read_be32 (b_buf ?b) = int a" using assms(3) by (simp add: read_be32_be32)
  have sock: "d_sock d = e_cursock e" using d(1) by (auto simp: only_def)
  consider (other) "sent \<noteq> a" | (finished) "sent = a" "len < BLOCK" | (block) "sent = a" "BLOCK \<le> len" by linarith
  then show ?thesis
  proof cases
    case other
    then have "so' = so" "t = []" using assms(4) by (auto simp: Some p)
    moreover have "pdccfilesendack x e n ?b = Some ?b" using other d(4) r by (simp add: pdccfilesendack_def g i(2) Let_def)
    ultimately show ?thesis using assms(1) by (auto simp: Some p streams_silent silent_def)
  next
    case finished
    then have so': "so' = None" "t = []" using assms(4) by (auto simp: Some p)
    define c where "c = (if u_instate (buser ?b n) = STD_CONN
      then p_log e LOG_INFO n (''File '' @ d_file d @ '' sent to '' @ netc n ?b @ d_nick d @ '' completed.'') ?b else ?b)"
    have base: "silent b ?b" by (rule silent_ops(1) [OF silent_refl]) simp
    have c: "b_users c = b_users b" "silent b c"
      using base silent_trans [OF base silent_log] by (simp_all add: c_def del: append.simps)
    have ack: "pdccfilesendack x e n ?b = Some (removepdcc x e (e_cursock e) n c)"
      using finished d(2,4,5) r unfolding pdccfilesendack_def by (simp add: g i(2) Let_def at_eof_def close_file_def c_def d(2) del: append.simps)
    have pid: "d_pid (pdcc n i c) = 0" by (simp add: c(1) i(2) d(3))
    note rm = removepdcc_removes [OF g [OF c(1)] pid, of x]
    have "streams b (removepdcc x e (e_cursock e) n c) = []" using streams_silent silent_trans [OF c(2) rm(2)] by blast
    then show ?thesis using ack rm(1) i(4) so' by (auto simp: c(1))
  next
    case block
    let ?t = "take BLOCK (drop sent body)"
    let ?c = "mod_pdcc n i (count_block ?t) ?b"
    have so': "so' = Some (sent + length ?t, length ?t)" "t = ?t" using assms(4) block by (auto simp: Some p Let_def)
    have t: "read_block (file_text ?b (d_file d)) d = ?t" by (simp add: read_block_def file_text_def d(4,6))
    have ack: "pdccfilesendack x e n ?b = Some (bout (Stream (d_sock d) ?t) ?c)"
      using block d(2,4,5) r t unfolding pdccfilesendack_def by (simp add: g i(2) Let_def at_eof_def)
    have "u_pdcc (buser ?c n) = (u_pdcc (buser b n))[i := count_block ?t d]"
      by (simp add: mod_pdcc_def bmod_def getu_modu_same i(2))
    moreover have "only (e_cursock e) ((u_pdcc (buser b n))[i := count_block ?t d]) (count_block ?t d)"
      using i(3) [of "count_block ?t"] i(4) sock by (simp add: count_block_def)
    ultimately have "sender_at e n body (bout (Stream (d_sock d) ?t) ?c) so'"
      unfolding so'(1) sender_at.simps by (intro exI [of _ "count_block ?t d"])
        (simp add: count_block_def d bout_def, simp add: mod_pdcc_def bmod_def d)
    moreover have "silent b ?c" by (rule silent_ops(1) [OF silent_refl]) (simp add: mod_pdcc_def)
    ultimately show ?thesis using ack so'(2) by (auto simp: streams_bout List.map_filter_def)
  qed
qed

lemma b_files_frame: "b_files (say_if_here n t b) = b_files b" "b_files (mod_pdcc n i f b) = b_files b" "b_files (bout q b) = b_files b"
  by (simp_all add: say_if_here_def bprint_def bwrite_def bout_def mod_pdcc_def bmod_def)

text \<open>The first block goes out when the other side comes to the socket that listens.\<close>

lemma sender_starts:
  assumes "only (x_master x) (u_pdcc (buser b n)) d" "d_pid d = 0" "b_files b (d_file d) = Some body" "e_canopen e (d_file d)"
    and "0 < e_cursock e" "e_peer e (e_cursock e) \<noteq> None" "e_peer e (x_master x) \<noteq> None"
    and "\<forall>k \<in> set (u_pdcc (buser b n)). d_sock k \<noteq> e_cursock e"
  shows "sender_at e n body (acceptpdccfile x e n b) (Some (min (length body) BLOCK, min (length body) BLOCK))"
    "concat (streams b (acceptpdccfile x e n b)) = take BLOCK body"
proof -
  obtain i where i: "pdcc_of_sock (x_master x) (u_pdcc (buser b n)) = Some i" "pdcc n i b = d"
      "\<And>f. \<forall>e \<in> set (take i (u_pdcc (buser b n)) @ drop (Suc i) (u_pdcc (buser b n))). d_sock e \<noteq> d_sock (f d) \<Longrightarrow>
        only (d_sock (f d)) ((u_pdcc (buser b n))[i := f d]) (f d)"
    using only_found [OF assms(1)] by metis
  have inlist: "i < length (u_pdcc (buser b n))" by (rule pdcc_of_sock_bound [OF i(1)])
  have others: "\<forall>k \<in> set (take i (u_pdcc (buser b n)) @ drop (Suc i) (u_pdcc (buser b n))). d_sock k \<noteq> e_cursock e"
    using assms(8) by (auto dest: in_set_takeD in_set_dropD)
  let ?t = "take BLOCK body"
  let ?f1 = "\<lambda>d. d\<lparr>d_fhandle := True, d_delay := 0, d_sock := e_cursock e, d_type := PDC_SENDTO\<rparr>"
  let ?f2 = "\<lambda>d. d\<lparr>d_host := strmncpy (x_acceptip x) 200\<rparr>"
  let ?f3 = "\<lambda>d. count_block ?t (d\<lparr>d_transferred := 0\<rparr>)"
  define c where "c = mod_pdcc n i ?f2 (bout (Kill (x_master x)) (mod_pdcc n i ?f1 b))"
  have mods: "u_pdcc (buser (mod_pdcc n i f b') n) = (u_pdcc (buser b' n))[i := f (pdcc n i b')]" for f b'
    by (simp add: mod_pdcc_def bmod_def getu_modu_same)
  have c: "u_pdcc (buser c n) = (u_pdcc (buser b n))[i := ?f2 (?f1 d)]" "b_files c = b_files b" "silent b c"
    using inlist by (simp add: c_def mods bout_def i(2)) (auto simp: c_def mod_pdcc_def bmod_def bout_def silent_def List.map_filter_def)
  obtain said where acc: "acceptpdccfile x e n b = bout (Stream (e_cursock e) ?t) (mod_pdcc n i ?f3 (say_if_here n said c))"
  proof -
    have g: "getpsocketpdcc e n (x_master x) b = Some i" using assms(7) i(1) by (simp add: getpsocketpdcc_def)
    obtain peer where peer: "e_peer e (e_cursock e) = Some peer" using assms(6) by blast
    have "\<exists>said. acceptpdccfile x e n b = bout (Stream (e_cursock e) ?t) (mod_pdcc n i ?f3 (say_if_here n said c))"
      using assms(3-5) peer unfolding acceptpdccfile_def g option.case c_def
      by (simp add: Let_def i(2) file_text_def b_files_frame del: append.simps) (rule exI, rule refl)
    then show thesis using that by blast
  qed
  have s: "b_users (say_if_here n said c) = b_users c" "b_files (say_if_here n said c) = b_files c" "silent b (say_if_here n said c)"
    using c(3) by (auto simp: say_if_here_def bprint_def bwrite_def bout_def intro: silent_ops(2) [unfolded bprint_def bwrite_def bout_def])
  have "silent b (mod_pdcc n i ?f3 (say_if_here n said c))" by (rule silent_ops(1) [OF s(3)]) (simp add: mod_pdcc_def)
  then show "concat (streams b (acceptpdccfile x e n b)) = take BLOCK body"
    by (simp add: acc streams_bout List.map_filter_def)
  let ?d = "?f3 (?f2 (?f1 d))"
  have "only (d_sock ?d) ((u_pdcc (buser b n))[i := ?d]) ?d" using i(3) [of "\<lambda>d. ?f3 (?f2 (?f1 d))"] others by (simp add: count_block_def)
  then show "sender_at e n body (acceptpdccfile x e n b) (Some (min (length body) BLOCK, min (length body) BLOCK))"
    unfolding sender_at.simps acc
    by (intro exI [of _ ?d]) (use inlist assms(2,3) in \<open>simp add: count_block_def mods s c bout_def, simp add: mod_pdcc_def bmod_def s c\<close>)
qed

section \<open>The receiver\<close>

definition receiver_at :: "env \<Rightarrow> int \<Rightarrow> string \<Rightarrow> bnc \<Rightarrow> string \<Rightarrow> bool" where
  "receiver_at e m g c rc \<longleftrightarrow>
     (\<exists>d. only (e_cursock e) (u_pdcc (buser c m)) d \<and> d_fhandle d \<and> d_file d = g \<and> d_transferred d = int (length rc) \<and>
        b_files c g = Some rc)"

lemma receiver_gets:
  assumes "receiver_at e m g c rc" "e_peer e (e_cursock e) \<noteq> None" "x_written x (length t) = length t"
  shows "\<exists>c'. pdccfget x e m (c\<lparr>b_buf := t\<rparr>) = Some c' \<and> receiver_at e m g c' (rc @ t) \<and>
    streams c c' = (if x_waiting x then [] else [be32 (int (length (rc @ t)))])"
proof -
  obtain d where d: "only (e_cursock e) (u_pdcc (buser c m)) d" "d_fhandle d" "d_file d = g" "d_transferred d = int (length rc)"
      "b_files c g = Some rc"
    using assms(1) by (auto simp: receiver_at_def)
  obtain i where i: "pdcc_of_sock (e_cursock e) (u_pdcc (buser c m)) = Some i" "pdcc m i c = d"
      "\<And>f. \<forall>e \<in> set (take i (u_pdcc (buser c m)) @ drop (Suc i) (u_pdcc (buser c m))). d_sock e \<noteq> d_sock (f d) \<Longrightarrow>
        only (d_sock (f d)) ((u_pdcc (buser c m))[i := f d]) (f d)"
      "\<forall>k \<in> set (take i (u_pdcc (buser c m)) @ drop (Suc i) (u_pdcc (buser c m))). d_sock k \<noteq> e_cursock e"
    using only_found [OF d(1)] by metis
  have inlist: "i < length (u_pdcc (buser c m))" by (rule pdcc_of_sock_bound [OF i(1)])
  let ?c1 = "mod_pdcc m i (count_block t) (c\<lparr>b_buf := t\<rparr>)"
  let ?c2 = "?c1\<lparr>b_files := (b_files ?c1)(g \<mapsto> rc @ t)\<rparr>"
  have c1: "u_pdcc (buser ?c1 m) = (u_pdcc (buser c m))[i := count_block t d]" "b_files ?c1 = b_files c" "b_sent ?c1 = b_sent c"
    by (simp_all add: mod_pdcc_def bmod_def getu_modu_same i(2))
  have old: "file_text ?c1 g = rc" by (simp add: file_text_def c1(2) d(5))
  obtain peer where peer: "e_peer e (e_cursock e) = Some peer" using assms(2) by blast
  have get: "pdccfget x e m (c\<lparr>b_buf := t\<rparr>) =
      Some (if x_waiting x then ?c2 else bout (Stream (e_cursock e) (be32 (int (length (rc @ t))))) ?c2)"
    using peer assms(3) inlist d(2-4) old by (simp add: pdccfget_def getpsocketpdcc_def i(1) Let_def c1(1)) (simp add: count_block_def)
  have sock: "d_sock d = e_cursock e" using d(1) by (auto simp: only_def)
  have "only (e_cursock e) ((u_pdcc (buser c m))[i := count_block t d]) (count_block t d)"
    using i(3) [of "count_block t"] i(4) sock by (simp add: count_block_def)
  then have "receiver_at e m g ?c2 (rc @ t)"
    unfolding receiver_at_def by (intro exI [of _ "count_block t d"]) (simp add: c1(1), simp add: count_block_def d)
  moreover have "silent c ?c2" by (rule silent_ops(1) [OF silent_refl]) (simp add: c1(3))
  moreover have "receiver_at e m g (bout q ?c2) (rc @ t) = receiver_at e m g ?c2 (rc @ t)" for q
    by (simp add: receiver_at_def bout_def)
  ultimately show ?thesis using get by (simp add: streams_silent streams_bout List.map_filter_def)
qed

lemma receiver_starts:
  assumes "only (e_cursock e) (u_pdcc (buser c m)) d" "d_transferred d = 0" "e_canopen e (d_file d)" "e_peer e (e_cursock e) \<noteq> None"
  shows "receiver_at e m (d_file d) (pdccfconnected x e m c) []"
proof -
  obtain i where i: "pdcc_of_sock (e_cursock e) (u_pdcc (buser c m)) = Some i" "pdcc m i c = d"
      "\<And>f. \<forall>e \<in> set (take i (u_pdcc (buser c m)) @ drop (Suc i) (u_pdcc (buser c m))). d_sock e \<noteq> d_sock (f d) \<Longrightarrow>
        only (d_sock (f d)) ((u_pdcc (buser c m))[i := f d]) (f d)"
      "\<forall>k \<in> set (take i (u_pdcc (buser c m)) @ drop (Suc i) (u_pdcc (buser c m))). d_sock k \<noteq> e_cursock e"
    using only_found [OF assms(1)] by metis
  let ?d = "d\<lparr>d_fhandle := True\<rparr>"
  have "d_sock d = e_cursock e" using assms(1) by (auto simp: only_def)
  then have "only (e_cursock e) ((u_pdcc (buser c m))[i := ?d]) ?d" using i(3) [of "\<lambda>d. d\<lparr>d_fhandle := True\<rparr>"] i(4) by simp
  moreover obtain p where "e_peer e (e_cursock e) = Some p" using assms(4) by blast
  then have "u_pdcc (buser (pdccfconnected x e m c) m) = (u_pdcc (buser c m))[i := ?d]"
      "b_files (pdccfconnected x e m c) (d_file d) = Some []"
    using assms(3) by (simp_all add: pdccfconnected_def getpsocketpdcc_def i(1,2) Let_def say_if_here_def mod_pdcc_def bmod_def
        getu_modu_same bprint_def bwrite_def bout_def)
  ultimately show ?thesis using assms(2) unfolding receiver_at_def by (intro exI [of _ ?d]) simp
qed

section \<open>Delivery\<close>

text \<open>Two bouncers and what is between them, at a point of the protocol.\<close>

fun at_point :: "env \<Rightarrow> int \<Rightarrow> string \<Rightarrow> env \<Rightarrow> int \<Rightarrow> string \<Rightarrow> transfer \<Rightarrow> protocol \<Rightarrow> bool" where
  "at_point es n body er m g (b, c, fl, acks) (so, rc, fl', acks') \<longleftrightarrow>
     sender_at es n body b so \<and> receiver_at er m g c rc \<and> fl = fl' \<and> acks = map (\<lambda>a. be32 (int a)) acks'"

lemma transfer_follows:
  assumes "transfer_step xs es n xr er m S S'" "at_point es n body er m g S P" "protocol_inv body P" "length body < 2 ^ 32"
    and "e_peer es (e_cursock es) \<noteq> None" "e_peer er (e_cursock er) \<noteq> None" "\<And>k. x_written xr k = k"
  shows "\<exists>P'. protocol_step body P P' \<and> at_point es n body er m g S' P'"
  using assms(1-3)
proof (induction rule: transfer_step.induct)
  case (data t w r c c' b acks)
  obtain so rc fl as where P: "P = (so, rc, fl, as)" by (cases P)
  have p: "sender_at es n body b so" "receiver_at er m g c rc" "fl = t @ r" "acks = map (\<lambda>a. be32 (int a)) as"
    using data.prems(1) by (auto simp: P)
  have "receiver_at er m g c' (rc @ t) \<and> streams c c' = (if w then [] else [be32 (int (length (rc @ t)))])"
    using receiver_gets [OF p(2) assms(6), of "xr\<lparr>x_waiting := w\<rparr>" t] data.hyps(3) assms(7) by auto
  then show ?case
    using protocol_step.get [OF data.hyps(1,2), of w body so rc as] p
    by (intro exI [of _ "(so, rc @ t, r, if w then as else as @ [length (rc @ t)])"]) (simp add: P)
next
  case (ack a b b' c fl acks)
  obtain so rc fl' as where P: "P = (so, rc, fl', as)" by (cases P)
  then obtain k ks where p: "sender_at es n body b so" "receiver_at er m g c rc" "fl' = fl" "as = k # ks" "a = be32 (int k)"
      "acks = map (\<lambda>a. be32 (int a)) ks"
    using ack.prems(1) by auto
  have "length rc \<le> length body" using ack.prems(2) by (auto simp: P Let_def dest!: arg_cong [where f = length])
  then have k: "k < 2 ^ 32" using ack.prems(2) p(4) assms(4) by (auto simp: P Let_def)
  obtain so' t where a: "answer body k so = (so', t)" by fastforce
  have "sender_at es n body b' so' \<and> concat (streams b b') = t"
    using sender_answers [OF p(1) assms(5) k a, of xs] ack.hyps p(5) by auto
  then show ?case
    using protocol_step.send [OF a, of rc fl ks] p
    by (intro exI [of _ "(so', rc, fl @ t, ks)"]) (simp add: P)
qed

lemma transfer_goes_on:
  assumes "at_point es n body er m g (b, c, fl, acks) P" "protocol_inv body P" "length body < 2 ^ 32"
    and "e_peer es (e_cursock es) \<noteq> None" "e_peer er (e_cursock er) \<noteq> None" "\<And>k. x_written xr k = k"
    and "fl \<noteq> [] \<or> acks \<noteq> []"
  shows "\<exists>S'. transfer_step xs es n xr er m (b, c, fl, acks) S'"
proof -
  obtain so rc fl' as where P: "P = (so, rc, fl', as)" by (cases P)
  have p: "sender_at es n body b so" "receiver_at er m g c rc" "acks = map (\<lambda>a. be32 (int a)) as"
    using assms(1) by (auto simp: P)
  show ?thesis
  proof (cases "fl = []")
    case False
    obtain c' where "pdccfget (xr\<lparr>x_waiting := False\<rparr>) er m (c\<lparr>b_buf := fl\<rparr>) = Some c'"
      using receiver_gets [OF p(2) assms(5), of "xr\<lparr>x_waiting := False\<rparr>" fl] assms(6) by auto
    then have "transfer_step xs es n xr er m (b, c, fl @ [], acks) (b, c', [], acks @ streams c c')"
      using False by (intro transfer_step.data) auto
    then show ?thesis by auto
  next
    case True
    then obtain k ks where k: "as = k # ks" using assms(7) p(3) by (cases as) auto
    have "length rc \<le> length body" using assms(2) by (auto simp: P Let_def dest!: arg_cong [where f = length])
    then have "k < 2 ^ 32" using assms(2,3) k by (auto simp: P Let_def)
    then obtain b' where "pdccfilesendack xs es n (b\<lparr>b_buf := be32 (int k)\<rparr>) = Some b'"
      using sender_answers [OF p(1) assms(4), of k "fst (answer body k so)" "snd (answer body k so)" xs] by auto
    then show ?thesis using transfer_step.ack p(3) k by fastforce
  qed
qed

text \<open>The two ends when the connection is there.\<close>

definition transfer_start :: "dccenv \<Rightarrow> env \<Rightarrow> int \<Rightarrow> bnc \<Rightarrow> dccenv \<Rightarrow> env \<Rightarrow> int \<Rightarrow> bnc \<Rightarrow> transfer" where
  "transfer_start xs es n b xr er m c =
     (acceptpdccfile xs es n b, pdccfconnected xr er m c, concat (streams b (acceptpdccfile xs es n b)), [])"

lemma transfer_run:
  assumes run: "(transfer_step xs es n xr er m ^^ k) T0 S" and start: "at_point es n body er m g T0 P0" "protocol_inv body P0"
    and small: "length body < 2 ^ 32"
    and ends: "e_peer es (e_cursock es) \<noteq> None" "e_peer er (e_cursock er) \<noteq> None" "\<And>k. x_written xr k = k"
  shows "\<exists>P. at_point es n body er m g S P \<and> protocol_inv body P \<and> k + protocol_left body P \<le> protocol_left body P0"
  using run
proof (induction k arbitrary: S)
  case 0
  then have "S = T0" by simp
  then show ?case using start by (intro exI [of _ P0] conjI) simp_all
next
  case (Suc k)
  then obtain T where T: "(transfer_step xs es n xr er m ^^ k) T0 T" "transfer_step xs es n xr er m T S" by auto
  obtain P where P: "at_point es n body er m g T P" "protocol_inv body P" "k + protocol_left body P \<le> protocol_left body P0"
    using Suc.IH [OF T(1)] by blast
  obtain Q where Q: "protocol_step body P Q" "at_point es n body er m g S Q"
    using transfer_follows [OF T(2) P(1,2) small ends] by blast
  show ?case using Q protocol_inv_step [OF Q(1) P(2)] protocol_left_step [OF Q(1) P(2)] P(3) by (intro exI [of _ Q]) simp
qed


text \<open>A bounded run comes to an end.\<close>

lemma bounded_run_ends:
  assumes "\<And>k y. (r ^^ k) x y \<Longrightarrow> k \<le> (N :: nat)"
  shows "\<exists>k y. (r ^^ k) x y \<and> (\<nexists>z. r y z)"
proof (rule ccontr)
  assume go: "\<nexists>k y. (r ^^ k) x y \<and> (\<nexists>z. r y z)"
  have "\<exists>y. (r ^^ k) x y" for k
  proof (induction k)
    case (Suc k)
    then obtain y where y: "(r ^^ k) x y" by blast
    then obtain z where "r y z" using go by blast
    then show ?case using y by auto
  qed simp
  then obtain y where "(r ^^ Suc N) x y" by blast
  then have "Suc N \<le> N" by (rule assms)
  then show False by simp
qed

text \<open>Both ends have one user with one entry; the file is \<open>hi\<close>.\<close>

definition delivery_dcc :: dccenv where
  "delivery_dcc =
     \<lparr>x_host = ''1.2.3.4'', x_ip = 16909060, x_root = [], x_listen = (\<lambda>_. (5000, 9)), x_sock = (\<lambda>_. 9), x_dip = 0, x_word = 0,
      x_script = (\<lambda>_ _ _. 0), x_end = (\<lambda>_ b. b), x_pipe = (\<lambda>_. None), x_master = 9, x_acceptip = ''5.6.7.8'',
      x_written = (\<lambda>k. k), x_waiting = False\<rparr>"

definition delivery_env :: env where
  "delivery_env = sample_env\<lparr>e_peer := (\<lambda>_. Some (''h'', 1, ''1.2.3.4'', 5000)), e_cursock := 10\<rparr>"

definition delivery_bnc :: "dcct \<Rightarrow> bnc" where
  "delivery_bnc d = talk_bnc
     \<lparr>b_users := \<lparr>us_nodes = [(1, zero_usert\<lparr>u_pdcc := [d]\<rparr>)], us_dummy = zero_usert, us_null = zero_usert\<rparr>,
      b_files := (\<lambda>f. if f = ''a'' then Some ''hi'' else None)\<rparr>"


end
