(* ===== verification/Spec2Isabelle.thy ===== *)
theory Spec2Isabelle
  imports Matching Idea Userfile Dispatch Socket Stoned Login Exchange_Facts Delivery
begin

text \<open>
  A verification library for the IRC bouncer psyBNC 2.4, as ported to the PS Vita.

  \<^bold>\<open>The program.\<close> psyBNC keeps IRC connections open for its users. A user connects with a client, logs
  in, and is attached to the connection the bouncer holds to an IRC server. Lines of the client go
  through \<open>userinbound\<close> to the handlers of a command table and on to the server, lines of the server
  through \<open>useroutbound\<close> and a second table to the client. Users, links and settings live in a
  configuration of lines \<open>file.section.key=value\<close>, in memory and in \<open>psybnc.conf\<close>. A user can have
  further networks; the client sees them as tokens in the names of channels and nicks.

  \<^bold>\<open>The library.\<close> One theory per component, in the order in which they build on each other; file names
  are relative to src/ of the repository.

  \<^item> \<open>Prelude\<close>: bytes, C strings (\<open>strchr\<close>, \<open>strstr\<close>, \<open>atoi\<close>, the cut of \<open>snprintf\<close>) and the locale
    \<open>keyed_list\<close> for association lists with unique keys. \<open>Glob\<close>: a reference matcher for masks.
  \<^item> \<open>Strings\<close> and \<open>Lists\<close> (src/p_string.c): bounded copying down to the bytes of the destination,
    comparison, wildcard comparison against the reference matcher, string arrays, and the lists (ops,
    bans, hosts) that are kept in the configuration.
  \<^item> \<open>Matching\<close> (src/match.c): \<open>wild_match\<close> with its backtracking, against a specification by
    backtracking over all choices.
  \<^item> \<open>Format\<close> (src/snprintf.c): \<open>ap_vformatter\<close> with flags, width, precision and the conversions; the
    buffer is never overrun, and plain formats print what they should.
  \<^item> \<open>Crypt\<close> (src/p_crypt.c, src/p_idea.c, salt.h), \<open>BlockCipher\<close>, \<open>Blowfish_Tables\<close>, \<open>Blowfish\<close>
    (src/p_blowfish.c), \<open>Idea\<close> (src/p_idea.c): the three ciphers; \<open>BlockCipher\<close> is the locale through
    which both block ciphers get their round trip for strings. Words are 16 and 32 bits wide.
  \<^item> \<open>Types\<close> (src/p_global.h): the structures, as records with the fields of the C structures.
  \<^item> \<open>Ini\<close> (src/p_inifunc.c): the configuration. The locales \<open>config_store\<close> and \<open>erasable_store\<close> state
    what its users rely on (a value that was put is read, others are untouched) and are interpreted
    by \<open>getini\<close> and \<open>writeini\<close>.
  \<^item> \<open>Parse\<close> (src/p_parse.c): a line into its parts. \<open>Uchannel\<close> (src/p_uchannel.c): the channels of a
    user with their users and modes, as a step relation with an invariant.
  \<^item> \<open>Memory\<close> (src/p_memory.c, and the searches of src/p_peer.c, src/p_link.c, src/p_userfile.c): the
    node tables with heap, cache and freed cells; the locale \<open>object_table\<close> is their contract.
  \<^item> \<open>Dcc\<close> (src/p_dcc.c), \<open>Userfile\<close> (src/p_userfile.c): entries of DCC chats, and users and links
    saved to and loaded from the configuration.
  \<^item> \<open>Bouncer\<close>: users by number, which the table of \<open>Memory\<close> implements (\<open>user_refines\<close>), with the
    locale \<open>cell_store\<close>, and the state the handlers share.
  \<^item> \<open>Network\<close> (src/p_network.c): network tokens in both directions. \<open>Dispatch\<close> (src/p_hash.c): the
    command tables and dispatchers.
  \<^item> \<open>Socket\<close> (src/p_socket.c): the send queue with its flood protection, as a step relation, and the
    buffer that makes lines of received bytes.
  \<^item> \<open>Log\<close> (src/p_log.c, notices of src/p_sysmsg.c): main log, private logs, traffic logs. \<open>Talk\<close>
    (src/p_client.c): encrypted messages. \<open>Server\<close> (src/p_server.c): the handlers of the lines of a server,
    connecting, and the check for servers that do not answer. \<open>Server_Invariants\<close>: the locale \<open>user_frame\<close>
    says what an invariant of a user must satisfy to be kept by every handler, and is interpreted for
    the channels and for the rights of a user. \<open>Stoned\<close>: a server that answers nothing is dropped.
  \<^item> \<open>Settings\<close> and \<open>Client\<close> (src/p_client.c, with the parts of src/p_server.c and src/p_sysmsg.c that
    only clients reach): the handlers of the lines of a client, and \<open>client_line\<close>, the dispatcher of
    src/p_hash.c that runs them. \<open>Peer\<close> (src/p_peer.c): a connection from the greeting to the login.
    \<open>Client_Rights\<close> and \<open>Client_Invariants\<close>: no handler that is open to everybody makes an admin, and
    nobody becomes one by any sequence of lines of servers, strangers and plain users (\<open>line_step\<close>).
    \<open>Login\<close>: a login always has an outcome, needs the password, is limited in its tries, and accepts
    what \<open>PASSWORD\<close> has set.
  \<^item> \<open>Exchange\<close> (src/p_dcc.c): requests for chats and files, answers to them, running chats and transfers
    with the events of their sockets, timeouts, the connections to bots, the lists, and the commands for all this
    as the table \<open>dcc_table\<close>. \<open>parsectcps\<close> and \<open>dcc_commands\<close> are what the dispatchers take as arguments.
    \<open>Exchange_Facts\<close>: all this touches nothing of the users but their lists, so that the theorems about lines
    hold with it; offered files stay in the directory of the user, offers are understood by the other side, and
    requests time out. \<open>Delivery\<close>: the handlers of both ends of a transfer with the bytes and acknowledgements between them
    as a step relation (\<open>transfer_step\<close>), which a protocol of lists and numbers refines; its invariant gives delivery.

  \<^bold>\<open>Reading the model.\<close> A character array is the C string it holds, a linked list the list of its
  elements, a table of structures a list of nodes with a heap. A result \<open>None\<close> is what the C standard
  leaves undefined: a read or write outside an array, a null or freed pointer. Where a theorem says
  that an operation returns \<open>Some\<close>, it says that none of this happens. \<open>snpf n s\<close> is a string printed
  into a buffer of \<open>n\<close> bytes. Texts of lang/english.lng stand as literals; its bytes 254 and 255 are
  carriage return and line feed. The build configuration is config.h as it is in the repository:
  networks, scripts, DCC, Blowfish and traffic logs are in, SSL, IPv6, links, translation and the
  internal network are not.

  \<^bold>\<open>What the theorems show.\<close> Text that goes into a buffer fits it; lines are split, matched and put
  together as intended, and arrive whole however the network cuts them; what is saved is loaded again;
  nothing in a send queue is lost or overtaken and a server is not flooded; tables, caches and
  channels keep their invariants over all sequences of operations; commands for admins do not reach
  anybody else and nobody else becomes an admin; an account opens to its password only;
  a file that is sent arrives whole; loops end. Where the code deviates, the deviation is a theorem too
  (\<open>clearuser_dangling\<close>, \<open>addchannelmode_overflow\<close>, \<open>bf_F_one_byte\<close>, \<open>net_key_token\<close> and others).

  \<^bold>\<open>Loops and fuel.\<close> Every loop of the modelled code is a total function with a measure; the search for
  the next server, which may run forever, is a partial function with the proof that it returns. The one
  place with fuel is \<open>client_line\<close>: a message to \<open>-psyBNC\<close> and \<open>BRAW\<close> run the dispatcher again on a part
  of the line, so the number of such turns is at most the length of the line; what is proved of
  \<open>client_line\<close> are invariants of whatever it answers, for every number of turns.

  \<^bold>\<open>Not modelled.\<close> Of src/p_client.c the commands for accounts and networks that add and delete
  (\<open>cmdadduser\<close>, \<open>cmddeluser\<close>, \<open>cmdaddnetwork\<close>, \<open>cmddelnetwork\<close>, the first user), those of
  scripts and those of the running program (\<open>cmdrehash\<close>, \<open>cmdsockstat\<close>, \<open>cmdkillsock\<close>,
  \<open>cmdfixlistener\<close>, \<open>cmdsetlang\<close>, \<open>cmdreloadscript\<close>, \<open>cmdlisttasks\<close>) are the argument \<open>others\<close> of
  the dispatcher; aliases, dialogues and events of scripts (src/p_script.c) are the record \<open>scripts\<close>,
  and the processes that scripts start for chats and files fields of \<open>dccenv\<close>. Of src/p_server.c the handshake with
  a proxy is left out. Operating system calls, process control, name
  resolution (src/p_dns.c and the vendored c-ares), the code that the build leaves out
  (src/p_intnet.c, src/p_translate.c, src/p_topology.c, most of src/p_link.c), the build tools and the
  PS Vita compatibility layer stay outside. What the system answers (time, directory, peers of
  sockets, whether a file can be opened) is the record \<open>env\<close>, with \<open>dccenv\<close> for DCC; times are 64 bits wide where they are unsigned.
\<close>

end
